(* ===== verification/Prelude.thy ===== *)
theory Prelude
  imports Main "HOL-Library.Word" "HOL-Library.AList" "HOL-Library.Sublist" "HOL-Library.Multiset"
    "HOL-Library.Char_ord" "HOL-Library.List_Lexorder"
begin

text \<open>
  Shared vocabulary of the development.

  A Go \<^verbatim>\<open>string\<close> is a byte sequence, modelled by \<^typ>\<open>string\<close> (one \<^typ>\<open>char\<close> is one byte).
  Go maps whose iteration order is visible are association lists with distinct keys; the list
  order is the order a \<^verbatim>\<open>range\<close> visits.  Durations and instants are \<^typ>\<open>int\<close> nanoseconds, with
  the saturation of \<^verbatim>\<open>time.Time.Sub\<close> written out.

  The collections: \<open>go_inv\<close> holds the preservation lemmas of component invariants, \<open>go_eval\<close>
  the definitions that closed witnesses unfold.
\<close>

named_theorems go_inv \<open>invariant preservation lemmas\<close>
named_theorems go_eval \<open>definitions unfolded to evaluate a closed instance\<close>

type_synonym nanos = int

section \<open>Saturating difference of two instants\<close>

definition max_int64 :: int where "max_int64 = 9223372036854775807"
definition min_int64 :: int where "min_int64 = - 9223372036854775808"

text \<open>\<^verbatim>\<open>time.Time.Sub\<close>: the difference, saturated to the range of a 64-bit duration.\<close>

definition time_sub :: "nanos \<Rightarrow> nanos \<Rightarrow> int" where
  "time_sub t u = max min_int64 (min max_int64 (t - u))"

lemma time_sub_mono: "t \<le> t' \<Longrightarrow> time_sub t u \<le> time_sub t' u"
  by (auto simp: time_sub_def)

lemma time_sub_exact: "min_int64 \<le> t - u \<Longrightarrow> t - u \<le> max_int64 \<Longrightarrow> time_sub t u = t - u"
  by (auto simp: time_sub_def)

lemma time_sub_less_iff:
  "min_int64 < w \<Longrightarrow> w \<le> max_int64 \<Longrightarrow> time_sub t u < w \<longleftrightarrow> t - u < w"
  by (auto simp: time_sub_def)

section \<open>Association lists as Go maps\<close>

abbreviation keys :: "('k \<times> 'v) list \<Rightarrow> 'k list" where
  "keys m \<equiv> map fst m"

lemma length_update_new:
  "k \<notin> set (keys m) \<Longrightarrow> length (AList.update k v m) = Suc (length m)"
  by (induction m) auto

lemma length_update_old:
  "k \<in> set (keys m) \<Longrightarrow> length (AList.update k v m) = length m"
  by (induction m) auto

lemma update_new_append:
  "k \<notin> set (keys m) \<Longrightarrow> AList.update k v m = m @ [(k, v)]"
  by (induction m) auto

lemma distinct_keys_filter: "distinct (keys m) \<Longrightarrow> distinct (keys (filter P m))"
  by (rule distinct_map_filter)

lemma map_of_filter_pair:
  "distinct (keys m) \<Longrightarrow>
   map_of (filter P m) k = (case map_of m k of None \<Rightarrow> None | Some v \<Rightarrow> if P (k, v) then Some v else None)"
proof (induction m)
  case (Cons a m)
  obtain k' v' where a: "a = (k', v')" by (cases a)
  show ?case
  proof (cases "k' = k")
    case True
    with Cons.prems a have "map_of m k = None" by (simp add: map_of_eq_None_iff)
    with Cons True a show ?thesis by auto
  next
    case False
    with Cons a show ?thesis by auto
  qed
qed simp

lemma length_delete_present:
  "distinct (keys m) \<Longrightarrow> k \<in> set (keys m) \<Longrightarrow> Suc (length (AList.delete k m)) = length m"
proof (induction m)
  case (Cons a m)
  show ?case
  proof (cases "fst a = k")
    case True
    with Cons.prems have "AList.delete k m = m"
      by (cases a) (simp add: AList.delete_idem)
    with True show ?thesis by (cases a) simp
  next
    case False
    with Cons show ?thesis by (cases a) auto
  qed
qed simp


lemma sum_update_new:
  "map_of m k = None \<Longrightarrow>
   sum_list (map (f \<circ> snd) (AList.update k w m)) = sum_list (map (f \<circ> snd) m) + (f w :: 'a::ab_group_add)"
  by (simp add: update_new_append map_of_eq_None_iff)

lemma sum_update_old:
  "map_of m k = Some v \<Longrightarrow>
   sum_list (map (f \<circ> snd) (AList.update k w m)) = sum_list (map (f \<circ> snd) m) - f v + (f w :: 'a::ab_group_add)"
proof (induction m)
  case (Cons p m)
  then show ?case by (cases p) (auto simp: algebra_simps split: if_splits)
qed simp

lemma sum_delete:
  "distinct (keys m) \<Longrightarrow> map_of m k = Some v \<Longrightarrow>
   sum_list (map (f \<circ> snd) (AList.delete k m)) = sum_list (map (f \<circ> snd) m) - (f v :: 'a::ab_group_add)"
proof (induction m)
  case (Cons p m)
  then show ?case
    by (cases p) (auto simp: algebra_simps AList.delete_idem split: if_splits)
qed simp

lemma ball_update:
  "\<forall>p \<in> set m. P (snd p) \<Longrightarrow> P v \<Longrightarrow> \<forall>p \<in> set (AList.update k v m). P (snd p)"
  by (induction m) auto

section \<open>Attributes\<close>

text \<open>An \<^verbatim>\<open>attribute.KeyValue\<close>: a key with a typed value.  \<open>AsString\<close> is the accessor the source
  applies without checking the type; it yields the empty string on a value that is not a string.\<close>

datatype attr_value = StrV string | IntV int | BoolV bool | OtherV string

type_synonym key_value = "string \<times> attr_value"

fun AsString :: "attr_value \<Rightarrow> string" where
  "AsString (StrV s) = s"
| "AsString _ = []"

section \<open>Searching\<close>

lemma find_SomeD: "find P xs = Some x \<Longrightarrow> x \<in> set xs \<and> P x"
  by (induction xs) (auto split: if_splits)

lemma find_NoneD: "find P xs = None \<Longrightarrow> x \<in> set xs \<Longrightarrow> \<not> P x"
  by (auto simp: find_None_iff)

lemma append_sep_inj:
  "c \<notin> set s \<Longrightarrow> c \<notin> set t \<Longrightarrow> s @ c # x = t @ c # y \<longleftrightarrow> s = t \<and> x = y"
proof (induction s arbitrary: t)
  case Nil
  then show ?case by (cases t) auto
next
  case (Cons a s)
  then show ?case by (cases t) auto
qed

lemma sort_eq_iff: "sort xs = sort ys \<longleftrightarrow> mset xs = mset (ys :: 'a::linorder list)"
proof
  assume "sort xs = sort ys"
  then have "mset (sort xs) = mset (sort ys)" by simp
  then show "mset xs = mset ys" by simp
next
  assume "mset xs = mset ys"
  then show "sort xs = sort ys" by (intro properties_for_sort) simp_all
qed

lemma image_mset_inj_on:
  assumes "inj_on f (set_mset A \<union> set_mset B)"
  shows "image_mset f A = image_mset f B \<longleftrightarrow> A = B"
proof -
  let ?g = "the_inv_into (set_mset A \<union> set_mset B) f"
  have inv: "image_mset ?g (image_mset f M) = M" if "set_mset M \<subseteq> set_mset A \<union> set_mset B" for M
  proof -
    have "image_mset (\<lambda>x. ?g (f x)) M = image_mset (\<lambda>x. x) M"
      using that assms by (intro image_mset_cong) (auto simp: the_inv_into_f_f)
    then show ?thesis by (simp add: multiset.map_comp comp_def)
  qed
  show ?thesis using inv[of A] inv[of B] by (metis sup_ge1 sup_ge2)
qed

section \<open>Grouping by first occurrence\<close>

definition firsts :: "'a list \<Rightarrow> 'a list" where
  "firsts xs = foldl (\<lambda>acc x. if x \<in> set acc then acc else acc @ [x]) [] xs"

lemma firsts_Nil [simp]: "firsts [] = []"
  by (simp add: firsts_def)

lemma firsts_snoc: "firsts (xs @ [x]) = (if x \<in> set (firsts xs) then firsts xs else firsts xs @ [x])"
  by (simp add: firsts_def)

lemma set_firsts [simp]: "set (firsts xs) = set xs"
  by (induction xs rule: rev_induct) (auto simp: firsts_snoc)

lemma distinct_firsts [simp]: "distinct (firsts xs)"
  by (induction xs rule: rev_induct) (auto simp: firsts_snoc)

definition foldl1 :: "('a \<Rightarrow> 'a \<Rightarrow> 'a) \<Rightarrow> 'a list \<Rightarrow> 'a" where
  "foldl1 f xs = foldl f (hd xs) (tl xs)"

lemma foldl1_single [simp]: "foldl1 f [x] = x"
  by (simp add: foldl1_def)

lemma foldl1_snoc: "xs \<noteq> [] \<Longrightarrow> foldl1 f (xs @ [x]) = f (foldl1 f xs) x"
  by (simp add: foldl1_def)

lemma foldl1_closed:
  assumes "\<And>a b. P a \<Longrightarrow> P b \<Longrightarrow> P (f a b)"
  shows "qs \<noteq> [] \<Longrightarrow> list_all P qs \<Longrightarrow> P (foldl1 f qs)"
proof (induction qs rule: rev_induct)
  case (snoc q qs)
  then show ?case by (cases "qs = []") (simp_all add: foldl1_snoc assms)
qed simp

lemma sum_list_update_add:
  "i < length xs \<Longrightarrow> sum_list (xs[i := xs ! i + (d :: 'a :: comm_monoid_add)]) = sum_list xs + d"
proof (induction xs arbitrary: i)
  case (Cons x xs)
  then show ?case by (cases i) (simp_all add: ac_simps)
qed simp

text \<open>Updating one position changes how often an element occurs by what leaves and what comes.\<close>

lemma count_list_update:
  "i < length xs \<Longrightarrow> count_list (xs[i := y]) p + (if xs ! i = p then 1 else 0) = count_list xs p + (if y = p then 1 else 0)"
proof (induction xs arbitrary: i)
  case (Cons x xs)
  show ?case
  proof (cases i)
    case (Suc k)
    then show ?thesis using Cons.IH[of k] Cons.prems by (cases "xs ! k = p"; cases "y = p"; cases "x = p") auto
  qed auto
qed simp

end
