(* ===== verification/Repeat.thy ===== *)
theory Repeat
  imports Prelude
begin

text \<open>
  The repeat suppressor of \<^verbatim>\<open>internal/repeat/repeat.go\<close>: a bounded memory of the last time each
  message was let through, used by the scrape-error logger, the OTel error handler and the logr
  sink to log a repeated line at most once per window.

  The map \<open>lastSeen\<close> is an association list.  Go randomises the order in which \<^verbatim>\<open>range\<close> visits a
  map, so reachability below closes the states under permutation of that list.
\<close>

record suppressor =
  window :: int
  max_entries :: int
  last_seen :: "(string \<times> nanos) list"

definition NewSuppressor :: "int \<Rightarrow> int \<Rightarrow> suppressor" where
  "NewSuppressor w n = \<lparr>window = w, max_entries = (if n < 1 then 1 else n), last_seen = []\<rparr>"

definition Window :: "suppressor \<Rightarrow> int" where
  "Window s = window s"

text \<open>The scan for the oldest entry: \<open>acc\<close> is \<^verbatim>\<open>(oldestMsg, oldest)\<close>, \<^const>\<open>None\<close> while
  \<^verbatim>\<open>first\<close> is still true.\<close>

fun oldest_entry :: "(string \<times> nanos) option \<Rightarrow> (string \<times> nanos) list \<Rightarrow> (string \<times> nanos) option" where
  "oldest_entry acc [] = acc"
| "oldest_entry acc ((m, seen) # rest) =
     oldest_entry (case acc of None \<Rightarrow> Some (m, seen)
                   | Some (om, ot) \<Rightarrow> if seen < ot then Some (m, seen) else Some (om, ot)) rest"

definition evict_oldest :: "(string \<times> nanos) list \<Rightarrow> (string \<times> nanos) list" where
  "evict_oldest m = (case oldest_entry None m of None \<Rightarrow> AList.delete [] m
                     | Some (om, _) \<Rightarrow> AList.delete om m)"

definition drop_expired :: "int \<Rightarrow> nanos \<Rightarrow> (string \<times> nanos) list \<Rightarrow> (string \<times> nanos) list" where
  "drop_expired w now m = filter (\<lambda>(k, seen). \<not> time_sub now seen \<ge> w) m"

definition SuppressedAt :: "suppressor \<Rightarrow> string \<Rightarrow> nanos \<Rightarrow> bool \<times> suppressor" where
  "SuppressedAt s msg now =
     (if (case map_of (last_seen s) msg of Some seen \<Rightarrow> time_sub now seen < window s | None \<Rightarrow> False)
      then (True, s)
      else let live = drop_expired (window s) now (last_seen s);
               kept = (if int (length live) \<ge> max_entries s then evict_oldest live else live)
           in (False, s\<lparr>last_seen := AList.update msg now kept\<rparr>))"


section \<open>The entry that is evicted\<close>

lemma oldest_entry_Some:
  "oldest_entry (Some a) m = Some b \<Longrightarrow>
   b \<in> insert a (set m) \<and> snd b \<le> snd a \<and> (\<forall>e \<in> set m. snd b \<le> snd e)"
proof (induction m arbitrary: a)
  case (Cons e m)
  obtain k t where e: "e = (k, t)" by (cases e)
  obtain om ot where a: "a = (om, ot)" by (cases a)
  show ?case
  proof (cases "t < ot")
    case True
    with Cons.prems have "oldest_entry (Some e) m = Some b" by (simp add: a e)
    from Cons.IH[OF this] True show ?thesis by (auto simp: a e)
  next
    case False
    with Cons.prems have "oldest_entry (Some a) m = Some b" by (simp add: a e)
    from Cons.IH[OF this] False show ?thesis by (auto simp: a e)
  qed
qed simp

lemma oldest_entry_not_None: "oldest_entry (Some a) m \<noteq> None"
  by (induction m arbitrary: a) (auto split: prod.splits)

lemma oldest_entry_None_Cons: "oldest_entry None (a # m) = oldest_entry (Some a) m"
  by (cases a) simp

lemma evict_oldest_spec:
  assumes "m \<noteq> []"
  obtains om ot where "(om, ot) \<in> set m" "\<forall>(k, t) \<in> set m. ot \<le> t"
    "evict_oldest m = AList.delete om m"
proof -
  obtain a r where m: "m = a # r" using assms by (cases m) auto
  obtain b where b: "oldest_entry None m = Some b"
    using oldest_entry_not_None[of a r] by (auto simp: m oldest_entry_None_Cons)
  obtain om ot where bo: "b = (om, ot)" by (cases b)
  have "b \<in> set m \<and> (\<forall>e \<in> set m. snd b \<le> snd e)"
    using oldest_entry_Some[of a r b] b by (auto simp: m oldest_entry_None_Cons)
  then have "(om, ot) \<in> set m" and "\<forall>(k, t) \<in> set m. ot \<le> t" by (force simp: bo)+
  moreover have "evict_oldest m = AList.delete om m" by (simp add: evict_oldest_def b bo)
  ultimately show ?thesis by (rule that)
qed

lemma evict_oldest_length:
  "m \<noteq> [] \<Longrightarrow> distinct (keys m) \<Longrightarrow> Suc (length (evict_oldest m)) = length m"
  by (erule evict_oldest_spec) (auto simp: length_delete_present rev_image_eqI)

lemma evict_oldest_subset: "set (evict_oldest m) \<subseteq> set m"
  by (auto simp: evict_oldest_def AList.delete_eq split: option.splits)

lemma distinct_evict_oldest: "distinct (keys m) \<Longrightarrow> distinct (keys (evict_oldest m))"
  by (auto simp: evict_oldest_def AList.distinct_delete split: option.splits)

lemma drop_expired_subset: "set (drop_expired w now m) \<subseteq> set m"
  by (auto simp: drop_expired_def)

lemma length_drop_expired: "length (drop_expired w now m) \<le> length m"
  by (simp add: drop_expired_def)

lemma distinct_drop_expired: "distinct (keys m) \<Longrightarrow> distinct (keys (drop_expired w now m))"
  by (simp add: drop_expired_def distinct_keys_filter)

section \<open>Invariant\<close>

definition suppressor_inv :: "suppressor \<Rightarrow> bool" where
  "suppressor_inv s \<longleftrightarrow> 1 \<le> max_entries s \<and> distinct (keys (last_seen s)) \<and>
     int (length (last_seen s)) \<le> max_entries s"

definition recall :: "suppressor \<Rightarrow> string \<Rightarrow> nanos option" where
  "recall s = map_of (last_seen s)"

text \<open>Two states that differ in the iteration order of \<open>lastSeen\<close> only.\<close>

definition reordered :: "suppressor \<Rightarrow> suppressor \<Rightarrow> bool" where
  "reordered s s' \<longleftrightarrow> window s' = window s \<and> max_entries s' = max_entries s \<and>
     mset (last_seen s') = mset (last_seen s)"

lemma NewSuppressor_inv [go_inv]: "suppressor_inv (NewSuppressor w n)"
  by (simp add: suppressor_inv_def NewSuppressor_def)

lemma reordered_inv [go_inv]: "reordered s s' \<Longrightarrow> suppressor_inv s \<Longrightarrow> suppressor_inv s'"
proof -
  assume r: "reordered s s'" and i: "suppressor_inv s"
  then have "mset (keys (last_seen s')) = mset (keys (last_seen s))"
    by (simp add: reordered_def)
  from mset_eq_imp_distinct_iff[OF this] have "distinct (keys (last_seen s'))"
    using i by (simp add: suppressor_inv_def)
  moreover have "length (last_seen s') = length (last_seen s)"
    using r by (auto simp: reordered_def dest: mset_eq_length)
  ultimately show ?thesis using r i by (auto simp: reordered_def suppressor_inv_def)
qed

lemma reordered_recall: "reordered s s' \<Longrightarrow> suppressor_inv s \<Longrightarrow> recall s' = recall s"
  unfolding recall_def
  by (rule map_of_inject_set[THEN iffD2])
     (use reordered_inv[of s s'] in \<open>auto simp: suppressor_inv_def reordered_def dest: mset_eq_setD\<close>)


text \<open>What an unsuppressed call leaves behind.\<close>

definition survivors :: "suppressor \<Rightarrow> nanos \<Rightarrow> (string \<times> nanos) list" where
  "survivors s now =
     (let live = drop_expired (window s) now (last_seen s)
      in if int (length live) \<ge> max_entries s then evict_oldest live else live)"

definition within_window :: "suppressor \<Rightarrow> string \<Rightarrow> nanos \<Rightarrow> bool" where
  "within_window s msg now \<longleftrightarrow> (\<exists>t. recall s msg = Some t \<and> time_sub now t < window s)"

lemma SuppressedAt_eq:
  "SuppressedAt s msg now =
     (if within_window s msg now then (True, s)
      else (False, s\<lparr>last_seen := AList.update msg now (survivors s now)\<rparr>))"
  by (auto simp: SuppressedAt_def survivors_def within_window_def recall_def Let_def
      split: option.splits)

lemma survivors_subset: "set (survivors s now) \<subseteq> set (last_seen s)"
  unfolding survivors_def Let_def
  by (simp add: drop_expired_subset order_trans[OF evict_oldest_subset drop_expired_subset])

lemma distinct_survivors: "distinct (keys (last_seen s)) \<Longrightarrow> distinct (keys (survivors s now))"
  by (simp add: survivors_def Let_def distinct_evict_oldest distinct_drop_expired)

lemma length_survivors:
  assumes "suppressor_inv s"
  shows "int (length (survivors s now)) < max_entries s"
proof -
  let ?live = "drop_expired (window s) now (last_seen s)"
  have le: "int (length ?live) \<le> max_entries s"
    using assms length_drop_expired[of "window s" now "last_seen s"]
    by (simp add: suppressor_inv_def)
  show ?thesis
  proof (cases "int (length ?live) \<ge> max_entries s")
    case True
    with assms have "?live \<noteq> []" by (auto simp: suppressor_inv_def)
    moreover have "distinct (keys ?live)"
      using assms by (simp add: suppressor_inv_def distinct_drop_expired)
    ultimately have "Suc (length (evict_oldest ?live)) = length ?live"
      by (rule evict_oldest_length)
    with True le show ?thesis by (simp add: survivors_def)
  next
    case False
    then show ?thesis by (simp add: survivors_def)
  qed
qed

lemma SuppressedAt_inv [go_inv]:
  assumes "suppressor_inv s" and "SuppressedAt s msg now = (b, s')"
  shows "suppressor_inv s'"
proof (cases "within_window s msg now")
  case True
  with assms show ?thesis by (simp add: SuppressedAt_eq)
next
  case False
  have "int (length (AList.update msg now (survivors s now))) \<le> max_entries s"
    using length_survivors[OF assms(1), of now]
    by (cases "msg \<in> set (keys (survivors s now))") (simp_all add: length_update_new length_update_old)
  with False assms show ?thesis
    by (auto simp: SuppressedAt_eq suppressor_inv_def distinct_survivors AList.distinct_update)
qed

lemma SuppressedAt_frame:
  "SuppressedAt s msg now = (b, s') \<Longrightarrow> window s' = window s \<and> max_entries s' = max_entries s"
  by (auto simp: SuppressedAt_eq split: if_splits)

lemma map_of_subset:
  assumes "set m' \<subseteq> set m" and "distinct (keys m)" and "map_of m' k = Some v"
  shows "map_of m k = Some v"
  using assms by (meson map_of_SomeD map_of_is_SomeI subsetD)

lemma SuppressedAt_recall_other:
  assumes "suppressor_inv s" "SuppressedAt s msg now = (b, s')" "m \<noteq> msg" "recall s' m = Some t"
  shows "recall s m = Some t"
proof (cases "within_window s msg now")
  case True
  with assms show ?thesis by (simp add: SuppressedAt_eq)
next
  case False
  with assms(2-4) have "map_of (survivors s now) m = Some t"
    by (auto simp: SuppressedAt_eq recall_def AList.update_conv')
  with survivors_subset assms(1) show ?thesis
    unfolding recall_def suppressor_inv_def by (blast intro: map_of_subset)
qed

lemma SuppressedAt_recall_self:
  "SuppressedAt s msg now = (False, s') \<Longrightarrow> recall s' msg = Some now"
  by (auto simp: SuppressedAt_eq recall_def AList.update_conv' split: if_splits)


lemma SuppressedAt_keeps_live:
  assumes inv: "suppressor_inv s" and ask: "SuppressedAt s msg now = (False, s')"
    and room: "int (card (insert msg (dom (recall s)))) \<le> max_entries s"
    and old: "recall s m = Some u" "time_sub now u < window s"
  shows "recall s' m = Some (if m = msg then now else u)"
proof -
  let ?live = "drop_expired (window s) now (last_seen s)"
  from ask have nw: "\<not> within_window s msg now" by (simp add: SuppressedAt_eq split: if_splits)
  have dl: "distinct (keys ?live)" using inv by (simp add: suppressor_inv_def distinct_drop_expired)
  have live: "map_of ?live k = (case recall s k of None \<Rightarrow> None
      | Some v \<Rightarrow> if time_sub now v < window s then Some v else None)" for k
    using inv by (auto simp: drop_expired_def recall_def suppressor_inv_def map_of_filter_pair not_le
        split: option.splits)
  have "msg \<notin> set (keys ?live)"
    using nw live[of msg] by (auto simp: within_window_def map_of_eq_None_iff split: option.splits)
  moreover have "set (keys ?live) \<subseteq> dom (recall s)"
    using drop_expired_subset[of "window s" now "last_seen s"]
    by (auto simp: recall_def dom_map_of_conv_image_fst)
  moreover have "finite (dom (recall s))" by (simp add: recall_def finite_dom_map_of)
  ultimately have "Suc (card (set (keys ?live))) \<le> card (insert msg (dom (recall s)))"
    by (metis List.finite_set card_insert_disjoint card_mono finite_insert insert_mono)
  moreover have "card (set (keys ?live)) = length ?live"
    using distinct_card[OF dl] by simp
  ultimately have "\<not> int (length ?live) \<ge> max_entries s" using room by simp
  then have "survivors s now = ?live" by (simp add: survivors_def)
  moreover have "map_of ?live m = Some u" using old live[of m] by simp
  ultimately show ?thesis
    using ask nw by (auto simp: SuppressedAt_eq recall_def AList.update_conv')
qed

section \<open>Runs of a suppressor and its contract\<close>

text \<open>The history of a run: each entry is a message, the instant it was asked about and the
  verdict.  Before every call the iteration order may have changed.\<close>

inductive ask_run ::
  "('s \<Rightarrow> string \<Rightarrow> nanos \<Rightarrow> bool \<times> 's) \<Rightarrow> ('s \<Rightarrow> 's \<Rightarrow> bool) \<Rightarrow> 's \<Rightarrow>
   (string \<times> nanos \<times> bool) list \<Rightarrow> 's \<Rightarrow> bool"
  for ask shuffle s0 where
  start: "ask_run ask shuffle s0 [] s0"
| asked: "ask_run ask shuffle s0 h s \<Longrightarrow> shuffle s s1 \<Longrightarrow> ask s1 m t = (b, s') \<Longrightarrow>
     ask_run ask shuffle s0 (h @ [(m, t, b)]) s'"

inductive_simps ask_run_Nil: "ask_run ask shuffle s0 [] s"
inductive_cases ask_run_snocE: "ask_run ask shuffle s0 (h @ [(m, t, b)]) s"

locale suppressor_contract =
  fixes ask :: "'s \<Rightarrow> string \<Rightarrow> nanos \<Rightarrow> bool \<times> 's"
    and shuffle :: "'s \<Rightarrow> 's \<Rightarrow> bool"
    and good :: "'s \<Rightarrow> bool"
    and memory :: "'s \<Rightarrow> string \<Rightarrow> nanos option"
    and span :: "'s \<Rightarrow> int"
    and capacity :: "'s \<Rightarrow> int"
  assumes ask_good: "good s \<Longrightarrow> ask s m t = (b, s') \<Longrightarrow> good s'"
    and ask_frame: "ask s m t = (b, s') \<Longrightarrow> span s' = span s \<and> capacity s' = capacity s"
    and ask_verdict: "ask s m t = (b, s') \<Longrightarrow>
          b \<longleftrightarrow> (\<exists>u. memory s m = Some u \<and> time_sub t u < span s)"
    and ask_quiet: "ask s m t = (True, s') \<Longrightarrow> s' = s"
    and ask_self: "ask s m t = (False, s') \<Longrightarrow> memory s' m = Some t"
    and ask_other: "good s \<Longrightarrow> ask s m t = (b, s') \<Longrightarrow> m' \<noteq> m \<Longrightarrow> memory s' m' = Some u \<Longrightarrow>
          memory s m' = Some u"
    and ask_room: "good s \<Longrightarrow> ask s m t = (False, s') \<Longrightarrow>
          int (card (insert m (dom (memory s)))) \<le> capacity s \<Longrightarrow> m' \<noteq> m \<Longrightarrow>
          memory s m' = Some u \<Longrightarrow> time_sub t u < span s \<Longrightarrow> memory s' m' = Some u"
    and shuffle_same: "shuffle s s' \<Longrightarrow> good s \<Longrightarrow>
          good s' \<and> memory s' = memory s \<and> span s' = span s \<and> capacity s' = capacity s"
begin

text \<open>Along a run from an empty memory, whatever is remembered was logged.\<close>

lemma run_memory:
  assumes "ask_run ask shuffle s0 h s" and "good s0" and "memory s0 = Map.empty"
  shows "good s \<and> span s = span s0 \<and> capacity s = capacity s0 \<and>
    (\<forall>m u. memory s m = Some u \<longrightarrow> (m, u, False) \<in> set h)"
  using assms(1)
proof (induction rule: ask_run.induct)
  case start
  then show ?case using assms by simp
next
  case (asked h s s1 m t b s')
  then have s1: "good s1" "memory s1 = memory s" "span s1 = span s0" "capacity s1 = capacity s0"
    using shuffle_same[of s s1] by auto
  have "(m', u, False) \<in> set (h @ [(m, t, b)])" if u: "memory s' m' = Some u" for m' u
  proof (cases "b \<or> m' \<noteq> m")
    case True
    then have "memory s m' = Some u"
      using u s1 asked.hyps(3) ask_other[OF s1(1) asked.hyps(3)] ask_quiet[of s1 m t s']
      by (cases b) auto
    with asked.IH show ?thesis by simp
  next
    case False
    then show ?thesis using u asked.hyps(3) ask_self[of s1 m t s'] by auto
  qed
  then show ?case
    using s1 ask_good[OF s1(1) asked.hyps(3)] ask_frame[OF asked.hyps(3)] by auto
qed

lemma suppressed_was_logged:
  assumes "ask_run ask shuffle s0 (h @ [(m, t, True)]) s" and "good s0" and "memory s0 = Map.empty"
  shows "\<exists>u. (m, u, False) \<in> set h \<and> time_sub t u < span s0"
proof -
  from assms(1) obtain s1 s2 where r: "ask_run ask shuffle s0 h s1" "shuffle s1 s2"
    "ask s2 m t = (True, s)" by (rule ask_run_snocE)
  note inv = run_memory[OF r(1) assms(2,3)]
  have same: "memory s2 = memory s1" "span s2 = span s0"
    using shuffle_same[OF r(2)] inv by auto
  from ask_verdict[OF r(3)] obtain u where "memory s2 m = Some u" "time_sub t u < span s2" by auto
  with same inv show ?thesis by auto
qed

text \<open>With room for every message of the run, a logged line is either still remembered (or a
  newer one of the same message is) or older than the window.\<close>

lemma run_rate_limit:
  assumes "ask_run ask shuffle s0 h s" and "good s0" and "memory s0 = Map.empty"
    and "int (card (fst ` set h)) \<le> capacity s0" and "sorted (map (fst \<circ> snd) h)"
  shows "\<forall>m u now. (m, u, False) \<in> set h \<longrightarrow> (\<forall>e \<in> set h. fst (snd e) \<le> now) \<longrightarrow>
    (\<exists>v \<ge> u. memory s m = Some v) \<or> span s0 \<le> time_sub now u"
  using assms(1,4,5)
proof (induction rule: ask_run.induct)
  case start
  then show ?case by simp
next
  case (asked h s s1 m t b s')
  have "card (fst ` set h) \<le> card (fst ` set (h @ [(m, t, b)]))"
    by (rule card_mono) auto
  then have cap: "int (card (fst ` set h)) \<le> capacity s0" using asked.prems(1) by linarith
  from asked.prems(2) have sorted: "sorted (map (fst \<circ> snd) h)"
    and last: "\<forall>e \<in> set h. fst (snd e) \<le> t" by (auto simp: sorted_wrt_append comp_def)
  note IH = asked.IH[OF cap sorted]
  note inv = run_memory[OF asked.hyps(1) assms(2,3)]
  have s1: "good s1" "memory s1 = memory s" "span s1 = span s0" "capacity s1 = capacity s0"
    using shuffle_same[OF asked.hyps(2)] inv by auto
  have sub: "insert m (dom (memory s1)) \<subseteq> fst ` set (h @ [(m, t, b)])"
    using inv s1 by force
  then have "card (insert m (dom (memory s1))) \<le> card (fst ` set (h @ [(m, t, b)]))"
    by (intro card_mono) auto
  then have room: "int (card (insert m (dom (memory s1)))) \<le> capacity s1"
    using asked.prems(1) s1 by linarith
  have step: "(\<exists>v \<ge> u. memory s' k = Some v) \<or> span s0 \<le> time_sub now u"
    if ku: "(k, u, False) \<in> set (h @ [(m, t, b)])"
      and now: "\<forall>e \<in> set (h @ [(m, t, b)]). fst (snd e) \<le> now" for k u now
  proof (cases b)
    case True
    then have "s' = s1" using asked.hyps(3) ask_quiet[of s1 m t s'] by simp
    with IH ku now True s1 show ?thesis by auto
  next
    case False
    then have askF: "ask s1 m t = (False, s')" using asked.hyps(3) by simp
    have tnow: "t \<le> now" using now by simp
    show ?thesis
    proof (cases "k = m")
      case True
      have "u \<le> t" using ku last by auto
      with True ask_self[OF askF] show ?thesis by auto
    next
      case other: False
      with ku have "(k, u, False) \<in> set h" by auto
      with IH last consider v where "v \<ge> u" "memory s k = Some v" | "span s0 \<le> time_sub t u"
        by blast
      then show ?thesis
      proof cases
        case 1
        show ?thesis
        proof (cases "time_sub t v < span s1")
          case True
          with 1 s1 ask_room[OF s1(1) askF room other] show ?thesis by auto
        next
          case False
          have "time_sub t v \<le> time_sub now u" using 1(1) tnow by (auto simp: time_sub_def)
          with False s1 show ?thesis by simp
        qed
      next
        case 2
        with time_sub_mono[OF tnow, of u] show ?thesis by simp
      qed
    qed
  qed
  then show ?case by blast
qed

lemma logged_lines_apart:
  assumes run: "ask_run ask shuffle s0 (h @ [(m, t, False)]) s" and "good s0" "memory s0 = Map.empty"
    and cap: "int (card (fst ` set (h @ [(m, t, False)]))) \<le> capacity s0"
    and mono: "sorted (map (fst \<circ> snd) (h @ [(m, t, False)]))"
    and earlier: "(m, u, False) \<in> set h"
  shows "span s0 \<le> time_sub t u"
proof -
  from run obtain s1 s2 where r: "ask_run ask shuffle s0 h s1" "shuffle s1 s2"
    "ask s2 m t = (False, s)" by (rule ask_run_snocE)
  note inv = run_memory[OF r(1) assms(2,3)]
  have same: "memory s2 = memory s1" "span s2 = span s0"
    using shuffle_same[OF r(2)] inv by auto
  have "card (fst ` set h) \<le> card (fst ` set (h @ [(m, t, False)]))" by (rule card_mono) auto
  then have cap': "int (card (fst ` set h)) \<le> capacity s0" using cap by linarith
  have mono': "sorted (map (fst \<circ> snd) h)" and "\<forall>e \<in> set h. fst (snd e) \<le> t"
    using mono by (auto simp: sorted_wrt_append comp_def)
  with run_rate_limit[OF r(1) assms(2,3) cap' mono'] earlier
  consider v where "v \<ge> u" "memory s1 m = Some v" | "span s0 \<le> time_sub t u" by blast
  then show ?thesis
  proof cases
    case 1
    with ask_verdict[OF r(3)] same have "span s0 \<le> time_sub t v" by fastforce
    also have "\<dots> \<le> time_sub t u" using 1(1) by (auto simp: time_sub_def)
    finally show ?thesis .
  qed
qed

end

interpretation rs: suppressor_contract SuppressedAt reordered suppressor_inv recall window max_entries
proof (unfold_locales, goal_cases)
  case (1 s m t b s') then show ?case by (rule SuppressedAt_inv)
next
  case (2 s m t b s') then show ?case by (rule SuppressedAt_frame)
next
  case (3 s m t b s') then show ?case by (auto simp: SuppressedAt_eq within_window_def split: if_splits)
next
  case (4 s m t s') then show ?case by (auto simp: SuppressedAt_eq split: if_splits)
next
  case (5 s m t s') then show ?case by (rule SuppressedAt_recall_self)
next
  case (6 s m t b s' m' u) then show ?case by (rule SuppressedAt_recall_other)
next
  case (7 s m t s' m' u) then show ?case using SuppressedAt_keeps_live[of s m t s' m' u] by simp
next
  case (8 s s') then show ?case
    using reordered_inv[of s s'] reordered_recall[of s s'] by (simp add: reordered_def)
qed

lemma NewSuppressor_empty [simp]:
  "recall (NewSuppressor w n) = Map.empty" "window (NewSuppressor w n) = w"
  "max_entries (NewSuppressor w n) = max 1 n"
  by (simp_all add: recall_def NewSuppressor_def)

abbreviation suppressor_run ::
  "suppressor \<Rightarrow> (string \<times> nanos \<times> bool) list \<Rightarrow> suppressor \<Rightarrow> bool" where
  "suppressor_run \<equiv> ask_run SuppressedAt reordered"


section \<open>A client: the scrape-error logger\<close>

text \<open>\<^verbatim>\<open>internal/metrics/scrapelog.go\<close>.  \<open>Println\<close> receives the text \<^verbatim>\<open>fmt.Sprintln\<close> rendered (which
  always ends in a newline) and the clock reading; \<open>scrape_lines\<close> collects the warnings that
  reach the logger.\<close>

definition scrapeErrorRepeatWindow :: int where "scrapeErrorRepeatWindow = 5 * 60 * 1000000000"
definition maxTrackedScrapeErrors :: int where "maxTrackedScrapeErrors = 32"

record scrape_logger =
  suppress :: suppressor
  scrape_lines :: "(nanos \<times> string) list"

definition newScrapeErrorLogger :: scrape_logger where
  "newScrapeErrorLogger =
     \<lparr>suppress = NewSuppressor scrapeErrorRepeatWindow maxTrackedScrapeErrors, scrape_lines = []\<rparr>"

definition Println :: "scrape_logger \<Rightarrow> string \<Rightarrow> nanos \<Rightarrow> scrape_logger" where
  "Println l rendered now =
     (let msg = butlast rendered; (quiet, s) = SuppressedAt (suppress l) msg now
      in if quiet then l\<lparr>suppress := s\<rparr>
         else l\<lparr>suppress := s, scrape_lines := scrape_lines l @ [(now, msg)]\<rparr>)"

lemma reordered_refl [simp]: "reordered s s"
  by (simp add: reordered_def)

fun println_all :: "scrape_logger \<Rightarrow> (string \<times> nanos) list \<Rightarrow> scrape_logger" where
  "println_all l [] = l"
| "println_all l ((r, t) # rest) = println_all (Println l r t) rest"

definition logged_of :: "(string \<times> nanos \<times> bool) list \<Rightarrow> (nanos \<times> string) list" where
  "logged_of h = map (\<lambda>(m, t, b). (t, m)) (filter (\<lambda>(m, t, b). \<not> b) h)"

lemma run_snoc:
  "suppressor_run s0 h s \<Longrightarrow> SuppressedAt s m t = (b, s') \<Longrightarrow> suppressor_run s0 (h @ [(m, t, b)]) s'"
  by (rule ask_run.asked) auto

lemma run_one: "SuppressedAt s0 m t = (b, s') \<Longrightarrow> suppressor_run s0 [(m, t, b)] s'"
  using run_snoc[OF ask_run.start] by simp

lemma run_prefix: "ask_run ask shuffle s0 (h @ k) s \<Longrightarrow> \<exists>s'. ask_run ask shuffle s0 h s'"
proof (induction k arbitrary: s rule: rev_induct)
  case (snoc x k)
  obtain m t b where "x = (m, t, b)" by (cases x)
  with snoc.prems have "ask_run ask shuffle s0 ((h @ k) @ [(m, t, b)]) s" by simp
  then show ?case by (rule ask_run_snocE) (rule snoc.IH)
qed auto

lemma logged_of_Cons: "logged_of ((m, t, b) # h) = (if b then logged_of h else (t, m) # logged_of h)"
  by (simp add: logged_of_def)

lemma logged_of_split:
  "logged_of h = xs @ (t, m) # ys \<Longrightarrow>
   \<exists>h1 h2. h = h1 @ (m, t, False) # h2 \<and> logged_of h1 = xs \<and> logged_of h2 = ys"
proof (induction h arbitrary: xs)
  case Nil
  then show ?case by (simp add: logged_of_def)
next
  case (Cons e h)
  obtain m0 t0 b0 where e: "e = (m0, t0, b0)" by (cases e)
  show ?case
  proof (cases "\<not> b0 \<and> xs = []")
    case True
    with Cons.prems show ?thesis
      by (intro exI[of _ "[]"] exI[of _ h]) (auto simp: e logged_of_Cons logged_of_def)
  next
    case False
    then obtain xs' where xs': "logged_of h = xs' @ (t, m) # ys"
      "xs = (if b0 then xs' else (t0, m0) # xs')"
      using Cons.prems by (cases xs) (auto simp: e logged_of_Cons split: if_splits)
    from Cons.IH[OF xs'(1)] obtain h1 h2 where
      "h = h1 @ (m, t, False) # h2 \<and> logged_of h1 = xs' \<and> logged_of h2 = ys" by blast
    with xs'(2) show ?thesis by (intro exI[of _ "e # h1"] exI[of _ h2]) (simp add: e logged_of_Cons)
  qed
qed

section \<open>Loggers behind a suppressor\<close>

text \<open>The contract of a logger that asks a suppressor before it writes a line: \<open>message\<close> is the text a call is keyed and
  logged by, and it does not change with the calls.\<close>

locale limited_logger =
  fixes emit :: "'l \<Rightarrow> 'c \<Rightarrow> nanos \<Rightarrow> 'l"
    and supp :: "'l \<Rightarrow> suppressor"
    and written :: "'l \<Rightarrow> (nanos \<times> string) list"
    and message :: "'l \<Rightarrow> 'c \<Rightarrow> string"
  assumes emit_law: "SuppressedAt (supp l) (message l c) t = (b, s) \<Longrightarrow>
      supp (emit l c t) = s \<and> written (emit l c t) = (if b then written l else written l @ [(t, message l c)])"
    and message_fixed: "message (emit l c t) = message l"
begin

abbreviation emit_all :: "'l \<Rightarrow> ('c \<times> nanos) list \<Rightarrow> 'l" where
  "emit_all l calls \<equiv> foldl (\<lambda>l (c, t). emit l c t) l calls"

lemma emit_run:
  assumes "suppressor_run s0 h (supp l)" and "written l = logged_of h"
  shows "\<exists>b. suppressor_run s0 (h @ [(message l c, t, b)]) (supp (emit l c t)) \<and>
    written (emit l c t) = logged_of (h @ [(message l c, t, b)])"
proof -
  obtain b s where ask: "SuppressedAt (supp l) (message l c) t = (b, s)" by fastforce
  from ask_run.asked[OF assms(1) reordered_refl ask] show ?thesis
    using assms(2) emit_law[OF ask] by (intro exI[of _ b]) (simp add: logged_of_def)
qed

lemma emit_all_run:
  assumes "suppressor_run s0 h (supp l)" and "written l = logged_of h"
  shows "\<exists>h'. suppressor_run s0 (h @ h') (supp (emit_all l calls)) \<and>
    written (emit_all l calls) = logged_of (h @ h') \<and>
    map (\<lambda>(m, t, b). (m, t)) h' = map (\<lambda>(c, t). (message l c, t)) calls"
  using assms
proof (induction calls arbitrary: l h)
  case Nil
  then show ?case by (intro exI[of _ "[]"]) simp
next
  case (Cons e calls)
  obtain c t where e: "e = (c, t)" by (cases e)
  from emit_run[OF Cons.prems, of c t] obtain b where
    b: "suppressor_run s0 (h @ [(message l c, t, b)]) (supp (emit l c t))"
    "written (emit l c t) = logged_of (h @ [(message l c, t, b)])" by blast
  from Cons.IH[OF b] obtain h' where
    "suppressor_run s0 ((h @ [(message l c, t, b)]) @ h') (supp (emit_all (emit l c t) calls))"
    "written (emit_all (emit l c t) calls) = logged_of ((h @ [(message l c, t, b)]) @ h')"
    "map (\<lambda>(m, t, b). (m, t)) h' = map (\<lambda>(c', t). (message l c', t)) calls" unfolding message_fixed by blast
  then show ?case by (intro exI[of _ "(message l c, t, b) # h'"]) (simp add: e)
qed

lemma written_messages: "(t, m) \<in> set (written (emit_all l calls)) \<Longrightarrow>
    (t, m) \<in> set (written l) \<or> (\<exists>c. (c, t) \<in> set calls \<and> m = message l c)"
proof (induction calls arbitrary: l)
  case (Cons e calls)
  obtain c u where e: "e = (c, u)" by (cases e)
  obtain b s where ask: "SuppressedAt (supp l) (message l c) u = (b, s)" by fastforce
  from Cons.IH[of "emit l c u"] Cons.prems emit_law[OF ask] show ?case
    by (auto simp: e message_fixed split: if_splits)
qed simp

lemma lines_apart:
  assumes fresh: "supp l = NewSuppressor w n" "written l = []"
    and mono: "sorted (map snd calls)" and few: "int (card (fst ` set calls)) \<le> max 1 n"
    and lines: "written (emit_all l calls) = xs @ (u, m) # ys @ (t, m) # zs"
  shows "w \<le> time_sub t u"
proof -
  let ?s0 = "NewSuppressor w n"
  obtain h s where run: "suppressor_run ?s0 h s" and log: "written (emit_all l calls) = logged_of h"
    and calls: "map (\<lambda>(m, t, b). (m, t)) h = map (\<lambda>(c, t). (message l c, t)) calls"
    using emit_all_run[of ?s0 "[]" l calls] fresh by (auto simp: logged_of_def intro: ask_run.start)
  from lines log logged_of_split[of h "xs @ (u, m) # ys" t m zs] obtain h1 h2 where
    h: "h = h1 @ (m, t, False) # h2" and h1: "logged_of h1 = xs @ (u, m) # ys" by auto
  from logged_of_split[OF h1] have earlier: "(m, u, False) \<in> set h1" by auto
  have run1: "\<exists>s. suppressor_run ?s0 (h1 @ [(m, t, False)]) s"
    using run h run_prefix[of SuppressedAt reordered ?s0 "h1 @ [(m, t, False)]" h2 s] by simp
  have times: "map (fst \<circ> snd) h = map snd calls"
    using arg_cong[OF calls, of "map snd"] by (simp add: comp_def case_prod_unfold)
  have msgs: "fst ` set h = message l ` fst ` set calls"
    using arg_cong[OF calls, of "\<lambda>l. fst ` set l"] by (simp add: image_image case_prod_unfold)
  have "card (fst ` set (h1 @ [(m, t, False)])) \<le> card (fst ` set h)"
    by (rule card_mono) (auto simp: h)
  also have "\<dots> \<le> card (fst ` set calls)" unfolding msgs by (rule card_image_le) simp
  finally have cap: "int (card (fst ` set (h1 @ [(m, t, False)]))) \<le> max_entries ?s0" using few by simp
  have sorted: "sorted (map (fst \<circ> snd) (h1 @ [(m, t, False)]))"
    using mono by (simp add: h sorted_wrt_append flip: times)
  from run1 obtain s1 where "suppressor_run ?s0 (h1 @ [(m, t, False)]) s1" by blast
  from rs.logged_lines_apart[OF this NewSuppressor_inv NewSuppressor_empty(1) cap sorted earlier]
  show ?thesis by simp
qed

end

interpretation scrape_log: limited_logger Println suppress scrape_lines "\<lambda>_. butlast"
  by unfold_locales (auto simp: Println_def split: if_splits prod.splits)

lemma println_all_emit: "println_all l calls = scrape_log.emit_all l calls"
  by (induction l calls rule: println_all.induct) simp_all

section \<open>Properties\<close>

text \<open>Whatever is asked, and in whatever order Go visits the map, the memory holds at most
  \<open>max 1 n\<close> messages, each once: the suppressor cannot grow with the number of distinct errors.\<close>

theorem suppressor_memory_bounded:
  assumes "suppressor_run (NewSuppressor w n) h s"
  shows "int (length (last_seen s)) \<le> max 1 n \<and> distinct (keys (last_seen s))"
  using rs.run_memory[OF assms NewSuppressor_inv NewSuppressor_empty(1)]
  by (simp add: suppressor_inv_def)

theorem suppressor_memory_bounded_witness:
  "\<exists>s. suppressor_run (NewSuppressor 10 1) [(''a'', 0, False), (''b'', 1, False)] s \<and>
     int (length (last_seen s)) \<le> max 1 1 \<and> distinct (keys (last_seen s))"
proof -
  have "suppressor_run (NewSuppressor 10 1) [(''a'', 0, False)]
      \<lparr>window = 10, max_entries = 1, last_seen = [(''a'', 0)]\<rparr>"
    by (rule run_one) (simp add: NewSuppressor_def SuppressedAt_def drop_expired_def)
  from run_snoc[OF this, of "''b''" 1 False] have
    "suppressor_run (NewSuppressor 10 1) [(''a'', 0, False), (''b'', 1, False)]
      \<lparr>window = 10, max_entries = 1, last_seen = [(''b'', 1)]\<rparr>"
    by (simp add: SuppressedAt_def drop_expired_def evict_oldest_def time_sub_def
         min_int64_def max_int64_def)
  with suppressor_memory_bounded[OF this] show ?thesis by blast
qed

text \<open>A line is never lost: whenever the suppressor swallows a message, the same message was
  let through earlier in the run, less than one window before.\<close>

theorem suppressed_line_was_logged:
  assumes "suppressor_run (NewSuppressor w n) (h @ [(m, t, True)]) s"
  shows "\<exists>u. (m, u, False) \<in> set h \<and> time_sub t u < w"
  using rs.suppressed_was_logged[OF assms NewSuppressor_inv NewSuppressor_empty(1)] by simp

theorem suppressed_line_was_logged_witness:
  "(\<exists>s. suppressor_run (NewSuppressor 10 4) ([(''a'', 0, False)] @ [(''a'', 5, True)]) s) \<and>
   (\<exists>u. (''a'', u, False) \<in> set [(''a'', 0, False)] \<and> time_sub 5 u < 10)"
proof -
  have "suppressor_run (NewSuppressor 10 4) [(''a'', 0, False)]
      \<lparr>window = 10, max_entries = 4, last_seen = [(''a'', 0)]\<rparr>"
    by (rule run_one) (simp add: NewSuppressor_def SuppressedAt_def drop_expired_def)
  from run_snoc[OF this, of "''a''" 5 True] have
    r: "suppressor_run (NewSuppressor 10 4) ([(''a'', 0, False)] @ [(''a'', 5, True)])
      \<lparr>window = 10, max_entries = 4, last_seen = [(''a'', 0)]\<rparr>"
    by (simp add: SuppressedAt_def time_sub_def min_int64_def max_int64_def)
  from r suppressed_line_was_logged[OF r] show ?thesis by blast
qed

text \<open>The rate limit itself, for the scrape logger: if the clock does not run backwards and no
  more distinct errors occur than the logger tracks, the same error is not logged twice within
  one window.\<close>

theorem scrape_errors_rate_limited:
  assumes mono: "sorted (map snd calls)" and few: "card (fst ` set calls) \<le> 32"
    and lines: "scrape_lines (println_all newScrapeErrorLogger calls) = xs @ (u, m) # ys @ (t, m) # zs"
  shows "scrapeErrorRepeatWindow \<le> time_sub t u"
  using scrape_log.lines_apart[OF _ _ mono _ lines[unfolded println_all_emit]] few
  by (simp add: newScrapeErrorLogger_def maxTrackedScrapeErrors_def)

theorem scrape_errors_rate_limited_witness:
  "scrape_lines (println_all newScrapeErrorLogger
      [(''e1'', 0), (''e1'', 1), (''e1'', 300000000000)]) =
     [] @ (0, ''e'') # [] @ (300000000000, ''e'') # [] \<and>
   scrapeErrorRepeatWindow \<le> time_sub 300000000000 0"
proof -
  let ?c = "[(''e1'', 0), (''e1'', 1), (''e1'', 300000000000)] :: (string \<times> nanos) list"
  have l: "scrape_lines (println_all newScrapeErrorLogger ?c) =
     [] @ (0, ''e'') # [] @ (300000000000, ''e'') # []"
    by code_simp
  have "sorted (map snd ?c)" and "card (fst ` set ?c) \<le> 32" by simp_all
  from l scrape_errors_rate_limited[OF this l] show ?thesis by simp
qed

text \<open>When the memory is full the entry that is forgotten is a least recent one: nothing that
  survives the eviction was logged before it.\<close>

theorem eviction_forgets_the_oldest:
  assumes "suppressor_inv s" and "SuppressedAt s msg now = (False, s')"
    and gone: "recall s m = Some u" "time_sub now u < window s" "recall s' m = None"
    and kept: "m' \<noteq> msg" "recall s' m' = Some u'"
  shows "u \<le> u'"
proof -
  let ?live = "drop_expired (window s) now (last_seen s)"
  from assms(2) have upd: "recall s' = (map_of (survivors s now))(msg \<mapsto> now)"
    by (auto simp: SuppressedAt_eq recall_def AList.update_conv' split: if_splits)
  have live: "map_of ?live m = Some u"
    using gone assms(1) by (simp add: drop_expired_def recall_def suppressor_inv_def map_of_filter_pair)
  then have ne: "?live \<noteq> []" by auto
  from upd gone(3) have "map_of (survivors s now) m = None" by (auto split: if_splits)
  with live have ev: "survivors s now = evict_oldest ?live"
    by (auto simp: survivors_def Let_def split: if_splits)
  obtain om ot where o: "(om, ot) \<in> set ?live" "\<forall>(k, t) \<in> set ?live. ot \<le> t"
    "evict_oldest ?live = AList.delete om ?live" using ne by (rule evict_oldest_spec)
  have "om = m"
    using \<open>map_of (survivors s now) m = None\<close> live by (auto simp: ev o(3) AList.delete_conv' split: if_splits)
  moreover have "distinct (keys ?live)" using assms(1) by (simp add: suppressor_inv_def distinct_drop_expired)
  ultimately have "ot = u" using o(1) live by (simp add: map_of_eq_Some_iff)
  moreover have "map_of (survivors s now) m' = Some u'" using upd kept by simp
  then have "map_of ?live m' = Some u'" by (auto simp: ev o(3) AList.delete_conv' split: if_splits)
  ultimately show ?thesis using o(2) by (auto dest: map_of_SomeD)
qed

theorem eviction_forgets_the_oldest_witness:
  "\<exists>s s' :: suppressor. SuppressedAt s ''c'' 6 = (False, s') \<and> recall s ''a'' = Some 1 \<and>
     recall s' ''a'' = None \<and> recall s' ''b'' = Some 5 \<and> (1::int) \<le> 5"
proof -
  let ?s = "\<lparr>window = 10, max_entries = 2, last_seen = [(''b'', 5), (''a'', 1)]\<rparr>"
  let ?s' = "\<lparr>window = 10, max_entries = 2, last_seen = [(''b'', 5), (''c'', 6)]\<rparr>"
  have ask: "SuppressedAt ?s ''c'' 6 = (False, ?s')" by code_simp
  have inv: "suppressor_inv ?s" by (simp add: suppressor_inv_def)
  have r: "recall ?s ''a'' = Some 1" "time_sub 6 1 < window ?s" "recall ?s' ''a'' = None"
    "''b'' \<noteq> ''c''" "recall ?s' ''b'' = Some 5"
    by (simp_all add: recall_def time_sub_def min_int64_def max_int64_def)
  from ask r eviction_forgets_the_oldest[OF inv ask r] show ?thesis by blast
qed

end
