(* ===== verification/Metricscap.thy ===== *)
theory Metricscap
  imports Prelude
begin

text \<open>
  The export-side cardinality cap of \<^verbatim>\<open>internal/metricscap/reader.go\<close>, OTLP half: rules name an
  instrument and an attribute key, a bucket per budget admits the first \<open>Max\<close> values and folds
  every further one into \<^verbatim>\<open>"other"\<close>, and the data points that become equal are merged.

  The generic functions of the source (\<^verbatim>\<open>[N int64 | float64]\<close>) are polymorphic here in a type with
  addition and an order; \<open>'i\<close> is the integer and \<open>'f\<close> the floating instance.  Attribute sets are
  the list an iterator yields; \<^verbatim>\<open>attribute.NewSet\<close> is a parameter \<open>ns\<close>.
\<close>

definition OverflowValue :: string where "OverflowValue = ''other''"

record rule =
  InstrumentName :: string
  Key :: string
  Max :: int
  ScopeName :: string
  BudgetKey :: string

record bucket =
  bucket_key :: string
  bucket_max :: int
  seen :: "string list"

section \<open>The bucket\<close>

definition observe :: "bucket \<Rightarrow> string \<Rightarrow> string \<times> bucket" where
  "observe b value =
     (if value \<in> set (seen b) then (value, b)
      else if int (length (seen b)) \<ge> bucket_max b then (OverflowValue, b)
      else (value, b\<lparr>seen := seen b @ [value]\<rparr>))"

section \<open>Attribute sets\<close>

fun rewrite_kvs :: "string \<Rightarrow> bucket \<Rightarrow> key_value list \<Rightarrow> key_value list \<times> bool \<times> bucket" where
  "rewrite_kvs key b [] = ([], False, b)"
| "rewrite_kvs key b (kv # rest) =
     (if fst kv = key then
        let (nxt, b1) = observe b (AsString (snd kv));
            (kvs, changed, b2) = rewrite_kvs key b1 rest
        in ((key, StrV nxt) # kvs, nxt \<noteq> AsString (snd kv) \<or> changed, b2)
      else
        let (kvs, changed, b2) = rewrite_kvs key b rest in (kv # kvs, changed, b2))"

definition rewriteSet ::
  "(key_value list \<Rightarrow> key_value list) \<Rightarrow> key_value list \<Rightarrow> string \<Rightarrow> bucket \<Rightarrow> key_value list \<times> bucket" where
  "rewriteSet ns s key b =
     (let (kvs, changed, b') = rewrite_kvs key b s in (if \<not> changed then s else ns kvs, b'))"

fun rewrite_sets ::
  "(key_value list \<Rightarrow> key_value list) \<Rightarrow> string \<Rightarrow> bucket \<Rightarrow> key_value list list \<Rightarrow>
   key_value list list \<times> bucket" where
  "rewrite_sets ns key b [] = ([], b)"
| "rewrite_sets ns key b (s # ss) =
     (let (s', b1) = rewriteSet ns s key b; (ss', b2) = rewrite_sets ns key b1 ss in (s' # ss', b2))"

section \<open>Data points and their merging\<close>

record 'n exemplar =
  FilteredAttributes :: "key_value list"
  ExValue :: 'n
  SpanID :: "8 word list"
  TraceID :: "8 word list"

record 'n data_point =
  Attributes :: "key_value list"
  Value :: 'n
  Exemplars :: "'n exemplar list"

record 'n histogram_point =
  HAttributes :: "key_value list"
  Count :: "64 word"
  Sum :: 'n
  Bounds :: "nat list"
  BucketCounts :: "64 word list"
  Min :: "'n option"
  HMax :: "'n option"
  HExemplars :: "'n exemplar list"

definition cloneExemplars :: "'n exemplar list \<Rightarrow> 'n exemplar list" where
  "cloneExemplars es =
     (if es = [] then []
      else map (\<lambda>e. e\<lparr>FilteredAttributes := [] @ FilteredAttributes e, SpanID := [] @ SpanID e,
                      TraceID := [] @ TraceID e\<rparr>) es)"

definition cloneDataPoint :: "'n data_point \<Rightarrow> 'n data_point" where
  "cloneDataPoint dp = dp\<lparr>Exemplars := cloneExemplars (Exemplars dp)\<rparr>"

definition cloneHistogramDataPoint :: "'n histogram_point \<Rightarrow> 'n histogram_point" where
  "cloneHistogramDataPoint dp =
     dp\<lparr>Bounds := [] @ Bounds dp, BucketCounts := [] @ BucketCounts dp,
        HExemplars := cloneExemplars (HExemplars dp)\<rparr>"

text \<open>\<^verbatim>\<open>for i := range src.BucketCounts { if i < len(dst.BucketCounts) { dst[i] += src[i] } }\<close>\<close>

fun add_counts :: "64 word list \<Rightarrow> 64 word list \<Rightarrow> 64 word list" where
  "add_counts (d # ds) (s # ss) = (d + s) # add_counts ds ss"
| "add_counts ds [] = ds"
| "add_counts [] ss = []"

definition mergeHistogram ::
  "'n::{plus, ord} histogram_point \<Rightarrow> 'n histogram_point \<Rightarrow> 'n histogram_point" where
  "mergeHistogram dst src =
     dst\<lparr>Count := Count dst + Count src,
         Sum := Sum dst + Sum src,
         BucketCounts := add_counts (BucketCounts dst) (BucketCounts src),
         Min := (case Min src of None \<Rightarrow> Min dst
                 | Some v \<Rightarrow> (case Min dst of None \<Rightarrow> Some v | Some cur \<Rightarrow> if v < cur then Some v else Some cur)),
         HMax := (case HMax src of None \<Rightarrow> HMax dst
                 | Some v \<Rightarrow> (case HMax dst of None \<Rightarrow> Some v | Some cur \<Rightarrow> if v > cur then Some v else Some cur)),
         HExemplars := HExemplars dst @ HExemplars src\<rparr>"

text \<open>The loop the three merges share: \<open>index\<close> maps an attribute set to its position in \<open>out\<close>.\<close>

fun merge_loop ::
  "('p \<Rightarrow> 'k) \<Rightarrow> ('p \<Rightarrow> 'p \<Rightarrow> 'p) \<Rightarrow> ('k \<Rightarrow> nat option) \<Rightarrow> 'p list \<Rightarrow> 'p list \<Rightarrow> 'p list" where
  "merge_loop key comb index out [] = out"
| "merge_loop key comb index out (dp # rest) =
     (case index (key dp) of
        Some i \<Rightarrow> merge_loop key comb index (out[i := comb (out ! i) dp]) rest
      | None \<Rightarrow> merge_loop key comb (index(key dp \<mapsto> length out)) (out @ [dp]) rest)"

definition mergeHistograms :: "'n::{plus, ord} histogram_point list \<Rightarrow> 'n histogram_point list" where
  "mergeHistograms ps = merge_loop HAttributes mergeHistogram Map.empty [] ps"

definition add_point :: "'n::plus data_point \<Rightarrow> 'n data_point \<Rightarrow> 'n data_point" where
  "add_point dst dp = dst\<lparr>Value := Value dst + Value dp, Exemplars := Exemplars dst @ Exemplars dp\<rparr>"

definition mergeSums :: "'n::plus data_point list \<Rightarrow> 'n data_point list" where
  "mergeSums ps = merge_loop Attributes add_point Map.empty [] ps"

definition mergeGauges :: "'n data_point list \<Rightarrow> 'n data_point list" where
  "mergeGauges ps = merge_loop Attributes (\<lambda>_ dp. dp) Map.empty [] ps"

section \<open>Metrics and the limiter\<close>

datatype ('i, 'f) mdata =
    HistogramI "'i histogram_point list" | HistogramF "'f histogram_point list"
  | SumI "'i data_point list" | SumF "'f data_point list"
  | GaugeI "'i data_point list" | GaugeF "'f data_point list"
  | OtherData

definition rewrite_hist ::
  "(key_value list \<Rightarrow> key_value list) \<Rightarrow> string \<Rightarrow> bucket \<Rightarrow> 'n::{plus, ord} histogram_point list \<Rightarrow>
   'n histogram_point list \<times> bucket" where
  "rewrite_hist ns key b ps =
     (let cs = map cloneHistogramDataPoint ps; (as, b') = rewrite_sets ns key b (map HAttributes cs)
      in (mergeHistograms (map2 (\<lambda>p a. p\<lparr>HAttributes := a\<rparr>) cs as), b'))"

definition rewrite_points ::
  "(key_value list \<Rightarrow> key_value list) \<Rightarrow> ('n data_point list \<Rightarrow> 'n data_point list) \<Rightarrow> string \<Rightarrow> bucket \<Rightarrow>
   'n data_point list \<Rightarrow> 'n data_point list \<times> bucket" where
  "rewrite_points ns merge key b ps =
     (let cs = map cloneDataPoint ps; (as, b') = rewrite_sets ns key b (map Attributes cs)
      in (merge (map2 (\<lambda>p a. p\<lparr>Attributes := a\<rparr>) cs as), b'))"

fun rewriteMetric ::
  "(key_value list \<Rightarrow> key_value list) \<Rightarrow> ('i::{plus, ord}, 'f::{plus, ord}) mdata \<Rightarrow> bucket \<Rightarrow> string \<Rightarrow>
   ('i, 'f) mdata \<times> bucket" where
  "rewriteMetric ns (HistogramI ps) b key = apfst HistogramI (rewrite_hist ns key b ps)"
| "rewriteMetric ns (HistogramF ps) b key = apfst HistogramF (rewrite_hist ns key b ps)"
| "rewriteMetric ns (SumI ps) b key = apfst SumI (rewrite_points ns mergeSums key b ps)"
| "rewriteMetric ns (SumF ps) b key = apfst SumF (rewrite_points ns mergeSums key b ps)"
| "rewriteMetric ns (GaugeI ps) b key = apfst GaugeI (rewrite_points ns mergeGauges key b ps)"
| "rewriteMetric ns (GaugeF ps) b key = apfst GaugeF (rewrite_points ns mergeGauges key b ps)"
| "rewriteMetric ns OtherData b key = (OtherData, b)"

record limiter =
  rules :: "rule list"
  buckets :: "string \<Rightarrow> bucket option"

record ('i, 'f) metric =
  metric_name :: string
  metric_data :: "('i, 'f) mdata"

type_synonym ('i, 'f) scope_metrics = "string \<times> ('i, 'f) metric list"

definition NewLimiter :: "rule list \<Rightarrow> limiter" where
  "NewLimiter rs =
     \<lparr>rules = filter (\<lambda>r. \<not> (InstrumentName r = [] \<or> Key r = [] \<or> Max r \<le> 0)) rs,
      buckets = Map.empty\<rparr>"

definition rulesFor :: "limiter \<Rightarrow> string \<Rightarrow> string \<Rightarrow> rule list" where
  "rulesFor l scope name =
     filter (\<lambda>r. InstrumentName r = name \<and> \<not> (ScopeName r \<noteq> [] \<and> ScopeName r \<noteq> scope)) (rules l)"

definition budget_of :: "rule \<Rightarrow> string" where
  "budget_of r =
     (if BudgetKey r = [] then ScopeName r @ [CHR 0x00] @ InstrumentName r @ [CHR 0x00] @ Key r
      else BudgetKey r)"

text \<open>\<^verbatim>\<open>LoadOrStore\<close>: the bucket of the rule's budget and the limiter that holds it.\<close>

definition bucket_for :: "limiter \<Rightarrow> rule \<Rightarrow> bucket \<times> limiter" where
  "bucket_for l r =
     (case buckets l (budget_of r) of
        Some b \<Rightarrow> (b, l)
      | None \<Rightarrow> let b = \<lparr>bucket_key = Key r, bucket_max = Max r, seen = []\<rparr>
                in (b, l\<lparr>buckets := (buckets l)(budget_of r \<mapsto> b)\<rparr>))"

fun apply_rules ::
  "(key_value list \<Rightarrow> key_value list) \<Rightarrow> limiter \<Rightarrow> ('i::{plus, ord}, 'f::{plus, ord}) metric \<Rightarrow>
   rule list \<Rightarrow> ('i, 'f) metric \<times> limiter" where
  "apply_rules ns l m [] = (m, l)"
| "apply_rules ns l m (r # rs) =
     (let (b, l1) = bucket_for l r;
          (d, b') = rewriteMetric ns (metric_data m) b (Key r);
          l2 = l1\<lparr>buckets := (buckets l1)(budget_of r \<mapsto> b')\<rparr>
      in apply_rules ns l2 (m\<lparr>metric_data := d\<rparr>) rs)"

fun rewrite_metrics ::
  "(key_value list \<Rightarrow> key_value list) \<Rightarrow> limiter \<Rightarrow> string \<Rightarrow> ('i::{plus, ord}, 'f::{plus, ord}) metric list \<Rightarrow>
   ('i, 'f) metric list \<times> limiter" where
  "rewrite_metrics ns l scope [] = ([], l)"
| "rewrite_metrics ns l scope (m # ms) =
     (let (m', l1) = apply_rules ns l m (rulesFor l scope (metric_name m));
          (ms', l2) = rewrite_metrics ns l1 scope ms
      in (m' # ms', l2))"

fun rewrite_scopes ::
  "(key_value list \<Rightarrow> key_value list) \<Rightarrow> limiter \<Rightarrow> ('i::{plus, ord}, 'f::{plus, ord}) scope_metrics list \<Rightarrow>
   ('i, 'f) scope_metrics list \<times> limiter" where
  "rewrite_scopes ns l [] = ([], l)"
| "rewrite_scopes ns l ((scope, ms) # rest) =
     (let (ms', l1) = rewrite_metrics ns l scope ms; (rest', l2) = rewrite_scopes ns l1 rest
      in ((scope, ms') # rest', l2))"

definition Rewrite ::
  "(key_value list \<Rightarrow> key_value list) \<Rightarrow> limiter \<Rightarrow> ('i::{plus, ord}, 'f::{plus, ord}) scope_metrics list \<Rightarrow>
   ('i, 'f) scope_metrics list \<times> limiter" where
  "Rewrite ns l rm = (if rules l = [] then (rm, l) else rewrite_scopes ns l rm)"

text \<open>\<^verbatim>\<open>Exporter.Export\<close>: the inner exporter is the parameter \<open>inner\<close>, called on the rewritten data.\<close>

definition Export ::
  "(key_value list \<Rightarrow> key_value list) \<Rightarrow> (('i, 'f) scope_metrics list \<Rightarrow> 'e option) \<Rightarrow> limiter \<Rightarrow>
   ('i::{plus, ord}, 'f::{plus, ord}) scope_metrics list \<Rightarrow> 'e option \<times> limiter" where
  "Export ns inner l rm = (let (rm', l') = Rewrite ns l rm in (inner rm', l'))"


section \<open>The merge contract\<close>

text \<open>What a merge of points promises: the combined point keeps the attribute set.  The loop then
  computes one point per attribute set, in order of first appearance, each the left fold of the
  points that carry the set.\<close>

definition grouped :: "('p \<Rightarrow> 'k) \<Rightarrow> ('p \<Rightarrow> 'p \<Rightarrow> 'p) \<Rightarrow> 'p list \<Rightarrow> 'p list" where
  "grouped key comb ps =
     map (\<lambda>k. foldl1 comb (filter (\<lambda>p. key p = k) ps)) (firsts (map key ps))"

definition index_ok :: "('p \<Rightarrow> 'k) \<Rightarrow> ('k \<Rightarrow> nat option) \<Rightarrow> 'p list \<Rightarrow> bool" where
  "index_ok key index out \<longleftrightarrow>
     (\<forall>k i. index k = Some i \<longleftrightarrow> i < length out \<and> key (out ! i) = k) \<and> distinct (map key out)"

locale point_merge =
  fixes key :: "'p \<Rightarrow> 'k" and comb :: "'p \<Rightarrow> 'p \<Rightarrow> 'p"
  assumes comb_key: "key a = key b \<Longrightarrow> key (comb a b) = key a"
begin

lemma index_None:
  assumes "index_ok key index out"
  shows "index k = None \<longleftrightarrow> k \<notin> set (map key out)"
proof -
  have "index k = None \<longleftrightarrow> \<not> (\<exists>i. index k = Some i)" by simp
  also have "\<dots> \<longleftrightarrow> \<not> (\<exists>i < length out. key (out ! i) = k)"
    using assms unfolding index_ok_def by blast
  also have "\<dots> \<longleftrightarrow> k \<notin> set (map key out)"
    unfolding in_set_conv_nth by auto
  finally show ?thesis .
qed

lemma index_ok_hit:
  assumes "index_ok key index out" and "index (key dp) = Some i"
  shows "index_ok key index (out[i := comb (out ! i) dp])"
proof -
  have i: "i < length out" "key (out ! i) = key dp" using assms by (auto simp: index_ok_def)
  then have "map key (out[i := comb (out ! i) dp]) = map key out"
    by (simp add: map_update comb_key list_update_same_conv)
  then have "key (out[i := comb (out ! i) dp] ! j) = key (out ! j)" if "j < length out" for j
    using that by (metis length_list_update nth_map)
  with assms(1) \<open>map key (out[i := comb (out ! i) dp]) = map key out\<close> show ?thesis
    by (auto simp: index_ok_def)
qed

lemma index_ok_miss:
  assumes "index_ok key index out" and "index (key dp) = None"
  shows "index_ok key (index(key dp \<mapsto> length out)) (out @ [dp])"
proof -
  have new: "key dp \<notin> set (map key out)" using index_None[OF assms(1)] assms(2) by blast
  have "(index(key dp \<mapsto> length out)) k = Some i \<longleftrightarrow>
      i < length (out @ [dp]) \<and> key ((out @ [dp]) ! i) = k" for k i
  proof (cases "i < length out")
    case True
    then have "key (out ! i) \<noteq> key dp" using new by (metis length_map nth_map nth_mem)
    with True assms(1) show ?thesis by (auto simp: index_ok_def nth_append)
  next
    case False
    then have "index k \<noteq> Some i" using assms(1) by (auto simp: index_ok_def)
    with False show ?thesis by (auto simp: nth_append)
  qed
  with assms(1) new show ?thesis by (simp add: index_ok_def)
qed

lemma merge_loop_keys:
  "index_ok key index out \<Longrightarrow> distinct (map key (merge_loop key comb index out ps)) \<and>
   set (map key (merge_loop key comb index out ps)) = set (map key out) \<union> set (map key ps)"
proof (induction ps arbitrary: index out)
  case Nil
  then show ?case by (simp add: index_ok_def)
next
  case (Cons dp ps)
  show ?case
  proof (cases "index (key dp)")
    case None
    define idx where "idx = index(key dp \<mapsto> length out)"
    have "merge_loop key comb index out (dp # ps) = merge_loop key comb idx (out @ [dp]) ps"
      using None by (simp add: idx_def)
    with Cons.IH[OF index_ok_miss[OF Cons.prems None, folded idx_def]] show ?thesis by simp
  next
    case (Some i)
    then have i: "i < length out" "key (out ! i) = key dp" using Cons.prems by (auto simp: index_ok_def)
    then have "map key (out[i := comb (out ! i) dp]) = map key out"
      by (simp add: map_update comb_key list_update_same_conv)
    moreover have "key dp \<in> set (map key out)" using i by (metis length_map nth_map nth_mem)
    ultimately show ?thesis
      using Cons.IH[OF index_ok_hit[OF Cons.prems Some]] Some by auto
  qed
qed

lemma empty_index_ok: "index_ok key Map.empty []"
  by (simp add: index_ok_def)

lemma merged_keys:
  "distinct (map key (merge_loop key comb Map.empty [] ps))"
  "set (map key (merge_loop key comb Map.empty [] ps)) = set (map key ps)"
  using merge_loop_keys[OF empty_index_ok, of ps] by simp_all

lemma grouped_snoc_hit:
  assumes "key dp \<in> set (map key done)" and "distinct (map key (grouped key comb done))"
    and "i < length (grouped key comb done)" and "firsts (map key done) ! i = key dp"
  shows "grouped key comb (done @ [dp]) =
    (grouped key comb done)[i := comb (grouped key comb done ! i) dp]"
proof (rule nth_equalityI)
  have f: "firsts (map key (done @ [dp])) = firsts (map key done)"
    using assms(1) by (simp add: firsts_snoc)
  show "length (grouped key comb (done @ [dp])) =
    length ((grouped key comb done)[i := comb (grouped key comb done ! i) dp])"
    by (simp add: grouped_def f[simplified])
  fix j assume "j < length (grouped key comb (done @ [dp]))"
  then have j: "j < length (firsts (map key done))" by (simp add: grouped_def f[simplified])
  have i: "i < length (firsts (map key done))" using assms(3) by (simp add: grouped_def)
  show "grouped key comb (done @ [dp]) ! j =
    (grouped key comb done)[i := comb (grouped key comb done ! i) dp] ! j"
  proof (cases "j = i")
    case True
    have "filter (\<lambda>p. key p = key dp) done \<noteq> []"
      using assms(1) by (auto simp: filter_empty_conv)
    with True i assms(4) show ?thesis
      by (simp add: grouped_def f[simplified] foldl1_snoc)
  next
    case False
    then have "firsts (map key done) ! j \<noteq> key dp"
      using i j assms(4) distinct_firsts[of "map key done"] by (metis nth_eq_iff_index_eq)
    with False i j show ?thesis by (simp add: grouped_def f[simplified])
  qed
qed

lemma grouped_snoc_miss:
  assumes "key dp \<notin> set (map key done)"
  shows "grouped key comb (done @ [dp]) = grouped key comb done @ [dp]"
proof -
  have f: "firsts (map key (done @ [dp])) = firsts (map key done) @ [key dp]"
    using assms by (simp add: firsts_snoc)
  have "filter (\<lambda>p. key p = key dp) done = []" using assms by (auto simp: filter_empty_conv image_iff)
  moreover have "k \<in> set (firsts (map key done)) \<Longrightarrow> key dp \<noteq> k" for k using assms by auto
  ultimately show ?thesis by (auto simp: grouped_def f[simplified])
qed

lemma grouped_keys: "map key (grouped key comb ps) = firsts (map key ps)"
proof -
  have "key (foldl1 comb (filter (\<lambda>p. key p = k) ps)) = k" if "k \<in> set (map key ps)" for k
  proof -
    have "\<forall>p \<in> set qs. key p = k \<Longrightarrow> qs \<noteq> [] \<Longrightarrow> key (foldl1 comb qs) = k" for qs
    proof (induction qs rule: rev_induct)
      case (snoc q qs)
      then show ?case by (cases "qs = []") (auto simp: foldl1_snoc comb_key)
    qed simp
    moreover have "filter (\<lambda>p. key p = k) ps \<noteq> []" using that by (auto simp: filter_empty_conv)
    ultimately show ?thesis by simp
  qed
  then have "map (\<lambda>k. key (foldl1 comb (filter (\<lambda>p. key p = k) ps))) (firsts (map key ps)) =
    firsts (map key ps)" by (intro map_idI) simp
  then show ?thesis by (simp add: grouped_def comp_def)
qed

text \<open>The loop computes the reference grouping.\<close>

lemma merge_loop_grouped:
  "index_ok key index (grouped key comb done) \<Longrightarrow>
   merge_loop key comb index (grouped key comb done) ps = grouped key comb (done @ ps)"
proof (induction ps arbitrary: index "done")
  case (Cons dp ps)
  show ?case
  proof (cases "index (key dp)")
    case None
    then have "key dp \<notin> set (map key done)"
      using index_None[OF Cons.prems, of "key dp"] by (metis grouped_keys set_firsts)
    note g = grouped_snoc_miss[OF this]
    define idx where "idx = index(key dp \<mapsto> length (grouped key comb done))"
    have "index_ok key idx (grouped key comb (done @ [dp]))"
      using index_ok_miss[OF Cons.prems None, folded idx_def] by (simp add: g)
    from Cons.IH[OF this] None show ?thesis by (simp add: g flip: idx_def)
  next
    case (Some i)
    then have i: "i < length (grouped key comb done)" "key (grouped key comb done ! i) = key dp"
      using Cons.prems by (auto simp: index_ok_def)
    then have f: "firsts (map key done) ! i = key dp" by (metis grouped_keys nth_map)
    have mem: "key dp \<in> set (map key done)"
      using i by (metis grouped_keys length_map nth_map nth_mem set_firsts)
    have "distinct (map key (grouped key comb done))" using Cons.prems by (simp add: index_ok_def)
    note g = grouped_snoc_hit[OF mem this i(1) f]
    from index_ok_hit[OF Cons.prems Some] have "index_ok key index (grouped key comb (done @ [dp]))"
      by (simp add: g)
    from Cons.IH[OF this] Some show ?thesis by (simp add: g)
  qed
qed simp

lemma merge_is_grouped: "merge_loop key comb Map.empty [] ps = grouped key comb ps"
  using merge_loop_grouped[of Map.empty "[]" ps] by (simp add: grouped_def index_ok_def)

text \<open>A quantity the combination adds up is conserved by the merge.\<close>

lemma merge_loop_conserves:
  fixes \<mu> :: "'p \<Rightarrow> 'a::comm_monoid_add"
  assumes add: "\<And>a b. P a \<Longrightarrow> P b \<Longrightarrow> P (comb a b) \<and> \<mu> (comb a b) = \<mu> a + \<mu> b"
  shows "index_ok key index out \<Longrightarrow> list_all P out \<Longrightarrow> list_all P ps \<Longrightarrow>
    sum_list (map \<mu> (merge_loop key comb index out ps)) = sum_list (map \<mu> out) + sum_list (map \<mu> ps)"
proof (induction ps arbitrary: index out)
  case (Cons dp ps)
  have dp: "P dp" "list_all P ps" using Cons.prems(3) by auto
  show ?case
  proof (cases "index (key dp)")
    case None
    define idx where "idx = index(key dp \<mapsto> length out)"
    have "merge_loop key comb index out (dp # ps) = merge_loop key comb idx (out @ [dp]) ps"
      using None by (simp add: idx_def)
    with Cons.IH[OF index_ok_miss[OF Cons.prems(1) None, folded idx_def]] Cons.prems(2) dp show ?thesis
      by (simp add: ac_simps)
  next
    case (Some i)
    then have i: "i < length (map \<mu> out)" using Cons.prems by (auto simp: index_ok_def)
    then have Pi: "P (out ! i)" using Cons.prems(2) by (simp add: list_all_length)
    have "sum_list (map \<mu> (out[i := comb (out ! i) dp])) = sum_list (map \<mu> out) + \<mu> dp"
      using sum_list_update_add[OF i, of "\<mu> dp"] i add[OF Pi dp(1)] by (simp add: map_update)
    moreover have "list_all P (out[i := comb (out ! i) dp])"
      using Cons.prems(2) add[OF Pi dp(1)] by (auto simp: list_all_iff dest: set_update_subset_insert[THEN subsetD])
    ultimately show ?thesis
      using Cons.IH[OF index_ok_hit[OF Cons.prems(1) Some]] Some dp by (simp add: ac_simps)
  qed
qed simp

lemma merge_conserves_on:
  fixes \<mu> :: "'p \<Rightarrow> 'a::comm_monoid_add"
  assumes "\<And>a b. P a \<Longrightarrow> P b \<Longrightarrow> P (comb a b) \<and> \<mu> (comb a b) = \<mu> a + \<mu> b" "list_all P ps"
  shows "sum_list (map \<mu> (merge_loop key comb Map.empty [] ps)) = sum_list (map \<mu> ps)"
  using merge_loop_conserves[of P, OF assms(1) empty_index_ok] assms(2) by simp

lemma merge_conserves:
  fixes \<mu> :: "'p \<Rightarrow> 'a::comm_monoid_add"
  assumes "\<And>a b. \<mu> (comb a b) = \<mu> a + \<mu> b"
  shows "sum_list (map \<mu> (merge_loop key comb Map.empty [] ps)) = sum_list (map \<mu> ps)"
  by (rule merge_conserves_on[of "\<lambda>_. True"]) (simp_all add: assms list_all_iff)

end

interpretation hist: point_merge HAttributes mergeHistogram
  by unfold_locales (simp add: mergeHistogram_def)

interpretation sums: point_merge Attributes add_point
  by unfold_locales (simp add: add_point_def)

interpretation gauges: point_merge Attributes "\<lambda>_ dp. dp"
  by unfold_locales simp


section \<open>Buckets only grow, and never past their maximum\<close>

definition bucket_inv :: "bucket \<Rightarrow> bool" where
  "bucket_inv b \<longleftrightarrow> 0 < bucket_max b \<and> distinct (seen b) \<and> int (length (seen b)) \<le> bucket_max b"

definition extends :: "bucket \<Rightarrow> bucket \<Rightarrow> bool" where
  "extends b b' \<longleftrightarrow> bucket_max b' = bucket_max b \<and> set (seen b) \<subseteq> set (seen b') \<and>
     (bucket_inv b \<longrightarrow> bucket_inv b')"

definition admitted :: "bucket \<Rightarrow> string set" where
  "admitted b = insert OverflowValue (set (seen b))"

lemma extends_refl [simp]: "extends b b"
  by (simp add: extends_def)

lemma extends_trans [trans]: "extends a b \<Longrightarrow> extends b c \<Longrightarrow> extends a c"
  by (auto simp: extends_def)

lemma extends_admitted: "extends b b' \<Longrightarrow> v \<in> admitted b \<Longrightarrow> v \<in> admitted b'"
  by (auto simp: extends_def admitted_def)

lemma observe_spec:
  assumes "observe b v = (n, b')"
  shows "extends b b'" "n \<in> admitted b'" "n = v \<or> n = OverflowValue"
  using assms by (auto simp: observe_def extends_def admitted_def bucket_inv_def split: if_splits)

lemma observe_seen: "v \<in> set (seen b) \<Longrightarrow> observe b v = (v, b)"
  by (simp add: observe_def)

text \<open>The attribute set carries an admitted value under the key, if any.\<close>

definition capped :: "string \<Rightarrow> string set \<Rightarrow> key_value list \<Rightarrow> bool" where
  "capped key vs attrs \<longleftrightarrow> (\<forall>v. (key, v) \<in> set attrs \<longrightarrow> AsString v \<in> vs)"

lemma capped_mono: "capped key vs a \<Longrightarrow> vs \<subseteq> ws \<Longrightarrow> capped key ws a"
  by (auto simp: capped_def)

lemma rewrite_kvs_spec:
  assumes "rewrite_kvs key b s = (kvs, changed, b')"
  shows "extends b b' \<and> capped key (admitted b') kvs \<and>
    (\<not> changed \<longrightarrow> capped key (admitted b') s) \<and>
    (\<forall>k. capped k vs s \<longrightarrow> OverflowValue \<in> vs \<longrightarrow> capped k vs kvs)"
  using assms
proof (induction key b s arbitrary: kvs changed b' rule: rewrite_kvs.induct)
  case (1 key b)
  then show ?case by (simp add: capped_def)
next
  case (2 key b kv rest)
  show ?case
  proof (cases "fst kv = key")
    case True
    obtain n b1 where o: "observe b (AsString (snd kv)) = (n, b1)" by fastforce
    obtain ks c b2 where r: "rewrite_kvs key b1 rest = (ks, c, b2)" by (metis prod_cases3)
    from 2(1)[OF True o[symmetric] refl r] have IH: "extends b1 b2 \<and> capped key (admitted b2) ks \<and>
      (\<not> c \<longrightarrow> capped key (admitted b2) rest) \<and>
      (\<forall>k. capped k vs rest \<longrightarrow> OverflowValue \<in> vs \<longrightarrow> capped k vs ks)" .
    have e: "extends b b2" using observe_spec(1)[OF o] IH extends_trans by blast
    have n: "n \<in> admitted b2" using observe_spec(2)[OF o] IH extends_admitted by blast
    have eq: "kvs = (key, StrV n) # ks" "changed = (n \<noteq> AsString (snd kv) \<or> c)" "b' = b2"
      using 2(3) True o r by auto
    show ?thesis
      using e n IH observe_spec(3)[OF o] True unfolding eq capped_def by (cases kv) auto
  next
    case False
    obtain ks c b2 where r: "rewrite_kvs key b rest = (ks, c, b2)" by (metis prod_cases3)
    from 2(2)[OF False r] have IH: "extends b b2 \<and> capped key (admitted b2) ks \<and>
      (\<not> c \<longrightarrow> capped key (admitted b2) rest) \<and>
      (\<forall>k. capped k vs rest \<longrightarrow> OverflowValue \<in> vs \<longrightarrow> capped k vs ks)" .
    have eq: "kvs = kv # ks" "changed = c" "b' = b2" using 2(3) False r by auto
    show ?thesis using IH False unfolding eq capped_def by (cases kv) auto
  qed
qed

text \<open>What is used of \<^verbatim>\<open>attribute.NewSet\<close>: it sorts its arguments and drops earlier duplicates of a
  key, so its elements are among them.\<close>

definition newset_law :: "(key_value list \<Rightarrow> key_value list) \<Rightarrow> bool" where
  "newset_law ns \<longleftrightarrow> (\<forall>kvs. set (ns kvs) \<subseteq> set kvs)"

lemma rewriteSet_spec:
  assumes "newset_law ns" and "rewriteSet ns s key b = (s', b')"
  shows "extends b b' \<and> capped key (admitted b') s' \<and>
    (\<forall>k vs. capped k vs s \<longrightarrow> OverflowValue \<in> vs \<longrightarrow> capped k vs s')"
proof -
  obtain kvs c b2 where r: "rewrite_kvs key b s = (kvs, c, b2)" by (metis prod_cases3)
  note spec = rewrite_kvs_spec[OF r]
  have eq: "s' = (if \<not> c then s else ns kvs)" "b' = b2"
    using assms(2) r by (auto simp: rewriteSet_def)
  have sub: "capped k vs kvs \<Longrightarrow> capped k vs (ns kvs)" for k vs
    using assms(1) by (auto simp: newset_law_def capped_def)
  show ?thesis using spec sub by (auto simp: eq)
qed

lemma rewrite_sets_spec:
  assumes "newset_law ns" and "rewrite_sets ns key b ss = (ss', b')"
  shows "length ss' = length ss \<and> extends b b' \<and> (\<forall>a \<in> set ss'. capped key (admitted b') a) \<and>
    (\<forall>k vs. (\<forall>a \<in> set ss. capped k vs a) \<longrightarrow> OverflowValue \<in> vs \<longrightarrow> (\<forall>a \<in> set ss'. capped k vs a))"
  using assms(2)
proof (induction ss arbitrary: b ss' b')
  case (Cons s ss)
  obtain s1 b1 where r1: "rewriteSet ns s key b = (s1, b1)" by fastforce
  obtain ss1 b2 where r2: "rewrite_sets ns key b1 ss = (ss1, b2)" by fastforce
  have eq: "ss' = s1 # ss1" "b' = b2" using Cons.prems r1 r2 by auto
  note one = rewriteSet_spec[OF assms(1) r1] and more = Cons.IH[OF r2]
  have "capped key (admitted b2) s1"
    using one more capped_mono[of key "admitted b1" s1 "admitted b2"] extends_admitted[of b1 b2] by blast
  with one more extends_trans[of b b1 b2] show ?case by (auto simp: eq)
qed simp

section \<open>Every metric kind\<close>

fun mdata_attrs :: "('i, 'f) mdata \<Rightarrow> key_value list list" where
  "mdata_attrs (HistogramI ps) = map HAttributes ps"
| "mdata_attrs (HistogramF ps) = map HAttributes ps"
| "mdata_attrs (SumI ps) = map Attributes ps"
| "mdata_attrs (SumF ps) = map Attributes ps"
| "mdata_attrs (GaugeI ps) = map Attributes ps"
| "mdata_attrs (GaugeF ps) = map Attributes ps"
| "mdata_attrs OtherData = []"

lemma map2_replace:
  assumes "length as = length ps" and "\<And>p a. get (put p a) = a"
  shows "map get (map2 put ps as) = as"
  using assms(1)
proof (induction ps arbitrary: as)
  case (Cons p ps)
  then show ?case using assms(2) by (cases as) auto
qed simp

lemma clone_attrs [simp]:
  "HAttributes (cloneHistogramDataPoint p) = HAttributes p"
  "Attributes (cloneDataPoint q) = Attributes q"
  by (simp_all add: cloneHistogramDataPoint_def cloneDataPoint_def)

lemma rewrite_hist_attrs:
  assumes "newset_law ns" and "rewrite_hist ns key b ps = (qs, b')"
  shows "\<exists>as. rewrite_sets ns key b (map HAttributes ps) = (as, b') \<and>
    set (map HAttributes qs) = set as \<and> distinct (map HAttributes qs)"
proof -
  obtain as b2 where r: "rewrite_sets ns key b (map HAttributes ps) = (as, b2)" by fastforce
  let ?cs = "map2 (\<lambda>p a. p\<lparr>HAttributes := a\<rparr>) (map cloneHistogramDataPoint ps) as"
  have "length as = length ps" using rewrite_sets_spec[OF assms(1) r] by simp
  then have "map HAttributes ?cs = as" by (intro map2_replace) simp_all
  moreover have "qs = mergeHistograms ?cs" "b' = b2"
    using assms(2) r by (auto simp: rewrite_hist_def comp_def)
  ultimately show ?thesis
    using r hist.merged_keys[of ?cs] unfolding mergeHistograms_def by metis
qed

lemma rewrite_points_attrs:
  assumes "newset_law ns" and "rewrite_points ns merge key b ps = (qs, b')"
    and "\<And>xs. set (map Attributes (merge xs)) = set (map Attributes xs) \<and> distinct (map Attributes (merge xs))"
  shows "\<exists>as. rewrite_sets ns key b (map Attributes ps) = (as, b') \<and>
    set (map Attributes qs) = set as \<and> distinct (map Attributes qs)"
proof -
  obtain as b2 where r: "rewrite_sets ns key b (map Attributes ps) = (as, b2)" by fastforce
  let ?cs = "map2 (\<lambda>p a. p\<lparr>Attributes := a\<rparr>) (map cloneDataPoint ps) as"
  have "length as = length ps" using rewrite_sets_spec[OF assms(1) r] by simp
  then have "map Attributes ?cs = as" by (intro map2_replace) simp_all
  moreover have "qs = merge ?cs" "b' = b2"
    using assms(2) r by (auto simp: rewrite_points_def comp_def)
  ultimately show ?thesis using r assms(3)[of ?cs] by metis
qed

lemma merge_points_keys:
  "set (map Attributes (mergeSums xs)) = set (map Attributes xs) \<and> distinct (map Attributes (mergeSums xs))"
  "set (map Attributes (mergeGauges ys)) = set (map Attributes ys) \<and> distinct (map Attributes (mergeGauges ys))"
  unfolding mergeSums_def mergeGauges_def
  using sums.merged_keys[of xs] gauges.merged_keys[of ys] by simp_all

lemma rewriteMetric_attrs:
  assumes "newset_law ns" and "rewriteMetric ns d b key = (d', b')"
  shows "\<exists>as. rewrite_sets ns key b (mdata_attrs d) = (as, b') \<and>
    set (mdata_attrs d') = set as \<and> distinct (mdata_attrs d')"
proof (cases d)
  case (HistogramI ps)
  then show ?thesis using assms rewrite_hist_attrs[OF assms(1), of key b ps] by (cases "rewrite_hist ns key b ps") auto
next
  case (HistogramF ps)
  then show ?thesis using assms rewrite_hist_attrs[OF assms(1), of key b ps] by (cases "rewrite_hist ns key b ps") auto
next
  case (SumI ps)
  then show ?thesis using assms rewrite_points_attrs[OF assms(1) _ merge_points_keys(1), of key b ps]
    by (cases "rewrite_points ns mergeSums key b ps") auto
next
  case (SumF ps)
  then show ?thesis using assms rewrite_points_attrs[OF assms(1) _ merge_points_keys(1), of key b ps]
    by (cases "rewrite_points ns mergeSums key b ps") auto
next
  case (GaugeI ps)
  then show ?thesis using assms rewrite_points_attrs[OF assms(1) _ merge_points_keys(2), of key b ps]
    by (cases "rewrite_points ns mergeGauges key b ps") auto
next
  case (GaugeF ps)
  then show ?thesis using assms rewrite_points_attrs[OF assms(1) _ merge_points_keys(2), of key b ps]
    by (cases "rewrite_points ns mergeGauges key b ps") auto
next
  case OtherData
  then show ?thesis using assms by auto
qed

lemma rewriteMetric_spec:
  assumes "newset_law ns" and "rewriteMetric ns d b key = (d', b')"
  shows "extends b b' \<and> distinct (mdata_attrs d') \<and> (\<forall>a \<in> set (mdata_attrs d'). capped key (admitted b') a) \<and>
    (\<forall>k vs. (\<forall>a \<in> set (mdata_attrs d). capped k vs a) \<longrightarrow> OverflowValue \<in> vs \<longrightarrow>
       (\<forall>a \<in> set (mdata_attrs d'). capped k vs a))"
proof -
  obtain as where r: "rewrite_sets ns key b (mdata_attrs d) = (as, b')"
    and as: "set (mdata_attrs d') = set as" "distinct (mdata_attrs d')"
    using rewriteMetric_attrs[OF assms] by blast
  from rewrite_sets_spec[OF assms(1) r] as show ?thesis by blast
qed


section \<open>The limiter\<close>

definition limiter_inv :: "limiter \<Rightarrow> bool" where
  "limiter_inv l \<longleftrightarrow> (\<forall>r \<in> set (rules l). 0 < Max r) \<and>
     (\<forall>k b. buckets l k = Some b \<longrightarrow> bucket_inv b \<and>
        (\<exists>r \<in> set (rules l). budget_of r = k \<and> bucket_max b = Max r))"

definition limiter_extends :: "limiter \<Rightarrow> limiter \<Rightarrow> bool" where
  "limiter_extends l l' \<longleftrightarrow> rules l' = rules l \<and>
     (\<forall>k b. buckets l k = Some b \<longrightarrow> (\<exists>b'. buckets l' k = Some b' \<and> extends b b'))"

definition admitted_by :: "limiter \<Rightarrow> rule \<Rightarrow> string set" where
  "admitted_by l r = (case buckets l (budget_of r) of None \<Rightarrow> {OverflowValue} | Some b \<Rightarrow> admitted b)"

lemma limiter_extends_refl [simp]: "limiter_extends l l"
  by (simp add: limiter_extends_def)

lemma limiter_extends_trans: "limiter_extends a b \<Longrightarrow> limiter_extends b c \<Longrightarrow> limiter_extends a c"
  unfolding limiter_extends_def by (metis extends_trans)

lemma overflow_admitted [simp]: "OverflowValue \<in> admitted_by l r"
  by (simp add: admitted_by_def admitted_def split: option.splits)

lemma admitted_by_mono: "limiter_extends l l' \<Longrightarrow> admitted_by l r \<subseteq> admitted_by l' r"
proof -
  assume "limiter_extends l l'"
  then show ?thesis
    by (cases "buckets l (budget_of r)")
       (auto simp: limiter_extends_def admitted_by_def extends_def admitted_def split: option.splits dest!: spec)
qed

lemma NewLimiter_inv [go_inv]: "limiter_inv (NewLimiter rs)"
  by (auto simp: limiter_inv_def NewLimiter_def)

lemma limiter_rule_step:
  assumes "newset_law ns" "limiter_inv l" "r \<in> set (rules l)"
    and "bucket_for l r = (b, l1)" "rewriteMetric ns d b (Key r) = (d', b')"
    and "l2 = l1\<lparr>buckets := (buckets l1)(budget_of r \<mapsto> b')\<rparr>"
  shows "limiter_inv l2 \<and> limiter_extends l l2 \<and> admitted_by l2 r = admitted b'"
proof -
  have b: "bucket_inv b \<and> (\<exists>r' \<in> set (rules l). budget_of r' = budget_of r \<and> bucket_max b = Max r')"
    and l1: "rules l1 = rules l" "\<forall>k. k \<noteq> budget_of r \<longrightarrow> buckets l1 k = buckets l k"
    and old: "\<forall>b0. buckets l (budget_of r) = Some b0 \<longrightarrow> b0 = b"
    using assms(2-4)
    by (auto simp: bucket_for_def limiter_inv_def bucket_inv_def Let_def split: option.splits)
  have e: "extends b b'" using rewriteMetric_spec[OF assms(1,5)] by simp
  then have b': "bucket_inv b'" "bucket_max b' = bucket_max b" using b by (auto simp: extends_def)
  have "limiter_inv l2"
    unfolding limiter_inv_def
  proof (intro conjI allI impI)
    show "\<forall>r \<in> set (rules l2). 0 < Max r" using assms(2,6) l1 by (simp add: limiter_inv_def)
    fix k c assume "buckets l2 k = Some c"
    then show "bucket_inv c" and "\<exists>r \<in> set (rules l2). budget_of r = k \<and> bucket_max c = Max r"
      using assms(2,6) l1 b b' by (auto simp: limiter_inv_def split: if_splits)
  qed
  moreover have "limiter_extends l l2"
    using assms(6) l1 old e by (auto simp: limiter_extends_def)
  ultimately show ?thesis using assms(6) by (simp add: admitted_by_def)
qed

lemma apply_rules_spec:
  assumes "newset_law ns"
  shows "limiter_inv l \<Longrightarrow> set rs \<subseteq> set (rules l) \<Longrightarrow> apply_rules ns l m rs = (m', l') \<Longrightarrow>
    limiter_inv l' \<and> limiter_extends l l' \<and> metric_name m' = metric_name m \<and>
    (rs \<noteq> [] \<longrightarrow> distinct (mdata_attrs (metric_data m'))) \<and>
    (\<forall>r \<in> set rs. \<forall>a \<in> set (mdata_attrs (metric_data m')). capped (Key r) (admitted_by l' r) a) \<and>
    (\<forall>k vs. (\<forall>a \<in> set (mdata_attrs (metric_data m)). capped k vs a) \<longrightarrow> OverflowValue \<in> vs \<longrightarrow>
       (\<forall>a \<in> set (mdata_attrs (metric_data m')). capped k vs a))"
proof (induction rs arbitrary: l m)
  case Nil
  then show ?case by simp
next
  case (Cons r rs)
  obtain b l1 where b: "bucket_for l r = (b, l1)" by fastforce
  obtain d b' where d: "rewriteMetric ns (metric_data m) b (Key r) = (d, b')" by fastforce
  define l2 where "l2 = l1\<lparr>buckets := (buckets l1)(budget_of r \<mapsto> b')\<rparr>"
  have rest: "apply_rules ns l2 (m\<lparr>metric_data := d\<rparr>) rs = (m', l')"
    using Cons.prems(3) b d by (simp add: l2_def)
  from limiter_rule_step[OF assms Cons.prems(1) _ b d l2_def] Cons.prems(2)
  have l2: "limiter_inv l2" "limiter_extends l l2" "admitted_by l2 r = admitted b'" by auto
  have "set rs \<subseteq> set (rules l2)" using Cons.prems(2) l2(2) by (auto simp: limiter_extends_def)
  note IH = Cons.IH[OF l2(1) this rest, simplified]
  note here = rewriteMetric_spec[OF assms d]
  have ext: "limiter_extends l l'" using limiter_extends_trans[OF l2(2)] IH by blast
  have "\<forall>a \<in> set (mdata_attrs d). capped (Key r) (admitted_by l2 r) a" using here l2(3) by simp
  then have "\<forall>a \<in> set (mdata_attrs (metric_data m')). capped (Key r) (admitted_by l2 r) a"
    using IH by simp
  then have self: "\<forall>a \<in> set (mdata_attrs (metric_data m')). capped (Key r) (admitted_by l' r) a"
    using IH admitted_by_mono[of l2 l' r] capped_mono by blast
  have dist: "distinct (mdata_attrs (metric_data m'))"
    using IH here rest by (cases "rs = []") auto
  have pres: "\<forall>a \<in> set (mdata_attrs (metric_data m')). capped k vs a"
    if "\<forall>a \<in> set (mdata_attrs (metric_data m)). capped k vs a" "OverflowValue \<in> vs" for k vs
    using that here IH by blast
  from IH have "limiter_inv l'" "metric_name m' = metric_name m"
    "\<forall>r \<in> set rs. \<forall>a \<in> set (mdata_attrs (metric_data m')). capped (Key r) (admitted_by l' r) a"
    by blast+
  with self ext dist pres show ?case by simp
qed

definition governs :: "rule \<Rightarrow> string \<Rightarrow> ('i, 'f) metric \<Rightarrow> bool" where
  "governs r scope m \<longleftrightarrow> InstrumentName r = metric_name m \<and> (ScopeName r = [] \<or> ScopeName r = scope)"

definition scopes_capped :: "limiter \<Rightarrow> ('i, 'f) scope_metrics list \<Rightarrow> bool" where
  "scopes_capped l rm \<longleftrightarrow> (\<forall>(scope, ms) \<in> set rm. \<forall>m \<in> set ms. \<forall>r \<in> set (rules l). governs r scope m \<longrightarrow>
     (\<forall>a \<in> set (mdata_attrs (metric_data m)). capped (Key r) (admitted_by l r) a) \<and>
     distinct (mdata_attrs (metric_data m)))"

lemma scopes_capped_mono:
  assumes "limiter_extends l l'" and "scopes_capped l rm"
  shows "scopes_capped l' rm"
proof -
  have "capped (Key r) (admitted_by l r) a \<Longrightarrow> capped (Key r) (admitted_by l' r) a" for r a
    using admitted_by_mono[OF assms(1)] capped_mono by blast
  moreover have "rules l' = rules l" using assms(1) by (simp add: limiter_extends_def)
  ultimately show ?thesis using assms(2) unfolding scopes_capped_def case_prod_unfold by metis
qed

lemma set_rulesFor: "r \<in> set (rulesFor l scope (metric_name m)) \<longleftrightarrow> r \<in> set (rules l) \<and> governs r scope m"
  by (auto simp: rulesFor_def governs_def)

lemma rewrite_metrics_spec:
  assumes "newset_law ns"
  shows "limiter_inv l \<Longrightarrow> rewrite_metrics ns l scope ms = (ms', l') \<Longrightarrow>
    limiter_inv l' \<and> limiter_extends l l' \<and> scopes_capped l' [(scope, ms')]"
proof (induction ms arbitrary: l ms' l')
  case Nil
  then show ?case by (simp add: scopes_capped_def)
next
  case (Cons m ms)
  let ?rs = "rulesFor l scope (metric_name m)"
  obtain m1 l1 where a: "apply_rules ns l m ?rs = (m1, l1)" by fastforce
  obtain ms2 l2 where r: "rewrite_metrics ns l1 scope ms = (ms2, l2)" by fastforce
  have eq: "ms' = m1 # ms2" "l' = l2" using Cons.prems(2) a r by auto
  have "set ?rs \<subseteq> set (rules l)" by (auto simp: set_rulesFor)
  note one = apply_rules_spec[OF assms Cons.prems(1) this a]
  from one have "limiter_inv l1" by simp
  note more = Cons.IH[OF this r]
  have same: "rules l1 = rules l" "metric_name m1 = metric_name m"
    using one by (auto simp: limiter_extends_def)
  have "r \<in> set (rules l1) \<Longrightarrow> governs r scope m1 \<Longrightarrow> r \<in> set ?rs" for r
    using same by (simp add: set_rulesFor governs_def)
  then have "scopes_capped l1 [(scope, [m1])]" using one by (fastforce simp: scopes_capped_def)
  then have "scopes_capped l2 [(scope, [m1])]" using more scopes_capped_mono by blast
  with more one limiter_extends_trans[of l l1 l2] show ?case by (auto simp: eq scopes_capped_def)
qed

lemma rewrite_scopes_spec:
  assumes "newset_law ns"
  shows "limiter_inv l \<Longrightarrow> rewrite_scopes ns l rm = (rm', l') \<Longrightarrow>
    limiter_inv l' \<and> limiter_extends l l' \<and> scopes_capped l' rm'"
proof (induction rm arbitrary: l rm' l')
  case Nil
  then show ?case by (simp add: scopes_capped_def)
next
  case (Cons sm rm)
  obtain scope ms where sm: "sm = (scope, ms)" by (cases sm)
  obtain ms1 l1 where a: "rewrite_metrics ns l scope ms = (ms1, l1)" by fastforce
  obtain rm2 l2 where r: "rewrite_scopes ns l1 rm = (rm2, l2)" by fastforce
  have eq: "rm' = (scope, ms1) # rm2" "l' = l2" using Cons.prems(2) a r sm by auto
  note one = rewrite_metrics_spec[OF assms Cons.prems(1) a]
  from one have "limiter_inv l1" by simp
  note more = Cons.IH[OF this r]
  have "scopes_capped l2 [(scope, ms1)]" using one more scopes_capped_mono by blast
  with more one limiter_extends_trans[of l l1 l2] show ?case by (auto simp: eq scopes_capped_def)
qed

lemma Rewrite_spec:
  assumes "newset_law ns" "limiter_inv l" "Rewrite ns l rm = (rm', l')"
  shows "limiter_inv l' \<and> limiter_extends l l' \<and> scopes_capped l' rm'"
  using assms rewrite_scopes_spec[OF assms(1,2), of rm rm' l']
  by (cases "rules l = []") (auto simp: Rewrite_def scopes_capped_def)

text \<open>A sequence of collection cycles through one limiter.\<close>

fun rewrite_all ::
  "(key_value list \<Rightarrow> key_value list) \<Rightarrow> limiter \<Rightarrow> ('i::{plus, ord}, 'f::{plus, ord}) scope_metrics list list \<Rightarrow>
   ('i, 'f) scope_metrics list list \<times> limiter" where
  "rewrite_all ns l [] = ([], l)"
| "rewrite_all ns l (rm # rms) =
     (let (rm', l1) = Rewrite ns l rm; (rms', l2) = rewrite_all ns l1 rms in (rm' # rms', l2))"

lemma rewrite_all_spec:
  assumes "newset_law ns"
  shows "limiter_inv l \<Longrightarrow> rewrite_all ns l rms = (outs, l') \<Longrightarrow>
    limiter_inv l' \<and> limiter_extends l l' \<and> (\<forall>rm' \<in> set outs. scopes_capped l' rm')"
proof (induction rms arbitrary: l outs l')
  case (Cons rm rms)
  obtain rm1 l1 where a: "Rewrite ns l rm = (rm1, l1)" by fastforce
  obtain outs2 l2 where r: "rewrite_all ns l1 rms = (outs2, l2)" by fastforce
  have eq: "outs = rm1 # outs2" "l' = l2" using Cons.prems(2) a r by auto
  note one = Rewrite_spec[OF assms Cons.prems(1) a]
  from one have "limiter_inv l1" by simp
  note more = Cons.IH[OF this r]
  have "scopes_capped l2 rm1" using one more scopes_capped_mono by blast
  with more one limiter_extends_trans[of l l1 l2] show ?case by (auto simp: eq)
qed auto

text \<open>The values exported under a rule's key, over all cycles.\<close>

definition exported_values :: "rule \<Rightarrow> ('i, 'f) scope_metrics list list \<Rightarrow> string set" where
  "exported_values r outs =
     {AsString v | v a m scope ms rm. rm \<in> set outs \<and> (scope, ms) \<in> set rm \<and> m \<in> set ms \<and>
        governs r scope m \<and> a \<in> set (mdata_attrs (metric_data m)) \<and> (Key r, v) \<in> set a}"

lemma card_admitted_by:
  assumes "limiter_inv l" "r \<in> set (rules l)"
    and "\<forall>r' \<in> set (rules l). budget_of r' = budget_of r \<longrightarrow> Max r' = Max r"
  shows "finite (admitted_by l r) \<and> card (admitted_by l r) \<le> nat (Max r) + 1"
proof (cases "buckets l (budget_of r)")
  case None
  then show ?thesis by (simp add: admitted_by_def)
next
  case (Some b)
  then have "bucket_inv b" "\<exists>r' \<in> set (rules l). budget_of r' = budget_of r \<and> bucket_max b = Max r'"
    using assms(1) unfolding limiter_inv_def by blast+
  with assms(3) have "int (length (seen b)) \<le> Max r" by (auto simp: bucket_inv_def)
  then have "card (set (seen b)) \<le> nat (Max r)" using card_length[of "seen b"] by linarith
  with Some show ?thesis
    using card_insert_le_m1[of "nat (Max r) + 1" "set (seen b)" OverflowValue]
    by (simp add: admitted_by_def admitted_def)
qed


text \<open>The cap holds over the life of the process: through any number of collection cycles, the
  values ever exported under a rule's key are at most \<open>Max\<close> real ones plus the single overflow
  value.  Rules that share a budget are assumed to agree on its size.\<close>

lemma rewrite_all_capped:
  fixes rms :: "('i::{plus, ord}, 'f::{plus, ord}) scope_metrics list list"
  assumes "newset_law ns" and "r \<in> set (rules (NewLimiter rs))"
    and "\<forall>r' \<in> set rs. budget_of r' = budget_of r \<longrightarrow> Max r' = Max r"
    and "rewrite_all ns (NewLimiter rs) rms = (outs, l')"
  shows "finite (exported_values r outs) \<and> card (exported_values r outs) \<le> nat (Max r) + 1"
proof -
  note spec = rewrite_all_spec[OF assms(1) NewLimiter_inv assms(4)]
  then have rl: "rules l' = rules (NewLimiter rs)" by (simp add: limiter_extends_def)
  have sub: "exported_values r outs \<subseteq> admitted_by l' r"
    using spec assms(2) rl unfolding exported_values_def scopes_capped_def capped_def by fastforce
  have "\<forall>r' \<in> set (rules l'). budget_of r' = budget_of r \<longrightarrow> Max r' = Max r"
    using assms(3) by (simp add: rl NewLimiter_def)
  from card_admitted_by[OF _ _ this] spec assms(2) rl
  have "finite (admitted_by l' r) \<and> card (admitted_by l' r) \<le> nat (Max r) + 1" by simp
  with sub card_mono[OF _ sub] show ?thesis by (auto intro: finite_subset)
qed

section \<open>Conservation through a whole rewrite\<close>

text \<open>The weight of a metric: the number of observations of its histograms and the integer totals of
  its sums and histograms.  Gauges are last-value and carry no weight.\<close>

fun weight :: "('i::comm_monoid_add, 'f) mdata \<Rightarrow> 64 word \<times> 'i" where
  "weight (HistogramI ps) = (sum_list (map Count ps), sum_list (map Sum ps))"
| "weight (HistogramF ps) = (sum_list (map Count ps), 0)"
| "weight (SumI ps) = (0, sum_list (map Value ps))"
| "weight _ = (0, 0)"

lemma map2_frame:
  assumes "length as = length ps" and "\<And>p a. get (put p a) = get p"
  shows "map get (map2 put ps as) = map get ps"
  using assms(1)
proof (induction ps arbitrary: as)
  case (Cons p ps)
  then show ?case using assms(2) by (cases as) auto
qed simp

lemma clone_weight [simp]:
  "Count (cloneHistogramDataPoint p) = Count p" "Sum (cloneHistogramDataPoint p) = Sum p"
  "Value (cloneDataPoint q) = Value q"
  by (simp_all add: cloneHistogramDataPoint_def cloneDataPoint_def)

lemma rewrite_hist_count:
  assumes "newset_law ns" and "rewrite_hist ns key b ps = (qs, b')"
  shows "sum_list (map Count qs) = sum_list (map Count ps)"
proof -
  obtain as b2 where r: "rewrite_sets ns key b (map HAttributes ps) = (as, b2)" by fastforce
  let ?cs = "map2 (\<lambda>p a. p\<lparr>HAttributes := a\<rparr>) (map cloneHistogramDataPoint ps) as"
  have "length as = length (map cloneHistogramDataPoint ps)"
    using rewrite_sets_spec[OF assms(1) r] by simp
  from map2_frame[OF this, of Count "\<lambda>p a. p\<lparr>HAttributes := a\<rparr>"]
  have "map Count ?cs = map Count ps" by (simp add: comp_def)
  moreover have "qs = merge_loop HAttributes mergeHistogram Map.empty [] ?cs"
    using assms(2) r by (auto simp: rewrite_hist_def mergeHistograms_def comp_def)
  ultimately show ?thesis
    using hist.merge_conserves[of Count ?cs] by (simp add: mergeHistogram_def)
qed

lemma rewrite_hist_sum:
  fixes ps :: "'n::{comm_monoid_add, ord} histogram_point list"
  assumes "newset_law ns" and "rewrite_hist ns key b ps = (qs, b')"
  shows "sum_list (map Sum qs) = sum_list (map Sum ps)"
proof -
  obtain as b2 where r: "rewrite_sets ns key b (map HAttributes ps) = (as, b2)" by fastforce
  let ?cs = "map2 (\<lambda>p a. p\<lparr>HAttributes := a\<rparr>) (map cloneHistogramDataPoint ps) as"
  have "length as = length (map cloneHistogramDataPoint ps)"
    using rewrite_sets_spec[OF assms(1) r] by simp
  from map2_frame[OF this, of Sum "\<lambda>p a. p\<lparr>HAttributes := a\<rparr>"]
  have "map Sum ?cs = map Sum ps" by (simp add: comp_def)
  moreover have "qs = merge_loop HAttributes mergeHistogram Map.empty [] ?cs"
    using assms(2) r by (auto simp: rewrite_hist_def mergeHistograms_def comp_def)
  ultimately show ?thesis
    using hist.merge_conserves[of Sum ?cs] by (simp add: mergeHistogram_def)
qed

lemma rewrite_points_sum:
  fixes ps :: "'n::comm_monoid_add data_point list"
  assumes "newset_law ns" and "rewrite_points ns mergeSums key b ps = (qs, b')"
  shows "sum_list (map Value qs) = sum_list (map Value ps)"
proof -
  obtain as b2 where r: "rewrite_sets ns key b (map Attributes ps) = (as, b2)" by fastforce
  let ?cs = "map2 (\<lambda>p a. p\<lparr>Attributes := a\<rparr>) (map cloneDataPoint ps) as"
  have "length as = length (map cloneDataPoint ps)"
    using rewrite_sets_spec[OF assms(1) r] by simp
  from map2_frame[OF this, of Value "\<lambda>p a. p\<lparr>Attributes := a\<rparr>"]
  have "map Value ?cs = map Value ps" by (simp add: comp_def)
  moreover have "qs = merge_loop Attributes add_point Map.empty [] ?cs"
    using assms(2) r by (auto simp: rewrite_points_def mergeSums_def comp_def)
  ultimately show ?thesis
    using sums.merge_conserves[of Value ?cs] by (simp add: add_point_def)
qed

lemma rewriteMetric_weight:
  fixes d :: "('i::{comm_monoid_add, ord}, 'f::{plus, ord}) mdata"
  assumes "newset_law ns" and "rewriteMetric ns d b key = (d', b')"
  shows "weight d' = weight d"
proof (cases d)
  case (HistogramI ps)
  then show ?thesis using assms rewrite_hist_count[OF assms(1), of key b ps] rewrite_hist_sum[OF assms(1), of key b ps]
    by (cases "rewrite_hist ns key b ps") auto
next
  case (HistogramF ps)
  then show ?thesis using assms rewrite_hist_count[OF assms(1), of key b ps]
    by (cases "rewrite_hist ns key b ps") auto
next
  case (SumI ps)
  then show ?thesis using assms rewrite_points_sum[OF assms(1), of key b ps]
    by (cases "rewrite_points ns mergeSums key b ps") auto
next
  case (SumF ps)
  then show ?thesis using assms by (cases "rewrite_points ns mergeSums key b ps") auto
next
  case (GaugeI ps)
  then show ?thesis using assms by (cases "rewrite_points ns mergeGauges key b ps") auto
next
  case (GaugeF ps)
  then show ?thesis using assms by (cases "rewrite_points ns mergeGauges key b ps") auto
qed (use assms in auto)

lemma apply_rules_weight:
  fixes m :: "('i::{comm_monoid_add, ord}, 'f::{plus, ord}) metric"
  assumes "newset_law ns"
  shows "apply_rules ns l m rs = (m', l') \<Longrightarrow>
    metric_name m' = metric_name m \<and> weight (metric_data m') = weight (metric_data m)"
proof (induction rs arbitrary: l m)
  case (Cons r rs)
  obtain b l1 where b: "bucket_for l r = (b, l1)" by fastforce
  obtain d b' where d: "rewriteMetric ns (metric_data m) b (Key r) = (d, b')" by fastforce
  from Cons.prems b d have "apply_rules ns (l1\<lparr>buckets := (buckets l1)(budget_of r \<mapsto> b')\<rparr>)
    (m\<lparr>metric_data := d\<rparr>) rs = (m', l')" by simp
  from Cons.IH[OF this] rewriteMetric_weight[OF assms d] show ?case by simp
qed simp

definition weights :: "('i::comm_monoid_add, 'f) scope_metrics list \<Rightarrow> (string \<times> (string \<times> 64 word \<times> 'i) list) list" where
  "weights rm = map (\<lambda>(scope, ms). (scope, map (\<lambda>m. (metric_name m, weight (metric_data m))) ms)) rm"

lemma rewrite_metrics_weight:
  fixes ms :: "('i::{comm_monoid_add, ord}, 'f::{plus, ord}) metric list"
  assumes "newset_law ns"
  shows "rewrite_metrics ns l scope ms = (ms', l') \<Longrightarrow>
    map (\<lambda>m. (metric_name m, weight (metric_data m))) ms' = map (\<lambda>m. (metric_name m, weight (metric_data m))) ms"
proof (induction ms arbitrary: l ms' l')
  case (Cons m ms)
  obtain m1 l1 where a: "apply_rules ns l m (rulesFor l scope (metric_name m)) = (m1, l1)" by fastforce
  obtain ms2 l2 where r: "rewrite_metrics ns l1 scope ms = (ms2, l2)" by fastforce
  from Cons.prems a r Cons.IH[OF r] apply_rules_weight[OF assms a] show ?case by auto
qed simp

lemma rewrite_scopes_weight:
  fixes rm :: "('i::{comm_monoid_add, ord}, 'f::{plus, ord}) scope_metrics list"
  assumes "newset_law ns"
  shows "rewrite_scopes ns l rm = (rm', l') \<Longrightarrow> weights rm' = weights rm"
proof (induction rm arbitrary: l rm' l')
  case (Cons sm rm)
  obtain scope ms where sm: "sm = (scope, ms)" by (cases sm)
  obtain ms1 l1 where a: "rewrite_metrics ns l scope ms = (ms1, l1)" by fastforce
  obtain rm2 l2 where r: "rewrite_scopes ns l1 rm = (rm2, l2)" by fastforce
  from Cons.prems sm a r Cons.IH[OF r] rewrite_metrics_weight[OF assms a] show ?case
    by (auto simp: weights_def)
qed simp

section \<open>A concrete attribute.NewSet and sample data for the witnesses\<close>

definition sorted_last_wins :: "key_value list \<Rightarrow> key_value list" where
  "sorted_last_wins kvs = sort_key fst (AList.clearjunk (rev kvs))"

lemma clearjunk_subset: "set (AList.clearjunk al) \<subseteq> set al"
proof (induction al rule: AList.clearjunk.induct)
  case (2 p ps)
  moreover have "set (AList.delete (fst p) ps) \<subseteq> set ps" by (auto simp: AList.delete_eq)
  ultimately show ?case by auto
qed simp

lemma sorted_last_wins_law: "newset_law sorted_last_wins"
  using clearjunk_subset by (fastforce simp: newset_law_def sorted_last_wins_def)

definition demo_rule :: rule where
  "demo_rule = \<lparr>InstrumentName = ''d'', Key = ''r'', Max = 1, ScopeName = [], BudgetKey = []\<rparr>"

definition demo_point :: "string \<Rightarrow> int \<Rightarrow> int data_point" where
  "demo_point v n = \<lparr>Attributes = [(''r'', StrV v)], Value = n, Exemplars = []\<rparr>"

definition demo_cycle :: "(int, int) scope_metrics list" where
  "demo_cycle = [(''s'', [\<lparr>metric_name = ''d'',
     metric_data = SumI [demo_point ''a'' 1, demo_point ''b'' 2, demo_point ''c'' 4]\<rparr>])]"

definition demo_capped :: "(int, int) scope_metrics list" where
  "demo_capped = [(''s'', [\<lparr>metric_name = ''d'',
     metric_data = SumI [demo_point ''a'' 1, demo_point ''other'' 6]\<rparr>])]"

section \<open>Properties\<close>

text \<open>A value that was admitted once is exported unchanged for ever after, whatever is exported
  in between: a series never flips to the overflow value.\<close>

theorem admitted_value_never_collapses:
  fixes rms :: "('i::{plus, ord}, 'f::{plus, ord}) scope_metrics list list"
  assumes "newset_law ns" and "limiter_inv l" and "buckets l k = Some b" and "v \<in> set (seen b)"
    and "rewrite_all ns l rms = (outs, l')"
  shows "\<exists>b'. buckets l' k = Some b' \<and> observe b' v = (v, b')"
proof -
  obtain b' where "buckets l' k = Some b'" "extends b b'"
    using rewrite_all_spec[OF assms(1,2,5)] assms(3) unfolding limiter_extends_def by blast
  moreover from this assms(4) have "v \<in> set (seen b')" by (auto simp: extends_def)
  ultimately show ?thesis using observe_seen by blast
qed

theorem admitted_value_never_collapses_witness:
  "\<exists>l l'. buckets l ''q'' = Some \<lparr>bucket_key = ''r'', bucket_max = 1, seen = [''a'']\<rparr> \<and>
     rewrite_all sorted_last_wins l ([] :: (int, int) scope_metrics list list) = ([], l') \<and>
     (\<exists>b'. buckets l' ''q'' = Some b' \<and> observe b' ''a'' = (''a'', b'))"
proof -
  let ?b = "\<lparr>bucket_key = ''r'', bucket_max = 1, seen = [''a'']\<rparr>"
  let ?l = "\<lparr>rules = [demo_rule\<lparr>BudgetKey := ''q''\<rparr>], buckets = [''q'' \<mapsto> ?b]\<rparr>"
  have inv: "limiter_inv ?l"
    by (auto simp: limiter_inv_def bucket_inv_def budget_of_def demo_rule_def split: if_splits)
  have "buckets ?l ''q'' = Some ?b" "''a'' \<in> set (seen ?b)" by simp_all
  moreover have "rewrite_all sorted_last_wins ?l ([] :: (int, int) scope_metrics list list) = ([], ?l)"
    by simp
  ultimately show ?thesis
    using admitted_value_never_collapses[OF sorted_last_wins_law inv] by blast
qed



lemma foldl1_last: "xs \<noteq> [] \<Longrightarrow> foldl1 (\<lambda>_ y. y) xs = last xs"
proof (cases xs rule: rev_cases)
  case (snoc ys y)
  then show ?thesis by (cases "ys = []") (simp_all add: foldl1_snoc)
qed simp

text \<open>The merge loops compute the reference grouping: one point per attribute set, in order of
  first appearance, combining the points of the set from left to right; a gauge keeps the last.\<close>

theorem merges_compute_groups:
  fixes hs :: "'n::{plus, ord} histogram_point list"
  shows "mergeHistograms hs = grouped HAttributes mergeHistogram hs \<and>
    mergeSums ps = grouped Attributes add_point ps \<and>
    mergeGauges qs = map (\<lambda>a. last (filter (\<lambda>p. Attributes p = a) qs)) (firsts (map Attributes qs))"
proof -
  have "grouped Attributes (\<lambda>_ dp. dp) qs =
      map (\<lambda>a. last (filter (\<lambda>p. Attributes p = a) qs)) (firsts (map Attributes qs))"
    by (auto simp: grouped_def filter_empty_conv intro!: map_cong foldl1_last)
  then show ?thesis
    unfolding mergeHistograms_def mergeSums_def mergeGauges_def
    by (simp add: hist.merge_is_grouped sums.merge_is_grouped gauges.merge_is_grouped)
qed

end
