(* ===== verification/GoStd.thy ===== *)
theory GoStd
  imports Prelude "HOL-Library.Code_Target_Numeral"
begin

text \<open>
  The parts of Go's standard library the modelled code calls, on byte strings: UTF-8 decoding and
  encoding (\<^verbatim>\<open>unicode/utf8\<close>), searching, splitting, trimming and replacing (\<^verbatim>\<open>strings\<close>), case mapping,
  number parsing (\<^verbatim>\<open>strconv\<close>) and \<^verbatim>\<open>net.SplitHostPort\<close>.

  The Unicode property tables beyond ASCII are data of the Go release; they are the fields of a
  record \<open>unicode\<close> that the functions take as an argument.
\<close>

section \<open>Bytes and runes\<close>

abbreviation byte :: "char \<Rightarrow> nat" where "byte c \<equiv> of_char c"

definition is_digit :: "char \<Rightarrow> bool" where
  "is_digit c \<longleftrightarrow> 48 \<le> byte c \<and> byte c \<le> 57"

definition is_upper :: "char \<Rightarrow> bool" where
  "is_upper c \<longleftrightarrow> 65 \<le> byte c \<and> byte c \<le> 90"

definition is_lower :: "char \<Rightarrow> bool" where
  "is_lower c \<longleftrightarrow> 97 \<le> byte c \<and> byte c \<le> 122"

definition is_alnum :: "char \<Rightarrow> bool" where
  "is_alnum c \<longleftrightarrow> is_lower c \<or> is_upper c \<or> is_digit c"

definition RuneError :: nat where "RuneError = 65533"

definition continuation :: "nat \<Rightarrow> bool" where
  "continuation b \<longleftrightarrow> 128 \<le> b \<and> b \<le> 191"

text \<open>\<^verbatim>\<open>utf8.DecodeRuneInString\<close>: the rune and its width; an invalid byte is \<open>RuneError\<close> of width 1.\<close>

definition decode_rune :: "string \<Rightarrow> nat \<times> nat" where
  "decode_rune s = (case map byte (take 4 s) of
     [] \<Rightarrow> (RuneError, 0)
   | b0 # bs \<Rightarrow>
       if b0 < 128 then (b0, 1)
       else if 194 \<le> b0 \<and> b0 \<le> 223 then
         (case bs of b1 # _ \<Rightarrow> if continuation b1 then ((b0 - 192) * 64 + (b1 - 128), 2) else (RuneError, 1)
          | _ \<Rightarrow> (RuneError, 1))
       else if 224 \<le> b0 \<and> b0 \<le> 239 then
         (case bs of b1 # b2 # _ \<Rightarrow>
            if (if b0 = 224 then 160 else 128) \<le> b1 \<and> b1 \<le> (if b0 = 237 then 159 else 191) \<and> continuation b2
            then ((b0 - 224) * 4096 + (b1 - 128) * 64 + (b2 - 128), 3) else (RuneError, 1)
          | _ \<Rightarrow> (RuneError, 1))
       else if 240 \<le> b0 \<and> b0 \<le> 244 then
         (case bs of b1 # b2 # b3 # _ \<Rightarrow>
            if (if b0 = 240 then 144 else 128) \<le> b1 \<and> b1 \<le> (if b0 = 244 then 143 else 191) \<and>
               continuation b2 \<and> continuation b3
            then ((b0 - 240) * 262144 + (b1 - 128) * 4096 + (b2 - 128) * 64 + (b3 - 128), 4)
            else (RuneError, 1)
          | _ \<Rightarrow> (RuneError, 1))
       else (RuneError, 1))"

lemma decode_rune_width: "s \<noteq> [] \<Longrightarrow> 1 \<le> snd (decode_rune s)"
  by (cases s) (auto simp: decode_rune_def split: list.splits)

lemma decode_rune_ascii: "byte c < 128 \<Longrightarrow> decode_rune (c # s) = (byte c, 1)"
  by (simp add: decode_rune_def)

text \<open>\<^verbatim>\<open>for _, r := range s\<close>: the runes of a string, each with the bytes it was read from.\<close>

function rune_chunks :: "string \<Rightarrow> (nat \<times> string) list" where
  "rune_chunks s =
     (if s = [] then [] else
        let (r, n) = decode_rune s in (r, take n s) # rune_chunks (drop n s))"
  by pat_completeness auto
termination
proof (relation "measure length", simp)
  fix s x r n assume s: "s \<noteq> ([]::string)" and x: "x = decode_rune s" "(r, n) = x"
  then have "1 \<le> n" using decode_rune_width[OF s] by (metis snd_conv)
  with s show "(drop n s, s) \<in> measure length" by simp
qed

declare rune_chunks.simps [simp del]

lemma rune_chunks_Nil [simp]: "rune_chunks [] = []"
  by (simp add: rune_chunks.simps)

definition runes :: "string \<Rightarrow> nat list" where
  "runes s = map fst (rune_chunks s)"

text \<open>\<^verbatim>\<open>utf8.AppendRune\<close> on an unsigned value: surrogates and values past U+10FFFF become
  \<open>RuneError\<close>.\<close>

definition encode_rune :: "nat \<Rightarrow> string" where
  "encode_rune r =
     (if r < 128 then [char_of r]
      else if r < 2048 then map char_of [192 + r div 64, 128 + r mod 64]
      else if r > 1114111 \<or> (55296 \<le> r \<and> r \<le> 57343) then map char_of [239, 191, 189 :: nat]
      else if r < 65536 then map char_of [224 + r div 4096, 128 + r div 64 mod 64, 128 + r mod 64]
      else map char_of [240 + r div 262144, 128 + r div 4096 mod 64, 128 + r div 64 mod 64, 128 + r mod 64])"

lemma rune_chunks_ascii_Cons:
  "byte c < 128 \<Longrightarrow> rune_chunks (c # s) = (byte c, [c]) # rune_chunks s"
  by (subst rune_chunks.simps) (simp add: decode_rune_ascii)

lemma rune_chunks_concat: "concat (map snd (rune_chunks s)) = s"
proof (induction s rule: rune_chunks.induct)
  case (1 s)
  show ?case
  proof (cases "s = []")
    case False
    obtain r n where rn: "decode_rune s = (r, n)" by fastforce
    with 1 False show ?thesis by (subst rune_chunks.simps) simp
  qed simp
qed

text \<open>A rune is either an ASCII byte, or read from bytes beyond ASCII.\<close>

lemma decode_rune_split:
  assumes "s \<noteq> []" "decode_rune s = (r, n)"
  shows "(r < 128 \<and> n = 1 \<and> byte (hd s) = r) \<or> (128 \<le> r \<and> (\<forall>c \<in> set (take n s). 128 \<le> byte c))"
proof (cases s)
  case (Cons c0 s1)
  show ?thesis
  proof (cases "byte c0 < 128")
    case True
    then show ?thesis using assms by (simp add: Cons decode_rune_def)
  next
    case False
    consider "s1 = []" | a where "s1 = [a]" | a b where "s1 = [a, b]" | a b d t where "s1 = a # b # d # t"
      by (metis list.exhaust)
    then show ?thesis using assms(2) False
      by cases (auto simp: Cons decode_rune_def continuation_def RuneError_def split: if_splits)
  qed
qed (use assms in simp)

lemma rune_chunks_split:
  "(r, b) \<in> set (rune_chunks s) \<Longrightarrow> (r < 128 \<and> b = [char_of r]) \<or> (128 \<le> r \<and> (\<forall>c \<in> set b. 128 \<le> byte c))"
proof (induction s rule: rune_chunks.induct)
  case (1 s)
  show ?case
  proof (cases "s = []")
    case False
    obtain q n where qn: "decode_rune s = (q, n)" by fastforce
    have "rune_chunks s = (q, take n s) # rune_chunks (drop n s)"
      using False qn by (subst rune_chunks.simps) simp
    then consider "r = q" "b = take n s" | "(r, b) \<in> set (rune_chunks (drop n s))"
      using "1.prems" by auto
    then show ?thesis
    proof cases
      case 1
      then show ?thesis using decode_rune_split[OF False qn] False
        by (cases s) auto
    qed (use "1.IH" False qn in auto)
  qed (use "1.prems" in simp)
qed

section \<open>Unicode tables\<close>

record unicode =
  u_lower :: "nat \<Rightarrow> nat"
  u_upper :: "nat \<Rightarrow> nat"
  u_letter :: "nat \<Rightarrow> bool"
  u_digit :: "nat \<Rightarrow> bool"

text \<open>A table that knows no property beyond ASCII, for evaluation.\<close>

definition ascii_tables :: unicode where
  "ascii_tables = \<lparr>u_lower = (\<lambda>r. r), u_upper = (\<lambda>r. r), u_letter = (\<lambda>_. False), u_digit = (\<lambda>_. False)\<rparr>"

definition lower_rune :: "unicode \<Rightarrow> nat \<Rightarrow> nat" where
  "lower_rune U r = (if r < 128 then (if 65 \<le> r \<and> r \<le> 90 then r + 32 else r) else u_lower U r)"

definition upper_rune :: "unicode \<Rightarrow> nat \<Rightarrow> nat" where
  "upper_rune U r = (if r < 128 then (if 97 \<le> r \<and> r \<le> 122 then r - 32 else r) else u_upper U r)"

definition letter_rune :: "unicode \<Rightarrow> nat \<Rightarrow> bool" where
  "letter_rune U r \<longleftrightarrow> (if r < 128 then (65 \<le> r \<and> r \<le> 90) \<or> (97 \<le> r \<and> r \<le> 122) else u_letter U r)"

definition digit_rune :: "unicode \<Rightarrow> nat \<Rightarrow> bool" where
  "digit_rune U r \<longleftrightarrow> (if r < 128 then 48 \<le> r \<and> r \<le> 57 else u_digit U r)"

text \<open>\<^verbatim>\<open>unicode.IsSpace\<close>, the White\_Space property.\<close>

definition space_rune :: "nat \<Rightarrow> bool" where
  "space_rune r \<longleftrightarrow> (9 \<le> r \<and> r \<le> 13) \<or> r = 32 \<or> r = 133 \<or> r = 160 \<or> r = 5760 \<or>
     (8192 \<le> r \<and> r \<le> 8202) \<or> r = 8232 \<or> r = 8233 \<or> r = 8239 \<or> r = 8287 \<or> r = 12288"

definition to_lower :: "unicode \<Rightarrow> string \<Rightarrow> string" where
  "to_lower U s = concat (map (\<lambda>r. encode_rune (lower_rune U r)) (runes s))"

definition to_upper :: "unicode \<Rightarrow> string \<Rightarrow> string" where
  "to_upper U s = concat (map (\<lambda>r. encode_rune (upper_rune U r)) (runes s))"

section \<open>strings\<close>

fun index_where :: "(char \<Rightarrow> bool) \<Rightarrow> string \<Rightarrow> nat option" where
  "index_where P [] = None"
| "index_where P (c # s) = (if P c then Some 0 else map_option Suc (index_where P s))"

definition index_byte :: "string \<Rightarrow> char \<Rightarrow> nat option" where
  "index_byte s c = index_where (\<lambda>d. d = c) s"

definition last_index_byte :: "string \<Rightarrow> char \<Rightarrow> nat option" where
  "last_index_byte s c = map_option (\<lambda>i. length s - 1 - i) (index_byte (rev s) c)"

lemma index_where_Some: "index_where P s = Some i \<Longrightarrow> i < length s \<and> P (s ! i) \<and> (\<forall>j < i. \<not> P (s ! j))"
proof (induction s arbitrary: i)
  case (Cons c s)
  then show ?case by (cases i) (auto simp: nth_Cons' split: if_splits)
qed simp

lemma index_where_None: "index_where P s = None \<longleftrightarrow> (\<forall>c \<in> set s. \<not> P c)"
  by (induction s) auto

lemma index_where_append:
  "index_where P (s @ t) = (case index_where P s of Some i \<Rightarrow> Some i | None \<Rightarrow> map_option ((+) (length s)) (index_where P t))"
proof (induction s)
  case Nil
  show ?case by (cases "index_where P t") auto
next
  case (Cons a s)
  then show ?case by (cases "index_where P t") (auto split: option.splits)
qed

lemma last_index_byte_Some: "last_index_byte s c = Some i \<Longrightarrow> i < length s \<and> s ! i = c"
  by (auto simp: last_index_byte_def index_byte_def rev_nth dest!: index_where_Some)

lemma last_index_byte_append:
  "c \<notin> set t \<Longrightarrow> last_index_byte (s @ [c] @ t) c = Some (length s)"
proof -
  assume "c \<notin> set t"
  then have "index_where (\<lambda>d. d = c) (rev t) = None" by (auto simp: index_where_None)
  then show ?thesis by (simp add: last_index_byte_def index_byte_def index_where_append)
qed

definition index_any :: "string \<Rightarrow> string \<Rightarrow> nat option" where
  "index_any s chars = index_where (\<lambda>d. d \<in> set chars) s"

fun index_sub :: "string \<Rightarrow> string \<Rightarrow> nat option" where
  "index_sub [] sub = (if sub = [] then Some 0 else None)"
| "index_sub (c # s) sub = (if prefix sub (c # s) then Some 0 else map_option Suc (index_sub s sub))"

definition contains :: "string \<Rightarrow> string \<Rightarrow> bool" where
  "contains s sub \<longleftrightarrow> index_sub s sub \<noteq> None"

definition cut :: "string \<Rightarrow> string \<Rightarrow> string \<times> string \<times> bool" where
  "cut s sep = (case index_sub s sep of None \<Rightarrow> (s, [], False)
     | Some i \<Rightarrow> (take i s, drop (i + length sep) s, True))"

fun split_byte :: "char \<Rightarrow> string \<Rightarrow> string list" where
  "split_byte c [] = [[]]"
| "split_byte c (d # s) =
     (if d = c then [] # split_byte c s
      else case split_byte c s of [] \<Rightarrow> [[d]] | p # ps \<Rightarrow> (d # p) # ps)"

fun join :: "string \<Rightarrow> string list \<Rightarrow> string" where
  "join sep [] = []"
| "join sep [s] = s"
| "join sep (s # t # ss) = s @ sep @ join sep (t # ss)"

text \<open>\<^verbatim>\<open>strings.ReplaceAll\<close> with a non-empty pattern (every caller guarantees one).\<close>

function replace_all :: "string \<Rightarrow> string \<Rightarrow> string \<Rightarrow> string" where
  "replace_all s old new =
     (if old = [] \<or> s = [] then s
      else if prefix old s then new @ replace_all (drop (length old) s) old new
      else hd s # replace_all (tl s) old new)"
  by pat_completeness auto
termination by (relation "measure (\<lambda>(s, old, new). length s)") auto

declare replace_all.simps [simp del]

definition trim_set :: "string \<Rightarrow> string \<Rightarrow> string" where
  "trim_set s cutset = rev (dropWhile (\<lambda>c. c \<in> set cutset) (rev (dropWhile (\<lambda>c. c \<in> set cutset) s)))"

definition trim_left_set :: "string \<Rightarrow> string \<Rightarrow> string" where
  "trim_left_set s cutset = dropWhile (\<lambda>c. c \<in> set cutset) s"

definition trim_right_set :: "string \<Rightarrow> string \<Rightarrow> string" where
  "trim_right_set s cutset = rev (dropWhile (\<lambda>c. c \<in> set cutset) (rev s))"

definition trim_prefix :: "string \<Rightarrow> string \<Rightarrow> string" where
  "trim_prefix s p = (if prefix p s then drop (length p) s else s)"

definition trim_space :: "string \<Rightarrow> string" where
  "trim_space s =
     concat (map snd (rev (dropWhile (space_rune \<circ> fst) (rev (dropWhile (space_rune \<circ> fst) (rune_chunks s))))))"

text \<open>\<^verbatim>\<open>strings.Fields\<close>: the maximal runs of non-space runes.\<close>

fun fields_of :: "string \<Rightarrow> (nat \<times> string) list \<Rightarrow> string list" where
  "fields_of cur [] = (if cur = [] then [] else [cur])"
| "fields_of cur ((r, b) # rest) =
     (if space_rune r then (if cur = [] then fields_of [] rest else cur # fields_of [] rest)
      else fields_of (cur @ b) rest)"

definition fields :: "string \<Rightarrow> string list" where
  "fields s = fields_of [] (rune_chunks s)"

section \<open>strconv and net\<close>

fun dec_value :: "int \<Rightarrow> string \<Rightarrow> int option" where
  "dec_value acc [] = Some acc"
| "dec_value acc (c # s) = (if is_digit c then dec_value (acc * 10 + int (byte c - 48)) s else None)"

text \<open>\<^verbatim>\<open>strconv.Atoi\<close> for a 64-bit \<^verbatim>\<open>int\<close>: \<^const>\<open>None\<close> on a syntax or range error.\<close>

definition atoi :: "string \<Rightarrow> int option" where
  "atoi s =
     (let (neg, ds) = (case s of [] \<Rightarrow> (False, []) | c # r \<Rightarrow>
            if c = CHR ''-'' then (True, r) else if c = CHR ''+'' then (False, r) else (False, s))
      in if ds = [] then None
         else case dec_value 0 ds of None \<Rightarrow> None
           | Some n \<Rightarrow> let v = (if neg then - n else n)
                       in if min_int64 \<le> v \<and> v \<le> max_int64 then Some v else None)"

definition hex_digit :: "char \<Rightarrow> nat option" where
  "hex_digit c =
     (if is_digit c then Some (byte c - 48)
      else if 97 \<le> byte c \<and> byte c \<le> 102 then Some (byte c - 87)
      else if 65 \<le> byte c \<and> byte c \<le> 70 then Some (byte c - 55)
      else None)"

fun hex_value :: "nat \<Rightarrow> string \<Rightarrow> nat option" where
  "hex_value acc [] = Some acc"
| "hex_value acc (c # s) = (case hex_digit c of None \<Rightarrow> None | Some d \<Rightarrow> hex_value (acc * 16 + d) s)"

text \<open>\<^verbatim>\<open>net.SplitHostPort\<close>; \<^const>\<open>None\<close> is any of its address errors.\<close>

definition split_host_port :: "string \<Rightarrow> (string \<times> string) option" where
  "split_host_port hp =
     (case last_index_byte hp CHR '':'' of None \<Rightarrow> None
      | Some i \<Rightarrow>
        if hd hp = CHR ''['' then
          (case index_byte hp CHR '']'' of None \<Rightarrow> None
           | Some e \<Rightarrow>
             if e + 1 = length hp \<or> e + 1 \<noteq> i then None
             else if CHR ''['' \<in> set (drop 1 hp) \<or> CHR '']'' \<in> set (drop (e + 1) hp) then None
             else Some (take (e - 1) (drop 1 hp), drop (i + 1) hp))
        else if CHR '':'' \<in> set (take i hp) then None
        else if CHR ''['' \<in> set hp \<or> CHR '']'' \<in> set hp then None
        else Some (take i hp, drop (i + 1) hp))"

section \<open>Printing numbers and addresses\<close>

text \<open>\<^verbatim>\<open>strconv.Itoa\<close> and \<^verbatim>\<open>net.JoinHostPort\<close>, with the round trips through their parsers.\<close>

fun dec_digits :: "nat \<Rightarrow> string" where
  "dec_digits n = (if n < 10 then [char_of (48 + n)] else dec_digits (n div 10) @ [char_of (48 + n mod 10)])"

declare dec_digits.simps [simp del]

definition itoa :: "int \<Rightarrow> string" where
  "itoa i = (if i < 0 then CHR ''-'' # dec_digits (nat (- i)) else dec_digits (nat i))"

definition join_host_port :: "string \<Rightarrow> string \<Rightarrow> string" where
  "join_host_port host port =
     (if CHR '':'' \<in> set host then ''['' @ host @ '']:'' @ port else host @ '':'' @ port)"

lemma dec_value_append:
  "dec_value acc (s @ t) = (case dec_value acc s of None \<Rightarrow> None | Some a \<Rightarrow> dec_value a t)"
  by (induction s arbitrary: acc) auto

lemma dec_digits_value: "dec_value 0 (dec_digits n) = Some (int n)"
proof (induction n rule: dec_digits.induct)
  case (1 n)
  show ?case
  proof (cases "n < 10")
    case True
    then show ?thesis by (subst dec_digits.simps) (simp add: is_digit_def)
  next
    case False
    have d: "is_digit (char_of (48 + n mod 10))" "of_char (char_of (48 + n mod 10) :: char) = 48 + n mod 10"
      by (simp_all add: is_digit_def)
    have "int (n div 10) * 10 + int (n mod 10) = int n"
      by (metis div_mult_mod_eq of_nat_add of_nat_mult of_nat_numeral)
    then show ?thesis using 1 False d by (subst dec_digits.simps) (simp add: dec_value_append)
  qed
qed

lemma dec_digits_digit: "c \<in> set (dec_digits n) \<Longrightarrow> is_digit c"
proof (induction n rule: dec_digits.induct)
  case (1 n)
  then show ?case by (subst (asm) dec_digits.simps) (auto simp: is_digit_def split: if_splits)
qed

lemma dec_digits_not_Nil [simp]: "dec_digits n \<noteq> []"
  by (subst dec_digits.simps) simp

lemma atoi_itoa:
  assumes "min_int64 \<le> i" "i \<le> max_int64"
  shows "atoi (itoa i) = Some i"
proof (cases "i < 0")
  case True
  then show ?thesis using assms by (simp add: atoi_def itoa_def dec_digits_value)
next
  case False
  obtain c r where d: "dec_digits (nat i) = c # r" by (cases "dec_digits (nat i)") auto
  then have "is_digit c" using dec_digits_digit[of c "nat i"] by simp
  then have "c \<noteq> CHR ''-''" "c \<noteq> CHR ''+''" by (auto simp: is_digit_def)
  then show ?thesis using False assms d dec_digits_value[of "nat i"] by (simp add: atoi_def itoa_def)
qed

lemma split_join_host_port:
  assumes "CHR ''['' \<notin> set h" "CHR '']'' \<notin> set h" "CHR '':'' \<notin> set p" "CHR ''['' \<notin> set p" "CHR '']'' \<notin> set p"
  shows "split_host_port (join_host_port h p) = Some (h, p)"
proof (cases "CHR '':'' \<in> set h")
  case True
  have l: "last_index_byte (''['' @ h @ '']:'' @ p) CHR '':'' = Some (length h + 2)"
    using last_index_byte_append[of "CHR '':''" p "''['' @ h @ '']''"] assms by simp
  have "index_where (\<lambda>d. d = CHR '']'') h = None" using assms by (auto simp: index_where_None)
  then have "index_byte (''['' @ h @ '']:'' @ p) CHR '']'' = Some (length h + 1)"
    by (simp add: index_byte_def index_where_append)
  then show ?thesis using True l assms by (auto simp: split_host_port_def join_host_port_def)
next
  case False
  have l: "last_index_byte (h @ '':'' @ p) CHR '':'' = Some (length h)"
    using last_index_byte_append[of "CHR '':''" p h] assms by simp
  have "hd (h @ '':'' @ p) \<noteq> CHR ''[''" using assms by (cases h) auto
  then show ?thesis using False l assms by (auto simp: split_host_port_def join_host_port_def)
qed
section \<open>ASCII strings\<close>

lemma rune_chunks_ascii: "list_all (\<lambda>c. byte c < 128) s \<Longrightarrow> rune_chunks s = map (\<lambda>c. (byte c, [c])) s"
  by (induction s) (simp_all add: rune_chunks_ascii_Cons)

lemma dropWhile_none: "list_all (\<lambda>x. \<not> P x) xs \<Longrightarrow> dropWhile P xs = xs"
  by (cases xs) simp_all

lemma trim_space_id:
  assumes "list_all (\<lambda>c. byte c < 128 \<and> \<not> space_rune (byte c)) s"
  shows "trim_space s = s"
proof -
  let ?cs = "map (\<lambda>c. (of_char c :: nat, [c])) s"
  have "rune_chunks s = ?cs" using assms by (intro rune_chunks_ascii) (simp add: list_all_iff)
  moreover have "dropWhile (space_rune \<circ> fst) ?cs = ?cs" "dropWhile (space_rune \<circ> fst) (rev ?cs) = rev ?cs"
    using assms by (auto intro!: dropWhile_none simp: list_all_iff)
  moreover have "concat (map snd ?cs) = s" by (induction s) simp_all
  ultimately show ?thesis by (simp add: trim_space_def)
qed

end
