(* ===== verification/PromCap.thy ===== *)
theory PromCap
  imports Metricscap GoStd
begin

text \<open>
  The Prometheus half of \<^verbatim>\<open>internal/metricscap/reader.go\<close>: the gatherer rewrites the capped label of
  each scraped series and merges the series that become equal.

  A \<^verbatim>\<open>dto.Metric\<close> is a record of its optional parts; a nil number inside a part reads as zero, so it is
  not kept apart.  \<open>'f\<close> is \<^verbatim>\<open>float64\<close>, taken as a linear order with addition (bucket bounds are never
  NaN), \<open>'x\<close> an exemplar and \<open>'s\<close> a summary.
\<close>

record prom_rule =
  MetricName :: string
  LabelName :: string
  PMax :: int
  PScopeName :: string
  PBudgetKey :: string

record ('f, 'x) dto_bucket =
  UpperBound :: 'f
  CumulativeCount :: "64 word"
  BExemplar :: "'x option"

record ('f, 'x) dto_histogram =
  SampleCount :: "64 word"
  SampleSum :: 'f
  Bucket :: "('f, 'x) dto_bucket list"

record ('f, 'x, 's) dto_metric =
  Label :: "(string \<times> string) list"
  Counter :: "'f option"
  Gauge :: "'f option"
  Histogram :: "('f, 'x) dto_histogram option"
  Untyped :: "'f option"
  Summary :: "'s option"
  TimestampMs :: "int option"

record ('f, 'x, 's) family =
  FamilyName :: string
  Metric :: "('f, 'x, 's) dto_metric list"

record prom_limiter =
  prom_rules :: "prom_rule list"
  prom_buckets :: "string \<Rightarrow> bucket option"

definition scopeNameLabel :: string where "scopeNameLabel = ''otel_scope_name''"

definition newPrometheusLimiter :: "prom_rule list \<Rightarrow> prom_limiter" where
  "newPrometheusLimiter rs =
     \<lparr>prom_rules = filter (\<lambda>r. \<not> (MetricName r = [] \<or> LabelName r = [] \<or> PMax r \<le> 0)) rs,
      prom_buckets = Map.empty\<rparr>"

definition prometheusLabel :: "(string \<times> string) list \<Rightarrow> string \<Rightarrow> string" where
  "prometheusLabel labels name = (case map_of labels name of None \<Rightarrow> [] | Some v \<Rightarrow> v)"

definition prom_budget :: "prom_rule \<Rightarrow> string" where
  "prom_budget r =
     (if PBudgetKey r = [] then PScopeName r @ [CHR 0x00] @ MetricName r @ [CHR 0x00] @ LabelName r
      else PBudgetKey r)"

definition prom_bucket :: "prom_limiter \<Rightarrow> prom_rule \<Rightarrow> bucket \<times> prom_limiter" where
  "prom_bucket l r =
     (case prom_buckets l (prom_budget r) of
        Some b \<Rightarrow> (b, l)
      | None \<Rightarrow> let b = \<lparr>bucket_key = LabelName r, bucket_max = PMax r, seen = []\<rparr>
                in (b, l\<lparr>prom_buckets := (prom_buckets l)(prom_budget r \<mapsto> b)\<rparr>))"

fun rewritePrometheusLabels :: "(string \<times> string) list \<Rightarrow> string \<Rightarrow> bucket \<Rightarrow> (string \<times> string) list \<times> bucket" where
  "rewritePrometheusLabels [] labelName b = ([], b)"
| "rewritePrometheusLabels ((n, v) # rest) labelName b =
     (if n \<noteq> labelName then (let (rest', b') = rewritePrometheusLabels rest labelName b in ((n, v) # rest', b'))
      else (let (nxt, b') = observe b v in ((n, nxt) # rest, b')))"

section \<open>Merging\<close>

definition label_entry :: "string \<times> string \<Rightarrow> string" where
  "label_entry l = fst l @ ''='' @ snd l"

definition prometheusMetricKey :: "(string \<times> string) list \<Rightarrow> string" where
  "prometheusMetricKey labels = join [CHR 0xFF] (sort (map label_entry labels))"

text \<open>\<^verbatim>\<open>buckets[bucket.GetUpperBound()] = bucket\<close>: the position of the last bucket with that bound.\<close>

fun bound_index :: "nat \<Rightarrow> ('f, 'x) dto_bucket list \<Rightarrow> 'f \<Rightarrow> nat option" where
  "bound_index i [] = Map.empty"
| "bound_index i (b # bs) =
     (\<lambda>f. case bound_index (i + 1) bs f of Some j \<Rightarrow> Some j | None \<Rightarrow> if UpperBound b = f then Some i else None)"

definition add_bucket :: "('f, 'x) dto_bucket \<Rightarrow> ('f, 'x) dto_bucket \<Rightarrow> ('f, 'x) dto_bucket" where
  "add_bucket dst src =
     dst\<lparr>CumulativeCount := CumulativeCount dst + CumulativeCount src,
         BExemplar := (if BExemplar dst = None then BExemplar src else BExemplar dst)\<rparr>"

fun merge_buckets ::
  "('f \<Rightarrow> nat option) \<Rightarrow> ('f, 'x) dto_bucket list \<Rightarrow> ('f, 'x) dto_bucket list \<Rightarrow> ('f, 'x) dto_bucket list" where
  "merge_buckets idx out [] = out"
| "merge_buckets idx out (s # ss) =
     (case idx (UpperBound s) of
        None \<Rightarrow> merge_buckets idx (out @ [s]) ss
      | Some i \<Rightarrow> merge_buckets idx (out[i := add_bucket (out ! i) s]) ss)"

definition mergePrometheusHistogram ::
  "('f::{plus, linorder}, 'x) dto_histogram \<Rightarrow> ('f, 'x) dto_histogram \<Rightarrow> ('f, 'x) dto_histogram" where
  "mergePrometheusHistogram dst src =
     dst\<lparr>SampleCount := SampleCount dst + SampleCount src,
         SampleSum := SampleSum dst + SampleSum src,
         Bucket := sort_key UpperBound (merge_buckets (bound_index 0 (Bucket dst)) (Bucket dst) (Bucket src))\<rparr>"

text \<open>The five parts in the order the source visits them.\<close>

definition add_part :: "('a \<Rightarrow> 'a \<Rightarrow> 'a) \<Rightarrow> 'a option \<Rightarrow> 'a option \<Rightarrow> 'a option" where
  "add_part f dst src = (case (src, dst) of (Some s, Some d) \<Rightarrow> Some (f d s) | _ \<Rightarrow> dst)"

definition mergePrometheusMetric ::
  "('f::{plus, linorder}, 'x, 's) dto_metric \<Rightarrow> ('f, 'x, 's) dto_metric \<Rightarrow> ('f, 'x, 's) dto_metric" where
  "mergePrometheusMetric dst src =
     (let d1 = dst\<lparr>Counter := add_part (+) (Counter dst) (Counter src)\<rparr>;
          d2 = (if Gauge src \<noteq> None then d1\<lparr>Gauge := Gauge src, TimestampMs := TimestampMs src\<rparr> else d1);
          d3 = d2\<lparr>Histogram := add_part mergePrometheusHistogram (Histogram d2) (Histogram src)\<rparr>;
          d4 = d3\<lparr>Untyped := add_part (+) (Untyped d3) (Untyped src)\<rparr>
      in if Summary src \<noteq> None then d4\<lparr>Summary := Summary src, TimestampMs := TimestampMs src\<rparr> else d4)"

definition mergePrometheusMetrics ::
  "('f::{plus, linorder}, 'x, 's) dto_metric list \<Rightarrow> ('f, 'x, 's) dto_metric list" where
  "mergePrometheusMetrics ms = merge_loop (prometheusMetricKey \<circ> Label) mergePrometheusMetric Map.empty [] ms"

section \<open>The rewrite\<close>

fun rewrite_series ::
  "prom_rule \<Rightarrow> bucket \<Rightarrow> ('f, 'x, 's) dto_metric list \<Rightarrow> ('f, 'x, 's) dto_metric list \<times> bucket" where
  "rewrite_series r b [] = ([], b)"
| "rewrite_series r b (m # ms) =
     (if PScopeName r \<noteq> [] \<and> prometheusLabel (Label m) scopeNameLabel \<noteq> PScopeName r
      then (let (ms', b') = rewrite_series r b ms in (m # ms', b'))
      else (let (ls, b1) = rewritePrometheusLabels (Label m) (LabelName r) b;
                (ms', b2) = rewrite_series r b1 ms
            in (m\<lparr>Label := ls\<rparr> # ms', b2)))"

definition apply_prom_rule ::
  "prom_limiter \<Rightarrow> ('f::{plus, linorder}, 'x, 's) family \<Rightarrow> prom_rule \<Rightarrow> ('f, 'x, 's) family \<times> prom_limiter" where
  "apply_prom_rule l fam r =
     (if FamilyName fam \<noteq> MetricName r then (fam, l)
      else let (b, l1) = prom_bucket l r; (ms, b') = rewrite_series r b (Metric fam)
           in (fam\<lparr>Metric := mergePrometheusMetrics ms\<rparr>,
               l1\<lparr>prom_buckets := (prom_buckets l1)(prom_budget r \<mapsto> b')\<rparr>))"

fun apply_prom_rules ::
  "prom_limiter \<Rightarrow> ('f::{plus, linorder}, 'x, 's) family \<Rightarrow> prom_rule list \<Rightarrow> ('f, 'x, 's) family \<times> prom_limiter" where
  "apply_prom_rules l fam [] = (fam, l)"
| "apply_prom_rules l fam (r # rs) = (let (fam', l') = apply_prom_rule l fam r in apply_prom_rules l' fam' rs)"

fun prom_rewrite ::
  "prom_limiter \<Rightarrow> ('f::{plus, linorder}, 'x, 's) family list \<Rightarrow> ('f, 'x, 's) family list \<times> prom_limiter" where
  "prom_rewrite l [] = ([], l)"
| "prom_rewrite l (fam # fams) =
     (let (fam', l1) = apply_prom_rules l fam (prom_rules l); (fams', l2) = prom_rewrite l1 fams
      in (fam' # fams', l2))"

text \<open>\<^verbatim>\<open>Gatherer.Gather\<close>: \<open>gathered\<close> is what the wrapped gatherer returned, an error included; the
  families are rewritten in both cases.\<close>

definition Gather ::
  "prom_limiter \<Rightarrow> ('f::{plus, linorder}, 'x, 's) family list \<times> 'e option \<Rightarrow>
   (('f, 'x, 's) family list \<times> 'e option) \<times> prom_limiter" where
  "Gather l gathered =
     (let (fams, err) = gathered; (fams', l') = (if prom_rules l = [] then (fams, l) else prom_rewrite l fams)
      in ((fams', err), l'))"


section \<open>Which series are told apart\<close>

interpretation prom: point_merge "prometheusMetricKey \<circ> Label" mergePrometheusMetric
  by unfold_locales (simp add: mergePrometheusMetric_def Let_def)

lemma join_inj:
  assumes "\<And>s. s \<in> set xs \<union> set ys \<Longrightarrow> c \<notin> set s \<and> s \<noteq> []"
  shows "join [c] xs = join [c] ys \<longleftrightarrow> xs = ys"
proof -
  have split: "join [c] xs \<noteq> [] \<longleftrightarrow> xs \<noteq> []" if "\<And>s. s \<in> set xs \<Longrightarrow> s \<noteq> []" for xs
    using that by (cases xs rule: list.exhaust; cases "tl xs") auto
  have "join [c] xs = join [c] ys \<Longrightarrow> xs = ys"
    using assms
  proof (induction "[c]" xs arbitrary: ys rule: join.induct)
    case 1
    then show ?case using split[of ys] by fastforce
  next
    case (2 s)
    then obtain t ts where ys: "ys = t # ts" using split[of ys] by (cases ys) auto
    show ?case
    proof (cases ts)
      case Nil
      then show ?thesis using 2 ys by simp
    next
      case (Cons u us)
      then have "c \<in> set s" using 2(1) ys by auto
      then show ?thesis using 2(2) by auto
    qed
  next
    case (3 s u us)
    then obtain t ts where ys: "ys = t # ts" using split[of ys] by (cases ys) auto
    show ?case
    proof (cases ts)
      case Nil
      then have "c \<in> set t" using 3(2) ys by (metis append_Cons append_Nil in_set_conv_decomp join.simps(2,3))
      then show ?thesis using 3(3)[of t] ys by auto
    next
      case (Cons v vs)
      have eq: "s @ [c] @ join [c] (u # us) = t @ [c] @ join [c] (v # vs)" using 3(2) ys Cons by simp
      have "c \<notin> set s" "c \<notin> set t" using 3(3) ys by auto
      with eq have "s = t" "join [c] (u # us) = join [c] (v # vs)"
        by (simp_all add: append_sep_inj)
      with 3(1)[of "v # vs"] 3(3) ys Cons show ?thesis by auto
    qed
  qed
  then show ?thesis by auto
qed

text \<open>A label set as it can occur in an exposition: the name is an identifier (so has no \<^verbatim>\<open>=\<close>), and
  name and value are valid UTF-8 (so have no byte 0xFF).\<close>

definition utf8_labels :: "(string \<times> string) list \<Rightarrow> bool" where
  "utf8_labels ls \<longleftrightarrow> list_all (\<lambda>(n, v). CHR ''='' \<notin> set n \<and> CHR 0xFF \<notin> set n \<and> CHR 0xFF \<notin> set v) ls"

lemma label_entry_inj:
  "CHR ''='' \<notin> set (fst a) \<Longrightarrow> CHR ''='' \<notin> set (fst b) \<Longrightarrow> label_entry a = label_entry b \<longleftrightarrow> a = b"
  by (cases a; cases b) (simp add: label_entry_def append_sep_inj)

section \<open>Capping\<close>

text \<open>The series of a rule carries an admitted value under the rule's label, if it has the label.\<close>

definition in_scope :: "prom_rule \<Rightarrow> (string \<times> string) list \<Rightarrow> bool" where
  "in_scope r ls \<longleftrightarrow> PScopeName r = [] \<or> prometheusLabel ls scopeNameLabel = PScopeName r"

definition prom_capped :: "prom_rule \<Rightarrow> string set \<Rightarrow> (string \<times> string) list \<Rightarrow> bool" where
  "prom_capped r vs ls \<longleftrightarrow> (in_scope r ls \<longrightarrow> (\<forall>v. map_of ls (LabelName r) = Some v \<longrightarrow> v \<in> vs))"

lemma prom_capped_mono: "prom_capped r vs ls \<Longrightarrow> vs \<subseteq> ws \<Longrightarrow> prom_capped r ws ls"
  by (auto simp: prom_capped_def)

lemma rewritePrometheusLabels_spec:
  assumes "rewritePrometheusLabels ls n b = (ls', b')"
  shows "extends b b' \<and> (\<forall>v. map_of ls' n = Some v \<longrightarrow> v \<in> admitted b') \<and>
    (\<forall>k. map_of ls' k = map_of ls k \<or> (k = n \<and> map_of ls' k = Some OverflowValue))"
  using assms
proof (induction ls n b arbitrary: ls' b' rule: rewritePrometheusLabels.induct)
  case (2 n v rest labelName b)
  show ?case
  proof (cases "n = labelName")
    case True
    obtain nxt b1 where o: "observe b v = (nxt, b1)" by fastforce
    then have "ls' = (n, nxt) # rest" "b' = b1" using 2(2) True by auto
    then show ?thesis using observe_spec[OF o] True by auto
  next
    case False
    obtain rs b1 where r: "rewritePrometheusLabels rest labelName b = (rs, b1)" by fastforce
    then have "ls' = (n, v) # rs" "b' = b1" using 2(2) False by auto
    then show ?thesis using 2(1)[OF False r] False by auto
  qed
qed simp

definition rules_ok :: "prom_rule list \<Rightarrow> bool" where
  "rules_ok rs \<longleftrightarrow> list_all (\<lambda>r. LabelName r \<noteq> scopeNameLabel \<and> 0 < PMax r) rs"

lemma rewrite_keeps_scope:
  assumes "rewritePrometheusLabels ls n b = (ls', b')" "n \<noteq> scopeNameLabel"
  shows "in_scope r ls' = in_scope r ls"
proof -
  have "map_of ls' scopeNameLabel = map_of ls scopeNameLabel"
    using rewritePrometheusLabels_spec[OF assms(1)] assms(2) by metis
  then show ?thesis by (simp add: in_scope_def prometheusLabel_def)
qed

lemma rewrite_labels_other:
  assumes "rewritePrometheusLabels ls n b = (ls', b')" "n \<noteq> scopeNameLabel" "prom_capped q vs ls" "OverflowValue \<in> vs"
  shows "prom_capped q vs ls'"
  using rewrite_keeps_scope[OF assms(1,2), of q] rewritePrometheusLabels_spec[OF assms(1)] assms(3,4)
  unfolding prom_capped_def by (metis option.inject)

lemma rewrite_series_spec:
  assumes "rewrite_series r b ms = (ms', b')" "LabelName r \<noteq> scopeNameLabel"
  shows "extends b b' \<and> (\<forall>m \<in> set ms'. prom_capped r (admitted b') (Label m)) \<and>
    (\<forall>q vs. OverflowValue \<in> vs \<longrightarrow> (\<forall>m \<in> set ms. prom_capped q vs (Label m)) \<longrightarrow>
       (\<forall>m \<in> set ms'. prom_capped q vs (Label m)))"
  using assms
proof (induction r b ms arbitrary: ms' b' rule: rewrite_series.induct)
  case (2 r b m ms)
  show ?case
  proof (cases "PScopeName r \<noteq> [] \<and> prometheusLabel (Label m) scopeNameLabel \<noteq> PScopeName r")
    case True
    obtain ms1 b1 where r: "rewrite_series r b ms = (ms1, b1)" by fastforce
    have eq: "ms' = m # ms1" "b' = b1" using 2(3) True r by auto
    have "prom_capped r (admitted b1) (Label m)" using True by (simp add: prom_capped_def in_scope_def)
    with 2(1)[OF True r 2(4)] show ?thesis unfolding eq by simp
  next
    case False
    obtain ls b1 where l: "rewritePrometheusLabels (Label m) (LabelName r) b = (ls, b1)" by fastforce
    obtain ms1 b2 where r: "rewrite_series r b1 ms = (ms1, b2)" by fastforce
    have eq: "ms' = m\<lparr>Label := ls\<rparr> # ms1" "b' = b2" using 2(3) False l r by auto
    note here = rewritePrometheusLabels_spec[OF l] and IH = 2(2)[OF False l[symmetric] refl r 2(4)]
    have "prom_capped r (admitted b1) ls" using here by (auto simp: prom_capped_def)
    then have "prom_capped r (admitted b2) ls"
      using IH extends_admitted[of b1 b2] prom_capped_mono[of r "admitted b1" ls "admitted b2"] by blast
    moreover have "prom_capped q vs ls" if "prom_capped q vs (Label m)" "OverflowValue \<in> vs" for q vs
      using rewrite_labels_other[OF l 2(4) that] .
    ultimately show ?thesis using here IH extends_trans[of b b1 b2] unfolding eq by simp
  qed
qed simp

text \<open>Merging keeps the labels of one of the merged series and leaves no two series alike.\<close>

lemma foldl1_label: "qs \<noteq> [] \<Longrightarrow> Label (foldl1 mergePrometheusMetric qs) = Label (hd qs)"
proof (induction qs rule: rev_induct)
  case (snoc q qs)
  then show ?case by (cases "qs = []") (auto simp: foldl1_snoc mergePrometheusMetric_def Let_def)
qed simp

lemma merge_labels_subset:
  "m \<in> set (mergePrometheusMetrics ms) \<Longrightarrow> \<exists>m' \<in> set ms. Label m = Label m'"
proof -
  assume "m \<in> set (mergePrometheusMetrics ms)"
  then obtain k where k: "k \<in> set (map (prometheusMetricKey \<circ> Label) ms)"
    and m: "m = foldl1 mergePrometheusMetric (filter (\<lambda>p. (prometheusMetricKey \<circ> Label) p = k) ms)"
    by (auto simp: mergePrometheusMetrics_def prom.merge_is_grouped grouped_def)
  let ?qs = "filter (\<lambda>p. (prometheusMetricKey \<circ> Label) p = k) ms"
  have "?qs \<noteq> []" using k by (auto simp: filter_empty_conv)
  then have "hd ?qs \<in> set ?qs" by (rule hd_in_set)
  then show ?thesis using foldl1_label[OF \<open>?qs \<noteq> []\<close>] m by (auto intro!: bexI[of _ "hd ?qs"])
qed

lemma merged_series_distinct: "distinct (map (prometheusMetricKey \<circ> Label) (mergePrometheusMetrics ms))"
  unfolding mergePrometheusMetrics_def by (rule prom.merged_keys)


text \<open>The budgets: every bucket keeps its invariant and only grows.\<close>

definition budgets_inv :: "prom_limiter \<Rightarrow> bool" where
  "budgets_inv l \<longleftrightarrow> (\<forall>k b. prom_buckets l k = Some b \<longrightarrow> bucket_inv b \<and>
     (\<exists>r \<in> set (prom_rules l). prom_budget r = k \<and> bucket_max b = PMax r))"

definition prom_extends :: "prom_limiter \<Rightarrow> prom_limiter \<Rightarrow> bool" where
  "prom_extends l l' \<longleftrightarrow> prom_rules l' = prom_rules l \<and>
     (\<forall>k b. prom_buckets l k = Some b \<longrightarrow> (\<exists>b'. prom_buckets l' k = Some b' \<and> extends b b'))"

definition prom_admitted :: "prom_limiter \<Rightarrow> prom_rule \<Rightarrow> string set" where
  "prom_admitted l r = (case prom_buckets l (prom_budget r) of None \<Rightarrow> {OverflowValue} | Some b \<Rightarrow> admitted b)"

lemma prom_extends_trans: "prom_extends a b \<Longrightarrow> prom_extends b c \<Longrightarrow> prom_extends a c"
  unfolding prom_extends_def by (metis extends_trans)

lemma prom_extends_refl [simp]: "prom_extends l l"
  by (simp add: prom_extends_def)

lemma overflow_prom_admitted [simp]: "OverflowValue \<in> prom_admitted l r"
  by (simp add: prom_admitted_def admitted_def split: option.splits)

lemma prom_admitted_mono: "prom_extends l l' \<Longrightarrow> prom_admitted l r \<subseteq> prom_admitted l' r"
  by (cases "prom_buckets l (prom_budget r)")
     (auto simp: prom_extends_def prom_admitted_def extends_def admitted_def split: option.splits dest!: spec)

definition fam_capped :: "prom_limiter \<Rightarrow> ('f, 'x, 's) family \<Rightarrow> prom_rule \<Rightarrow> bool" where
  "fam_capped l fam r \<longleftrightarrow> (FamilyName fam = MetricName r \<longrightarrow>
     (\<forall>m \<in> set (Metric fam). prom_capped r (prom_admitted l r) (Label m)) \<and>
     distinct (map (prometheusMetricKey \<circ> Label) (Metric fam)))"

lemma fam_capped_mono: "prom_extends l l' \<Longrightarrow> fam_capped l fam r \<Longrightarrow> fam_capped l' fam r"
  using prom_admitted_mono[of l l' r] prom_capped_mono by (auto simp: fam_capped_def)

lemma prom_bucket_spec:
  assumes "prom_bucket l r = (b, l1)" "budgets_inv l" "0 < PMax r" "r \<in> set (prom_rules l)"
  shows "budgets_inv l1 \<and> prom_extends l l1 \<and> prom_buckets l1 (prom_budget r) = Some b \<and> bucket_inv b"
proof (cases "prom_buckets l (prom_budget r)")
  case None
  have new: "bucket_inv \<lparr>bucket_key = LabelName r, bucket_max = PMax r, seen = []\<rparr>"
    using assms(3) by (simp add: bucket_inv_def)
  have eq: "b = \<lparr>bucket_key = LabelName r, bucket_max = PMax r, seen = []\<rparr>"
    "l1 = l\<lparr>prom_buckets := (prom_buckets l)(prom_budget r \<mapsto> b)\<rparr>"
    using assms(1) None by (auto simp: prom_bucket_def Let_def)
  show ?thesis
    using assms(2,4) None new unfolding budgets_inv_def prom_extends_def eq by auto
next
  case (Some b0)
  then show ?thesis using assms by (auto simp: prom_bucket_def budgets_inv_def)
qed

lemma apply_prom_rule_spec:
  assumes "apply_prom_rule l fam r = (fam', l')" "budgets_inv l" "LabelName r \<noteq> scopeNameLabel" "0 < PMax r"
    "r \<in> set (prom_rules l)"
  shows "budgets_inv l' \<and> prom_extends l l' \<and> FamilyName fam' = FamilyName fam \<and> fam_capped l' fam' r \<and>
    (\<forall>q. fam_capped l fam q \<longrightarrow> fam_capped l' fam' q)"
proof (cases "FamilyName fam = MetricName r")
  case False
  then show ?thesis using assms by (auto simp: apply_prom_rule_def fam_capped_def)
next
  case True
  obtain b l1 where b: "prom_bucket l r = (b, l1)" by fastforce
  obtain ms b' where ms: "rewrite_series r b (Metric fam) = (ms, b')" by fastforce
  define l2 where "l2 = l1\<lparr>prom_buckets := (prom_buckets l1)(prom_budget r \<mapsto> b')\<rparr>"
  have eq: "fam' = fam\<lparr>Metric := mergePrometheusMetrics ms\<rparr>" "l' = l2"
    using assms(1) True b ms by (auto simp: apply_prom_rule_def l2_def)
  note pb = prom_bucket_spec[OF b assms(2,4,5)] and rs = rewrite_series_spec[OF ms assms(3)]
  have b': "bucket_inv b'" "bucket_max b' = bucket_max b" using pb rs by (auto simp: extends_def)
  have "\<exists>r' \<in> set (prom_rules l1). prom_budget r' = prom_budget r \<and> bucket_max b = PMax r'"
    using pb by (auto simp: budgets_inv_def)
  with b' pb have inv: "budgets_inv l2" by (auto simp: l2_def budgets_inv_def)
  have ext1: "prom_extends l1 l2" using pb rs by (auto simp: l2_def prom_extends_def)
  then have ext: "prom_extends l l2" using pb prom_extends_trans by blast
  have adm: "prom_admitted l2 r = admitted b'" by (simp add: prom_admitted_def l2_def)
  have capped: "fam_capped l2 fam' r"
    using rs merge_labels_subset[of _ ms] merged_series_distinct[of ms] by (fastforce simp: fam_capped_def eq adm)
  have "fam_capped l2 fam' q" if "fam_capped l fam q" for q
    unfolding fam_capped_def
  proof (intro impI conjI)
    assume name: "FamilyName fam' = MetricName q"
    show "distinct (map (prometheusMetricKey \<circ> Label) (Metric fam'))"
      using merged_series_distinct[of ms] by (simp add: eq)
    have "\<forall>m \<in> set (Metric fam). prom_capped q (prom_admitted l2 q) (Label m)"
      using fam_capped_mono[OF ext that] name by (simp add: fam_capped_def eq)
    then have "\<forall>m \<in> set ms. prom_capped q (prom_admitted l2 q) (Label m)" using rs by simp
    then show "\<forall>m \<in> set (Metric fam'). prom_capped q (prom_admitted l2 q) (Label m)"
      using merge_labels_subset[of _ ms] by (fastforce simp: eq)
  qed
  with inv ext capped show ?thesis by (simp add: eq)
qed

lemma apply_prom_rules_spec:
  assumes "apply_prom_rules l fam rs = (fam', l')" "budgets_inv l" "rules_ok rs" "set rs \<subseteq> set (prom_rules l)"
  shows "budgets_inv l' \<and> prom_extends l l' \<and> FamilyName fam' = FamilyName fam \<and>
    (\<forall>r \<in> set rs. fam_capped l' fam' r) \<and> (\<forall>q. fam_capped l fam q \<longrightarrow> fam_capped l' fam' q)"
  using assms
proof (induction rs arbitrary: l fam)
  case (Cons r rs)
  obtain f1 l1 where s: "apply_prom_rule l fam r = (f1, l1)" by fastforce
  have ok: "LabelName r \<noteq> scopeNameLabel" "0 < PMax r" "rules_ok rs" using Cons.prems(3) by (auto simp: rules_ok_def)
  have mem: "r \<in> set (prom_rules l)" using Cons.prems(4) by simp
  note here = apply_prom_rule_spec[OF s Cons.prems(2) ok(1,2) mem]
  have rest: "apply_prom_rules l1 f1 rs = (fam', l')" using Cons.prems(1) s by simp
  have inv: "budgets_inv l1" "set rs \<subseteq> set (prom_rules l1)"
    using here Cons.prems(4) by (auto simp: prom_extends_def)
  note IH = Cons.IH[OF rest inv(1) ok(3) inv(2)]
  show ?case using here IH prom_extends_trans[of l l1 l'] by auto
qed simp

lemma prom_rewrite_spec:
  assumes "prom_rewrite l fams = (fams', l')" "budgets_inv l" "rules_ok (prom_rules l)"
  shows "budgets_inv l' \<and> prom_extends l l' \<and> map FamilyName fams' = map FamilyName fams \<and>
    (\<forall>fam \<in> set fams'. \<forall>r \<in> set (prom_rules l). fam_capped l' fam r)"
  using assms
proof (induction fams arbitrary: l fams' l')
  case (Cons fam fams)
  obtain f1 l1 where s: "apply_prom_rules l fam (prom_rules l) = (f1, l1)" by fastforce
  obtain fs l2 where r: "prom_rewrite l1 fams = (fs, l2)" by fastforce
  have eq: "fams' = f1 # fs" "l' = l2" using Cons.prems(1) s r by auto
  note here = apply_prom_rules_spec[OF s Cons.prems(2,3) order.refl]
  have rl: "prom_rules l1 = prom_rules l" using here by (simp add: prom_extends_def)
  have IH: "budgets_inv l2 \<and> prom_extends l1 l2 \<and> map FamilyName fs = map FamilyName fams \<and>
    (\<forall>fam \<in> set fs. \<forall>r \<in> set (prom_rules l1). fam_capped l2 fam r)"
    using Cons.IH[OF r] here Cons.prems(3) rl by simp
  have "\<forall>r \<in> set (prom_rules l). fam_capped l2 f1 r"
    using here IH fam_capped_mono[of l1 l2 f1] by blast
  then show ?case using here IH prom_extends_trans[of l l1 l2] rl by (simp add: eq)
qed simp


text \<open>Successive scrapes.\<close>

fun gather_all ::
  "prom_limiter \<Rightarrow> (('f::{plus, linorder}, 'x, 's) family list \<times> 'e option) list \<Rightarrow>
   (('f, 'x, 's) family list \<times> 'e option) list \<times> prom_limiter" where
  "gather_all l [] = ([], l)"
| "gather_all l (g # gs) = (let (o1, l1) = Gather l g; (os, l2) = gather_all l1 gs in (o1 # os, l2))"

lemma Gather_spec:
  assumes "Gather l (fams, err) = ((fams', err'), l')" "budgets_inv l" "rules_ok (prom_rules l)"
  shows "err' = err \<and> budgets_inv l' \<and> prom_extends l l' \<and>
    (\<forall>fam \<in> set fams'. \<forall>r \<in> set (prom_rules l). fam_capped l' fam r)"
  using assms prom_rewrite_spec[of l fams fams' l'] by (auto simp: Gather_def split: if_splits prod.splits)

lemma gather_all_spec:
  assumes "gather_all l gs = (os, l')" "budgets_inv l" "rules_ok (prom_rules l)"
  shows "budgets_inv l' \<and> prom_extends l l' \<and>
    (\<forall>out \<in> set os. \<forall>fam \<in> set (fst out). \<forall>r \<in> set (prom_rules l). fam_capped l' fam r)"
  using assms
proof (induction gs arbitrary: l os)
  case (Cons g gs)
  obtain fs e l1 where g: "Gather l g = ((fs, e), l1)" by (metis surj_pair)
  obtain os2 where r: "gather_all l1 gs = (os2, l')" and os: "os = (fs, e) # os2"
    using Cons.prems(1) g by (auto split: prod.splits)
  obtain fams err where "g = (fams, err)" by fastforce
  with g have one: "budgets_inv l1" "prom_extends l l1"
    "\<forall>fam \<in> set fs. \<forall>r \<in> set (prom_rules l). fam_capped l1 fam r"
    using Gather_spec[of l fams err fs e l1] Cons.prems(2,3) by auto
  have rl: "prom_rules l1 = prom_rules l" using one(2) by (simp add: prom_extends_def)
  note more = Cons.IH[OF r one(1), unfolded rl, OF Cons.prems(3)]
  have "\<forall>fam \<in> set fs. \<forall>r \<in> set (prom_rules l). fam_capped l' fam r"
    using one(3) more fam_capped_mono[of l1 l'] by blast
  then show ?case using more one prom_extends_trans[of l l1 l'] by (simp add: os)
qed simp

definition scraped_values ::
  "prom_rule \<Rightarrow> (('f, 'x, 's) family list \<times> 'e option) list \<Rightarrow> string set" where
  "scraped_values r outs = {v. \<exists>out \<in> set outs. \<exists>fam \<in> set (fst out). FamilyName fam = MetricName r \<and>
     (\<exists>m \<in> set (Metric fam). in_scope r (Label m) \<and> map_of (Label m) (LabelName r) = Some v)}"

lemma card_prom_admitted:
  assumes "budgets_inv l" "\<forall>r' \<in> set (prom_rules l). prom_budget r' = prom_budget r \<longrightarrow> PMax r' = PMax r"
  shows "finite (prom_admitted l r) \<and> card (prom_admitted l r) \<le> nat (PMax r) + 1"
proof (cases "prom_buckets l (prom_budget r)")
  case None
  then show ?thesis by (simp add: prom_admitted_def)
next
  case (Some b)
  then have "bucket_inv b" "\<exists>r' \<in> set (prom_rules l). prom_budget r' = prom_budget r \<and> bucket_max b = PMax r'"
    using assms(1) unfolding budgets_inv_def by blast+
  with assms(2) have "int (length (seen b)) \<le> PMax r" by (auto simp: bucket_inv_def)
  then have "card (set (seen b)) \<le> nat (PMax r)" using card_length[of "seen b"] by linarith
  with Some show ?thesis
    using card_insert_le_m1[of "nat (PMax r) + 1" "set (seen b)" OverflowValue]
    by (simp add: prom_admitted_def admitted_def)
qed

lemma newPrometheusLimiter_ok:
  "budgets_inv (newPrometheusLimiter rs)"
  "list_all (\<lambda>r. LabelName r \<noteq> scopeNameLabel) rs \<Longrightarrow> rules_ok (prom_rules (newPrometheusLimiter rs))"
  by (auto simp: budgets_inv_def newPrometheusLimiter_def rules_ok_def list_all_iff)

section \<open>Properties\<close>

text \<open>C29. Over any number of scrapes, the values a capped label ever shows are at most \<open>Max\<close> real ones
  plus the overflow value, and no two series of a capped family carry the same labels, so the scrape
  is never rejected for duplicates.  No rule caps the scope label itself, and rules that share a
  budget agree on its size.\<close>

theorem scraped_cardinality_capped:
  fixes gs :: "(('f::{plus, linorder}, 'x, 's) family list \<times> 'e option) list"
  assumes "r \<in> set (prom_rules (newPrometheusLimiter rs))" "list_all (\<lambda>r. LabelName r \<noteq> scopeNameLabel) rs"
    and "\<forall>r' \<in> set rs. prom_budget r' = prom_budget r \<longrightarrow> PMax r' = PMax r"
    and "gather_all (newPrometheusLimiter rs) gs = (outs, l')"
  shows "finite (scraped_values r outs) \<and> card (scraped_values r outs) \<le> nat (PMax r) + 1 \<and>
    (\<forall>out \<in> set outs. \<forall>fam \<in> set (fst out). FamilyName fam = MetricName r \<longrightarrow>
       distinct (map (prometheusMetricKey \<circ> Label) (Metric fam)))"
proof -
  note spec = gather_all_spec[OF assms(4) newPrometheusLimiter_ok(1) newPrometheusLimiter_ok(2)[OF assms(2)]]
  then have rl: "prom_rules l' = prom_rules (newPrometheusLimiter rs)" by (simp add: prom_extends_def)
  have cap: "\<forall>out \<in> set outs. \<forall>fam \<in> set (fst out). fam_capped l' fam r" using spec assms(1) by blast
  then have sub: "scraped_values r outs \<subseteq> prom_admitted l' r"
    unfolding scraped_values_def fam_capped_def prom_capped_def by fastforce
  have "\<forall>r' \<in> set (prom_rules l'). prom_budget r' = prom_budget r \<longrightarrow> PMax r' = PMax r"
    using assms(3) by (simp add: rl newPrometheusLimiter_def)
  with card_prom_admitted spec have "finite (prom_admitted l' r) \<and> card (prom_admitted l' r) \<le> nat (PMax r) + 1"
    by blast
  then have "finite (scraped_values r outs) \<and> card (scraped_values r outs) \<le> nat (PMax r) + 1"
    using card_mono[OF _ sub] finite_subset[OF sub] by auto
  with cap show ?thesis unfolding fam_capped_def by blast
qed

definition demo_prom_rule :: prom_rule where
  "demo_prom_rule = \<lparr>MetricName = ''hits'', LabelName = ''route'', PMax = 1, PScopeName = [], PBudgetKey = []\<rparr>"

definition demo_series :: "string \<Rightarrow> int \<Rightarrow> (int, unit, unit) dto_metric" where
  "demo_series v n = \<lparr>Label = [(''route'', v)], Counter = Some n, Gauge = None, Histogram = None, Untyped = None,
     Summary = None, TimestampMs = None\<rparr>"

definition demo_scrape :: "(int, unit, unit) family list \<times> unit option" where
  "demo_scrape = ([\<lparr>FamilyName = ''hits'', Metric = [demo_series ''/a'' 1, demo_series ''/b'' 2, demo_series ''/c'' 3]\<rparr>], None)"

definition demo_scraped :: "(int, unit, unit) family list \<times> unit option" where
  "demo_scraped = ([\<lparr>FamilyName = ''hits'', Metric = [demo_series ''/a'' 1, demo_series ''other'' 5]\<rparr>], None)"

theorem scraped_cardinality_capped_witness:
  "fst (gather_all (newPrometheusLimiter [demo_prom_rule]) [demo_scrape]) = [demo_scraped] \<and>
   card (scraped_values demo_prom_rule [demo_scraped]) \<le> nat (PMax demo_prom_rule) + 1"
proof -
  have outs: "fst (gather_all (newPrometheusLimiter [demo_prom_rule]) [demo_scrape]) = [demo_scraped]" by code_simp
  then obtain l' where g: "gather_all (newPrometheusLimiter [demo_prom_rule]) [demo_scrape] = ([demo_scraped], l')"
    by (metis prod.collapse)
  have "demo_prom_rule \<in> set (prom_rules (newPrometheusLimiter [demo_prom_rule]))"
    "list_all (\<lambda>r. LabelName r \<noteq> scopeNameLabel) [demo_prom_rule]"
    by (simp_all add: newPrometheusLimiter_def demo_prom_rule_def scopeNameLabel_def)
  from scraped_cardinality_capped[OF this _ g] outs show ?thesis by simp
qed

text \<open>Series are merged only when they carry the same labels: the key built from a label set
  identifies it up to the order of its labels, given that names contain no \<^verbatim>\<open>=\<close> and nothing contains
  the byte 0xFF.\<close>

theorem metric_key_separates_series:
  assumes "utf8_labels ls" "utf8_labels ls'"
  shows "prometheusMetricKey ls = prometheusMetricKey ls' \<longleftrightarrow> mset ls = mset ls'"
proof -
  let ?e = "\<lambda>ls. sort (map label_entry ls)"
  have "CHR 0xFF \<notin> set s \<and> s \<noteq> []" if "s \<in> set (?e ls) \<union> set (?e ls')" for s
    using that assms by (auto simp: utf8_labels_def list_all_iff label_entry_def)
  then have "prometheusMetricKey ls = prometheusMetricKey ls' \<longleftrightarrow> ?e ls = ?e ls'"
    unfolding prometheusMetricKey_def by (intro join_inj) blast
  also have "\<dots> \<longleftrightarrow> image_mset label_entry (mset ls) = image_mset label_entry (mset ls')"
    by (simp add: sort_eq_iff)
  also have "\<dots> \<longleftrightarrow> mset ls = mset ls'"
  proof -
    have "CHR ''='' \<notin> set (fst l)" if "l \<in> set ls \<union> set ls'" for l
      using that assms by (auto simp: utf8_labels_def list_all_iff)
    then have "inj_on label_entry (set ls \<union> set ls')"
      by (intro inj_onI) (simp add: label_entry_inj)
    then show ?thesis using image_mset_inj_on[of label_entry "mset ls" "mset ls'"] by simp
  qed
  finally show ?thesis .
qed


theorem metric_key_separates_series_witness:
  "utf8_labels [(''a'', ''1''), (''b'', [])] \<and> utf8_labels [(''b'', []), (''a'', ''1'')] \<and>
   prometheusMetricKey [(''a'', ''1''), (''b'', [])] = prometheusMetricKey [(''b'', []), (''a'', ''1'')]"
proof -
  have u: "utf8_labels [(''a'', ''1''), (''b'', [])]" "utf8_labels [(''b'', []), (''a'', ''1'')]"
    by (simp_all add: utf8_labels_def)
  then show ?thesis using metric_key_separates_series[OF u] by (simp add: add_mset_commute)
qed

definition has_counter :: "('f, 'x, 's) dto_metric \<Rightarrow> bool" where "has_counter m \<longleftrightarrow> Counter m \<noteq> None"
definition has_histogram :: "('f, 'x, 's) dto_metric \<Rightarrow> bool" where "has_histogram m \<longleftrightarrow> Histogram m \<noteq> None"

definition total_counter :: "('f::comm_monoid_add, 'x, 's) dto_metric list \<Rightarrow> 'f" where
  "total_counter ms = sum_list (map (\<lambda>m. case Counter m of None \<Rightarrow> 0 | Some v \<Rightarrow> v) ms)"

definition total_histogram :: "('f::comm_monoid_add, 'x, 's) dto_metric list \<Rightarrow> 64 word \<times> 'f" where
  "total_histogram ms =
     (sum_list (map (\<lambda>m. case Histogram m of None \<Rightarrow> 0 | Some h \<Rightarrow> SampleCount h) ms),
      sum_list (map (\<lambda>m. case Histogram m of None \<Rightarrow> 0 | Some h \<Rightarrow> SampleSum h) ms))"

lemma rewrite_series_parts:
  "rewrite_series r b ms = (ms', b') \<Longrightarrow> map Counter ms' = map Counter ms \<and> map Histogram ms' = map Histogram ms"
proof (induction r b ms arbitrary: ms' b' rule: rewrite_series.induct)
  case (2 r b m ms)
  show ?case using "2.prems" "2.IH" by (auto split: if_splits prod.splits)
qed simp

lemma merge_parts:
  "Counter (mergePrometheusMetric a b) = add_part (+) (Counter a) (Counter b)"
  "Histogram (mergePrometheusMetric a b) = add_part mergePrometheusHistogram (Histogram a) (Histogram b)"
  by (simp_all add: mergePrometheusMetric_def Let_def)

lemma merge_conserves_counter:
  fixes ms :: "('f::{comm_monoid_add, linorder}, 'x, 's) dto_metric list"
  assumes "list_all has_counter ms"
  shows "total_counter (mergePrometheusMetrics ms) = total_counter ms"
  unfolding total_counter_def mergePrometheusMetrics_def
  using assms by (intro prom.merge_conserves_on[of has_counter])
    (auto simp: has_counter_def merge_parts add_part_def)

lemma merge_conserves_histogram:
  fixes ms :: "('f::{comm_monoid_add, linorder}, 'x, 's) dto_metric list"
  assumes "list_all has_histogram ms"
  shows "total_histogram (mergePrometheusMetrics ms) = total_histogram ms"
  unfolding total_histogram_def mergePrometheusMetrics_def prod.inject
  using assms by (intro conjI prom.merge_conserves_on[of has_histogram])
    (auto simp: has_histogram_def merge_parts add_part_def mergePrometheusHistogram_def)


text \<open>What a family keeps through one rule, all rules, all families.\<close>

definition conserves ::
  "('f::comm_monoid_add, 'x, 's) family \<Rightarrow> ('f, 'x, 's) family \<Rightarrow> bool" where
  "conserves fam fam' \<longleftrightarrow>
     (list_all has_counter (Metric fam) \<longrightarrow>
        list_all has_counter (Metric fam') \<and> total_counter (Metric fam') = total_counter (Metric fam)) \<and>
     (list_all has_histogram (Metric fam) \<longrightarrow>
        list_all has_histogram (Metric fam') \<and> total_histogram (Metric fam') = total_histogram (Metric fam))"

lemma conserves_refl [simp]: "conserves f f"
  by (simp add: conserves_def)

lemma conserves_trans: "conserves f g \<Longrightarrow> conserves g h \<Longrightarrow> conserves f h"
  by (auto simp: conserves_def)

lemma merged_have_parts:
  "list_all has_counter ms \<Longrightarrow> list_all has_counter (mergePrometheusMetrics ms)"
  "list_all has_histogram ms \<Longrightarrow> list_all has_histogram (mergePrometheusMetrics ms)"
proof -
  have group: "list_all P (mergePrometheusMetrics ms)"
    if "\<And>a b. P a \<Longrightarrow> P b \<Longrightarrow> P (mergePrometheusMetric a b)" "list_all P ms"
    for P :: "('a, 'b, 'c) dto_metric \<Rightarrow> bool"
  proof -
    have "P (foldl1 mergePrometheusMetric (filter (\<lambda>p. (prometheusMetricKey \<circ> Label) p = k) ms))"
      if "k \<in> set (map (prometheusMetricKey \<circ> Label) ms)" for k
      using that \<open>list_all P ms\<close>
      by (intro foldl1_closed[of P] \<open>\<And>a b. P a \<Longrightarrow> P b \<Longrightarrow> P (mergePrometheusMetric a b)\<close>)
         (auto simp: filter_empty_conv list_all_iff)
    then show ?thesis
      by (simp add: mergePrometheusMetrics_def prom.merge_is_grouped grouped_def list_all_iff)
  qed
  show "list_all has_counter ms \<Longrightarrow> list_all has_counter (mergePrometheusMetrics ms)"
    by (rule group) (auto simp: has_counter_def merge_parts add_part_def split: option.splits)
  show "list_all has_histogram ms \<Longrightarrow> list_all has_histogram (mergePrometheusMetrics ms)"
    by (rule group) (auto simp: has_histogram_def merge_parts add_part_def split: option.splits)
qed

lemma parts_cong:
  assumes "map Counter ms' = map Counter ms" "map Histogram ms' = map Histogram ms"
  shows "list_all has_counter ms' = list_all has_counter ms" "list_all has_histogram ms' = list_all has_histogram ms"
    "total_counter ms' = total_counter ms" "total_histogram ms' = total_histogram ms"
proof -
  have m: "map (f \<circ> Counter) ms' = map (f \<circ> Counter) ms" "map (g \<circ> Histogram) ms' = map (g \<circ> Histogram) ms" for f g
    using arg_cong[OF assms(1), of "map f"] arg_cong[OF assms(2), of "map g"] by simp_all
  have p: "list_all (\<lambda>m. f (Counter m)) ms' = list_all (\<lambda>m. f (Counter m)) ms"
    "list_all (\<lambda>m. g (Histogram m)) ms' = list_all (\<lambda>m. g (Histogram m)) ms" for f g
    using arg_cong[OF assms(1), of "list_all f"] arg_cong[OF assms(2), of "list_all g"]
    by (simp_all add: list.pred_map comp_def)
  show "list_all has_counter ms' = list_all has_counter ms" "list_all has_histogram ms' = list_all has_histogram ms"
    using p(1)[of "\<lambda>c. c \<noteq> None"] p(2)[of "\<lambda>c. c \<noteq> None"]
    by (simp_all add: has_counter_def[abs_def] has_histogram_def[abs_def])
  show "total_counter ms' = total_counter ms" "total_histogram ms' = total_histogram ms"
    using m unfolding total_counter_def total_histogram_def comp_def by metis+
qed

lemma apply_prom_rule_conserves:
  fixes fam :: "('f::{comm_monoid_add, linorder}, 'x, 's) family"
  assumes "apply_prom_rule l fam r = (fam', l')"
  shows "conserves fam fam'"
proof (cases "FamilyName fam = MetricName r")
  case True
  obtain b l1 where b: "prom_bucket l r = (b, l1)" by fastforce
  obtain ms b' where ms: "rewrite_series r b (Metric fam) = (ms, b')" by fastforce
  have "fam' = fam\<lparr>Metric := mergePrometheusMetrics ms\<rparr>"
    using assms True b ms by (auto simp: apply_prom_rule_def)
  moreover note parts_cong[OF conjunct1[OF rewrite_series_parts[OF ms]] conjunct2[OF rewrite_series_parts[OF ms]]]
  ultimately show ?thesis
    using merge_conserves_counter[of ms] merge_conserves_histogram[of ms] merged_have_parts[of ms]
    by (simp add: conserves_def)
qed (use assms in \<open>simp add: apply_prom_rule_def\<close>)

lemma apply_prom_rules_conserves:
  fixes fam :: "('f::{comm_monoid_add, linorder}, 'x, 's) family"
  shows "apply_prom_rules l fam rs = (fam', l') \<Longrightarrow> conserves fam fam'"
proof (induction rs arbitrary: l fam)
  case (Cons r rs)
  obtain f1 l1 where s: "apply_prom_rule l fam r = (f1, l1)" by fastforce
  then have "apply_prom_rules l1 f1 rs = (fam', l')" using Cons.prems by simp
  with Cons.IH apply_prom_rule_conserves[OF s] conserves_trans show ?case by blast
qed simp

text \<open>The rewrite loses no observation: in a counter or histogram family the totals over all series
  (counter value, sample count and sample sum) are the same before and after.\<close>

theorem scrape_conserves_totals:
  fixes fams :: "('f::{comm_monoid_add, linorder}, 'x, 's) family list"
  assumes "prom_rewrite l fams = (fams', l')"
  shows "list_all2 conserves fams fams'"
  using assms
proof (induction fams arbitrary: l fams' l')
  case (Cons fam fams)
  obtain f1 l1 where s: "apply_prom_rules l fam (prom_rules l) = (f1, l1)" by fastforce
  obtain fs l2 where r: "prom_rewrite l1 fams = (fs, l2)" by fastforce
  have "fams' = f1 # fs" using Cons.prems s r by auto
  then show ?case using apply_prom_rules_conserves[OF s] Cons.IH[OF r] by simp
qed simp

theorem scrape_conserves_totals_witness:
  "list_all2 conserves (fst demo_scrape) (fst demo_scraped)"
proof -
  have "fst (prom_rewrite (newPrometheusLimiter [demo_prom_rule]) (fst demo_scrape)) = fst demo_scraped" by code_simp
  then show ?thesis using scrape_conserves_totals by (metis prod.collapse)
qed

end
