(* ===== verification/PoolMetrics.thy ===== *)
theory PoolMetrics
  imports GoStd
begin

text \<open>
  The MongoDB connection-pool gauges of \<^verbatim>\<open>mongo/pool_metrics.go\<close>.  The driver exposes no pool
  statistics, so every gauge is the running sum of deltas derived from pool events; the tracker
  remembers per address what it has put on the gauges.

  \<open>sink\<close> is the value each series of each instrument has accumulated (a 64-bit integer, so a word).
  Every operation takes the state and the sink and returns both.
\<close>

datatype instrument = Count | IdleMin | MaxConns | Pending | Timeouts

type_synonym sink = "instrument \<Rightarrow> key_value list \<Rightarrow> 64 word"

definition Add :: "sink \<Rightarrow> instrument \<Rightarrow> 64 word \<Rightarrow> key_value list \<Rightarrow> sink" where
  "Add m i delta attrs = m(i := (m i)(attrs := m i attrs + delta))"

text \<open>An \<^verbatim>\<open>int64\<close> delta as the word it is.\<close>

definition i64 :: "int \<Rightarrow> 64 word" where
  "i64 n = word_of_int n"

lemma i64_simps [simp]:
  "i64 0 = 0" "i64 (x + 1) = i64 x + 1" "i64 (x - 1) = i64 x - 1" "i64 (x - y) = i64 x - i64 y" "i64 1 = 1"
  by (simp_all add: i64_def wi_hom_syms)

section \<open>Live connections\<close>

record live_connections =
  byID :: "int \<Rightarrow> nat option"
  total :: int

definition newLiveConnections :: live_connections where
  "newLiveConnections = \<lparr>byID = Map.empty, total = 0\<rparr>"

definition live_add :: "live_connections \<Rightarrow> int \<Rightarrow> live_connections" where
  "live_add l cid =
     \<lparr>byID = (byID l)(cid \<mapsto> (case byID l cid of None \<Rightarrow> 1 | Some n \<Rightarrow> n + 1)), total = total l + 1\<rparr>"

definition live_remove :: "live_connections \<Rightarrow> int \<Rightarrow> bool \<times> live_connections" where
  "live_remove l cid =
     (let n = (case byID l cid of None \<Rightarrow> 0 | Some n \<Rightarrow> n)
      in if n = 0 then (False, l)
         else (True, \<lparr>byID = (if n = 1 then (byID l)(cid := None) else (byID l)(cid \<mapsto> n - 1)),
                      total = total l - 1\<rparr>))"

section \<open>Addresses\<close>

record parsed_address =
  pa_host :: string
  pa_port :: int

definition parsePort :: "string \<Rightarrow> int" where
  "parsePort t = (case atoi t of None \<Rightarrow> 0 | Some p \<Rightarrow> if p \<le> 0 then 0 else p)"

definition parseAddress :: "string \<Rightarrow> parsed_address" where
  "parseAddress addr =
     (let a = trim_space addr in
      if a = [] then \<lparr>pa_host = [], pa_port = 0\<rparr>
      else case split_host_port a of
        Some (host, port) \<Rightarrow> \<lparr>pa_host = trim_set host ''[]'', pa_port = parsePort port\<rparr>
      | None \<Rightarrow>
          (case last_index_byte a CHR '':'' of
             Some idx \<Rightarrow>
               if 0 < idx \<and> idx < length a - 1 \<and> count_list a CHR '':'' = 1
               then \<lparr>pa_host = take idx a, pa_port = parsePort (drop (idx + 1) a)\<rparr>
               else \<lparr>pa_host = trim_set a ''[]'', pa_port = 0\<rparr>
           | None \<Rightarrow> \<lparr>pa_host = trim_set a ''[]'', pa_port = 0\<rparr>))"

definition poolKey :: "string \<Rightarrow> string" where
  "poolKey addr = trim_space addr"

definition pool_attrs :: "string \<Rightarrow> string \<Rightarrow> key_value list" where
  "pool_attrs poolName addr =
     (let p = parseAddress addr in
      [(''db.system.name'', StrV ''mongodb''), (''db.client.connection.pool.name'', StrV poolName)] @
      (if pa_host p \<noteq> [] then [(''server.address'', StrV (pa_host p))] else []) @
      (if pa_port p > 0 then [(''server.port'', IntV (pa_port p))] else []))"

definition appendAttribute :: "key_value list \<Rightarrow> key_value \<Rightarrow> key_value list" where
  "appendAttribute attrs a = attrs @ [a]"

definition state_used :: key_value where
  "state_used = (''db.client.connection.state'', StrV ''used'')"
definition state_idle :: key_value where
  "state_idle = (''db.client.connection.state'', StrV ''idle'')"

section \<open>The state of one address\<close>

record pool_state =
  ps_address :: string
  ps_attrs :: "key_value list"
  ready :: live_connections
  live_pools :: int
  pending :: int
  emittedMin :: "64 word"
  emittedMax :: "64 word"
  checkedOut :: live_connections
  seenCreated :: bool
  createdMin :: "64 word"
  createdMax :: "64 word"

abbreviation pool_series :: "pool_state \<Rightarrow> key_value list" where
  "pool_series s \<equiv> ps_attrs s"
abbreviation used_series :: "pool_state \<Rightarrow> key_value list" where
  "used_series s \<equiv> appendAttribute (ps_attrs s) state_used"
abbreviation idle_series :: "pool_state \<Rightarrow> key_value list" where
  "idle_series s \<equiv> appendAttribute (ps_attrs s) state_idle"

definition new_state :: "string \<Rightarrow> string \<Rightarrow> pool_state" where
  "new_state poolName addr =
     \<lparr>ps_address = addr, ps_attrs = pool_attrs poolName addr, ready = newLiveConnections,
      live_pools = 0, pending = 0, emittedMin = 0, emittedMax = 0, checkedOut = newLiveConnections,
      seenCreated = False, createdMin = 0, createdMax = 0\<rparr>"

definition addConnectionCount :: "sink \<Rightarrow> 64 word \<Rightarrow> key_value list \<Rightarrow> sink" where
  "addConnectionCount m delta attrs = (if delta = 0 then m else Add m Count delta attrs)"

text \<open>\<^verbatim>\<open>event.MonitorPoolOptions\<close> as the pair (MinPoolSize, MaxPoolSize).\<close>

definition set_limits :: "pool_state \<Rightarrow> sink \<Rightarrow> 64 word \<Rightarrow> 64 word \<Rightarrow> pool_state \<times> sink" where
  "set_limits s m minSize maxSize =
     (let (s1, m1) = (if minSize - emittedMin s \<noteq> 0
                      then (s\<lparr>emittedMin := minSize\<rparr>, Add m IdleMin (minSize - emittedMin s) (pool_series s))
                      else (s, m))
      in if maxSize = 0
         then (if emittedMax s1 \<noteq> 0
               then (s1\<lparr>emittedMax := 0\<rparr>, Add m1 MaxConns (- emittedMax s1) (pool_series s1))
               else (s1, m1))
         else if maxSize - emittedMax s1 \<noteq> 0
         then (s1\<lparr>emittedMax := maxSize\<rparr>, Add m1 MaxConns (maxSize - emittedMax s1) (pool_series s1))
         else (s1, m1))"

definition setOptions :: "pool_state \<Rightarrow> sink \<Rightarrow> (64 word \<times> 64 word) option \<Rightarrow> pool_state \<times> sink" where
  "setOptions s m opts =
     (case opts of
        None \<Rightarrow> if seenCreated s then set_limits s m (createdMin s) (createdMax s) else (s, m)
      | Some (mn, mx) \<Rightarrow> set_limits (s\<lparr>seenCreated := True, createdMin := mn, createdMax := mx\<rparr>) m mn mx)"

definition readyConnection :: "pool_state \<Rightarrow> sink \<Rightarrow> int \<Rightarrow> pool_state \<times> sink" where
  "readyConnection s m cid =
     (s\<lparr>ready := live_add (ready s) cid\<rparr>, addConnectionCount m 1 (idle_series s))"

definition checkOutConnection :: "pool_state \<Rightarrow> sink \<Rightarrow> int \<Rightarrow> pool_state \<times> sink" where
  "checkOutConnection s m cid =
     (let wasIdle = total (ready s) > total (checkedOut s);
          s1 = s\<lparr>checkedOut := live_add (checkedOut s) cid\<rparr>;
          m1 = addConnectionCount m 1 (used_series s1)
      in (s1, if wasIdle then addConnectionCount m1 (- 1) (idle_series s1) else m1))"

definition checkInConnection :: "pool_state \<Rightarrow> sink \<Rightarrow> int \<Rightarrow> pool_state \<times> sink" where
  "checkInConnection s m cid =
     (let (removed, co) = live_remove (checkedOut s) cid
      in if \<not> removed then (s, m)
         else let s1 = s\<lparr>checkedOut := co\<rparr>; m1 = addConnectionCount m (- 1) (used_series s1)
              in (s1, addConnectionCount m1 1 (idle_series s1)))"

definition closeConnection :: "pool_state \<Rightarrow> sink \<Rightarrow> int \<Rightarrow> pool_state \<times> sink" where
  "closeConnection s m cid =
     (let (wasReady, rd) = live_remove (ready s) cid
      in if \<not> wasReady then (s, m)
         else let s1 = s\<lparr>ready := rd\<rparr>; (wasOut, co) = live_remove (checkedOut s1) cid
              in if wasOut then (s1\<lparr>checkedOut := co\<rparr>, addConnectionCount m (- 1) (used_series s1))
                 else (s1, addConnectionCount m (- 1) (idle_series s1)))"

definition decrementPending :: "pool_state \<Rightarrow> sink \<Rightarrow> pool_state \<times> sink" where
  "decrementPending s m =
     (if pending s = 0 then (s, m)
      else (s\<lparr>pending := pending s - 1\<rparr>, Add m Pending (- 1) (pool_series s)))"

definition poolClosed :: "pool_state \<Rightarrow> bool \<times> pool_state" where
  "poolClosed s =
     (let s1 = (if live_pools s > 0 then s\<lparr>live_pools := live_pools s - 1\<rparr> else s)
      in (live_pools s1 = 0, s1))"

text \<open>An \<^verbatim>\<open>if\<close> without an \<^verbatim>\<open>else\<close> over the sink.\<close>

definition only_if :: "bool \<Rightarrow> (sink \<Rightarrow> sink) \<Rightarrow> sink \<Rightarrow> sink" where
  "only_if c f m = (if c then f m else m)"

definition closePool :: "pool_state \<Rightarrow> sink \<Rightarrow> sink" where
  "closePool s m0 =
     (let used = total (checkedOut s); idle = total (ready s) - used
      in only_if (emittedMax s \<noteq> 0) (\<lambda>m. Add m MaxConns (- emittedMax s) (pool_series s))
        (only_if (emittedMin s \<noteq> 0) (\<lambda>m. Add m IdleMin (- emittedMin s) (pool_series s))
        (only_if (pending s > 0) (\<lambda>m. Add m Pending (- i64 (pending s)) (pool_series s))
        (only_if (idle > 0) (\<lambda>m. addConnectionCount m (- i64 idle) (idle_series s))
        (only_if (used > 0) (\<lambda>m. addConnectionCount m (- i64 used) (used_series s)) m0)))))"

section \<open>The tracker\<close>

datatype event_type =
    ConnectionPoolCreated | ConnectionPoolReady | ConnectionReady | ConnectionClosed
  | ConnectionCheckOutStarted | ConnectionCheckedOut | ConnectionCheckOutFailed
  | ConnectionCheckedIn | ConnectionPoolCleared | ConnectionPoolClosed | OtherEvent

record pool_event =
  ev_type :: event_type
  ev_address :: string
  ev_connection :: int
  ev_options :: "(64 word \<times> 64 word) option"
  ev_timed_out :: bool
  ev_duration :: int

record tracker =
  gauges :: sink
  pool_name :: string
  pools :: "(string \<times> pool_state) list"
  disabled :: bool
  create_times :: "(key_value list \<times> int) list"

definition tracker_state :: "tracker \<Rightarrow> string \<Rightarrow> pool_state \<times> tracker" where
  "tracker_state t addr =
     (case map_of (pools t) (poolKey addr) of
        Some s \<Rightarrow> (s, t)
      | None \<Rightarrow> let s = new_state (pool_name t) addr
                in (s, t\<lparr>pools := AList.update (poolKey addr) s (pools t)\<rparr>))"

text \<open>The \<^verbatim>\<open>switch\<close> of \<open>handle\<close>: the new state, the new sink, whether the state is dropped.\<close>

definition apply_event :: "pool_state \<Rightarrow> sink \<Rightarrow> pool_event \<Rightarrow> pool_state \<times> sink \<times> bool" where
  "apply_event s m e =
     (let keep = (\<lambda>(s', m'). (s', m', False)) in
      case ev_type e of
        ConnectionPoolCreated \<Rightarrow> keep (setOptions (s\<lparr>live_pools := live_pools s + 1\<rparr>) m (ev_options e))
      | ConnectionPoolReady \<Rightarrow> keep (setOptions s m (ev_options e))
      | ConnectionReady \<Rightarrow> keep (readyConnection s m (ev_connection e))
      | ConnectionClosed \<Rightarrow> keep (closeConnection s m (ev_connection e))
      | ConnectionCheckOutStarted \<Rightarrow> (s\<lparr>pending := pending s + 1\<rparr>, Add m Pending 1 (pool_series s), False)
      | ConnectionCheckedOut \<Rightarrow>
          (let (s1, m1) = decrementPending s m in keep (checkOutConnection s1 m1 (ev_connection e)))
      | ConnectionCheckOutFailed \<Rightarrow>
          (let (s1, m1) = decrementPending s m
           in (s1, if ev_timed_out e then Add m1 Timeouts 1 (pool_series s1) else m1, False))
      | ConnectionCheckedIn \<Rightarrow> keep (checkInConnection s m (ev_connection e))
      | ConnectionPoolClosed \<Rightarrow>
          (let (gone, s1) = poolClosed s in if gone then (s1, closePool s1 m, True) else (s1, m, False))
      | ConnectionPoolCleared \<Rightarrow> (s, m, False)
      | OtherEvent \<Rightarrow> (s, m, False))"

definition handle :: "tracker \<Rightarrow> pool_event option \<Rightarrow> tracker" where
  "handle t ev =
     (case ev of None \<Rightarrow> t | Some e \<Rightarrow>
      if disabled t then t
      else
        let (s, t1) = tracker_state t (ev_address e);
            (s', m', gone) = apply_event s (gauges t1) e;
            key = poolKey (ev_address e);
            t2 = t1\<lparr>gauges := m',
                     pools := (if gone then AList.delete key (pools t1) else AList.update key s' (pools t1))\<rparr>
        in if ev_type e = ConnectionReady
           then t2\<lparr>create_times := create_times t2 @ [(pool_series s', ev_duration e)]\<rparr>
           else t2)"

definition cleanup :: "tracker \<Rightarrow> tracker" where
  "cleanup t = t\<lparr>disabled := True\<rparr>"

definition new_tracker :: "string \<Rightarrow> tracker" where
  "new_tracker name =
     \<lparr>gauges = (\<lambda>_ _. 0), pool_name = name, pools = [], disabled = False, create_times = []\<rparr>"

fun handle_all :: "tracker \<Rightarrow> pool_event list \<Rightarrow> tracker" where
  "handle_all t [] = t"
| "handle_all t (e # es) = handle_all (handle t (Some e)) es"


section \<open>Live connections are a multiset of connection IDs\<close>

definition live_rel :: "live_connections \<Rightarrow> int multiset \<Rightarrow> bool" where
  "live_rel l M \<longleftrightarrow> (\<forall>c. count M c = (case byID l c of None \<Rightarrow> 0 | Some n \<Rightarrow> n)) \<and>
     (\<forall>c. byID l c \<noteq> Some 0) \<and> total l = int (size M)"

locale counted_bag =
  fixes rel :: "'l \<Rightarrow> 'c multiset \<Rightarrow> bool"
    and empty :: 'l
    and add :: "'l \<Rightarrow> 'c \<Rightarrow> 'l"
    and remove :: "'l \<Rightarrow> 'c \<Rightarrow> bool \<times> 'l"
    and size_of :: "'l \<Rightarrow> int"
  assumes rel_empty: "rel empty {#}"
    and rel_add: "rel l M \<Longrightarrow> rel (add l c) (add_mset c M)"
    and rel_remove: "rel l M \<Longrightarrow> remove l c = (b, l') \<Longrightarrow> (b \<longleftrightarrow> c \<in># M) \<and> rel l' (M - {#c#})"
    and rel_size: "rel l M \<Longrightarrow> size_of l = int (size M)"
begin

lemma size_nonneg: "rel l M \<Longrightarrow> 0 \<le> size_of l"
  by (simp add: rel_size)

lemma remove_added: "rel l M \<Longrightarrow> remove (add l c) c = (b, l') \<Longrightarrow> b \<and> rel l' M"
  using rel_remove[OF rel_add, of l M c c b l'] by simp

lemma size_remove: "rel l M \<Longrightarrow> remove l c = (b, l') \<Longrightarrow> size_of l' = size_of l - (if b then 1 else 0)"
  using rel_remove[of l M c b l'] rel_size[of l M] rel_size[of l' "M - {#c#}"]
  by (auto simp: size_Diff_singleton size_Diff_submset dest!: multi_member_split)

lemma size_less: "rel l M \<Longrightarrow> rel k N \<Longrightarrow> M \<subseteq># N \<Longrightarrow> c \<in># N - M \<Longrightarrow> size_of l < size_of k"
  by (simp add: rel_size mset_subset_size subset_mset.less_le)
     (metis Diff_eq_empty_iff_mset empty_not_add_mset mset_subset_size multi_member_split subset_mset.less_le)

end

interpretation lc: counted_bag live_rel newLiveConnections live_add live_remove total
proof (unfold_locales, goal_cases)
  case 1 show ?case by (simp add: live_rel_def newLiveConnections_def)
next
  case (2 l M c) then show ?case by (auto simp: live_rel_def live_add_def split: option.splits)
next
  case (3 l M c b l')
  let ?n = "case byID l c of None \<Rightarrow> 0 | Some n \<Rightarrow> n"
  have n: "count M c = ?n" using 3 by (simp add: live_rel_def)
  show ?case
  proof (cases "?n = 0")
    case True
    then have "b = False" "l' = l" using 3(2) by (auto simp: live_remove_def)
    moreover have "c \<notin># M" using True n by (simp add: count_eq_zero_iff[symmetric])
    ultimately show ?thesis using 3(1) by (simp add: diff_single_trivial)
  next
    case False
    then have b: "b" and l': "l' = \<lparr>byID = (if ?n = 1 then (byID l)(c := None) else (byID l)(c \<mapsto> ?n - 1)),
        total = total l - 1\<rparr>" using 3(2) by (auto simp: live_remove_def Let_def)
    have mem: "c \<in># M" using False n by (metis count_eq_zero_iff)
    have "count (M - {#c#}) d = (case byID l' d of None \<Rightarrow> 0 | Some n \<Rightarrow> n)" for d
      using 3(1) n by (auto simp: live_rel_def l' split: option.splits)
    moreover have "byID l' d \<noteq> Some 0" for d
      using 3(1) False by (auto simp: live_rel_def l')
    moreover have "total l' = int (size (M - {#c#}))"
      using 3(1) mem by (auto simp: live_rel_def l' dest!: multi_member_split)
    ultimately show ?thesis using b mem unfolding live_rel_def by blast
  qed
next
  case (4 l M) then show ?case by (simp add: live_rel_def)
qed


section \<open>What a state contributes to the gauges\<close>

definition contrib :: "pool_state \<Rightarrow> instrument \<Rightarrow> key_value list \<Rightarrow> 64 word" where
  "contrib s i a = (case i of
     Count \<Rightarrow> (if a = used_series s then i64 (total (checkedOut s))
               else if a = idle_series s then i64 (total (ready s) - total (checkedOut s)) else 0)
   | IdleMin \<Rightarrow> (if a = pool_series s then emittedMin s else 0)
   | MaxConns \<Rightarrow> (if a = pool_series s then emittedMax s else 0)
   | Pending \<Rightarrow> (if a = pool_series s then i64 (pending s) else 0)
   | Timeouts \<Rightarrow> 0)"

text \<open>What a gauge holds beyond the state's own contribution.\<close>

definition slack :: "pool_state \<Rightarrow> sink \<Rightarrow> instrument \<Rightarrow> key_value list \<Rightarrow> 64 word" where
  "slack s m i a = m i a - contrib s i a"

text \<open>The connections of a state as multisets.\<close>

definition holds :: "pool_state \<Rightarrow> int multiset \<Rightarrow> int multiset \<Rightarrow> bool" where
  "holds s R C \<longleftrightarrow> live_rel (ready s) R \<and> live_rel (checkedOut s) C"

definition state_ok :: "pool_state \<Rightarrow> bool" where
  "state_ok s \<longleftrightarrow> 0 \<le> pending s \<and> 0 \<le> live_pools s \<and> (\<exists>R C. holds s R C)"

text \<open>Every connection counted as used was announced ready.\<close>

definition disciplined :: "pool_state \<Rightarrow> bool" where
  "disciplined s \<longleftrightarrow> (\<exists>R C. holds s R C \<and> C \<subseteq># R)"

text \<open>The driver checks out a connection only when it is ready and not checked out already.\<close>

definition may_check_out :: "pool_state \<Rightarrow> int \<Rightarrow> bool" where
  "may_check_out s cid \<longleftrightarrow> (case byID (checkedOut s) cid of None \<Rightarrow> 0 | Some n \<Rightarrow> n) <
     (case byID (ready s) cid of None \<Rightarrow> 0 | Some n \<Rightarrow> n)"

lemma used_neq_idle [simp]: "used_series s \<noteq> idle_series t" "idle_series s \<noteq> used_series t"
  by (simp_all add: appendAttribute_def state_used_def state_idle_def)

lemma series_eq [simp]:
  "appendAttribute a x = appendAttribute b x \<longleftrightarrow> a = b"
  by (simp add: appendAttribute_def)

lemma Add_apply: "Add m i d a j b = (if j = i \<and> b = a then m j b + d else m j b)"
  by (simp add: Add_def)

lemma Add_zero [simp]: "Add m i 0 a = m"
  by (simp add: Add_def)

lemma addConnectionCount_eq: "addConnectionCount m d a = Add m Count d a"
  by (simp add: addConnectionCount_def)

lemma only_if_Add: "0 \<le> n \<Longrightarrow> only_if (n > 0) (\<lambda>m. Add m i (- i64 n) a) m0 = Add m0 i (- i64 n) a"
  by (cases "n = 0") (auto simp: only_if_def)

lemma only_if_Add_word: "only_if (w \<noteq> 0) (\<lambda>m. Add m i (- w) a) m0 = Add m0 i (- w) a"
  by (auto simp: only_if_def)

lemma contrib_apply:
  "contrib s Count a = (if a = used_series s then i64 (total (checkedOut s))
     else if a = idle_series s then i64 (total (ready s) - total (checkedOut s)) else 0)"
  "contrib s IdleMin a = (if a = pool_series s then emittedMin s else 0)"
  "contrib s MaxConns a = (if a = pool_series s then emittedMax s else 0)"
  "contrib s Pending a = (if a = pool_series s then i64 (pending s) else 0)"
  "contrib s Timeouts a = 0"
  by (simp_all add: contrib_def)

lemmas gauge_simps = slack_def contrib_apply Add_apply

lemma live_add_total: "total (live_add l c) = total l + 1"
  by (simp add: live_add_def)

lemma live_remove_total: "live_remove l c = (b, l') \<Longrightarrow> total l' = total l - (if b then 1 else 0)"
  by (auto simp: live_remove_def Let_def split: if_splits)

text \<open>\<^bold>\<open>One lemma per operation\<close>: the slack of every series is unchanged.  Only a checkout and
  the final unwinding need more than totals, and only for the idle series.\<close>

lemma readyConnection_slack:
  assumes "readyConnection s m c = (s', m')"
  shows "slack s' m' i a = slack s m i a"
proof -
  have eq: "s' = s\<lparr>ready := live_add (ready s) c\<rparr>" "m' = Add m Count 1 (idle_series s)"
    using assms by (simp_all add: readyConnection_def addConnectionCount_eq)
  show ?thesis by (cases i) (simp_all add: eq gauge_simps live_add_total)
qed

lemma checkInConnection_slack:
  assumes "checkInConnection s m c = (s', m')"
  shows "slack s' m' i a = slack s m i a"
proof -
  obtain b co where r: "live_remove (checkedOut s) c = (b, co)" by fastforce
  show ?thesis
  proof (cases b)
    case True
    then have t: "total co = total (checkedOut s) - 1" using live_remove_total[OF r] by simp
    have eq: "s' = s\<lparr>checkedOut := co\<rparr>"
      "m' = Add (Add m Count (- 1) (used_series s)) Count 1 (idle_series s)"
      using assms True by (simp_all add: checkInConnection_def r addConnectionCount_eq)
    show ?thesis by (cases i) (simp_all add: eq gauge_simps t)
  next
    case False
    then show ?thesis using assms by (simp add: checkInConnection_def r)
  qed
qed

lemma closeConnection_eq:
  assumes "live_remove (ready s) c = (b, rd)" "live_remove (checkedOut s) c = (d, co)"
  shows "closeConnection s m c =
    (if \<not> b then (s, m)
     else if d then (s\<lparr>ready := rd, checkedOut := co\<rparr>, Add m Count (- 1) (used_series s))
     else (s\<lparr>ready := rd\<rparr>, Add m Count (- 1) (idle_series s)))"
  using assms by (simp add: closeConnection_def addConnectionCount_eq)

lemma closeConnection_slack:
  assumes "closeConnection s m c = (s', m')"
  shows "slack s' m' i a = slack s m i a"
proof -
  obtain b rd where r: "live_remove (ready s) c = (b, rd)" by fastforce
  obtain d co where r': "live_remove (checkedOut s) c = (d, co)" by fastforce
  note eq = assms[unfolded closeConnection_eq[OF r r']]
  consider "\<not> b" | "b" "d" | "b" "\<not> d" by blast
  then show ?thesis
  proof cases
    case 1
    then show ?thesis using eq by simp
  next
    case 2
    then have t: "total rd = total (ready s) - 1" "total co = total (checkedOut s) - 1"
      using live_remove_total[OF r] live_remove_total[OF r'] by simp_all
    have eq': "s' = s\<lparr>ready := rd, checkedOut := co\<rparr>" "m' = Add m Count (- 1) (used_series s)"
      using eq 2 by simp_all
    show ?thesis by (cases i) (simp_all add: eq' gauge_simps t)
  next
    case 3
    then have t: "total rd = total (ready s) - 1" using live_remove_total[OF r] by simp
    have eq': "s' = s\<lparr>ready := rd\<rparr>" "m' = Add m Count (- 1) (idle_series s)" using eq 3 by simp_all
    show ?thesis by (cases i) (simp_all add: eq' gauge_simps t)
  qed
qed

lemma decrementPending_slack:
  assumes "decrementPending s m = (s', m')"
  shows "slack s' m' i a = slack s m i a"
proof (cases "pending s = 0")
  case True
  then show ?thesis using assms by (simp add: decrementPending_def)
next
  case False
  then have eq: "s' = s\<lparr>pending := pending s - 1\<rparr>" "m' = Add m Pending (- 1) (pool_series s)"
    using assms by (simp_all add: decrementPending_def)
  show ?thesis by (cases i) (simp_all add: eq gauge_simps)
qed

text \<open>The two limit gauges end at the configured sizes, whichever branches were taken.\<close>

lemma set_limits_eq:
  "set_limits s m mn mx =
     (s\<lparr>emittedMin := mn, emittedMax := mx\<rparr>,
      Add (Add m IdleMin (mn - emittedMin s) (pool_series s)) MaxConns (mx - emittedMax s) (pool_series s))"
  by (simp add: set_limits_def Let_def)

lemma set_limits_slack:
  assumes "set_limits s m mn mx = (s', m')"
  shows "slack s' m' i a = slack s m i a"
proof -
  have eq: "s' = s\<lparr>emittedMin := mn, emittedMax := mx\<rparr>" "m' = Add (Add m IdleMin (mn - emittedMin s)
      (pool_series s)) MaxConns (mx - emittedMax s) (pool_series s)"
    using assms by (simp_all add: set_limits_eq)
  show ?thesis by (cases i) (simp_all add: eq gauge_simps)
qed

lemma slack_created:
  "slack (s\<lparr>seenCreated := x, createdMin := y, createdMax := z\<rparr>) m i a = slack s m i a"
  by (cases i) (simp_all add: gauge_simps)

lemma setOptions_slack:
  assumes "setOptions s m opts = (s', m')"
  shows "slack s' m' i a = slack s m i a"
proof (cases opts)
  case None
  then show ?thesis
    using assms set_limits_slack[of s m "createdMin s" "createdMax s" s' m' i a]
    by (simp add: setOptions_def split: if_splits)
next
  case (Some o')
  obtain mn mx where "o' = (mn, mx)" by (cases o')
  with Some assms have "set_limits (s\<lparr>seenCreated := True, createdMin := mn, createdMax := mx\<rparr>) m mn mx = (s', m')"
    by (simp add: setOptions_def)
  from set_limits_slack[OF this] show ?thesis by (simp add: slack_created)
qed

lemma checkOutConnection_slack:
  assumes "checkOutConnection s m c = (s', m')"
    and "i = Count \<and> a = idle_series s \<longrightarrow> total (checkedOut s) < total (ready s)"
  shows "slack s' m' i a = slack s m i a"
proof -
  have s': "s' = s\<lparr>checkedOut := live_add (checkedOut s) c\<rparr>"
    using assms(1) by (simp add: checkOutConnection_def Let_def)
  show ?thesis
  proof (cases "total (checkedOut s) < total (ready s)")
    case True
    then have m': "m' = Add (Add m Count 1 (used_series s)) Count (- 1) (idle_series s)"
      using assms(1) by (simp add: checkOutConnection_def Let_def addConnectionCount_eq)
    show ?thesis by (cases i) (simp_all add: s' m' gauge_simps live_add_total)
  next
    case False
    then have m': "m' = Add m Count 1 (used_series s)"
      using assms(1) by (simp add: checkOutConnection_def Let_def addConnectionCount_eq)
    show ?thesis using assms(2) False by (cases i) (simp_all add: s' m' gauge_simps live_add_total)
  qed
qed

lemma closePool_slack:
  assumes "0 \<le> pending s" "0 \<le> total (checkedOut s)"
    and "i = Count \<and> a = idle_series s \<longrightarrow> total (checkedOut s) \<le> total (ready s)"
  shows "closePool s m i a = slack s m i a"
proof (cases "total (checkedOut s) \<le> total (ready s)")
  case True
  then have "0 \<le> total (ready s) - total (checkedOut s)" by simp
  note guards = only_if_Add_word only_if_Add[OF assms(1)] only_if_Add[OF assms(2)] only_if_Add[OF this]
  have "closePool s m = Add (Add (Add (Add (Add m Count (- i64 (total (checkedOut s))) (used_series s))
      Count (- i64 (total (ready s) - total (checkedOut s))) (idle_series s))
      Pending (- i64 (pending s)) (pool_series s)) IdleMin (- emittedMin s) (pool_series s))
      MaxConns (- emittedMax s) (pool_series s)"
    unfolding closePool_def Let_def addConnectionCount_eq guards ..
  then show ?thesis by (cases i) (simp_all add: gauge_simps)
next
  case False
  then have "(total (ready s) - total (checkedOut s) > 0) = False" by simp
  note guards = only_if_Add_word only_if_Add[OF assms(1)] only_if_Add[OF assms(2)] this only_if_def[of False]
  have "closePool s m = Add (Add (Add (Add m Count (- i64 (total (checkedOut s))) (used_series s))
      Pending (- i64 (pending s)) (pool_series s)) IdleMin (- emittedMin s) (pool_series s))
      MaxConns (- emittedMax s) (pool_series s)"
    unfolding closePool_def Let_def addConnectionCount_eq guards if_False ..
  then show ?thesis using False assms(3) by (cases i) (simp_all add: gauge_simps)
qed


section \<open>Each operation keeps the state well-formed\<close>

lemma holds_total: "holds s R C \<Longrightarrow> total (ready s) = int (size R) \<and> total (checkedOut s) = int (size C)"
  by (simp add: holds_def lc.rel_size)

lemma may_check_out_iff: "holds s R C \<Longrightarrow> may_check_out s c \<longleftrightarrow> count C c < count R c"
  by (simp add: holds_def live_rel_def may_check_out_def)

lemma may_check_out_total:
  assumes "disciplined s" "may_check_out s c"
  shows "total (checkedOut s) < total (ready s)"
proof -
  obtain R C where h: "holds s R C" "C \<subseteq># R" using assms(1) by (auto simp: disciplined_def)
  then have "count C c < count R c" using assms(2) may_check_out_iff by blast
  then have "C \<noteq> R" by auto
  with h have "size C < size R" by (simp add: mset_subset_size subset_mset.less_le)
  with holds_total[OF h(1)] show ?thesis by simp
qed

lemma disciplined_total: "disciplined s \<Longrightarrow> total (checkedOut s) \<le> total (ready s)"
  by (auto simp: disciplined_def dest!: holds_total size_mset_mono)

lemma state_ok_total: "state_ok s \<Longrightarrow> 0 \<le> total (checkedOut s) \<and> 0 \<le> pending s"
  by (auto simp: state_ok_def dest: holds_total)

text \<open>What a step may do to the connections of a state: the pair of multisets moves by one of the
  three connection operations, or stays.\<close>

inductive conn_step :: "int multiset \<times> int multiset \<Rightarrow> pool_event \<Rightarrow> int multiset \<times> int multiset \<Rightarrow> bool" where
  became_ready: "ev_type e = ConnectionReady \<Longrightarrow> conn_step (R, C) e (add_mset (ev_connection e) R, C)"
| checked_out: "ev_type e = ConnectionCheckedOut \<Longrightarrow> conn_step (R, C) e (R, add_mset (ev_connection e) C)"
| checked_in: "ev_type e = ConnectionCheckedIn \<Longrightarrow> conn_step (R, C) e (R, C - {#ev_connection e#})"
| closed: "ev_type e = ConnectionClosed \<Longrightarrow> ev_connection e \<in># R \<Longrightarrow>
    conn_step (R, C) e (R - {#ev_connection e#}, C - {#ev_connection e#})"
| stays: "ev_type e \<notin> {ConnectionReady, ConnectionCheckedOut, ConnectionCheckedIn} \<Longrightarrow>
    (ev_type e = ConnectionClosed \<Longrightarrow> ev_connection e \<notin># R) \<Longrightarrow> conn_step (R, C) e (R, C)"

inductive_cases conn_stepE: "conn_step (R, C) e (R', C')"

lemma decrementPending_frame:
  "decrementPending s m = (s', m') \<Longrightarrow> ready s' = ready s \<and> checkedOut s' = checkedOut s \<and>
     ps_attrs s' = ps_attrs s \<and> live_pools s' = live_pools s \<and> (0 \<le> pending s \<longrightarrow> 0 \<le> pending s')"
  by (auto simp: decrementPending_def split: if_splits)

lemma setOptions_frame:
  "setOptions s m opts = (s', m') \<Longrightarrow> ready s' = ready s \<and> checkedOut s' = checkedOut s \<and>
     ps_attrs s' = ps_attrs s \<and> live_pools s' = live_pools s \<and> pending s' = pending s"
  by (auto simp: setOptions_def set_limits_eq split: option.splits prod.splits if_splits)

lemma connection_frame:
  "readyConnection s m c = (s', m') \<Longrightarrow> ps_attrs s' = ps_attrs s \<and> live_pools s' = live_pools s \<and> pending s' = pending s"
  "checkOutConnection s m c = (s', m') \<Longrightarrow> ps_attrs s' = ps_attrs s \<and> live_pools s' = live_pools s \<and> pending s' = pending s"
  "checkInConnection s m c = (s', m') \<Longrightarrow> ps_attrs s' = ps_attrs s \<and> live_pools s' = live_pools s \<and> pending s' = pending s"
  "closeConnection s m c = (s', m') \<Longrightarrow> ps_attrs s' = ps_attrs s \<and> live_pools s' = live_pools s \<and> pending s' = pending s"
  by (auto simp: readyConnection_def checkOutConnection_def checkInConnection_def closeConnection_def
      Let_def split: prod.splits if_splits)

lemma readyConnection_holds:
  "readyConnection s m c = (s', m') \<Longrightarrow> holds s R C \<Longrightarrow> holds s' (add_mset c R) C"
  by (auto simp: readyConnection_def holds_def lc.rel_add)

lemma checkOutConnection_holds:
  "checkOutConnection s m c = (s', m') \<Longrightarrow> holds s R C \<Longrightarrow> holds s' R (add_mset c C)"
  by (auto simp: checkOutConnection_def holds_def lc.rel_add Let_def)

lemma checkInConnection_holds:
  assumes "checkInConnection s m c = (s', m')" "holds s R C"
  shows "holds s' R (C - {#c#})"
proof -
  obtain b co where r: "live_remove (checkedOut s) c = (b, co)" by fastforce
  with assms(2) lc.rel_remove[of "checkedOut s" C c b co] have
    "(b \<longleftrightarrow> c \<in># C) \<and> live_rel co (C - {#c#})" by (simp add: holds_def)
  with assms r show ?thesis
    by (cases b) (auto simp: checkInConnection_def holds_def Let_def diff_single_trivial)
qed

lemma closeConnection_holds:
  assumes "closeConnection s m c = (s', m')" "holds s R C"
  shows "if c \<in># R then holds s' (R - {#c#}) (C - {#c#}) else holds s' R C"
proof -
  obtain b rd where r: "live_remove (ready s) c = (b, rd)" by fastforce
  obtain d co where r': "live_remove (checkedOut s) c = (d, co)" by fastforce
  note eq = assms(1)[unfolded closeConnection_eq[OF r r']]
  have b: "b \<longleftrightarrow> c \<in># R" "live_rel rd (R - {#c#})" and d: "d \<longleftrightarrow> c \<in># C" "live_rel co (C - {#c#})"
    using assms(2) lc.rel_remove[OF _ r, of R] lc.rel_remove[OF _ r', of C] by (auto simp: holds_def)
  consider "\<not> b" | "b" "d" | "b" "\<not> d" by blast
  then show ?thesis
  proof cases
    case 1
    then show ?thesis using eq b assms(2) by simp
  next
    case 2
    then have "s' = s\<lparr>ready := rd, checkedOut := co\<rparr>" using eq by simp
    then show ?thesis using 2 b d by (simp add: holds_def)
  next
    case 3
    then have "s' = s\<lparr>ready := rd\<rparr>" using eq by simp
    then show ?thesis using 3 b d assms(2) by (simp add: holds_def diff_single_trivial)
  qed
qed

text \<open>The event handler on one state: the connections make a \<open>conn_step\<close>, nothing else breaks, and
  every series keeps its slack.\<close>

lemma poolClosed_frame:
  "poolClosed s = (gone, s') \<Longrightarrow> ready s' = ready s \<and> checkedOut s' = checkedOut s \<and> ps_attrs s' = ps_attrs s \<and>
     pending s' = pending s \<and> (0 \<le> live_pools s \<longrightarrow> 0 \<le> live_pools s') \<and>
     emittedMin s' = emittedMin s \<and> emittedMax s' = emittedMax s"
  by (auto simp: poolClosed_def Let_def split: if_splits)

lemma holds_cong: "ready s' = ready s \<Longrightarrow> checkedOut s' = checkedOut s \<Longrightarrow> holds s' R C = holds s R C"
  by (simp add: holds_def)

lemma apply_event_holds:
  assumes "apply_event s m e = (s', m', gone)" "holds s R C"
  shows "\<exists>R' C'. holds s' R' C' \<and> conn_step (R, C) e (R', C')"
proof (cases "ev_type e")
  case ConnectionReady
  then have "\<exists>m1. readyConnection s m (ev_connection e) = (s', m1)"
    using assms(1) by (auto simp: apply_event_def split: prod.splits)
  with readyConnection_holds assms(2) conn_step.became_ready[OF ConnectionReady] show ?thesis by blast
next
  case ConnectionCheckedOut
  obtain s1 m1 where d: "decrementPending s m = (s1, m1)" by fastforce
  have "holds s1 R C" using decrementPending_frame[OF d] assms(2) holds_cong by metis
  moreover have "\<exists>m2. checkOutConnection s1 m1 (ev_connection e) = (s', m2)"
    using assms(1) ConnectionCheckedOut d by (auto simp: apply_event_def split: prod.splits)
  ultimately show ?thesis
    using checkOutConnection_holds conn_step.checked_out[OF ConnectionCheckedOut] by blast
next
  case ConnectionCheckedIn
  then have "\<exists>m1. checkInConnection s m (ev_connection e) = (s', m1)"
    using assms(1) by (auto simp: apply_event_def split: prod.splits)
  with checkInConnection_holds assms(2) conn_step.checked_in[OF ConnectionCheckedIn] show ?thesis by blast
next
  case ConnectionClosed
  then have "\<exists>m1. closeConnection s m (ev_connection e) = (s', m1)"
    using assms(1) by (auto simp: apply_event_def split: prod.splits)
  then have h: "if ev_connection e \<in># R then holds s' (R - {#ev_connection e#}) (C - {#ev_connection e#})
    else holds s' R C" using closeConnection_holds assms(2) by blast
  show ?thesis
  proof (cases "ev_connection e \<in># R")
    case True
    with h conn_step.closed[OF ConnectionClosed True] show ?thesis by auto
  next
    case False
    with h conn_step.stays[of e R C] ConnectionClosed show ?thesis by auto
  qed
next
  case ConnectionCheckOutFailed
  obtain s1 m1 where d: "decrementPending s m = (s1, m1)" by fastforce
  have "s' = s1" using assms(1) ConnectionCheckOutFailed d by (auto simp: apply_event_def)
  then have "holds s' R C" using decrementPending_frame[OF d] assms(2) holds_cong by metis
  then show ?thesis using conn_step.stays[of e R C] ConnectionCheckOutFailed by auto
next
  case ConnectionPoolCreated
  then obtain m1 where d: "setOptions (s\<lparr>live_pools := live_pools s + 1\<rparr>) m (ev_options e) = (s', m1)"
    using assms(1) by (auto simp: apply_event_def split: prod.splits)
  then have "holds s' R C" using setOptions_frame[OF d] assms(2) by (simp add: holds_def)
  then show ?thesis using conn_step.stays[of e R C] ConnectionPoolCreated by auto
next
  case ConnectionPoolReady
  then obtain m1 where d: "setOptions s m (ev_options e) = (s', m1)"
    using assms(1) by (auto simp: apply_event_def split: prod.splits)
  then have "holds s' R C" using setOptions_frame[OF d] assms(2) by (simp add: holds_def)
  then show ?thesis using conn_step.stays[of e R C] ConnectionPoolReady by auto
next
  case ConnectionPoolClosed
  obtain g s1 where d: "poolClosed s = (g, s1)" by fastforce
  have "s' = s1" using assms(1) ConnectionPoolClosed d by (auto simp: apply_event_def split: if_splits)
  then have "holds s' R C" using poolClosed_frame[OF d] assms(2) by (simp add: holds_def)
  then show ?thesis using conn_step.stays[of e R C] ConnectionPoolClosed by auto
next
  case ConnectionCheckOutStarted
  then have "s' = s\<lparr>pending := pending s + 1\<rparr>" using assms(1) by (auto simp: apply_event_def)
  then have "holds s' R C" using assms(2) by (simp add: holds_def)
  then show ?thesis using conn_step.stays[of e R C] ConnectionCheckOutStarted by auto
qed (use assms conn_step.stays[of e R C] in \<open>auto simp: apply_event_def\<close>)


lemma apply_event_frame:
  assumes "apply_event s m e = (s', m', gone)" "0 \<le> pending s" "0 \<le> live_pools s"
  shows "ps_attrs s' = ps_attrs s \<and> 0 \<le> pending s' \<and> 0 \<le> live_pools s'"
proof (cases "ev_type e")
  case ConnectionCheckedOut
  obtain s1 m1 where d: "decrementPending s m = (s1, m1)" by fastforce
  moreover obtain m2 where "checkOutConnection s1 m1 (ev_connection e) = (s', m2)"
    using assms(1) ConnectionCheckedOut d by (auto simp: apply_event_def split: prod.splits)
  ultimately show ?thesis
    using decrementPending_frame[OF d] connection_frame(2)[of s1 m1 "ev_connection e" s' m2] assms by simp
next
  case ConnectionCheckOutFailed
  obtain s1 m1 where d: "decrementPending s m = (s1, m1)" by fastforce
  have "s' = s1" using assms(1) ConnectionCheckOutFailed d by (auto simp: apply_event_def)
  then show ?thesis using decrementPending_frame[OF d] assms by simp
next
  case ConnectionPoolCreated
  then obtain m1 where d: "setOptions (s\<lparr>live_pools := live_pools s + 1\<rparr>) m (ev_options e) = (s', m1)"
    using assms(1) by (auto simp: apply_event_def split: prod.splits)
  then show ?thesis using setOptions_frame[OF d] assms by simp
next
  case ConnectionPoolReady
  then obtain m1 where d: "setOptions s m (ev_options e) = (s', m1)"
    using assms(1) by (auto simp: apply_event_def split: prod.splits)
  then show ?thesis using setOptions_frame[OF d] assms by simp
next
  case ConnectionReady
  then obtain m1 where "readyConnection s m (ev_connection e) = (s', m1)"
    using assms(1) by (auto simp: apply_event_def split: prod.splits)
  from connection_frame(1)[OF this] assms show ?thesis by simp
next
  case ConnectionCheckedIn
  then obtain m1 where "checkInConnection s m (ev_connection e) = (s', m1)"
    using assms(1) by (auto simp: apply_event_def split: prod.splits)
  from connection_frame(3)[OF this] assms show ?thesis by simp
next
  case ConnectionClosed
  then obtain m1 where "closeConnection s m (ev_connection e) = (s', m1)"
    using assms(1) by (auto simp: apply_event_def split: prod.splits)
  from connection_frame(4)[OF this] assms show ?thesis by simp
next
  case ConnectionPoolClosed
  obtain g s1 where d: "poolClosed s = (g, s1)" by fastforce
  have "s' = s1" using assms(1) ConnectionPoolClosed d by (auto simp: apply_event_def split: if_splits)
  then show ?thesis using poolClosed_frame[OF d] assms by simp
qed (use assms in \<open>auto simp: apply_event_def\<close>)

lemma apply_event_ok [go_inv]:
  assumes "apply_event s m e = (s', m', gone)" "state_ok s"
  shows "state_ok s'" "ps_attrs s' = ps_attrs s"
  using assms apply_event_frame[OF assms(1)] apply_event_holds[OF assms(1)]
  unfolding state_ok_def by blast+

lemma conn_step_disciplined:
  assumes "conn_step (R, C) e (R', C')" "C \<subseteq># R"
    and "ev_type e = ConnectionCheckedOut \<longrightarrow> count C (ev_connection e) < count R (ev_connection e)"
  shows "C' \<subseteq># R'"
proof -
  have "\<forall>x. count C x \<le> count R x" using assms(2) by (simp add: subseteq_mset_def)
  with assms(1,3) show ?thesis
    by (elim conn_stepE) (auto simp: subseteq_mset_def diff_le_mono le_SucI intro: le_trans[OF diff_le_self])
qed

lemma apply_event_disciplined [go_inv]:
  assumes "apply_event s m e = (s', m', gone)" "disciplined s"
    and "ev_type e = ConnectionCheckedOut \<longrightarrow> may_check_out s (ev_connection e)"
  shows "disciplined s'"
proof -
  obtain R C where h: "holds s R C" "C \<subseteq># R" using assms(2) by (auto simp: disciplined_def)
  obtain R' C' where h': "holds s' R' C'" "conn_step (R, C) e (R', C')"
    using apply_event_holds[OF assms(1) h(1)] by blast
  have "C' \<subseteq># R'"
    using conn_step_disciplined[OF h'(2) h(2)] assms(3) may_check_out_iff[OF h(1)] by blast
  with h' show ?thesis by (auto simp: disciplined_def)
qed

lemma apply_event_slack:
  assumes ev: "apply_event s m e = (s', m', gone)" and ok: "state_ok s" and i: "i \<noteq> Timeouts"
    and idle: "i = Count \<and> a = idle_series s \<longrightarrow> disciplined s \<and>
      (ev_type e = ConnectionCheckedOut \<longrightarrow> may_check_out s (ev_connection e))"
  shows "(if gone then m' i a else slack s' m' i a) = slack s m i a"
proof (cases "ev_type e")
  case ConnectionPoolCreated
  then have "setOptions (s\<lparr>live_pools := live_pools s + 1\<rparr>) m (ev_options e) = (s', m')" "\<not> gone"
    using ev by (auto simp: apply_event_def split: prod.splits)
  moreover have "slack (s\<lparr>live_pools := live_pools s + 1\<rparr>) m i a = slack s m i a"
    by (cases i) (simp_all add: gauge_simps)
  ultimately show ?thesis using setOptions_slack by metis
next
  case ConnectionPoolReady
  then have "setOptions s m (ev_options e) = (s', m')" "\<not> gone"
    using ev by (auto simp: apply_event_def split: prod.splits)
  then show ?thesis using setOptions_slack by simp
next
  case ConnectionReady
  then have "readyConnection s m (ev_connection e) = (s', m')" "\<not> gone"
    using ev by (auto simp: apply_event_def split: prod.splits)
  then show ?thesis using readyConnection_slack by simp
next
  case ConnectionClosed
  then have "closeConnection s m (ev_connection e) = (s', m')" "\<not> gone"
    using ev by (auto simp: apply_event_def split: prod.splits)
  then show ?thesis using closeConnection_slack by simp
next
  case ConnectionCheckedIn
  then have "checkInConnection s m (ev_connection e) = (s', m')" "\<not> gone"
    using ev by (auto simp: apply_event_def split: prod.splits)
  then show ?thesis using checkInConnection_slack by simp
next
  case ConnectionCheckOutStarted
  then have eq: "s' = s\<lparr>pending := pending s + 1\<rparr>" "m' = Add m Pending 1 (pool_series s)" "\<not> gone"
    using ev by (auto simp: apply_event_def)
  have "slack (s\<lparr>pending := pending s + 1\<rparr>) (Add m Pending 1 (pool_series s)) i a = slack s m i a"
    by (cases i) (simp_all add: gauge_simps)
  then show ?thesis by (simp add: eq)
next
  case ConnectionCheckedOut
  obtain s1 m1 where d: "decrementPending s m = (s1, m1)" by fastforce
  have co: "checkOutConnection s1 m1 (ev_connection e) = (s', m')" and g: "\<not> gone"
    using ev ConnectionCheckedOut d by (auto simp: apply_event_def split: prod.splits)
  have "i = Count \<and> a = idle_series s1 \<longrightarrow> total (checkedOut s1) < total (ready s1)"
    using decrementPending_frame[OF d] idle ConnectionCheckedOut may_check_out_total[of s "ev_connection e"] by simp
  from checkOutConnection_slack[OF co this] decrementPending_slack[OF d] g show ?thesis by simp
next
  case ConnectionCheckOutFailed
  obtain s1 m1 where d: "decrementPending s m = (s1, m1)" by fastforce
  have "s' = s1" "m' i a = m1 i a" "\<not> gone"
    using ev ConnectionCheckOutFailed d i by (auto simp: apply_event_def Add_apply)
  then show ?thesis using decrementPending_slack[OF d, of i a] by (simp add: slack_def)
next
  case ConnectionPoolClosed
  obtain g s1 where d: "poolClosed s = (g, s1)" by fastforce
  have eq: "s' = s1" "gone = g" "m' = (if g then closePool s1 m else m)"
    using ev ConnectionPoolClosed d by (auto simp: apply_event_def split: if_splits)
  have sl: "slack s1 m i a = slack s m i a"
    using poolClosed_frame[OF d] by (cases i) (simp_all add: gauge_simps)
  have "i = Count \<and> a = idle_series s1 \<longrightarrow> total (checkedOut s1) \<le> total (ready s1)"
    using poolClosed_frame[OF d] idle disciplined_total[of s] by simp
  moreover have "0 \<le> pending s1" "0 \<le> total (checkedOut s1)"
    using poolClosed_frame[OF d] state_ok_total[OF ok] by simp_all
  ultimately have "closePool s1 m i a = slack s1 m i a" by (intro closePool_slack)
  with sl show ?thesis by (simp add: eq)
qed (use ev in \<open>auto simp: apply_event_def\<close>)

section \<open>The tracker\<close>

lemma new_state_ok [go_inv]: "state_ok (new_state n a)" "disciplined (new_state n a)"
  using lc.rel_empty by (auto simp: state_ok_def disciplined_def holds_def new_state_def)

lemma new_state_contrib: "contrib (new_state n a) i b = 0"
  by (cases i) (simp_all add: contrib_apply new_state_def newLiveConnections_def)

definition tracker_ok :: "tracker \<Rightarrow> bool" where
  "tracker_ok t \<longleftrightarrow> distinct (keys (pools t)) \<and> (\<forall>p \<in> set (pools t). state_ok (snd p))"

definition tracked :: "tracker \<Rightarrow> instrument \<Rightarrow> key_value list \<Rightarrow> 64 word" where
  "tracked t i a = sum_list (map ((\<lambda>s. contrib s i a) \<circ> snd) (pools t))"

lemma tracker_state_spec:
  assumes "tracker_state t addr = (s, t1)" "tracker_ok t"
  shows "tracker_ok t1 \<and> map_of (pools t1) (poolKey addr) = Some s \<and> gauges t1 = gauges t \<and>
    disabled t1 = disabled t \<and> tracked t1 i a = tracked t i a \<and>
    ((\<forall>p \<in> set (pools t). disciplined (snd p)) \<longrightarrow> (\<forall>p \<in> set (pools t1). disciplined (snd p)))"
proof (cases "map_of (pools t) (poolKey addr)")
  case (Some s0)
  then show ?thesis using assms by (simp add: tracker_state_def)
next
  case None
  let ?s = "new_state (pool_name t) addr"
  have eq: "s = ?s" "t1 = t\<lparr>pools := AList.update (poolKey addr) ?s (pools t)\<rparr>"
    using assms(1) None by (auto simp: tracker_state_def Let_def)
  have "tracked t1 i a = tracked t i a"
    unfolding tracked_def eq by (simp add: sum_update_new[OF None] new_state_contrib)
  moreover have "\<forall>p \<in> set (pools t1). state_ok (snd p)"
    unfolding eq using ball_update[of "pools t" state_ok ?s "poolKey addr"] assms(2) new_state_ok
    by (simp add: tracker_ok_def)
  moreover have "\<forall>p \<in> set (pools t1). disciplined (snd p)" if "\<forall>p \<in> set (pools t). disciplined (snd p)"
    unfolding eq using ball_update[of "pools t" disciplined ?s "poolKey addr"] that new_state_ok by simp
  ultimately show ?thesis
    using assms(2) by (simp add: eq(2) tracker_ok_def eq(1) AList.distinct_update AList.update_conv')
qed

text \<open>The event is a checkout of a connection that is announced and not checked out, or no checkout.\<close>

definition well_behaved :: "tracker \<Rightarrow> pool_event \<Rightarrow> bool" where
  "well_behaved t e \<longleftrightarrow> (ev_type e = ConnectionCheckedOut \<longrightarrow>
     (case map_of (pools t) (poolKey (ev_address e)) of
        None \<Rightarrow> False | Some s \<Rightarrow> may_check_out s (ev_connection e)))"

fun well_behaved_run :: "tracker \<Rightarrow> pool_event list \<Rightarrow> bool" where
  "well_behaved_run t [] = True"
| "well_behaved_run t (e # es) \<longleftrightarrow> well_behaved t e \<and> well_behaved_run (handle t (Some e)) es"

abbreviation all_disciplined :: "tracker \<Rightarrow> bool" where
  "all_disciplined t \<equiv> \<forall>p \<in> set (pools t). disciplined (snd p)"

abbreviation idle_gauge :: "instrument \<Rightarrow> key_value list \<Rightarrow> bool" where
  "idle_gauge i a \<equiv> i = Count \<and> a \<noteq> [] \<and> last a = state_idle"

lemma handle_eq:
  assumes "\<not> disabled t" "tracker_state t (ev_address e) = (s, t1)"
    "apply_event s (gauges t1) e = (s', m', gone)"
  shows "gauges (handle t (Some e)) = m'"
    "pools (handle t (Some e)) = (if gone then AList.delete (poolKey (ev_address e)) (pools t1)
       else AList.update (poolKey (ev_address e)) s' (pools t1))"
  using assms by (simp_all add: handle_def Let_def)

lemma handle_keeps [go_inv]:
  assumes ok: "tracker_ok t"
  shows "tracker_ok (handle t (Some e))"
    and "all_disciplined t \<Longrightarrow> well_behaved t e \<Longrightarrow> all_disciplined (handle t (Some e))"
    and "\<lbrakk>i \<noteq> Timeouts; gauges t i a = tracked t i a;
      idle_gauge i a \<longrightarrow> all_disciplined t \<and> well_behaved t e\<rbrakk>
      \<Longrightarrow> gauges (handle t (Some e)) i a = tracked (handle t (Some e)) i a"
proof -
  let ?t' = "handle t (Some e)"
  obtain s t1 where st: "tracker_state t (ev_address e) = (s, t1)" by fastforce
  obtain s' m' gone where ev: "apply_event s (gauges t1) e = (s', m', gone)" by (metis prod_cases3)
  note spec = tracker_state_spec[OF st ok]
  have okt1: "distinct (keys (pools t1))" "\<forall>p \<in> set (pools t1). state_ok (snd p)"
    and look: "map_of (pools t1) (poolKey (ev_address e)) = Some s" and g: "gauges t1 = gauges t"
    using spec by (auto simp: tracker_ok_def)
  have mem: "(poolKey (ev_address e), s) \<in> set (pools t1)" using look by (rule map_of_SomeD)
  then have oks: "state_ok s" using okt1 by fastforce
  have oks': "state_ok s'" using apply_event_ok(1)[OF ev oks] .
  have dis1: "all_disciplined t1" if "all_disciplined t" using spec that by blast
  have may: "ev_type e = ConnectionCheckedOut \<longrightarrow> may_check_out s (ev_connection e)"
    if "well_behaved t e"
    using that st by (auto simp: well_behaved_def tracker_state_def split: option.splits)
  show "tracker_ok ?t'"
  proof (cases "disabled t")
    case False
    then show ?thesis
      using okt1 ball_update[OF okt1(2) oks', of "poolKey (ev_address e)"]
      by (cases gone) (simp_all add: tracker_ok_def handle_eq[OF False st ev] AList.distinct_update
          AList.distinct_delete, simp add: AList.delete_eq)
  qed (use ok in \<open>simp add: handle_def\<close>)
  show "all_disciplined ?t'" if d: "all_disciplined t" and w: "well_behaved t e"
  proof (cases "disabled t")
    case False
    have "disciplined s" using dis1[OF d] mem by fastforce
    then have "disciplined s'" using apply_event_disciplined[OF ev] may[OF w] by blast
    then show ?thesis
      using dis1[OF d] ball_update[of "pools t1" disciplined s' "poolKey (ev_address e)"]
      by (cases gone) (simp_all add: handle_eq[OF False st ev], simp add: AList.delete_eq)
  qed (use d in \<open>simp add: handle_def\<close>)
  show "gauges ?t' i a = tracked ?t' i a"
    if i: "i \<noteq> Timeouts" and eq: "gauges t i a = tracked t i a"
      and idle: "idle_gauge i a \<longrightarrow> all_disciplined t \<and> well_behaved t e"
  proof (cases "disabled t")
    case False
    have "i = Count \<and> a = idle_series s \<longrightarrow> disciplined s \<and>
      (ev_type e = ConnectionCheckedOut \<longrightarrow> may_check_out s (ev_connection e))"
      using idle dis1 mem may by (fastforce simp: appendAttribute_def)
    from apply_event_slack[OF ev oks i this]
    have sl: "(if gone then m' i a else slack s' m' i a) = slack s (gauges t1) i a" .
    have tr: "gauges t1 i a = tracked t1 i a" using spec eq g by simp
    show ?thesis
    proof (cases gone)
      case True
      then show ?thesis using sl tr sum_delete[OF okt1(1) look, of "\<lambda>s. contrib s i a"]
        by (simp add: handle_eq[OF False st ev] tracked_def slack_def)
    next
      case False': False
      then have "m' i a = tracked t1 i a - contrib s i a + contrib s' i a"
        using sl tr by (simp add: slack_def diff_eq_eq)
      then show ?thesis using False' sum_update_old[OF look, of "\<lambda>s. contrib s i a" s']
        by (simp only: handle_eq[OF False st ev] tracked_def if_False)
    qed
  qed (use eq in \<open>simp add: handle_def tracked_def\<close>)
qed

lemma new_tracker_ok: "tracker_ok (new_tracker n)" "all_disciplined (new_tracker n)"
  "gauges (new_tracker n) i a = tracked (new_tracker n) i a"
  by (simp_all add: tracker_ok_def new_tracker_def tracked_def)


lemma handle_all_keeps:
  assumes "tracker_ok t"
  shows "tracker_ok (handle_all t es)"
    and "\<lbrakk>i \<noteq> Timeouts; gauges t i a = tracked t i a; idle_gauge i a \<longrightarrow> all_disciplined t \<and> well_behaved_run t es\<rbrakk>
      \<Longrightarrow> gauges (handle_all t es) i a = tracked (handle_all t es) i a"
proof -
  show "tracker_ok (handle_all t es)"
    using assms by (induction es arbitrary: t) (auto intro: handle_keeps(1))
  assume "i \<noteq> Timeouts" "gauges t i a = tracked t i a" "idle_gauge i a \<longrightarrow> all_disciplined t \<and> well_behaved_run t es"
  with assms show "gauges (handle_all t es) i a = tracked (handle_all t es) i a"
  proof (induction es arbitrary: t)
    case (Cons e es)
    have "idle_gauge i a \<longrightarrow> all_disciplined t \<and> well_behaved t e"
      and "idle_gauge i a \<longrightarrow> all_disciplined (handle t (Some e)) \<and> well_behaved_run (handle t (Some e)) es"
      using Cons.prems(4) handle_keeps(2)[OF Cons.prems(1), of e] by (simp_all only: well_behaved_run.simps) blast+
    with Cons.IH[OF handle_keeps(1)[OF Cons.prems(1)] Cons.prems(2) handle_keeps(3)[OF Cons.prems(1-3)]]
    show ?case unfolding handle_all.simps by blast
  qed simp
qed

text \<open>C21. After any sequence of events, every gauge the tracker keeps (connections in use, the
  configured bounds, pending requests) equals the sum of what the live states say it should hold.
  For the idle series this needs that the driver only checks out connections it announced as ready.\<close>

theorem gauges_track_the_pools:
  assumes "i \<noteq> Timeouts"
    and "i = Count \<and> a \<noteq> [] \<and> last a = state_idle \<longrightarrow> well_behaved_run (new_tracker n) es"
  shows "gauges (handle_all (new_tracker n) es) i a = tracked (handle_all (new_tracker n) es) i a"
  by (rule handle_all_keeps(2)[OF new_tracker_ok(1) assms(1) new_tracker_ok(3)])
     (use assms(2) new_tracker_ok(2) in blast)

definition demo_event :: "event_type \<Rightarrow> int \<Rightarrow> pool_event" where
  "demo_event ty c = \<lparr>ev_type = ty, ev_address = ''db:27017'', ev_connection = c, ev_options = Some (1, 10),
     ev_timed_out = False, ev_duration = 0\<rparr>"

definition demo_run :: "pool_event list" where
  "demo_run = [demo_event ConnectionPoolCreated 0, demo_event ConnectionReady 1, demo_event ConnectionReady 2,
     demo_event ConnectionCheckOutStarted 0, demo_event ConnectionCheckedOut 2]"

lemma demo_key: "poolKey ''db:27017'' = ''db:27017''"
  by code_simp

lemma series_disjoint: "appendAttribute a state_used \<noteq> appendAttribute b state_idle"
  "appendAttribute b state_idle \<noteq> appendAttribute a state_used"
  by (simp_all add: appendAttribute_def state_used_def state_idle_def)

text \<open>Symbolic evaluation of a run on one address: the gauges stay a chain of \<open>Add\<close>s until a series
  is read.\<close>

lemma demo_handle:
  "handle (new_tracker n) (Some (demo_event ty c)) =
     handle \<lparr>gauges = \<lambda>_ _. 0, pool_name = n, pools = [(''db:27017'', new_state n ''db:27017'')], disabled = False,
       create_times = []\<rparr> (Some (demo_event ty c))"
  "handle \<lparr>gauges = m, pool_name = n, pools = [(''db:27017'', s)], disabled = False, create_times = ct\<rparr>
     (Some (demo_event ty c)) =
   (case apply_event s m (demo_event ty c) of (s', m', gone) \<Rightarrow>
     \<lparr>gauges = m', pool_name = n, pools = (if gone then [] else [(''db:27017'', s')]), disabled = False,
      create_times = (if ty = ConnectionReady then ct @ [(pool_series s', 0)] else ct)\<rparr>)"
  by (simp_all add: handle_def tracker_state_def new_tracker_def demo_event_def demo_key Let_def split: prod.splits)

lemma demo_apply_event:
  "apply_event s m (demo_event ConnectionPoolCreated c) =
     (case setOptions (s\<lparr>live_pools := live_pools s + 1\<rparr>) m (Some (1, 10)) of (s', m') \<Rightarrow> (s', m', False))"
  "apply_event s m (demo_event ConnectionReady c) = (case readyConnection s m c of (s', m') \<Rightarrow> (s', m', False))"
  "apply_event s m (demo_event ConnectionClosed c) = (case closeConnection s m c of (s', m') \<Rightarrow> (s', m', False))"
  "apply_event s m (demo_event ConnectionCheckedIn c) = (case checkInConnection s m c of (s', m') \<Rightarrow> (s', m', False))"
  "apply_event s m (demo_event ConnectionCheckedOut c) =
     (case decrementPending s m of (s1, m1) \<Rightarrow>
        (case checkOutConnection s1 m1 c of (s', m') \<Rightarrow> (s', m', False)))"
  "apply_event s m (demo_event ConnectionCheckOutStarted c) =
     (s\<lparr>pending := pending s + 1\<rparr>, Add m Pending 1 (pool_series s), False)"
  "apply_event s m (demo_event ConnectionPoolClosed c) =
     (case poolClosed s of (gone, s1) \<Rightarrow> if gone then (s1, closePool s1 m, True) else (s1, m, False))"
  by (simp_all add: apply_event_def demo_event_def Let_def)

lemma demo_well_behaved:
  "ty \<noteq> ConnectionCheckedOut \<Longrightarrow> well_behaved t (demo_event ty c)"
  "well_behaved \<lparr>gauges = m, pool_name = n, pools = [(''db:27017'', s)], disabled = False, create_times = ct\<rparr>
     (demo_event ConnectionCheckedOut c) = may_check_out s c"
  by (simp_all add: well_behaved_def demo_event_def demo_key)

lemmas run_eval = demo_handle demo_apply_event demo_well_behaved new_state_def
  setOptions_def set_limits_eq readyConnection_def checkOutConnection_def checkInConnection_def
  closeConnection_def Let_def decrementPending_def poolClosed_def closePool_def only_if_def addConnectionCount_eq
  newLiveConnections_def live_add_def live_remove_def may_check_out_def

theorem gauges_track_the_pools_witness:
  "well_behaved_run (new_tracker ''p'') demo_run \<and>
   gauges (handle_all (new_tracker ''p'') demo_run) Count (appendAttribute (pool_attrs ''p'' ''db:27017'') state_idle)
     = tracked (handle_all (new_tracker ''p'') demo_run) Count
         (appendAttribute (pool_attrs ''p'' ''db:27017'') state_idle) \<and>
   gauges (handle_all (new_tracker ''p'') demo_run) Count
     (appendAttribute (pool_attrs ''p'' ''db:27017'') state_idle) = 1"
proof -
  have w: "well_behaved_run (new_tracker ''p'') demo_run" by (simp add: demo_run_def run_eval)
  have v: "gauges (handle_all (new_tracker ''p'') demo_run) Count
     (appendAttribute (pool_attrs ''p'' ''db:27017'') state_idle) = 1"
    by (simp add: demo_run_def run_eval Add_apply series_disjoint)
  show ?thesis using gauges_track_the_pools[of Count _ "''p''" demo_run] w v by blast
qed

text \<open>When the last pool is closed nothing is left on any up-down series except possibly on the
  idle ones, and nothing there either under the driver's checkout discipline: no series is stuck.\<close>

theorem closed_pools_leave_no_residue:
  assumes "i \<noteq> Timeouts"
    and "i = Count \<and> a \<noteq> [] \<and> last a = state_idle \<longrightarrow> well_behaved_run (new_tracker n) es"
    and "pools (handle_all (new_tracker n) es) = []"
  shows "gauges (handle_all (new_tracker n) es) i a = 0"
proof -
  have "gauges (handle_all (new_tracker n) es) i a = tracked (handle_all (new_tracker n) es) i a"
    by (rule handle_all_keeps(2)[OF new_tracker_ok(1) assms(1) new_tracker_ok(3)])
       (use assms(2) new_tracker_ok(2) in blast)
  then show ?thesis by (simp only: tracked_def assms(3)) simp
qed

theorem closed_pools_leave_no_residue_witness:
  "pools (handle_all (new_tracker ''p'') (demo_run @ [demo_event ConnectionPoolClosed 0])) = [] \<and>
   gauges (handle_all (new_tracker ''p'') (demo_run @ [demo_event ConnectionPoolClosed 0])) Count
     (appendAttribute (pool_attrs ''p'' ''db:27017'') state_idle) = 0"
proof -
  have w: "well_behaved_run (new_tracker ''p'') (demo_run @ [demo_event ConnectionPoolClosed 0])"
    by (simp add: demo_run_def run_eval)
  have p: "pools (handle_all (new_tracker ''p'') (demo_run @ [demo_event ConnectionPoolClosed 0])) = []"
    by (simp add: demo_run_def run_eval)
  show ?thesis using closed_pools_leave_no_residue[of Count _ "''p''"
    "demo_run @ [demo_event ConnectionPoolClosed 0]"] w p by blast
qed


end
