(* ===== verification/Connid.thy ===== *)
theory Connid
  imports GoStd
begin

text \<open>
  \<^verbatim>\<open>mongo/connid.go\<close>: the driver's connection ID \<open>host:port[counter]\<close> is reduced to its address
  before it becomes a span attribute.
\<close>

definition isConnectionCounter :: "string \<Rightarrow> bool" where
  "isConnectionCounter s = (let d = trim_prefix s ''-'' in d \<noteq> [] \<and> list_all is_digit d)"

definition normalizeConnectionID :: "string \<Rightarrow> string" where
  "normalizeConnectionID cid =
     (if \<not> suffix '']'' cid then cid
      else case last_index_byte cid CHR ''['' of
        None \<Rightarrow> cid
      | Some opn \<Rightarrow>
          if opn = 0 then cid
          else if \<not> isConnectionCounter (drop (opn + 1) (take (length cid - 1) cid)) then cid
          else take opn cid)"

lemma counter_chars: "isConnectionCounter c \<Longrightarrow> set c \<subseteq> {x. is_digit x} \<union> {CHR ''-''}"
  by (auto simp: isConnectionCounter_def Let_def trim_prefix_def list_all_iff prefix_def split: if_splits)

lemma counter_no_bracket: "isConnectionCounter c \<Longrightarrow> CHR ''['' \<notin> set c"
  using counter_chars by (fastforce simp: is_digit_def)

lemma normalizeConnectionID_shape:
  "normalizeConnectionID cid = cid \<or>
   (\<exists>c. cid = normalizeConnectionID cid @ ''['' @ c @ '']'' \<and> isConnectionCounter c \<and> normalizeConnectionID cid \<noteq> [])"
proof (cases "suffix '']'' cid \<and> (\<exists>opn. last_index_byte cid CHR ''['' = Some opn \<and> 0 < opn \<and>
    isConnectionCounter (drop (opn + 1) (take (length cid - 1) cid)))")
  case False
  then show ?thesis by (auto simp: normalizeConnectionID_def split: option.splits)
next
  case True
  then obtain opn where o: "last_index_byte cid CHR ''['' = Some opn" "0 < opn"
    and c: "isConnectionCounter (drop (opn + 1) (take (length cid - 1) cid))" and s: "suffix '']'' cid" by auto
  obtain b where b: "cid = b @ '']''" using s by (auto simp: suffix_def)
  have at: "opn < length cid" "cid ! opn = CHR ''[''" using last_index_byte_Some[OF o(1)] by auto
  then have lt: "opn < length b" by (auto simp: b nth_append split: if_splits)
  then have "cid = take opn b @ ''['' @ drop (opn + 1) b @ '']''"
    using at id_take_nth_drop[OF lt] by (simp add: b nth_append)
  moreover have "normalizeConnectionID cid = take opn b" using o c s lt by (simp add: normalizeConnectionID_def b)
  ultimately show ?thesis using c lt o(2) by (auto simp: b)
qed

text \<open>A connection ID loses its counter, and only its counter: the result is the address exactly
  when the input is a non-empty address followed by a bracketed counter, and the input otherwise.\<close>

theorem normalizeConnectionID_strips_counter:
  "normalizeConnectionID cid = a \<longleftrightarrow>
     (\<exists>c. cid = a @ ''['' @ c @ '']'' \<and> isConnectionCounter c \<and> a \<noteq> []) \<or>
     (a = cid \<and> \<not> (\<exists>b c. cid = b @ ''['' @ c @ '']'' \<and> isConnectionCounter c \<and> b \<noteq> []))"
proof -
  have strip: "normalizeConnectionID (b @ ''['' @ c @ '']'') = b" if "isConnectionCounter c" "b \<noteq> []" for b c
  proof -
    have "last_index_byte (b @ ''['' @ (c @ '']'')) CHR ''['' = Some (length b)"
      using counter_no_bracket[OF that(1)] by (intro last_index_byte_append) auto
    with that show ?thesis by (simp add: normalizeConnectionID_def suffix_def)
  qed
  with normalizeConnectionID_shape[of cid] show ?thesis by (metis append_self_conv append_is_Nil_conv)
qed

end
