(* ===== verification/Labels.thy ===== *)
theory Labels
  imports GoStd
begin

text \<open>
  Prometheus label names: \<^verbatim>\<open>internal/metrics/reserved.go\<close> (normalisation and the reserved keys),
  \<^verbatim>\<open>resourcekeys.go\<close> (which resource attributes the environment may add), \<^verbatim>\<open>scopeguard.go\<close> and
  \<^verbatim>\<open>targetinfo.go\<close>.

  A \<^verbatim>\<open>range\<close> over a key runs over its runes, so the loops recurse on \<open>runes key\<close>.
\<close>

section \<open>Normalisation\<close>

definition alnum_rune :: "nat \<Rightarrow> bool" where
  "alnum_rune r \<longleftrightarrow> (97 \<le> r \<and> r \<le> 122) \<or> (65 \<le> r \<and> r \<le> 90) \<or> (48 \<le> r \<and> r \<le> 57)"

definition isTranslatorReservedShape :: "string \<Rightarrow> bool" where
  "isTranslatorReservedShape k \<longleftrightarrow>
     length k \<ge> 4 \<and> k ! 0 = CHR ''_'' \<and> k ! 1 = CHR ''_'' \<and>
     k ! (length k - 1) = CHR ''_'' \<and> k ! (length k - 2) = CHR ''_''"

definition hasAlphanumeric :: "string \<Rightarrow> bool" where
  "hasAlphanumeric k = list_ex is_alnum k"

fun norm_loop :: "bool \<Rightarrow> nat list \<Rightarrow> string" where
  "norm_loop prevUnderscore [] = []"
| "norm_loop prevUnderscore (r # rs) =
     (if alnum_rune r then char_of r # norm_loop False rs
      else if \<not> prevUnderscore then CHR ''_'' # norm_loop True rs
      else norm_loop True rs)"

function NormalizePrometheusLabelName :: "string \<Rightarrow> string" where
  "NormalizePrometheusLabelName key =
     (if key = [] then []
      else if isTranslatorReservedShape key
      then ''__'' @ NormalizePrometheusLabelName (take (length key - 4) (drop 2 key)) @ ''__''
      else let out = norm_loop False (runes key)
           in if out = [] then [] else if is_digit (hd out) then ''key_'' @ out else out)"
  by pat_completeness auto
termination
  by (relation "measure length") (auto simp: isTranslatorReservedShape_def)

declare NormalizePrometheusLabelName.simps [simp del]

fun match_loop :: "string \<Rightarrow> nat \<Rightarrow> bool \<Rightarrow> nat list \<Rightarrow> nat \<times> bool" where
  "match_loop want i prevUnderscore [] = (i, True)"
| "match_loop want i prevUnderscore (r # rs) =
     (if alnum_rune r
      then (if i \<ge> length want \<or> want ! i \<noteq> char_of r then (i, False) else match_loop want (i + 1) False rs)
      else if prevUnderscore then match_loop want i True rs
      else if i \<ge> length want \<or> want ! i \<noteq> CHR ''_'' then (i, False)
      else match_loop want (i + 1) True rs)"

definition normalizedMatchLen :: "string \<Rightarrow> string \<Rightarrow> nat \<times> bool" where
  "normalizedMatchLen key want = match_loop want 0 False (runes key)"

definition normalizedEquals :: "string \<Rightarrow> string \<Rightarrow> bool" where
  "normalizedEquals key want = (let (n, complete) = normalizedMatchLen key want in complete \<and> n = length want)"

definition normalizedHasPrefix :: "string \<Rightarrow> string \<Rightarrow> bool" where
  "normalizedHasPrefix key p = (fst (normalizedMatchLen key p) = length p)"

section \<open>Reserved keys\<close>

definition resourceConstantLabelKeys :: "string list" where
  "resourceConstantLabelKeys =
     [''service.namespace'', ''service.name'', ''service.version'', ''deployment.environment.name'']"

definition exposedFormatLabels :: "string list" where
  "exposedFormatLabels = [''le'', ''quantile'']"

definition scopeLabelPrefix :: string where
  "scopeLabelPrefix = ''otel_scope_''"

definition add_reserved :: "(char \<times> string list) list \<Rightarrow> string \<Rightarrow> (char \<times> string list) list" where
  "add_reserved out label =
     (if label = [] then out
      else AList.update (hd label) ((case map_of out (hd label) of None \<Rightarrow> [] | Some ls \<Rightarrow> ls) @ [label]) out)"

definition buildReservedPromLabels :: "(char \<times> string list) list" where
  "buildReservedPromLabels =
     foldl add_reserved (foldl (\<lambda>out k. add_reserved out (NormalizePrometheusLabelName k)) [] resourceConstantLabelKeys)
       exposedFormatLabels"

text \<open>The lookup \<^verbatim>\<open>reservedPromLabels[c]\<close>, nil when the byte has no group.\<close>

definition reservedPromLabels :: "char \<Rightarrow> string list" where
  "reservedPromLabels c = (case map_of buildReservedPromLabels c of None \<Rightarrow> [] | Some ls \<Rightarrow> ls)"

definition IsReservedAttributeKey :: "string \<Rightarrow> bool" where
  "IsReservedAttributeKey k \<longleftrightarrow>
     k = [] \<or> isTranslatorReservedShape k \<or> \<not> hasAlphanumeric k \<or>
     (hd k = hd scopeLabelPrefix \<and> normalizedHasPrefix k scopeLabelPrefix) \<or>
     list_ex (normalizedEquals k) (reservedPromLabels (hd k))"

definition notReserved :: "key_value \<Rightarrow> bool" where
  "notReserved kv \<longleftrightarrow> \<not> IsReservedAttributeKey (fst kv)"

section \<open>Resource keys\<close>

definition identityResourceKeys :: "string list" where
  "identityResourceKeys =
     [''service.name'', ''service.version'', ''service.namespace'', ''deployment.environment.name'']"

definition detectedResourceKeys :: "string list" where
  "detectedResourceKeys =
     [''telemetry.sdk.name'', ''telemetry.sdk.language'', ''telemetry.sdk.version'', ''process.pid'',
      ''process.executable.name'', ''process.runtime.name'', ''process.runtime.version'', ''host.name'']"

definition SameLabel :: "string \<Rightarrow> string \<Rightarrow> bool" where
  "SameLabel a b \<longleftrightarrow> NormalizePrometheusLabelName a = NormalizePrometheusLabelName b"

definition ResourceKeyOwner :: "string \<Rightarrow> string \<times> bool" where
  "ResourceKeyOwner key =
     (case find (SameLabel key) identityResourceKeys of
        Some k \<Rightarrow> (k, True)
      | None \<Rightarrow> (case find (SameLabel key) detectedResourceKeys of Some k \<Rightarrow> (k, False) | None \<Rightarrow> ([], False)))"

definition IsTelemetrySDKKey :: "string \<Rightarrow> bool" where
  "IsTelemetrySDKKey key = prefix ''telemetry_sdk_'' (NormalizePrometheusLabelName key)"

definition IsProcessKey :: "string \<Rightarrow> bool" where
  "IsProcessKey key = prefix ''process_'' (NormalizePrometheusLabelName key)"

definition aliasOf :: "string \<Rightarrow> key_value list \<Rightarrow> string" where
  "aliasOf key attrs =
     (case find (\<lambda>kv. fst kv \<noteq> key \<and> SameLabel (fst kv) key) attrs of Some kv \<Rightarrow> fst kv | None \<Rightarrow> [])"

text \<open>The warnings, without their wording.\<close>

datatype env_warning =
    EnvIgnored
  | AliasOfOwned string string
  | TelemetrySDK string
  | Process string
  | Reserved string string
  | AliasOfCaller string string
  | AliasOfEarlier string string

text \<open>What \<^verbatim>\<open>resource.New(ctx, resource.WithFromEnv())\<close> returned: an error other than a partial
  resource, no resource, or its attributes sorted by key.\<close>

datatype env_resource = EnvError | EnvNil | EnvAttrs "key_value list"

record env_state =
  env_seen :: "(string \<times> string) list"
  env_kept :: "key_value list"
  env_dropped :: "string list"
  env_warnings :: "env_warning list"

definition drop_env :: "env_state \<Rightarrow> string \<Rightarrow> env_warning \<Rightarrow> env_state" where
  "drop_env st k w = st\<lparr>env_dropped := env_dropped st @ [k], env_warnings := env_warnings st @ [w]\<rparr>"

definition keep_env :: "env_state \<Rightarrow> string \<Rightarrow> key_value \<Rightarrow> env_state" where
  "keep_env st label kv = st\<lparr>env_seen := AList.update label (fst kv) (env_seen st), env_kept := env_kept st @ [kv]\<rparr>"

definition env_step :: "key_value list \<Rightarrow> env_state \<Rightarrow> key_value \<Rightarrow> env_state" where
  "env_step callerAttrs st kv =
     (let k = fst kv; own = fst (ResourceKeyOwner k); label = NormalizePrometheusLabelName k in
      if own = k then keep_env st label kv
      else if own \<noteq> [] then drop_env st k (AliasOfOwned k own)
      else if own = [] \<and> IsTelemetrySDKKey k then drop_env st k (TelemetrySDK k)
      else if own = [] \<and> IsProcessKey k then drop_env st k (Process k)
      else if IsReservedAttributeKey k then drop_env st k (Reserved k label)
      else if aliasOf k callerAttrs \<noteq> [] then drop_env st k (AliasOfCaller k (aliasOf k callerAttrs))
      else case map_of (env_seen st) label of
             Some prev \<Rightarrow> drop_env st k (AliasOfEarlier k prev)
           | None \<Rightarrow> keep_env st label kv)"

definition EnvResourceAttributes ::
  "env_resource \<Rightarrow> key_value list \<Rightarrow> key_value list \<times> string list \<times> env_warning list" where
  "EnvResourceAttributes env callerAttrs =
     (case env of
        EnvError \<Rightarrow> ([], [], [EnvIgnored])
      | EnvNil \<Rightarrow> ([], [], [])
      | EnvAttrs kvs \<Rightarrow>
          let st = foldl (env_step callerAttrs) \<lparr>env_seen = [], env_kept = [], env_dropped = [], env_warnings = []\<rparr> kvs
          in (env_kept st, env_dropped st, env_warnings st))"

definition NeutralizeEnvKeys :: "string list \<Rightarrow> key_value list" where
  "NeutralizeEnvKeys dropped = map (\<lambda>k. (k, StrV [])) dropped"

section \<open>Scope attributes and target\_info\<close>

definition scopeBuiltinLabels :: "string list" where
  "scopeBuiltinLabels = [''name'', ''version'', ''schema_url'']"

definition scope_step ::
  "string list \<times> key_value list \<times> key_value list \<Rightarrow> key_value \<Rightarrow> string list \<times> key_value list \<times> key_value list" where
  "scope_step st kv =
     (let (seen, kept, dropped) = st; label = NormalizePrometheusLabelName (fst kv) in
      if label = [] \<or> label = ''_'' then (seen, kept, dropped @ [kv])
      else if label \<in> set scopeBuiltinLabels then (seen, kept, dropped @ [kv])
      else if label \<in> set seen then (seen, kept, dropped @ [kv])
      else (label # seen, kept @ [kv], dropped))"

definition sanitizeScopeAttributes :: "key_value list \<Rightarrow> key_value list \<times> key_value list" where
  "sanitizeScopeAttributes attrs = snd (foldl scope_step ([], [], []) attrs)"

text \<open>The configuration a meter is created with, and the warnings logged for dropped attributes.\<close>

record meter_config =
  mc_version :: string
  mc_schema :: string
  mc_attrs :: "key_value list"

definition Meter :: "string \<Rightarrow> meter_config \<Rightarrow> (string \<times> string \<times> string) list \<times> meter_config" where
  "Meter name cfg =
     (let (kept, dropped) = sanitizeScopeAttributes (mc_attrs cfg) in
      if mc_attrs cfg = [] then ([], cfg)
      else if dropped = [] then ([], cfg)
      else (map (\<lambda>kv. (name, fst kv, scopeLabelPrefix @ NormalizePrometheusLabelName (fst kv))) dropped,
            cfg\<lparr>mc_attrs := kept\<rparr>))"

definition target_step ::
  "(attr_value \<Rightarrow> string) \<Rightarrow> (string \<times> string) list \<Rightarrow> key_value \<Rightarrow> (string \<times> string) list" where
  "target_step str labels kv =
     (let label = NormalizePrometheusLabelName (fst kv) in
      if label = [] \<or> prefix ''__'' label \<or> \<not> hasAlphanumeric (fst kv) then labels
      else if label \<in> fst ` set labels then labels
      else labels @ [(label, str (snd kv))])"

text \<open>The rendered labels with their values; \<open>str\<close> is \<^verbatim>\<open>attribute.Value.String\<close>.\<close>

definition targetInfoLabels :: "(attr_value \<Rightarrow> string) \<Rightarrow> key_value list option \<Rightarrow> (string \<times> string) list" where
  "targetInfoLabels str res = (case res of None \<Rightarrow> [] | Some kvs \<Rightarrow> foldl (target_step str) [] kvs)"

section \<open>The allocation-free comparison agrees with the normalisation\<close>

lemma match_loop_spec:
  assumes "i \<le> length want"
  shows "snd (match_loop want i p rs) = prefix (norm_loop p rs) (drop i want)"
    and "snd (match_loop want i p rs) \<Longrightarrow> fst (match_loop want i p rs) = i + length (norm_loop p rs)"
    and "fst (match_loop want i p rs) = length want \<longleftrightarrow> prefix (drop i want) (norm_loop p rs)"
  using assms
proof (induction want i p rs rule: match_loop.induct)
  case (2 want i p r rs)
  note IH = 2(1-9)
  have cons: "drop i want = want ! i # drop (i + 1) want" if "i < length want"
    using Cons_nth_drop_Suc[OF that] by simp
  { case 1 show ?case using IH 1 cons by (cases "i < length want") auto }
  { case 2 then show ?case using IH cons by (cases "i < length want") (auto split: if_splits) }
  { case 3 show ?case using IH 3 cons by (cases "i < length want") auto }
qed auto

lemma normalizedEquals_iff: "normalizedEquals key want \<longleftrightarrow> norm_loop False (runes key) = want"
  using match_loop_spec(1,2)[of 0 want False "runes key"]
  by (auto simp: normalizedEquals_def normalizedMatchLen_def case_prod_unfold prefix_def)

lemma normalizedHasPrefix_iff: "normalizedHasPrefix key p \<longleftrightarrow> prefix p (norm_loop False (runes key))"
  using match_loop_spec(3)[of 0 p False "runes key"] by (simp add: normalizedHasPrefix_def normalizedMatchLen_def)

section \<open>The shape of a normalised name\<close>

lemma runes_Nil [simp]: "runes [] = []" "runes s = [] \<longleftrightarrow> s = []"
proof -
  show "runes s = [] \<longleftrightarrow> s = []"
    by (metis (no_types) runes_def Nil_is_map_conv rune_chunks_concat rune_chunks_Nil concat.simps(1) list.simps(8))
qed (simp add: runes_def)

lemma runes_hd: "s \<noteq> [] \<Longrightarrow> (hd (runes s) < 128 \<and> char_of (hd (runes s)) = hd s) \<or>
    (128 \<le> hd (runes s) \<and> 128 \<le> byte (hd s))"
proof -
  assume s: "s \<noteq> []"
  obtain r n where d: "decode_rune s = (r, n)" by fastforce
  then have "runes s = r # runes (drop n s)"
    using s by (simp add: runes_def) (subst rune_chunks.simps, simp)
  moreover have "1 \<le> n" using decode_rune_width[OF s] d by simp
  then have "hd s \<in> set (take n s)" using s by (cases s; cases n) auto
  ultimately show ?thesis using decode_rune_split[OF s d] by auto
qed

lemma alnum_rune_char: "r < 128 \<Longrightarrow> is_alnum (char_of r) = alnum_rune r"
  by (auto simp: is_alnum_def is_lower_def is_upper_def is_digit_def alnum_rune_def)

lemma not_alnum_high: "128 \<le> byte c \<Longrightarrow> \<not> is_alnum c" "128 \<le> r \<Longrightarrow> \<not> alnum_rune r"
  by (auto simp: is_alnum_def is_lower_def is_upper_def is_digit_def alnum_rune_def)

lemma not_digit_underscore: "\<not> is_digit CHR ''_''" "\<not> is_alnum CHR ''_''"
  by (simp_all add: is_alnum_def is_lower_def is_upper_def is_digit_def)

lemma hasAlphanumeric_runes: "hasAlphanumeric k \<longleftrightarrow> (\<exists>r \<in> set (runes k). alnum_rune r)"
proof -
  have "set k = \<Union> (set ` set (map snd (rune_chunks k)))"
    by (subst rune_chunks_concat[symmetric]) (simp add: set_concat)
  then have "hasAlphanumeric k \<longleftrightarrow> (\<exists>p \<in> set (rune_chunks k). \<exists>c \<in> set (snd p). is_alnum c)"
    by (simp add: hasAlphanumeric_def list_ex_iff)
  also have "\<dots> \<longleftrightarrow> (\<exists>p \<in> set (rune_chunks k). alnum_rune (fst p))"
  proof (rule bex_cong[OF refl])
    fix p assume p: "p \<in> set (rune_chunks k)"
    have "(fst p, snd p) \<in> set (rune_chunks k)" using p by simp
    from rune_chunks_split[OF this] show "(\<exists>c \<in> set (snd p). is_alnum c) = alnum_rune (fst p)"
      using alnum_rune_char[of "fst p"] not_alnum_high by auto
  qed
  finally show ?thesis by (auto simp: runes_def)
qed

lemma norm_loop_chars: "c \<in> set (norm_loop p rs) \<Longrightarrow> is_alnum c \<or> c = CHR ''_''"
  by (induction p rs rule: norm_loop.induct) (auto simp: alnum_rune_char alnum_rune_def split: if_splits)

lemma norm_loop_Nil: "norm_loop False rs = [] \<longleftrightarrow> rs = []"
  by (cases rs) auto

lemma norm_loop_hd:
  "k \<noteq> [] \<Longrightarrow> hd (norm_loop False (runes k)) = (if is_alnum (hd k) then hd k else CHR ''_'')"
  using runes_hd[of k] alnum_rune_char[of "hd (runes k)"] not_alnum_high
  by (cases "runes k") auto

lemma norm_loop_alnum: "(\<exists>c \<in> set (norm_loop p rs). is_alnum c) \<longleftrightarrow> (\<exists>r \<in> set rs. alnum_rune r)"
proof (induction p rs rule: norm_loop.induct)
  case (2 p r rs)
  have "alnum_rune r \<Longrightarrow> is_alnum (char_of r)" using alnum_rune_char[of r] by (auto simp: alnum_rune_def)
  moreover have "\<not> is_alnum CHR ''_''" by (simp add: is_alnum_def is_lower_def is_upper_def is_digit_def)
  ultimately show ?case using 2 by auto
qed simp

text \<open>Adjacent underscores have been collapsed.\<close>

fun no_double :: "string \<Rightarrow> bool" where
  "no_double (c # d # s) \<longleftrightarrow> (c \<noteq> CHR ''_'' \<or> d \<noteq> CHR ''_'') \<and> no_double (d # s)"
| "no_double _ \<longleftrightarrow> True"

lemma char_of_alnum: "alnum_rune r \<Longrightarrow> char_of r \<noteq> CHR ''_''"
  using alnum_rune_char[of r] not_digit_underscore(2) not_alnum_high(2)[of r] by (metis not_le)

lemma no_double_Cons: "no_double (c # s) \<longleftrightarrow> no_double s \<and> (s \<noteq> [] \<and> c = CHR ''_'' \<longrightarrow> hd s \<noteq> CHR ''_'')"
  by (cases s) auto

lemma norm_loop_no_double: "no_double (norm_loop p rs) \<and> (p \<and> norm_loop p rs \<noteq> [] \<longrightarrow> hd (norm_loop p rs) \<noteq> CHR ''_'')"
  by (induction p rs rule: norm_loop.induct) (auto simp: no_double_Cons char_of_alnum)

lemma NormalizePrometheusLabelName_plain:
  "k \<noteq> [] \<Longrightarrow> \<not> isTranslatorReservedShape k \<Longrightarrow>
   NormalizePrometheusLabelName k =
     (let out = norm_loop False (runes k) in if is_digit (hd out) then ''key_'' @ out else out)"
  by (subst NormalizePrometheusLabelName.simps) (simp add: Let_def norm_loop_Nil)

lemma NormalizePrometheusLabelName_shape:
  "isTranslatorReservedShape k \<Longrightarrow>
   NormalizePrometheusLabelName k = ''__'' @ NormalizePrometheusLabelName (take (length k - 4) (drop 2 k)) @ ''__''"
  by (subst NormalizePrometheusLabelName.simps) (auto simp: isTranslatorReservedShape_def)

lemma NormalizePrometheusLabelName_Nil [simp]:
  "NormalizePrometheusLabelName [] = []" "NormalizePrometheusLabelName k = [] \<longleftrightarrow> k = []"
  by (simp_all add: NormalizePrometheusLabelName.simps[of k] NormalizePrometheusLabelName.simps[of "[]"] Let_def norm_loop_Nil)

section \<open>The reserved-key check\<close>

definition reserved_labels :: "string list" where
  "reserved_labels =
     [''service_namespace'', ''service_name'', ''service_version'', ''deployment_environment_name'', ''le'', ''quantile'']"

lemma reserved_groups:
  "want \<in> set (reservedPromLabels c) \<longleftrightarrow>
     want \<in> set reserved_labels \<and> hd want = c"
proof -
  have groups: "buildReservedPromLabels =
    [(CHR ''s'', [''service_namespace'', ''service_name'', ''service_version'']),
     (CHR ''d'', [''deployment_environment_name'']), (CHR ''l'', [''le'']), (CHR ''q'', [''quantile''])]"
    by code_simp
  have "reservedPromLabels c = filter (\<lambda>l. hd l = c) reserved_labels"
    unfolding reserved_labels_def reservedPromLabels_def groups by simp auto
  then show ?thesis by auto
qed

text \<open>A label that starts with a letter and not with the digit prefix is reached only through a key
  with the same first byte.\<close>

lemma first_byte_selects:
  assumes "k \<noteq> []" "\<not> isTranslatorReservedShape k" "want \<noteq> []" "is_lower (hd want)" "hd want \<noteq> CHR ''k''"
  shows "prefix want (NormalizePrometheusLabelName k) \<longleftrightarrow> hd k = hd want \<and> prefix want (norm_loop False (runes k))"
    and "NormalizePrometheusLabelName k = want \<longleftrightarrow> hd k = hd want \<and> norm_loop False (runes k) = want"
proof -
  let ?n = "norm_loop False (runes k)"
  have hdn: "hd ?n = (if is_alnum (hd k) then hd k else CHR ''_'')" using norm_loop_hd[OF assms(1)] .
  have ne: "?n \<noteq> []" using assms(1) by (simp add: norm_loop_Nil)
  have lower: "\<not> is_digit (hd want)" "hd want \<noteq> CHR ''_''"
    using assms(4) by (auto simp: is_digit_def is_lower_def)
  have hd_want: "hd k = hd want" "\<not> is_digit (hd ?n)" if "prefix want ?n"
  proof -
    have "hd ?n = hd want" using that assms(3) by (auto simp: prefix_def)
    then show "hd k = hd want" "\<not> is_digit (hd ?n)" using hdn lower by (auto split: if_splits)
  qed
  have norm: "NormalizePrometheusLabelName k = (if is_digit (hd ?n) then ''key_'' @ ?n else ?n)"
    using NormalizePrometheusLabelName_plain[OF assms(1,2)] by (simp add: Let_def)
  have key: "\<not> prefix want (''key_'' @ ?n)"
    using assms(3,5) by (cases want) auto
  show "prefix want (NormalizePrometheusLabelName k) \<longleftrightarrow> hd k = hd want \<and> prefix want ?n"
    using hd_want key norm by auto
  show "NormalizePrometheusLabelName k = want \<longleftrightarrow> hd k = hd want \<and> ?n = want"
    using hd_want key norm by (metis prefix_order.refl)
qed


lemma reserved_iff:
  "IsReservedAttributeKey k \<longleftrightarrow>
     k = [] \<or> isTranslatorReservedShape k \<or> \<not> hasAlphanumeric k \<or>
     prefix ''otel_scope_'' (NormalizePrometheusLabelName k) \<or> NormalizePrometheusLabelName k \<in> set reserved_labels"
proof (cases "k = [] \<or> isTranslatorReservedShape k")
  case False
  then have k: "k \<noteq> []" "\<not> isTranslatorReservedShape k" by auto
  have pre: "prefix ''otel_scope_'' (NormalizePrometheusLabelName k) \<longleftrightarrow>
    hd k = hd scopeLabelPrefix \<and> normalizedHasPrefix k scopeLabelPrefix"
    using first_byte_selects(1)[OF k, of "''otel_scope_''"]
    by (simp add: scopeLabelPrefix_def normalizedHasPrefix_iff is_lower_def)
  have eq: "NormalizePrometheusLabelName k = want \<longleftrightarrow> hd k = hd want \<and> normalizedEquals k want"
    if "want \<in> set reserved_labels" for want
    using that by (intro first_byte_selects(2)[OF k, folded normalizedEquals_iff])
      (auto simp: reserved_labels_def is_lower_def)
  show ?thesis
    unfolding IsReservedAttributeKey_def list_ex_iff Bex_def reserved_groups using k pre eq by metis
qed (auto simp: IsReservedAttributeKey_def)

text \<open>C22. The allocation-free check admits exactly the keys that have an exportable label of their own: not
  the keys without one, nor those whose Prometheus label the exporter or the exposition format owns.  The first-byte
  grouping, the on-the-fly comparison and the digit prefix change nothing.\<close>

theorem reserved_iff_label_owned:
  "\<not> IsReservedAttributeKey k \<longleftrightarrow>
     k \<noteq> [] \<and> \<not> isTranslatorReservedShape k \<and> hasAlphanumeric k \<and>
     \<not> prefix ''otel_scope_'' (NormalizePrometheusLabelName k) \<and> NormalizePrometheusLabelName k \<notin> set reserved_labels"
  unfolding reserved_iff by blast

text \<open>A label name Prometheus accepts from a client: non-empty, of the legal characters, not starting
  with a digit and not of the internal form.\<close>

definition valid_label :: "string \<Rightarrow> bool" where
  "valid_label l \<longleftrightarrow> l \<noteq> [] \<and> list_all (\<lambda>c. is_alnum c \<or> c = CHR ''_'') l \<and> \<not> is_digit (hd l) \<and> \<not> prefix ''__'' l"

lemma normalized_valid:
  assumes "k \<noteq> []" "\<not> isTranslatorReservedShape k"
  shows "valid_label (NormalizePrometheusLabelName k)"
proof -
  let ?n = "norm_loop False (runes k)"
  have ne: "?n \<noteq> []" using assms(1) by (simp add: norm_loop_Nil)
  have chars: "list_all (\<lambda>c. is_alnum c \<or> c = CHR ''_'') ?n"
    using norm_loop_chars by (auto simp: list_all_iff)
  have "\<not> prefix ''__'' ?n" using norm_loop_no_double[of False "runes k"] ne by (auto simp: prefix_def)
  with ne chars show ?thesis
    by (auto simp: NormalizePrometheusLabelName_plain[OF assms] valid_label_def Let_def is_alnum_def is_lower_def
        is_digit_def)
qed

text \<open>A key that passes the check renders as a legal, client-visible Prometheus label which no
  constant, scope or format label of the exporter has.\<close>

theorem unreserved_key_exports_cleanly:
  assumes "\<not> IsReservedAttributeKey k"
  shows "valid_label (NormalizePrometheusLabelName k) \<and>
    (\<forall>r \<in> set resourceConstantLabelKeys. \<not> SameLabel k r) \<and>
    NormalizePrometheusLabelName k \<notin> set exposedFormatLabels \<and>
    \<not> prefix scopeLabelPrefix (NormalizePrometheusLabelName k)"
proof -
  have constants: "map NormalizePrometheusLabelName resourceConstantLabelKeys = take 4 reserved_labels" by code_simp
  have "\<not> SameLabel k r" if "r \<in> set resourceConstantLabelKeys" for r
  proof
    assume "SameLabel k r"
    then have "NormalizePrometheusLabelName k \<in> set (map NormalizePrometheusLabelName resourceConstantLabelKeys)"
      using that by (simp add: SameLabel_def)
    then have "NormalizePrometheusLabelName k \<in> set reserved_labels"
      unfolding constants by (rule in_set_takeD)
    with assms show False by (simp add: reserved_iff)
  qed
  moreover have "set exposedFormatLabels \<subseteq> set reserved_labels"
    by (simp add: exposedFormatLabels_def reserved_labels_def)
  ultimately show ?thesis
    using assms normalized_valid[of k] by (auto simp: reserved_iff scopeLabelPrefix_def)
qed

theorem unreserved_key_exports_cleanly_witness:
  "\<not> IsReservedAttributeKey ''http.route'' \<and> valid_label (NormalizePrometheusLabelName ''http.route'') \<and>
    NormalizePrometheusLabelName ''http.route'' \<notin> set exposedFormatLabels \<and>
    \<not> prefix scopeLabelPrefix (NormalizePrometheusLabelName ''http.route'')"
proof -
  have "\<not> IsReservedAttributeKey ''http.route''" by code_simp
  with unreserved_key_exports_cleanly[OF this] show ?thesis by blast
qed

section \<open>First key wins\<close>

text \<open>The contract of a loop that keeps an admissible element unless its label was kept before.\<close>

locale first_wins =
  fixes step :: "'st \<Rightarrow> 'a \<Rightarrow> 'st"
    and out :: "'st \<Rightarrow> 'b list"
    and render :: "'a \<Rightarrow> 'b"
    and name :: "'b \<Rightarrow> 'l"
    and admit :: "'a \<Rightarrow> bool"
    and inv :: "'st \<Rightarrow> bool"
  assumes step_inv: "inv st \<Longrightarrow> inv (step st x)"
    and step_keeps: "inv st \<Longrightarrow> admit x \<Longrightarrow> name (render x) \<notin> name ` set (out st) \<Longrightarrow>
      out (step st x) = out st @ [render x]"
    and step_drops: "inv st \<Longrightarrow> \<not> admit x \<or> name (render x) \<in> name ` set (out st) \<Longrightarrow> out (step st x) = out st"
begin

lemma foldl_inv: "inv st \<Longrightarrow> inv (foldl step st xs)"
  by (induction xs arbitrary: st) (simp_all add: step_inv)

lemma kept_distinct:
  "inv st \<Longrightarrow> distinct (map name (out st)) \<Longrightarrow> distinct (map name (out (foldl step st xs)))"
proof (induction xs arbitrary: st)
  case (Cons x xs)
  have "distinct (map name (out (step st x)))"
    using Cons.prems step_keeps[of st x] step_drops[of st x]
    by (cases "admit x \<and> name (render x) \<notin> name ` set (out st)") auto
  then show ?case using Cons.IH[OF step_inv[OF Cons.prems(1)]] by simp
qed simp

lemma kept_names:
  "inv st \<Longrightarrow> name ` set (out (foldl step st xs)) = name ` set (out st) \<union> name ` render ` {x \<in> set xs. admit x}"
proof (induction xs arbitrary: st)
  case (Cons x xs)
  have "name ` set (out (step st x)) = name ` set (out st) \<union> name ` render ` {y. y = x \<and> admit y}"
    using Cons.prems step_keeps[of st x] step_drops[of st x]
    by (cases "admit x \<and> name (render x) \<notin> name ` set (out st)") auto
  then show ?case using Cons.IH[OF step_inv[OF Cons.prems]] by auto
qed auto

lemma kept_admitted:
  "inv st \<Longrightarrow> b \<in> set (out (foldl step st xs)) \<Longrightarrow> b \<in> set (out st) \<or> b \<in> render ` {x \<in> set xs. admit x}"
proof (induction xs arbitrary: st)
  case (Cons x xs)
  have "set (out (step st x)) \<subseteq> set (out st) \<union> render ` {y. y = x \<and> admit y}"
    using Cons.prems step_keeps[of st x] step_drops[of st x]
    by (cases "admit x \<and> name (render x) \<notin> name ` set (out st)") auto
  then show ?case using Cons.IH[OF step_inv[OF Cons.prems(1)]] Cons.prems(2) by auto
qed auto

end

definition scope_admit :: "key_value \<Rightarrow> bool" where
  "scope_admit kv \<longleftrightarrow> (let l = NormalizePrometheusLabelName (fst kv) in
     l \<noteq> [] \<and> l \<noteq> ''_'' \<and> l \<notin> set scopeBuiltinLabels)"

definition scope_inv :: "string list \<times> key_value list \<times> key_value list \<Rightarrow> bool" where
  "scope_inv st \<longleftrightarrow> set (fst st) = set (map (NormalizePrometheusLabelName \<circ> fst) (fst (snd st)))"

interpretation scope: first_wins scope_step "\<lambda>st. fst (snd st)" "\<lambda>kv. kv" "NormalizePrometheusLabelName \<circ> fst"
  scope_admit scope_inv
  by unfold_locales (auto simp: scope_step_def scope_inv_def scope_admit_def Let_def case_prod_unfold)

definition target_admit :: "key_value \<Rightarrow> bool" where
  "target_admit kv \<longleftrightarrow> (let l = NormalizePrometheusLabelName (fst kv) in
     l \<noteq> [] \<and> \<not> prefix ''__'' l \<and> hasAlphanumeric (fst kv))"

interpretation target: first_wins "target_step str" "\<lambda>ls. ls" "\<lambda>kv. (NormalizePrometheusLabelName (fst kv), str (snd kv))"
  fst target_admit "\<lambda>_. True" for str
  by unfold_locales (auto simp: target_step_def target_admit_def Let_def)

lemma sanitize_partition:
  "foldl scope_step (s, k, d) xs = (s', k', d') \<Longrightarrow> mset k' + mset d' = mset k + mset d + mset xs"
proof (induction xs arbitrary: s k d)
  case (Cons x xs)
  obtain s1 k1 d1 where st: "scope_step (s, k, d) x = (s1, k1, d1)" by (metis prod_cases3)
  then have "mset k1 + mset d1 = add_mset x (mset k + mset d)"
    by (auto simp: scope_step_def Let_def split: if_splits)
  then show ?case using Cons st by simp
qed simp

text \<open>The scope attributes that survive render as pairwise different labels, none of them a label
  the exporter emits itself and none empty; an attribute is dropped only for one of these reasons, and
  every attribute is either kept or reported as dropped.\<close>

theorem scope_attributes_never_collide:
  assumes "sanitizeScopeAttributes attrs = (kept, dropped)"
  shows "distinct (map (NormalizePrometheusLabelName \<circ> fst) kept) \<and>
    (\<forall>kv \<in> set kept. scope_admit kv) \<and>
    (\<forall>kv \<in> set attrs. scope_admit kv \<longrightarrow> (\<exists>kv' \<in> set kept. SameLabel (fst kv) (fst kv'))) \<and>
    mset kept + mset dropped = mset attrs"
proof -
  obtain s where fold: "foldl scope_step ([], [], []) attrs = (s, kept, dropped)"
    using assms by (auto simp: sanitizeScopeAttributes_def) (metis prod.collapse)
  have inv: "scope_inv ([], [], [])" by (simp add: scope_inv_def)
  show ?thesis
    using scope.kept_distinct[OF inv, of attrs] scope.kept_admitted[OF inv, of _ attrs]
      scope.kept_names[OF inv, of attrs] sanitize_partition[OF fold]
    by (auto simp: fold SameLabel_def image_iff)
qed


definition demo_attrs :: "key_value list" where
  "demo_attrs = [(''app.tier'', StrV ''web''), (''app_tier'', StrV ''db''), (''name'', StrV ''x''), (''team'', StrV ''a'')]"

theorem scope_attributes_never_collide_witness:
  "sanitizeScopeAttributes demo_attrs = ([demo_attrs ! 0, demo_attrs ! 3], [demo_attrs ! 1, demo_attrs ! 2]) \<and>
   distinct (map (NormalizePrometheusLabelName \<circ> fst) [demo_attrs ! 0, demo_attrs ! 3])"
proof -
  have eq: "sanitizeScopeAttributes demo_attrs = ([demo_attrs ! 0, demo_attrs ! 3], [demo_attrs ! 1, demo_attrs ! 2])"
    by code_simp
  show ?thesis using scope_attributes_never_collide[OF eq] eq by blast
qed

lemma target_admit_valid:
  assumes "target_admit kv"
  shows "valid_label (NormalizePrometheusLabelName (fst kv))"
proof (rule normalized_valid)
  show "fst kv \<noteq> []" "\<not> isTranslatorReservedShape (fst kv)"
    using assms NormalizePrometheusLabelName_shape[of "fst kv"] by (auto simp: target_admit_def Let_def)
qed

text \<open>C33. The labels of target\_info are legal Prometheus label names, pairwise different, and they
  cover every resource attribute that has such a name.\<close>

theorem target_info_labels_valid:
  "distinct (map fst (targetInfoLabels str (Some kvs))) \<and>
   list_all valid_label (map fst (targetInfoLabels str (Some kvs))) \<and>
   set (map fst (targetInfoLabels str (Some kvs))) = NormalizePrometheusLabelName ` fst ` {kv \<in> set kvs. target_admit kv}"
proof -
  have names: "fst ` set (foldl (target_step str) [] kvs) =
    NormalizePrometheusLabelName ` fst ` {kv \<in> set kvs. target_admit kv}"
    using target.kept_names[of str "[]" kvs] by (simp add: image_image)
  have "list_all valid_label (map fst (foldl (target_step str) [] kvs))"
    using names target_admit_valid by (auto simp: list_all_iff image_iff)
  then show ?thesis
    using names target.kept_distinct[where st = "[]" and str = str and xs = kvs] by (simp add: targetInfoLabels_def)
qed

section \<open>Environment attributes\<close>

definition owned_keys :: "string list" where
  "owned_keys = identityResourceKeys @ detectedResourceKeys"

lemma owner_find: "fst (ResourceKeyOwner k) = (case find (SameLabel k) owned_keys of Some o' \<Rightarrow> o' | None \<Rightarrow> [])"
proof -
  have app: "find P (xs @ ys) = (case find P xs of Some x \<Rightarrow> Some x | None \<Rightarrow> find P ys)" for P :: "string \<Rightarrow> bool" and xs ys
    by (induction xs) auto
  show ?thesis by (simp add: ResourceKeyOwner_def owned_keys_def app split: option.splits)
qed

lemma owned_labels_distinct: "distinct (map NormalizePrometheusLabelName owned_keys)" "[] \<notin> set owned_keys"
  by code_simp+

lemma owner_none: "fst (ResourceKeyOwner k) = [] \<longleftrightarrow> (\<forall>o' \<in> set owned_keys. \<not> SameLabel k o')"
  using owned_labels_distinct(2)
  by (auto simp: owner_find split: option.splits dest: find_SomeD find_NoneD)

lemma owner_some: "fst (ResourceKeyOwner k) = o' \<Longrightarrow> o' \<noteq> [] \<Longrightarrow> o' \<in> set owned_keys \<and> SameLabel k o'"
  by (auto simp: owner_find split: option.splits dest: find_SomeD)

definition env_admit :: "key_value list \<Rightarrow> string \<Rightarrow> bool" where
  "env_admit callerAttrs k \<longleftrightarrow> k \<in> set owned_keys \<or>
     ((\<forall>o' \<in> set owned_keys. \<not> SameLabel k o') \<and> \<not> IsTelemetrySDKKey k \<and> \<not> IsProcessKey k \<and>
      \<not> IsReservedAttributeKey k \<and> (\<forall>c \<in> set callerAttrs. SameLabel (fst c) k \<longrightarrow> fst c = k))"

definition env_ok :: "key_value list \<Rightarrow> key_value list \<Rightarrow> env_state \<Rightarrow> bool" where
  "env_ok callerAttrs processed st \<longleftrightarrow>
     fst ` set (env_seen st) = set (map (NormalizePrometheusLabelName \<circ> fst) (env_kept st)) \<and>
     distinct (map (NormalizePrometheusLabelName \<circ> fst) (env_kept st)) \<and>
     set (env_kept st) \<subseteq> set processed \<and>
     (\<forall>kv \<in> set (env_kept st). env_admit callerAttrs (fst kv)) \<and>
     mset (map fst (env_kept st)) + mset (env_dropped st) = mset (map fst processed) \<and>
     length (env_warnings st) = length (env_dropped st)"

lemma aliasOf_none: "k \<noteq> [] \<Longrightarrow> aliasOf k attrs = [] \<longleftrightarrow> (\<forall>c \<in> set attrs. SameLabel (fst c) k \<longrightarrow> fst c = k)"
proof (cases "find (\<lambda>kv. fst kv \<noteq> k \<and> SameLabel (fst kv) k) attrs")
  case None
  then show ?thesis using find_NoneD[OF None] by (auto simp: aliasOf_def)
next
  case (Some c)
  assume k: "k \<noteq> []"
  have c: "c \<in> set attrs" "fst c \<noteq> k" "SameLabel (fst c) k" using find_SomeD[OF Some] by auto
  then have "fst c \<noteq> []" using k by (auto simp: SameLabel_def dest: sym)
  with c Some show ?thesis by (auto simp: aliasOf_def)
qed

lemma env_ok_drop:
  "env_ok ca p st \<Longrightarrow> env_ok ca (p @ [kv]) (drop_env st (fst kv) w)"
  by (auto simp: env_ok_def drop_env_def)

lemma env_ok_keep:
  assumes "env_ok ca p st" "env_admit ca (fst kv)"
    "NormalizePrometheusLabelName (fst kv) \<notin> set (map (NormalizePrometheusLabelName \<circ> fst) (env_kept st))"
  shows "env_ok ca (p @ [kv]) (keep_env st (NormalizePrometheusLabelName (fst kv)) kv)"
  using assms by (auto simp: env_ok_def keep_env_def AList.dom_update image_iff)


lemma env_ok_step:
  assumes ok: "env_ok ca p st" and new: "fst kv \<notin> fst ` set p" and ne: "fst kv \<noteq> []"
  shows "env_ok ca (p @ [kv]) (env_step ca st kv)"
proof -
  let ?k = "fst kv" and ?own = "fst (ResourceKeyOwner (fst kv))"
  have seen: "map_of (env_seen st) l = None \<longleftrightarrow> l \<notin> set (map (NormalizePrometheusLabelName \<circ> fst) (env_kept st))" for l
    using ok by (simp add: env_ok_def map_of_eq_None_iff)
  have fresh: "NormalizePrometheusLabelName ?k \<notin> set (map (NormalizePrometheusLabelName \<circ> fst) (env_kept st))"
    if own: "?own = ?k"
  proof
    assume "NormalizePrometheusLabelName ?k \<in> set (map (NormalizePrometheusLabelName \<circ> fst) (env_kept st))"
    then obtain kv' where kv': "kv' \<in> set (env_kept st)" "SameLabel (fst kv') ?k"
      by (auto simp: SameLabel_def)
    have k: "?k \<in> set owned_keys" using owner_some[OF own ne] by simp
    have "env_admit ca (fst kv')" using ok kv'(1) by (simp add: env_ok_def)
    then have "fst kv' \<in> set owned_keys" using k kv'(2) by (auto simp: env_admit_def)
    then have "fst kv' = ?k"
      using owned_labels_distinct(1) k kv'(2) by (auto simp: SameLabel_def distinct_map inj_on_def)
    moreover have "kv' \<in> set p" using ok kv'(1) by (auto simp: env_ok_def)
    ultimately show False using new by (metis imageI)
  qed
  consider (own) "?own = ?k" | (owned) "?own \<noteq> ?k" "?own \<noteq> []" | (tel) "?own = []" "IsTelemetrySDKKey ?k"
    | (proc) "?own = []" "\<not> IsTelemetrySDKKey ?k" "IsProcessKey ?k"
    | (res) "?own = []" "\<not> IsTelemetrySDKKey ?k" "\<not> IsProcessKey ?k" "IsReservedAttributeKey ?k"
    | (ali) "?own = []" "\<not> IsTelemetrySDKKey ?k" "\<not> IsProcessKey ?k" "\<not> IsReservedAttributeKey ?k" "aliasOf ?k ca \<noteq> []"
    | (free) "?own = []" "\<not> IsTelemetrySDKKey ?k" "\<not> IsProcessKey ?k" "\<not> IsReservedAttributeKey ?k" "aliasOf ?k ca = []"
    by blast
  then show ?thesis
  proof cases
    case own
    then have "env_admit ca ?k" using owner_some[OF own ne] by (simp add: env_admit_def)
    then show ?thesis using env_ok_keep[OF ok _ fresh[OF own]] own by (simp add: env_step_def)
  next
    case free
    then have "env_admit ca ?k" using owner_none[of ?k] aliasOf_none[OF ne] by (auto simp: env_admit_def)
    note keep = env_ok_keep[OF ok this]
    show ?thesis
    proof (cases "map_of (env_seen st) (NormalizePrometheusLabelName ?k)")
      case None
      then show ?thesis using keep free ne seen[of "NormalizePrometheusLabelName ?k"]
        by (simp add: env_step_def Let_def)
    next
      case (Some prev)
      then show ?thesis using env_ok_drop[OF ok] free ne by (simp add: env_step_def Let_def)
    qed
  qed (use env_ok_drop[OF ok] ne in \<open>simp_all add: env_step_def Let_def\<close>)
qed

lemma env_ok_foldl:
  assumes "env_ok ca p st" "distinct (map fst (p @ kvs))" "[] \<notin> fst ` set kvs"
  shows "env_ok ca (p @ kvs) (foldl (env_step ca) st kvs)"
  using assms
proof (induction kvs arbitrary: p st)
  case (Cons kv kvs)
  have "env_ok ca (p @ [kv]) (env_step ca st kv)"
    using Cons.prems by (intro env_ok_step) auto
  then show ?case using Cons.IH[of "p @ [kv]"] Cons.prems by (simp add: image_iff)
qed simp

text \<open>Of the environment's resource attributes (distinct, non-empty keys), those kept render as
  pairwise different Prometheus labels; each is either exactly a key the SDK sets itself or one that is
  no alias of such a key, of a caller's attribute or of a reserved label and lies outside the closed
  namespaces.  Every other key is dropped, with one warning each, and nothing else is dropped.\<close>

theorem environment_attributes_guarded:
  assumes "distinct (map fst kvs)" "[] \<notin> set (map fst kvs)"
    and "EnvResourceAttributes (EnvAttrs kvs) callerAttrs = (kept, dropped, ws)"
  shows "distinct (map (NormalizePrometheusLabelName \<circ> fst) kept) \<and> set kept \<subseteq> set kvs \<and>
    (\<forall>kv \<in> set kept. env_admit callerAttrs (fst kv)) \<and>
    mset (map fst kept) + mset dropped = mset (map fst kvs) \<and> length ws = length dropped"
proof -
  let ?st0 = "\<lparr>env_seen = [], env_kept = [], env_dropped = [], env_warnings = []\<rparr>"
  have "env_ok callerAttrs [] ?st0" by (simp add: env_ok_def)
  from env_ok_foldl[OF this, of kvs] assms(1,2)
  have "env_ok callerAttrs kvs (foldl (env_step callerAttrs) ?st0 kvs)" by simp
  with assms(3) show ?thesis by (auto simp: EnvResourceAttributes_def env_ok_def Let_def)
qed

definition demo_env :: "key_value list" where
  "demo_env = [(''host.name'', StrV ''h''), (''service_name'', StrV ''evil''), (''zone'', StrV ''1'')]"

theorem environment_attributes_guarded_witness:
  "EnvResourceAttributes (EnvAttrs demo_env) [(''team'', StrV ''x'')] =
     ([demo_env ! 0, demo_env ! 2], [''service_name''], [AliasOfOwned ''service_name'' ''service.name'']) \<and>
   distinct (map (NormalizePrometheusLabelName \<circ> fst) [demo_env ! 0, demo_env ! 2])"
proof -
  have eq: "EnvResourceAttributes (EnvAttrs demo_env) [(''team'', StrV ''x'')] =
     ([demo_env ! 0, demo_env ! 2], [''service_name''], [AliasOfOwned ''service_name'' ''service.name''])"
    by code_simp
  have "distinct (map fst demo_env)" "[] \<notin> set (map fst demo_env)" by code_simp+
  then show ?thesis using environment_attributes_guarded[OF _ _ eq] eq by blast
qed

end
