(* ===== verification/Views.thy ===== *)
theory Views
  imports Labels PromCap
begin

text \<open>
  How metric streams are shaped before export: the reserved-key guard (\<^verbatim>\<open>internal/metrics/reserved.go\<close>),
  the exemplar guard (\<^verbatim>\<open>exemplar.go\<close>), the bucket overrides (\<^verbatim>\<open>bucketoverride.go\<close>), the SDK's own views
  (\<^verbatim>\<open>metrics.go\<close> and \<^verbatim>\<open>internal/views\<close>), the cap rules and the cardinality budget (\<^verbatim>\<open>metrics.go\<close>).

  A view is a function from instruments to an optional stream.  The SDK applies every matching view.
  Three functions of the metric SDK are arguments: \<open>nv\<close> is \<^verbatim>\<open>sdkmetric.NewView\<close>, \<open>akf\<close> is
  \<^verbatim>\<open>attribute.NewAllowKeysFilter\<close>, \<open>dflt\<close> the default exemplar reservoir selector.  A reservoir is
  its \<^verbatim>\<open>Offer\<close>, a function of the measurement (time and value) and of the dropped attributes, with
  \<open>'e\<close> its effect.
\<close>

datatype instrument_kind =
    UndefinedKind | InstrumentKindCounter | InstrumentKindUpDownCounter | InstrumentKindHistogram
  | InstrumentKindObservableCounter | InstrumentKindObservableUpDownCounter | InstrumentKindObservableGauge
  | InstrumentKindGauge

record instrument_id =
  inst_name :: string
  inst_desc :: string
  inst_kind :: instrument_kind
  inst_unit :: string
  inst_scope :: string

datatype 'f aggregation =
    AggregationDefault | AggregationDrop
  | AggregationExplicitBucketHistogram (Boundaries: "'f list") (NoMinMax: bool)
  | OtherAggregation

type_synonym ('f, 'm, 'e) selector = "'f aggregation option \<Rightarrow> key_value list \<Rightarrow> 'm \<Rightarrow> key_value list \<Rightarrow> 'e"

record ('f, 'm, 'e) stream =
  stream_name :: string
  stream_desc :: string
  stream_unit :: string
  stream_agg :: "'f aggregation option"
  stream_filter :: "(key_value \<Rightarrow> bool) option"
  stream_exemplars :: "('f, 'm, 'e) selector option"

type_synonym ('f, 'm, 'e) view = "instrument_id \<Rightarrow> ('f, 'm, 'e) stream option"

section \<open>Exemplars\<close>

definition dropFilteredAttrs ::
  "('f, 'm, 'e) selector \<Rightarrow> ('f, 'm, 'e) selector option \<Rightarrow> ('f, 'm, 'e) selector" where
  "dropFilteredAttrs dflt sel =
     (let s = (case sel of None \<Rightarrow> dflt | Some s \<Rightarrow> s)
      in (\<lambda>agg. let inner = s agg in (\<lambda>attrs. let reservoir = inner attrs in (\<lambda>v _. reservoir v []))))"

definition dropFilteredAttrsExemplarSelector :: "('f, 'm, 'e) selector \<Rightarrow> ('f, 'm, 'e) selector" where
  "dropFilteredAttrsExemplarSelector dflt agg = dropFilteredAttrs dflt None agg"

section \<open>The reserved-key guard\<close>

definition composeFilters :: "(key_value \<Rightarrow> bool) option \<Rightarrow> (key_value \<Rightarrow> bool) \<Rightarrow> (key_value \<Rightarrow> bool)" where
  "composeFilters inner outer = (case inner of None \<Rightarrow> outer | Some f \<Rightarrow> (\<lambda>kv. f kv \<and> outer kv))"

definition withReservedKeyFilter :: "('f, 'm, 'e) selector \<Rightarrow> ('f, 'm, 'e) view \<Rightarrow> ('f, 'm, 'e) view" where
  "withReservedKeyFilter dflt v =
     (\<lambda>inst. case v inst of None \<Rightarrow> None
        | Some st \<Rightarrow> Some (st\<lparr>stream_filter := Some (composeFilters (stream_filter st) notReserved),
                              stream_exemplars := Some (dropFilteredAttrs dflt (stream_exemplars st))\<rparr>))"

definition catchAllReservedKeyFilter ::
  "('f, 'm, 'e) selector \<Rightarrow> ('f, 'm, 'e) view list \<Rightarrow> ('f, 'm, 'e) view" where
  "catchAllReservedKeyFilter dflt configured =
     (\<lambda>inst. if list_ex (\<lambda>v. v inst \<noteq> None) configured then None
        else Some \<lparr>stream_name = inst_name inst, stream_desc = inst_desc inst, stream_unit = inst_unit inst,
                   stream_agg = None, stream_filter = Some notReserved,
                   stream_exemplars = Some (dropFilteredAttrsExemplarSelector dflt)\<rparr>)"

definition guardReservedKeys ::
  "('f, 'm, 'e) selector \<Rightarrow> ('f, 'm, 'e) view list \<Rightarrow> ('f, 'm, 'e) view list" where
  "guardReservedKeys dflt configured =
     map (withReservedKeyFilter dflt) configured @ [catchAllReservedKeyFilter dflt configured]"

section \<open>Bucket overrides\<close>

definition withBucketOverride ::
  "('f, 'm, 'e) view \<Rightarrow> (string \<times> 'f list) list \<Rightarrow> ('f, 'm, 'e) view" where
  "withBucketOverride v overrides =
     (\<lambda>inst. case v inst of None \<Rightarrow> None
        | Some st \<Rightarrow>
            (case map_of overrides (inst_name inst) of
               None \<Rightarrow> Some st
             | Some bounds \<Rightarrow>
                 if inst_kind inst \<noteq> InstrumentKindHistogram then Some st
                 else Some (case stream_agg st of
                        Some (AggregationExplicitBucketHistogram _ nmm) \<Rightarrow>
                          st\<lparr>stream_agg := Some (AggregationExplicitBucketHistogram bounds nmm)\<rparr>
                      | None \<Rightarrow> st\<lparr>stream_agg := Some (AggregationExplicitBucketHistogram bounds False)\<rparr>
                      | Some AggregationDefault \<Rightarrow>
                          st\<lparr>stream_agg := Some (AggregationExplicitBucketHistogram bounds False)\<rparr>
                      | _ \<Rightarrow> st)))"

definition unclaimedBucketOverride ::
  "('f, 'm, 'e) view list \<Rightarrow> (string \<times> 'f list) list \<Rightarrow> ('f, 'm, 'e) view" where
  "unclaimedBucketOverride configured overrides =
     (\<lambda>inst. case map_of overrides (inst_name inst) of None \<Rightarrow> None
        | Some bounds \<Rightarrow>
            if inst_kind inst \<noteq> InstrumentKindHistogram then None
            else if list_ex (\<lambda>v. v inst \<noteq> None) configured then None
            else Some \<lparr>stream_name = inst_name inst, stream_desc = inst_desc inst, stream_unit = inst_unit inst,
                       stream_agg = Some (AggregationExplicitBucketHistogram bounds False),
                       stream_filter = None, stream_exemplars = None\<rparr>)"

definition applyHistogramBucketOverrides ::
  "('f, 'm, 'e) view list \<Rightarrow> (string \<times> 'f list) list \<Rightarrow> ('f, 'm, 'e) view list" where
  "applyHistogramBucketOverrides configured overrides =
     (if overrides = [] then configured
      else map (\<lambda>v. withBucketOverride v overrides) configured @ [unclaimedBucketOverride configured overrides])"

section \<open>The SDK's own views\<close>

text \<open>What a view is created from: the criteria and the mask, an empty criterion matching anything.\<close>

record 'f view_spec =
  crit :: instrument_id
  mask_agg :: "'f aggregation option"
  mask_allow :: "string list option"
  mask_drop_exemplars :: bool

definition criteria :: "string \<Rightarrow> string \<Rightarrow> instrument_id" where
  "criteria name scope =
     \<lparr>inst_name = name, inst_desc = [], inst_kind = UndefinedKind, inst_unit = [], inst_scope = scope\<rparr>"

definition explicit :: "'f list \<Rightarrow> 'f aggregation option" where
  "explicit bounds = Some (AggregationExplicitBucketHistogram bounds False)"

definition MongoScope :: string where "MongoScope = ''github.com/flywindy/o11y/mongo''"
definition MongoContribScope :: string where
  "MongoContribScope = ''go.opentelemetry.io/contrib/instrumentation/go.mongodb.org/mongo-driver/v2/mongo/otelmongo''"
definition RedisScope :: string where "RedisScope = ''github.com/flywindy/o11y/redis''"
definition CassandraScope :: string where "CassandraScope = ''github.com/flywindy/o11y/cassandra''"
definition ElasticsearchScope :: string where "ElasticsearchScope = ''github.com/flywindy/o11y/elasticsearch''"
definition MinioScope :: string where "MinioScope = ''github.com/flywindy/o11y/minio''"

definition Mongo :: "'f list \<Rightarrow> 'f view_spec list" where
  "Mongo bounds =
     (let poolAttrs = Some [''db.system.name'', ''db.client.connection.pool.name'', ''server.address'', ''server.port''] in
      [\<lparr>crit = criteria ''db.client.operation.duration'' MongoContribScope, mask_agg = explicit bounds,
        mask_allow = Some [''db.system.name'', ''db.operation.name'', ''network.peer.address'', ''network.peer.port'',
          ''error.type''], mask_drop_exemplars = False\<rparr>,
       \<lparr>crit = criteria ''db.client.connection.count'' MongoScope, mask_agg = None,
        mask_allow = Some [''db.system.name'', ''db.client.connection.pool.name'', ''db.client.connection.state'',
          ''server.address'', ''server.port''], mask_drop_exemplars = False\<rparr>,
       \<lparr>crit = criteria ''db.client.connection.create_time'' MongoScope, mask_agg = explicit bounds,
        mask_allow = poolAttrs, mask_drop_exemplars = False\<rparr>] @
      map (\<lambda>name. \<lparr>crit = criteria name MongoScope, mask_agg = None, mask_allow = poolAttrs, mask_drop_exemplars = False\<rparr>)
        [''db.client.connection.idle.min'', ''db.client.connection.max'', ''db.client.connection.pending_requests'',
         ''db.client.connection.timeouts''] @
      map (\<lambda>name. \<lparr>crit = criteria name MongoScope, mask_agg = Some AggregationDrop, mask_allow = None,
             mask_drop_exemplars = False\<rparr>)
        [''db.client.connection.idle.max'', ''db.client.connection.use_time'', ''db.client.connection.wait_time''])"

definition Redis :: "'f list \<Rightarrow> 'f view_spec list" where
  "Redis bounds =
     (let poolAttrKeys = Some [''db.system.name'', ''db.client.connection.pool.name'', ''server.address'', ''server.port''] in
      [\<lparr>crit = criteria ''db.client.operation.duration'' RedisScope, mask_agg = explicit bounds,
        mask_allow = Some [''db.system.name'', ''db.operation.name'', ''server.address'', ''server.port'', ''error.type''],
        mask_drop_exemplars = False\<rparr>,
       \<lparr>crit = criteria ''db.client.connection.create_time'' RedisScope, mask_agg = explicit bounds,
        mask_allow = poolAttrKeys, mask_drop_exemplars = False\<rparr>,
       \<lparr>crit = criteria ''db.client.connection.count'' RedisScope, mask_agg = None,
        mask_allow = Some [''db.system.name'', ''db.client.connection.pool.name'', ''db.client.connection.state'',
          ''server.address'', ''server.port''], mask_drop_exemplars = False\<rparr>] @
      map (\<lambda>name. \<lparr>crit = criteria name RedisScope, mask_agg = None, mask_allow = poolAttrKeys, mask_drop_exemplars = False\<rparr>)
        [''db.client.connection.idle.max'', ''db.client.connection.idle.min'', ''db.client.connection.max'',
         ''db.client.connection.timeouts''] @
      map (\<lambda>name. \<lparr>crit = criteria name [], mask_agg = Some AggregationDrop, mask_allow = None, mask_drop_exemplars = False\<rparr>)
        [''db.client.connections.usage'', ''db.client.connections.idle.max'', ''db.client.connections.idle.min'',
         ''db.client.connections.max'', ''db.client.connections.pending_requests'', ''db.client.connections.timeouts'',
         ''db.client.connections.hits'', ''db.client.connections.misses'', ''db.client.connections.create_time'',
         ''db.client.connections.use_time'', ''db.client.connections.wait_time''])"

definition Cassandra :: "'f list \<Rightarrow> 'f view_spec list" where
  "Cassandra bounds =
     (let queryAttrs = Some [''db.system.name'', ''db.operation.name'', ''db.namespace'', ''db.collection.name'',
            ''server.address'', ''server.port'', ''error.type''] in
      [\<lparr>crit = criteria ''db.client.operation.duration'' CassandraScope, mask_agg = explicit bounds,
        mask_allow = queryAttrs, mask_drop_exemplars = False\<rparr>,
       \<lparr>crit = criteria ''db.client.connection.create_time'' CassandraScope, mask_agg = explicit bounds,
        mask_allow = Some [''db.system.name'', ''db.client.connection.pool.name'', ''server.address'', ''server.port''],
        mask_drop_exemplars = False\<rparr>,
       \<lparr>crit = criteria ''cassandra.query.attempts'' CassandraScope, mask_agg = None,
        mask_allow = queryAttrs, mask_drop_exemplars = False\<rparr>,
       \<lparr>crit = criteria ''cassandra.connection.attempts'' CassandraScope, mask_agg = None,
        mask_allow = Some [''db.system.name'', ''db.client.connection.pool.name'', ''server.address'', ''server.port'',
          ''error.type''], mask_drop_exemplars = False\<rparr>])"

definition Elasticsearch :: "'f list \<Rightarrow> 'f view_spec list" where
  "Elasticsearch bounds =
     [\<lparr>crit = criteria ''db.client.operation.duration'' ElasticsearchScope, mask_agg = explicit bounds,
       mask_allow = Some [''db.system.name'', ''db.operation.name'', ''db.collection.name'', ''server.address'',
         ''server.port'', ''error.type'', ''db.response.status_code''], mask_drop_exemplars = False\<rparr>]"

definition Minio :: "'f list \<Rightarrow> 'f view_spec list" where
  "Minio bounds =
     [\<lparr>crit = criteria ''minio.client.operation.duration'' MinioScope, mask_agg = explicit bounds,
       mask_allow = Some [''object_store.operation.name'', ''object_store.bucket.name'', ''server.address'',
         ''server.port'', ''error.type''], mask_drop_exemplars = False\<rparr>]"

definition RPC :: "'f list \<Rightarrow> 'f view_spec list" where
  "RPC bounds =
     map (\<lambda>name. \<lparr>crit = \<lparr>inst_name = name, inst_desc = [], inst_kind = InstrumentKindHistogram, inst_unit = ''s'',
                          inst_scope = []\<rparr>,
                  mask_agg = explicit bounds, mask_allow = None, mask_drop_exemplars = False\<rparr>)
       [''rpc.server.call.duration'', ''rpc.client.call.duration'']"

text \<open>The fields of \<^verbatim>\<open>metrics.Config\<close> the definitions below read.\<close>

record 'f metrics_config =
  HistogramBuckets :: "'f list"
  DisableDefaultViews :: bool
  ExtraHTTPServerAttrKeys :: "string list"
  MaxUniqueRoutes :: int
  MaxUniqueCollections :: int
  CardinalityLimit :: int

definition defaultViews :: "'f metrics_config \<Rightarrow> 'f view_spec list" where
  "defaultViews cfg =
     (if DisableDefaultViews cfg then []
      else
        [\<lparr>crit = criteria ''http.server.request.duration'' [], mask_agg = explicit (HistogramBuckets cfg),
          mask_allow = Some ([''http.request.method'', ''http.route'', ''http.response.status_code''] @
            ExtraHTTPServerAttrKeys cfg), mask_drop_exemplars = True\<rparr>,
         \<lparr>crit = criteria ''http.client.request.duration'' [], mask_agg = explicit (HistogramBuckets cfg),
          mask_allow = Some [''http.request.method'', ''http.route'', ''http.response.status_code'', ''server.address'',
            ''server.port'', ''error.type''], mask_drop_exemplars = True\<rparr>])"

definition to_view ::
  "(instrument_id \<Rightarrow> ('f, 'm, 'e) stream \<Rightarrow> ('f, 'm, 'e) view) \<Rightarrow> (string list \<Rightarrow> key_value \<Rightarrow> bool) \<Rightarrow>
   ('f, 'm, 'e) selector \<Rightarrow> 'f view_spec \<Rightarrow> ('f, 'm, 'e) view" where
  "to_view nv akf dflt sp =
     nv (crit sp) \<lparr>stream_name = [], stream_desc = [], stream_unit = [], stream_agg = mask_agg sp,
                   stream_filter = map_option akf (mask_allow sp),
                   stream_exemplars = (if mask_drop_exemplars sp then Some (dropFilteredAttrsExemplarSelector dflt)
                                       else None)\<rparr>"

section \<open>Cap rules and the cardinality budget\<close>

definition DefaultCardinalityLimit :: int where "DefaultCardinalityLimit = 2000"
definition MinCardinalityLimit :: int where "MinCardinalityLimit = 4"
definition sdkCardinalityCapMultiplier :: int where "sdkCardinalityCapMultiplier = 4"
definition maxUniqueMongoPeers :: int where "maxUniqueMongoPeers = 50"

text \<open>Instrument and family name pairs, and the scopes with their budgets.\<close>

definition cassandraCollectionInstruments :: "(string \<times> string) list" where
  "cassandraCollectionInstruments =
     [(''db.client.operation.duration'', ''db_client_operation_duration_seconds''),
      (''cassandra.query.attempts'', ''cassandra_query_attempts_total'')]"

definition elasticsearchCollectionInstruments :: "(string \<times> string) list" where
  "elasticsearchCollectionInstruments = [(''db.client.operation.duration'', ''db_client_operation_duration_seconds'')]"

definition mongoPeerInstruments :: "(string \<times> string) list" where
  "mongoPeerInstruments = [(''db.client.operation.duration'', ''db_client_operation_duration_seconds'')]"

definition collectionCapScopes :: "(string \<times> string \<times> (string \<times> string) list) list" where
  "collectionCapScopes =
     [(CassandraScope, ''cassandra/db.collection.name'', cassandraCollectionInstruments),
      (ElasticsearchScope, ''elasticsearch/db.collection.name'', elasticsearchCollectionInstruments)]"

definition otlpCapRules :: "'f metrics_config \<Rightarrow> rule list" where
  "otlpCapRules cfg =
     (if MaxUniqueRoutes cfg > 0
      then map (\<lambda>n. \<lparr>InstrumentName = n, Key = ''http.route'', Max = MaxUniqueRoutes cfg, ScopeName = [], BudgetKey = []\<rparr>)
             [''http.server.request.duration'', ''http.client.request.duration'']
      else []) @
     (if MaxUniqueCollections cfg > 0
      then concat (map (\<lambda>(scope, budget, insts). map (\<lambda>(n, _).
             \<lparr>InstrumentName = n, Key = ''db.collection.name'', Max = MaxUniqueCollections cfg, ScopeName = scope,
              BudgetKey = budget\<rparr>) insts) collectionCapScopes)
      else []) @
     map (\<lambda>(n, _). \<lparr>InstrumentName = n, Key = ''network.peer.address'', Max = maxUniqueMongoPeers,
            ScopeName = MongoContribScope, BudgetKey = ''mongo/network.peer.address''\<rparr>) mongoPeerInstruments"

definition prometheusCapRules :: "'f metrics_config \<Rightarrow> prom_rule list" where
  "prometheusCapRules cfg =
     (if MaxUniqueRoutes cfg > 0
      then map (\<lambda>n. \<lparr>MetricName = n, LabelName = ''http_route'', PMax = MaxUniqueRoutes cfg, PScopeName = [], PBudgetKey = []\<rparr>)
             [''http_server_request_duration_seconds'', ''http_client_request_duration_seconds'']
      else []) @
     (if MaxUniqueCollections cfg > 0
      then concat (map (\<lambda>(scope, budget, insts). map (\<lambda>(_, n).
             \<lparr>MetricName = n, LabelName = ''db_collection_name'', PMax = MaxUniqueCollections cfg, PScopeName = scope,
              PBudgetKey = budget\<rparr>) insts) collectionCapScopes)
      else []) @
     map (\<lambda>(_, n). \<lparr>MetricName = n, LabelName = ''network_peer_address'', PMax = maxUniqueMongoPeers,
            PScopeName = MongoContribScope, PBudgetKey = ''mongo/network.peer.address''\<rparr>) mongoPeerInstruments"

definition scaleBudget :: "int \<Rightarrow> int \<Rightarrow> int" where
  "scaleBudget n per = (if n \<le> 0 then 0 else if n > max_int64 div per then max_int64 else n * per)"

definition cardinalityLimitBudget :: "int \<Rightarrow> int \<Rightarrow> int \<Rightarrow> int" where
  "cardinalityLimitBudget maxUniqueRoutes maxUniqueCollections override =
     (if override > 0 then max override MinCardinalityLimit
      else max (max DefaultCardinalityLimit (scaleBudget maxUniqueRoutes sdkCardinalityCapMultiplier))
             (scaleBudget maxUniqueCollections sdkCardinalityCapMultiplier))"


section \<open>Streams\<close>

text \<open>The SDK applies every matching view; without a match it falls back to a default stream.\<close>

fun streams :: "('f, 'm, 'e) view list \<Rightarrow> instrument_id \<Rightarrow> ('f, 'm, 'e) stream list" where
  "streams [] inst = []"
| "streams (v # vs) inst = (case v inst of None \<Rightarrow> streams vs inst | Some st \<Rightarrow> st # streams vs inst)"

lemma streams_append: "streams (vs @ ws) inst = streams vs inst @ streams ws inst"
  by (induction vs) (auto split: option.splits)

lemma streams_Nil_iff: "streams vs inst = [] \<longleftrightarrow> \<not> list_ex (\<lambda>v. v inst \<noteq> None) vs"
  by (induction vs) (auto split: option.splits)

lemma streams_map:
  assumes "\<And>v. f v inst = map_option g (v inst)"
  shows "streams (map f vs) inst = map g (streams vs inst)"
  by (induction vs) (simp_all add: assms split: option.splits)

definition guard_stream :: "('f, 'm, 'e) selector \<Rightarrow> ('f, 'm, 'e) stream \<Rightarrow> ('f, 'm, 'e) stream" where
  "guard_stream dflt st = st\<lparr>stream_filter := Some (composeFilters (stream_filter st) notReserved),
     stream_exemplars := Some (dropFilteredAttrs dflt (stream_exemplars st))\<rparr>"

definition default_stream :: "instrument_id \<Rightarrow> ('f, 'm, 'e) stream" where
  "default_stream inst = \<lparr>stream_name = inst_name inst, stream_desc = inst_desc inst, stream_unit = inst_unit inst,
     stream_agg = None, stream_filter = None, stream_exemplars = None\<rparr>"

lemma guarded_streams:
  "streams (guardReservedKeys dflt vs) inst =
     map (guard_stream dflt) (if streams vs inst = [] then [default_stream inst] else streams vs inst)"
proof -
  have "withReservedKeyFilter dflt v inst = map_option (guard_stream dflt) (v inst)" for v
    by (simp add: withReservedKeyFilter_def guard_stream_def split: option.splits)
  note m = streams_map[of "withReservedKeyFilter dflt" inst "guard_stream dflt", OF this]
  have c: "streams [catchAllReservedKeyFilter dflt vs] inst =
    (if streams vs inst = [] then [guard_stream dflt (default_stream inst)] else [])"
    by (simp add: catchAllReservedKeyFilter_def streams_Nil_iff guard_stream_def default_stream_def composeFilters_def
        dropFilteredAttrsExemplarSelector_def[abs_def])
  show ?thesis unfolding guardReservedKeys_def streams_append m c by simp
qed



definition reshaped :: "'f list \<Rightarrow> ('f, 'm, 'e) stream \<Rightarrow> ('f, 'm, 'e) stream" where
  "reshaped bounds st = (case stream_agg st of
     None \<Rightarrow> st\<lparr>stream_agg := Some (AggregationExplicitBucketHistogram bounds False)\<rparr>
   | Some AggregationDefault \<Rightarrow> st\<lparr>stream_agg := Some (AggregationExplicitBucketHistogram bounds False)\<rparr>
   | Some (AggregationExplicitBucketHistogram _ nmm) \<Rightarrow>
       st\<lparr>stream_agg := Some (AggregationExplicitBucketHistogram bounds nmm)\<rparr>
   | _ \<Rightarrow> st)"

text \<open>A bucket override reshapes exactly the explicit-bucket histograms it names, adds a stream only
  for one no configured view claims, and leaves every other instrument's streams alone.\<close>

theorem bucket_overrides_reshape_only_named:
  fixes vs :: "('f, 'm, 'e) view list"
  shows "streams (applyHistogramBucketOverrides vs overrides) inst =
     (case map_of overrides (inst_name inst) of
        None \<Rightarrow> streams vs inst
      | Some bounds \<Rightarrow>
          if inst_kind inst \<noteq> InstrumentKindHistogram then streams vs inst
          else map (reshaped bounds) (if streams vs inst = [] then [default_stream inst] else streams vs inst))"
proof (cases "overrides = []")
  case False
  define g :: "('f, 'm, 'e) stream \<Rightarrow> ('f, 'm, 'e) stream" where "g = (case map_of overrides (inst_name inst) of None \<Rightarrow> id
    | Some bounds \<Rightarrow> if inst_kind inst \<noteq> InstrumentKindHistogram then id else reshaped bounds)"
  have "withBucketOverride v overrides inst = map_option g (v inst)" for v
    by (cases "v inst") (simp_all add: withBucketOverride_def g_def reshaped_def split: option.splits aggregation.splits)
  note m = streams_map[of "\<lambda>v. withBucketOverride v overrides" inst g, OF this]
  have "streams (applyHistogramBucketOverrides vs overrides) inst =
    map g (streams vs inst) @ streams [unclaimedBucketOverride vs overrides] inst"
    using False m[of vs] by (simp add: applyHistogramBucketOverrides_def streams_append)
  moreover have "streams [unclaimedBucketOverride vs overrides] inst =
    (case map_of overrides (inst_name inst) of None \<Rightarrow> []
     | Some bounds \<Rightarrow> if inst_kind inst \<noteq> InstrumentKindHistogram \<or> streams vs inst \<noteq> [] then []
         else [reshaped bounds (default_stream inst)])"
    by (simp add: unclaimedBucketOverride_def streams_Nil_iff reshaped_def default_stream_def split: option.splits)
  ultimately show ?thesis by (simp add: g_def split: option.splits)
qed (simp add: applyHistogramBucketOverrides_def)


section \<open>The SDK's views do not overlap\<close>

definition criteria_match :: "instrument_id \<Rightarrow> instrument_id \<Rightarrow> bool" where
  "criteria_match c inst \<longleftrightarrow>
     (inst_name c \<noteq> [] \<longrightarrow> inst_name inst = inst_name c) \<and> (inst_scope c \<noteq> [] \<longrightarrow> inst_scope inst = inst_scope c) \<and>
     (inst_kind c \<noteq> UndefinedKind \<longrightarrow> inst_kind inst = inst_kind c) \<and> (inst_unit c \<noteq> [] \<longrightarrow> inst_unit inst = inst_unit c)"

text \<open>What is used of \<^verbatim>\<open>NewView\<close>: with a name free of wildcards it matches no instrument that differs
  from a criterion that was set.\<close>

definition new_view_law :: "(instrument_id \<Rightarrow> ('f, 'm, 'e) stream \<Rightarrow> ('f, 'm, 'e) view) \<Rightarrow> bool" where
  "new_view_law nv \<longleftrightarrow> (\<forall>c m inst. CHR ''*'' \<notin> set (inst_name c) \<and> CHR ''?'' \<notin> set (inst_name c) \<longrightarrow>
     nv c m inst \<noteq> None \<longrightarrow> criteria_match c inst)"

definition disjoint_criteria :: "string \<times> string \<Rightarrow> string \<times> string \<Rightarrow> bool" where
  "disjoint_criteria c d \<longleftrightarrow>
     (if fst c = fst d then snd c \<noteq> snd d \<and> snd c \<noteq> [] \<and> snd d \<noteq> [] else fst c \<noteq> [] \<and> fst d \<noteq> [])"

definition plain_name :: "string \<times> string \<Rightarrow> bool" where
  "plain_name c \<longleftrightarrow> CHR ''*'' \<notin> set (fst c) \<and> CHR ''?'' \<notin> set (fst c)"

abbreviation crit_key :: "'f view_spec \<Rightarrow> string \<times> string" where
  "crit_key sp \<equiv> (inst_name (crit sp), inst_scope (crit sp))"

definition integration_views :: "'f list \<Rightarrow> 'f view_spec list" where
  "integration_views bounds = Mongo bounds @ Redis bounds @ Cassandra bounds @ Elasticsearch bounds @ Minio bounds @ RPC bounds"

definition sdk_views :: "'f metrics_config \<Rightarrow> 'f list \<Rightarrow> 'f view_spec list" where
  "sdk_views cfg bounds = defaultViews cfg @ integration_views bounds"

text \<open>The criteria do not depend on the configured boundaries.\<close>

definition unit_config :: "unit metrics_config" where
  "unit_config = \<lparr>HistogramBuckets = [], DisableDefaultViews = False, ExtraHTTPServerAttrKeys = [], MaxUniqueRoutes = 0,
     MaxUniqueCollections = 0, CardinalityLimit = 0\<rparr>"

lemma crit_keys_constant:
  "map crit_key (integration_views bounds) = map crit_key (integration_views [()])"
  "\<not> DisableDefaultViews cfg \<Longrightarrow> map crit_key (defaultViews cfg) = map crit_key (defaultViews unit_config)"
  by (simp_all add: integration_views_def Mongo_def Redis_def Cassandra_def Elasticsearch_def Minio_def RPC_def
      defaultViews_def unit_config_def Let_def)

lemma sdk_criteria_disjoint:
  "sorted_wrt disjoint_criteria (map crit_key (sdk_views unit_config [()]))"
  "list_all plain_name (map crit_key (sdk_views unit_config [()]))"
  by code_simp+


lemma sdk_views_ok:
  "sorted_wrt disjoint_criteria (map crit_key (sdk_views cfg bounds)) \<and>
   list_all plain_name (map crit_key (sdk_views cfg bounds))"
proof (cases "DisableDefaultViews cfg")
  case True
  then have "map crit_key (sdk_views cfg bounds) = map crit_key (integration_views [()])"
    using crit_keys_constant(1)[of bounds] by (simp add: sdk_views_def defaultViews_def)
  moreover have "map crit_key (sdk_views unit_config [()]) =
    map crit_key (defaultViews unit_config) @ map crit_key (integration_views [()])" by (simp add: sdk_views_def)
  ultimately show ?thesis using sdk_criteria_disjoint by (simp only: sorted_wrt_append list_all_append)
next
  case False
  then have "map crit_key (sdk_views cfg bounds) = map crit_key (sdk_views unit_config [()])"
    using crit_keys_constant(1)[of bounds] crit_keys_constant(2)[OF False] by (simp add: sdk_views_def)
  then show ?thesis using sdk_criteria_disjoint by (simp only:)
qed

lemma disjoint_not_both:
  "disjoint_criteria (crit_key a) (crit_key b) \<Longrightarrow> criteria_match (crit a) inst \<Longrightarrow> \<not> criteria_match (crit b) inst"
  by (auto simp: disjoint_criteria_def criteria_match_def split: if_splits)

lemma to_view_matches:
  assumes "new_view_law nv" "plain_name (crit_key sp)" "to_view nv akf dflt sp inst \<noteq> None"
  shows "criteria_match (crit sp) inst"
  using assms unfolding new_view_law_def plain_name_def to_view_def by auto

text \<open>However many of the SDK's view sets are enabled together, an instrument is claimed by at most
  one of their views, so none is exported as two conflicting streams.\<close>

theorem sdk_views_never_overlap:
  assumes "new_view_law nv"
  shows "length (streams (map (to_view nv akf dflt) (sdk_views cfg bounds)) inst) \<le> 1"
proof -
  have "length (streams (map (to_view nv akf dflt) sps) inst) \<le> 1"
    if "sorted_wrt disjoint_criteria (map crit_key sps)" "list_all plain_name (map crit_key sps)" for sps
    using that
  proof (induction sps)
    case (Cons sp sps)
    show ?case
    proof (cases "to_view nv akf dflt sp inst")
      case (Some st)
      then have m: "criteria_match (crit sp) inst"
        using to_view_matches[OF assms, of sp akf dflt inst] Cons.prems(2) by simp
      have "to_view nv akf dflt q inst = None" if "q \<in> set sps" for q
        using that Cons.prems to_view_matches[OF assms, of q akf dflt inst] disjoint_not_both[of sp q, OF _ m]
        by (cases "to_view nv akf dflt q inst") (auto simp: list_all_iff)
      then have "streams (map (to_view nv akf dflt) sps) inst = []"
        by (auto simp: streams_Nil_iff list_ex_iff)
      then show ?thesis using Some by simp
    qed (use Cons in simp)
  qed simp
  then show ?thesis using sdk_views_ok[of cfg bounds] by blast
qed

definition exact_view :: "instrument_id \<Rightarrow> ('f, 'm, 'e) stream \<Rightarrow> ('f, 'm, 'e) view" where
  "exact_view c m inst = (if criteria_match c inst then Some m else None)"

theorem sdk_views_never_overlap_witness:
  "new_view_law (exact_view :: instrument_id \<Rightarrow> (int, unit, unit) stream \<Rightarrow> (int, unit, unit) view) \<and>
   length (streams (map (to_view exact_view (\<lambda>ks kv. fst kv \<in> set ks) (\<lambda>_ _ (_ :: unit) _. ()))
     (sdk_views \<lparr>HistogramBuckets = [1::int], DisableDefaultViews = False, ExtraHTTPServerAttrKeys = [],
        MaxUniqueRoutes = 0, MaxUniqueCollections = 0, CardinalityLimit = 0\<rparr> [1]))
     (criteria ''db.client.operation.duration'' RedisScope)) \<le> 1"
proof -
  have law: "new_view_law (exact_view :: instrument_id \<Rightarrow> (int, unit, unit) stream \<Rightarrow> (int, unit, unit) view)"
    by (simp add: new_view_law_def exact_view_def)
  show ?thesis using law by (intro conjI sdk_views_never_overlap)
qed

section \<open>The two exporters cap alike\<close>

text \<open>The Prometheus family an instrument is exposed as: its normalised name with the unit suffix of a
  seconds histogram or of a counter.\<close>

definition exposed_as :: "string \<Rightarrow> string \<Rightarrow> bool" where
  "exposed_as inst fam \<longleftrightarrow> fam = NormalizePrometheusLabelName inst @ ''_seconds'' \<or> fam = NormalizePrometheusLabelName inst @ ''_total''"

definition same_cap :: "rule \<Rightarrow> prom_rule \<Rightarrow> bool" where
  "same_cap r p \<longleftrightarrow> exposed_as (InstrumentName r) (MetricName p) \<and> LabelName p = NormalizePrometheusLabelName (Key r) \<and>
     PMax p = Max r \<and> PScopeName p = ScopeName r \<and> PBudgetKey p = BudgetKey r"

lemma cap_names:
  "exposed_as ''http.server.request.duration'' ''http_server_request_duration_seconds''"
  "exposed_as ''http.client.request.duration'' ''http_client_request_duration_seconds''"
  "exposed_as ''db.client.operation.duration'' ''db_client_operation_duration_seconds''"
  "exposed_as ''cassandra.query.attempts'' ''cassandra_query_attempts_total''"
  "NormalizePrometheusLabelName ''http.route'' = ''http_route''"
  "NormalizePrometheusLabelName ''db.collection.name'' = ''db_collection_name''"
  "NormalizePrometheusLabelName ''network.peer.address'' = ''network_peer_address''"
  by code_simp+

lemmas cap_rule_defs = otlpCapRules_def prometheusCapRules_def collectionCapScopes_def maxUniqueMongoPeers_def
  cassandraCollectionInstruments_def elasticsearchCollectionInstruments_def mongoPeerInstruments_def

text \<open>The OTLP and the Prometheus exporter cap the same instruments: rule by rule the same budget,
  scope and maximum on the label the attribute key renders as, in the family the instrument is exposed
  as.  The rules satisfy what the cap theorems ask of them: a positive maximum, agreement on the size
  of a shared budget, and no rule on the scope label.\<close>

theorem exporters_cap_alike:
  "list_all2 same_cap (otlpCapRules cfg) (prometheusCapRules cfg) \<and>
   rules (NewLimiter (otlpCapRules cfg)) = otlpCapRules cfg \<and>
   prom_rules (newPrometheusLimiter (prometheusCapRules cfg)) = prometheusCapRules cfg \<and>
   list_all (\<lambda>r. LabelName r \<noteq> scopeNameLabel) (prometheusCapRules cfg) \<and>
   list_all (\<lambda>r. list_all (\<lambda>q. Max q = Max r) (filter (\<lambda>q. budget_of q = budget_of r) (otlpCapRules cfg))) (otlpCapRules cfg)"
proof (intro conjI)
  show "list_all2 same_cap (otlpCapRules cfg) (prometheusCapRules cfg)"
    by (simp add: otlpCapRules_def prometheusCapRules_def same_cap_def cap_names collectionCapScopes_def
        cassandraCollectionInstruments_def elasticsearchCollectionInstruments_def mongoPeerInstruments_def)
  show "rules (NewLimiter (otlpCapRules cfg)) = otlpCapRules cfg"
    by (simp add: NewLimiter_def cap_rule_defs)
  show "prom_rules (newPrometheusLimiter (prometheusCapRules cfg)) = prometheusCapRules cfg"
    by (simp add: newPrometheusLimiter_def cap_rule_defs)
  show "list_all (\<lambda>r. LabelName r \<noteq> scopeNameLabel) (prometheusCapRules cfg)"
    by (simp add: cap_rule_defs scopeNameLabel_def)
  show "list_all (\<lambda>r. list_all (\<lambda>q. Max q = Max r) (filter (\<lambda>q. budget_of q = budget_of r) (otlpCapRules cfg))) (otlpCapRules cfg)"
    by (simp add: cap_rule_defs budget_of_def)
qed

section \<open>The cardinality budget\<close>

text \<open>The per-stream limit never overflows an \<^verbatim>\<open>int\<close>, is never below what the SDK's own counter
  needs, and without an override leaves four series for every capped route and collection, up to the
  largest \<^verbatim>\<open>int\<close>.\<close>

theorem cardinality_budget_bounds:
  assumes "min_int64 \<le> routes" "routes \<le> max_int64" "min_int64 \<le> cols" "cols \<le> max_int64"
    and "min_int64 \<le> override" "override \<le> max_int64"
  shows "MinCardinalityLimit \<le> cardinalityLimitBudget routes cols override \<and>
    cardinalityLimitBudget routes cols override \<le> max_int64 \<and>
    (override \<le> 0 \<longrightarrow> cardinalityLimitBudget routes cols override =
       max 2000 (max (min max_int64 (4 * max 0 routes)) (min max_int64 (4 * max 0 cols))))"
  using assms
  by (auto simp: cardinalityLimitBudget_def scaleBudget_def MinCardinalityLimit_def DefaultCardinalityLimit_def
      sdkCardinalityCapMultiplier_def max_int64_def min_int64_def max_def min_def)

theorem cardinality_budget_bounds_witness:
  "cardinalityLimitBudget max_int64 7 0 \<le> max_int64 \<and> MinCardinalityLimit \<le> cardinalityLimitBudget max_int64 7 0"
proof -
  have "min_int64 \<le> max_int64" "min_int64 \<le> 7" "7 \<le> max_int64" "min_int64 \<le> 0" "0 \<le> max_int64"
    by (simp_all add: min_int64_def max_int64_def)
  then show ?thesis using cardinality_budget_bounds[of max_int64 7 0] by blast
qed

end
