(* ===== verification/Baggage.thy ===== *)
theory Baggage
  imports GoStd SemconvKeys
begin

text \<open>
  \<^verbatim>\<open>internal/baggageattrs/baggageattrs.go\<close>: which W3C baggage members may be set on a context, and how
  whitelisted members become span and log attributes.

  The OpenTelemetry baggage package is the record \<open>baggage_api\<close> the functions take as an argument;
  a context is represented by the baggage it carries.  A member is the pair of its key and value, the
  zero member having an empty key.
\<close>

definition UserNameKey :: string where "UserNameKey = ''user.name''"
definition MaxBaggageValueBytes :: nat where "MaxBaggageValueBytes = 256"
definition MaxBaggageKeyBytes :: nat where "MaxBaggageKeyBytes = 128"
definition maxWireMembers :: nat where "maxWireMembers = 64"
definition maxWireBytes :: nat where "maxWireBytes = 8192"

record ('b, 'm) baggage_api =
  NewMember :: "string \<Rightarrow> string \<Rightarrow> bool"
  NewMemberRaw :: "string \<Rightarrow> string \<Rightarrow> 'm option"
  SetMember :: "'b \<Rightarrow> 'm \<Rightarrow> 'b option"
  DeleteMember :: "'b \<Rightarrow> string \<Rightarrow> 'b"
  Member :: "'b \<Rightarrow> string \<Rightarrow> string \<times> string"
  BagString :: "'b \<Rightarrow> string"
  BagLen :: "'b \<Rightarrow> nat"

datatype baggage_error =
    ReservedUserName | EmptyKey | KeyTooLong | NotAToken | ReservedKey string
  | ValueTooLong string | InvalidMember string | SetMemberFailed string | TooManyMembers string | TooManyBytes string

section \<open>Whitelists\<close>

record whitelisted_attribute =
  baggageKey :: string
  attributeKey :: string

type_synonym whitelist = "whitelisted_attribute list"

definition NewWhitelist :: "string list \<Rightarrow> whitelist" where
  "NewWhitelist ks =
     snd (foldl (\<lambda>(known, attrs) key.
       if key \<in> set known then (known, attrs)
       else (key # known, attrs @ [\<lparr>baggageKey = key, attributeKey = (if key = UserNameKey then ''user.name'' else key)\<rparr>]))
       ([], []) ks)"

definition Len :: "whitelist \<Rightarrow> nat" where "Len w = length w"
definition Keys :: "whitelist \<Rightarrow> string list" where "Keys w = map baggageKey w"

section \<open>Valid keys\<close>

definition sdkReservedKeys :: "string list" where
  "sdkReservedKeys = [''deployment.environment.name'', ''environment'', ''level'', ''msg'', ''service.name'',
     ''service.namespace'', ''service.version'', ''source'', ''spanId'', ''time'', ''traceId'']"

definition reservedKeyReason :: "string \<Rightarrow> string option" where
  "reservedKeyReason key =
     (if key \<in> set sdkReservedKeys then Some ''the SDK or slog record model''
      else if key \<in> set semconvReservedKeys then Some ''OpenTelemetry semantic conventions v1.39.0''
      else if list_ex (\<lambda>p. prefix p key) semconvReservedPrefixes
      then Some ''an OpenTelemetry semantic-convention namespace''
      else None)"

definition ValidBaggageKey :: "('b, 'm) baggage_api \<Rightarrow> string \<Rightarrow> baggage_error option" where
  "ValidBaggageKey api key =
     (if key = UserNameKey then Some ReservedUserName
      else if key = [] then Some EmptyKey
      else if length key > MaxBaggageKeyBytes then Some KeyTooLong
      else if \<not> NewMember api key ''validation'' then Some NotAToken
      else map_option ReservedKey (reservedKeyReason key))"

section \<open>Setting and removing members\<close>

definition wireMembers :: "string \<Rightarrow> nat" where
  "wireMembers encoded = (if encoded = [] then 0 else count_list encoded CHR '','' + 1)"

definition contextWithValue :: "('b, 'm) baggage_api \<Rightarrow> 'b \<Rightarrow> string \<Rightarrow> string \<Rightarrow> 'b \<times> baggage_error option" where
  "contextWithValue api ctx key value =
     (if value = [] then (ctx, None)
      else if length value > MaxBaggageValueBytes then (ctx, Some (ValueTooLong key))
      else case NewMemberRaw api key value of
        None \<Rightarrow> (ctx, Some (InvalidMember key))
      | Some member \<Rightarrow>
          (case SetMember api ctx member of
             None \<Rightarrow> (ctx, Some (SetMemberFailed key))
           | Some candidate \<Rightarrow>
               (let encoded = BagString api candidate in
                if wireMembers encoded > maxWireMembers then (ctx, Some (TooManyMembers key))
                else if length encoded > maxWireBytes then (ctx, Some (TooManyBytes key))
                else (candidate, None))))"

definition ContextWithValue :: "('b, 'm) baggage_api \<Rightarrow> 'b \<Rightarrow> string \<Rightarrow> string \<Rightarrow> 'b \<times> baggage_error option" where
  "ContextWithValue api ctx key value =
     (case ValidBaggageKey api key of Some e \<Rightarrow> (ctx, Some e) | None \<Rightarrow> contextWithValue api ctx key value)"

definition ContextWithUser :: "('b, 'm) baggage_api \<Rightarrow> 'b \<Rightarrow> string \<Rightarrow> 'b \<times> baggage_error option" where
  "ContextWithUser api ctx name = (if name = [] then (ctx, None) else contextWithValue api ctx UserNameKey name)"

definition ContextWithoutValues :: "('b, 'm) baggage_api \<Rightarrow> 'b \<Rightarrow> string list \<Rightarrow> 'b" where
  "ContextWithoutValues api ctx ks =
     (let (bag, changed) = foldl (\<lambda>(bag, changed) key.
            if fst (Member api bag key) = [] then (bag, changed) else (DeleteMember api bag key, True)) (ctx, False) ks
      in if \<not> changed then ctx else bag)"

section \<open>Materialising members\<close>

definition UserNameSpanAttribute :: "string \<Rightarrow> key_value" where
  "UserNameSpanAttribute name = (''user.name'', StrV name)"

definition usable_member :: "('b, 'm) baggage_api \<Rightarrow> 'b \<Rightarrow> whitelisted_attribute \<Rightarrow> bool" where
  "usable_member api bag item \<longleftrightarrow>
     (let (k, v) = Member api bag (baggageKey item)
      in \<not> (k = [] \<or> v = [] \<or> length v > MaxBaggageValueBytes))"

definition SpanAttributesFromContext :: "('b, 'm) baggage_api \<Rightarrow> whitelist \<Rightarrow> 'b \<Rightarrow> key_value list" where
  "SpanAttributesFromContext api w ctx =
     (if BagLen api ctx = 0 then []
      else map (\<lambda>item. (attributeKey item, StrV (snd (Member api ctx (baggageKey item)))))
             (filter (usable_member api ctx) w))"

definition LogAttrsFromContext :: "('b, 'm) baggage_api \<Rightarrow> whitelist \<Rightarrow> 'b \<Rightarrow> (string \<times> string) list" where
  "LogAttrsFromContext api w ctx =
     (if BagLen api ctx = 0 then []
      else map (\<lambda>item. (baggageKey item, snd (Member api ctx (baggageKey item)))) (filter (usable_member api ctx) w))"

definition spanHasAttribute :: "key_value list \<Rightarrow> string \<Rightarrow> bool" where
  "spanHasAttribute attrs key = list_ex (\<lambda>a. fst a = key) attrs"

text \<open>\<^verbatim>\<open>spanProcessor.OnStart\<close>: the attributes it sets on the span, in order, given those the span has.\<close>

definition OnStart :: "('b, 'm) baggage_api \<Rightarrow> whitelist \<Rightarrow> 'b \<Rightarrow> key_value list \<Rightarrow> key_value list" where
  "OnStart api w parent spanAttrs =
     (let attrs = SpanAttributesFromContext api w parent
      in if attrs = [] then [] else filter (\<lambda>a. \<not> spanHasAttribute spanAttrs (fst a)) attrs)"

section \<open>Lemmas\<close>

lemma NewWhitelist_spec:
  "distinct (Keys (NewWhitelist ks)) \<and> set (Keys (NewWhitelist ks)) = set ks \<and>
   (\<forall>item \<in> set (NewWhitelist ks). attributeKey item = baggageKey item)"
proof -
  let ?f = "\<lambda>(known, attrs) key. if key \<in> set known then (known, attrs)
    else (key # known, attrs @ [\<lparr>baggageKey = key, attributeKey = (if key = UserNameKey then ''user.name'' else key)\<rparr>])"
  have "set known = set (Keys attrs) \<Longrightarrow> distinct (Keys attrs) \<Longrightarrow>
    (\<forall>item \<in> set attrs. attributeKey item = baggageKey item) \<Longrightarrow> foldl ?f (known, attrs) ks = (known', attrs') \<Longrightarrow>
    distinct (Keys attrs') \<and> set (Keys attrs') = set (Keys attrs) \<union> set ks \<and>
    (\<forall>item \<in> set attrs'. attributeKey item = baggageKey item)" for known attrs known' attrs'
  proof (induction ks arbitrary: known attrs)
    case (Cons k ks)
    show ?case
    proof (cases "k \<in> set known")
      case True
      then show ?thesis using Cons.IH[of known attrs] Cons.prems by auto
    next
      case False
      let ?a = "attrs @ [\<lparr>baggageKey = k, attributeKey = (if k = UserNameKey then ''user.name'' else k)\<rparr>]"
      have "Keys ?a = Keys attrs @ [k]" by (simp add: Keys_def)
      moreover have "\<forall>item \<in> set ?a. attributeKey item = baggageKey item" using Cons.prems(3) by (simp add: UserNameKey_def)
      moreover have "foldl ?f (k # known, ?a) ks = (known', attrs')" using Cons.prems(4) False by simp
      ultimately show ?thesis using Cons.IH[of "k # known" ?a] Cons.prems(1,2) False by auto
    qed
  qed simp
  from this[of "[]" "[]"] show ?thesis by (cases "foldl ?f ([], []) ks") (simp add: NewWhitelist_def Keys_def)
qed

lemma contextWithValue_cases:
  assumes "contextWithValue api ctx key value = (ctx', err)"
  obtains (unchanged) "ctx' = ctx" "err = None \<longrightarrow> value = []"
  | (stored) member where "err = None" "value \<noteq> []" "length value \<le> MaxBaggageValueBytes"
      "NewMemberRaw api key value = Some member" "SetMember api ctx member = Some ctx'"
      "wireMembers (BagString api ctx') \<le> maxWireMembers" "length (BagString api ctx') \<le> maxWireBytes"
  using assms by (auto simp: contextWithValue_def Let_def split: if_splits option.splits)

text \<open>The baggage operations as the W3C package documents them: a set member is read back, a deleted one
  is gone, and the other members stay.\<close>

definition baggage_laws :: "('b, 'm) baggage_api \<Rightarrow> bool" where
  "baggage_laws api \<longleftrightarrow>
     (\<forall>b k v m b'. NewMemberRaw api k v = Some m \<longrightarrow> SetMember api b m = Some b' \<longrightarrow>
        Member api b' k = (k, v) \<and> (\<forall>k'. k' \<noteq> k \<longrightarrow> Member api b' k' = Member api b k')) \<and>
     (\<forall>b k. fst (Member api (DeleteMember api b k) k) = [] \<and>
        (\<forall>k'. k' \<noteq> k \<longrightarrow> Member api (DeleteMember api b k) k' = Member api b k'))"

section \<open>Properties\<close>


text \<open>An application can set only keys that are W3C tokens of bounded length outside every reserved
  name: never \<open>user.name\<close>, an SDK or log record field, a semantic-convention key or namespace.  The
  value is then read back and no other member changes.\<close>

theorem baggage_never_impersonates:
  assumes "baggage_laws api" "ContextWithValue api ctx key value = (ctx', None)" "value \<noteq> []"
  shows "key \<noteq> ''user.name'' \<and> key \<noteq> [] \<and> length key \<le> 128 \<and> NewMember api key ''validation'' \<and>
    key \<notin> set sdkReservedKeys \<and> key \<notin> set semconvReservedKeys \<and> \<not> list_ex (\<lambda>p. prefix p key) semconvReservedPrefixes \<and>
    length value \<le> 256 \<and> Member api ctx' key = (key, value) \<and>
    (\<forall>k. k \<noteq> key \<longrightarrow> Member api ctx' k = Member api ctx k)"
proof -
  have valid: "ValidBaggageKey api key = None" and set: "contextWithValue api ctx key value = (ctx', None)"
    using assms(2) by (auto simp: ContextWithValue_def split: option.splits)
  from set have "length value \<le> 256 \<and> Member api ctx' key = (key, value) \<and>
    (\<forall>k. k \<noteq> key \<longrightarrow> Member api ctx' k = Member api ctx k)"
  proof (cases rule: contextWithValue_cases)
    case unchanged
    then show ?thesis using assms(3) by simp
  next
    case (stored member)
    then show ?thesis using assms(1) by (auto simp: baggage_laws_def MaxBaggageValueBytes_def)
  qed
  with valid show ?thesis
    by (auto simp: ValidBaggageKey_def reservedKeyReason_def UserNameKey_def MaxBaggageKeyBytes_def split: if_splits)
qed

text \<open>On span start only whitelisted members are copied, each at most once, with a non-empty value of
  at most 256 bytes, and never over an attribute the span already carries; every other usable
  whitelisted member is copied.\<close>

theorem span_baggage_never_overwrites:
  "distinct (map fst (OnStart api (NewWhitelist ks) parent attrs)) \<and>
   set (OnStart api (NewWhitelist ks) parent attrs) =
     (if BagLen api parent = 0 then {} else {(k, StrV v) |k v. k \<in> set ks \<and> k \<notin> fst ` set attrs \<and>
        fst (Member api parent k) \<noteq> [] \<and> v = snd (Member api parent k) \<and> v \<noteq> [] \<and> length v \<le> 256})"
proof -
  let ?w = "NewWhitelist ks"
  note wl = NewWhitelist_spec[of ks]
  have on: "OnStart api ?w parent attrs = filter (\<lambda>a. \<not> spanHasAttribute attrs (fst a)) (SpanAttributesFromContext api ?w parent)"
    by (simp add: OnStart_def Let_def)
  have "map fst (SpanAttributesFromContext api ?w parent) =
    (if BagLen api parent = 0 then [] else map baggageKey (filter (usable_member api parent) ?w))"
    using wl by (simp add: SpanAttributesFromContext_def comp_def)
  then have "distinct (map fst (SpanAttributesFromContext api ?w parent))"
    using wl by (simp add: Keys_def distinct_map inj_on_def)
  then have d: "distinct (map fst (OnStart api ?w parent attrs))"
    unfolding on by (rule distinct_map_filter)
  have "set (SpanAttributesFromContext api ?w parent) = (if BagLen api parent = 0 then {} else
    {(k, StrV v) |k v. k \<in> set ks \<and> fst (Member api parent k) \<noteq> [] \<and> v = snd (Member api parent k) \<and> v \<noteq> [] \<and> length v \<le> 256})"
  proof -
    let ?val = "\<lambda>k. (k, StrV (snd (Member api parent k)))"
    let ?ok = "\<lambda>k. fst (Member api parent k) \<noteq> [] \<and> snd (Member api parent k) \<noteq> [] \<and> length (snd (Member api parent k)) \<le> 256"
    have us: "usable_member api parent i = ?ok (baggageKey i)" for i
      by (auto simp: usable_member_def MaxBaggageValueBytes_def case_prod_unfold Let_def)
    have "map (\<lambda>i. (attributeKey i, StrV (snd (Member api parent (baggageKey i))))) (filter (usable_member api parent) ?w) =
      map (?val \<circ> baggageKey) (filter (?ok \<circ> baggageKey) ?w)"
      using wl us by (auto intro!: map_cong filter_cong)
    also have "\<dots> = map ?val (filter ?ok (Keys ?w))" by (simp add: Keys_def filter_map)
    finally have "set (SpanAttributesFromContext api ?w parent) =
      (if BagLen api parent = 0 then {} else ?val ` {k \<in> set ks. ?ok k})"
      using wl by (simp add: SpanAttributesFromContext_def)
    then show ?thesis by auto
  qed
  then show ?thesis using d by (auto simp: on spanHasAttribute_def list_ex_iff image_iff)
qed


text \<open>A map from keys to values as a baggage package, for evaluation.\<close>

definition demo_api :: "((string \<times> string) list, string \<times> string) baggage_api" where
  "demo_api = \<lparr>NewMember = (\<lambda>k v. k \<noteq> []), NewMemberRaw = (\<lambda>k v. if k = [] then None else Some (k, v)),
     SetMember = (\<lambda>b m. Some (AList.update (fst m) (snd m) b)), DeleteMember = (\<lambda>b k. AList.delete k b),
     Member = (\<lambda>b k. case map_of b k of None \<Rightarrow> ([], []) | Some v \<Rightarrow> (k, v)),
     BagString = (\<lambda>b. join '','' (map (\<lambda>(k, v). k @ ''='' @ v) b)), BagLen = length\<rparr>"

lemma demo_api_laws: "baggage_laws demo_api"
  by (auto simp: baggage_laws_def demo_api_def AList.update_conv' AList.delete_conv' split: if_splits)


lemma tenant_free: "reservedKeyReason ''Tenant'' = None"
  by (simp add: reservedKeyReason_def sdkReservedKeys_def semconvReservedKeys_unfold semconvReservedPrefixes_def)

theorem baggage_never_impersonates_witness:
  "Member demo_api [(''Tenant'', ''a'')] ''Tenant'' = (''Tenant'', ''a'') \<and> ''Tenant'' \<notin> set semconvReservedKeys"
proof -
  have "ContextWithValue demo_api [] ''Tenant'' ''a'' = ([(''Tenant'', ''a'')], None)"
    by (simp add: ContextWithValue_def ValidBaggageKey_def tenant_free contextWithValue_def demo_api_def UserNameKey_def
        MaxBaggageKeyBytes_def MaxBaggageValueBytes_def wireMembers_def maxWireMembers_def maxWireBytes_def)
  from baggage_never_impersonates[OF demo_api_laws this] show ?thesis by simp
qed

end
