(* ===== verification/Log.thy ===== *)
theory Log
  imports Baggage
begin

text \<open>
  The slog handler chain of \<^verbatim>\<open>internal/log\<close>: the fan-out (\<^verbatim>\<open>multi.go\<close>), the error stringifier
  (\<^verbatim>\<open>errattrs.go\<close>), the trace-correlation and the baggage handler (\<^verbatim>\<open>handler.go\<close>).

  An attribute is a key with a value; a \<^verbatim>\<open>LogValuer\<close> is represented by the value its \<^verbatim>\<open>LogValue\<close>
  returns.  A record is its attribute list: the time, level, message and PC are copied along unchanged.
  A wrapped handler is a parameter, with \<open>bw\<close> its \<^verbatim>\<open>WithAttrs\<close> and \<open>bg\<close> its \<^verbatim>\<open>WithGroup\<close>; the handlers here
  return the wrapped handler together with the record handed to it.
\<close>

text \<open>What \<^verbatim>\<open>err.Error()\<close> does: return, panic on a nil pointer receiver, or panic with a value.\<close>

datatype err = Returns string | PanicsNil | Panics string

datatype log_value =
    VNil | VString string | VInt int | VBool bool | VOpaque string | VError err
  | VGroup "(string \<times> log_value) list"
  | VLogValuer log_value

type_synonym log_attr = "string \<times> log_value"

definition zero_attr :: log_attr where "zero_attr = ([], VNil)"

fun empty_group :: "log_value \<Rightarrow> bool" where
  "empty_group (VGroup as) \<longleftrightarrow> as = []"
| "empty_group _ \<longleftrightarrow> False"

text \<open>\<^verbatim>\<open>slog.GroupValue\<close> and \<^verbatim>\<open>Record.AddAttrs\<close> omit empty groups.\<close>

definition non_empty :: "log_attr list \<Rightarrow> log_attr list" where
  "non_empty as = filter (\<lambda>a. \<not> empty_group (snd a)) as"

definition GroupValue :: "log_attr list \<Rightarrow> log_value" where
  "GroupValue as = VGroup (non_empty as)"

definition AddAttrs :: "log_attr list \<Rightarrow> log_attr list \<Rightarrow> log_attr list" where
  "AddAttrs r as = r @ non_empty as"

section \<open>Fan-out\<close>

definition NewMultiHandler :: "'h option list \<Rightarrow> 'h list" where
  "NewMultiHandler hs = concat (map (\<lambda>h. case h of None \<Rightarrow> [] | Some x \<Rightarrow> [x]) hs)"

definition multi_Enabled :: "('h \<Rightarrow> 'l \<Rightarrow> bool) \<Rightarrow> 'h list \<Rightarrow> 'l \<Rightarrow> bool" where
  "multi_Enabled enabled hs level = list_ex (\<lambda>h. enabled h level) hs"

text \<open>The deliveries in order, and the errors that are joined.\<close>

fun multi_Handle ::
  "('h \<Rightarrow> 'l \<Rightarrow> bool) \<Rightarrow> ('h \<Rightarrow> 'r \<Rightarrow> 'e option) \<Rightarrow> 'h list \<Rightarrow> 'l \<Rightarrow> 'r \<Rightarrow> ('h \<times> 'r) list \<times> 'e list" where
  "multi_Handle enabled handle [] level r = ([], [])"
| "multi_Handle enabled handle (h # hs) level r =
     (let (ds, es) = multi_Handle enabled handle hs level r in
      if enabled h level
      then ((h, r) # ds, (case handle h r of None \<Rightarrow> es | Some e \<Rightarrow> e # es))
      else (ds, es))"

definition multi_WithAttrs :: "('h \<Rightarrow> log_attr list \<Rightarrow> 'h) \<Rightarrow> 'h list \<Rightarrow> log_attr list \<Rightarrow> 'h list" where
  "multi_WithAttrs bw hs attrs = map (\<lambda>h. bw h attrs) hs"

definition multi_WithGroup :: "('h \<Rightarrow> string \<Rightarrow> 'h) \<Rightarrow> 'h list \<Rightarrow> string \<Rightarrow> 'h list" where
  "multi_WithGroup bg hs name = (if name = [] then hs else map (\<lambda>h. bg h name) hs)"

section \<open>Errors as strings\<close>

fun errorString :: "err \<Rightarrow> string" where
  "errorString (Returns s) = s"
| "errorString PanicsNil = ''<nil>''"
| "errorString (Panics r) = ''!PANIC: '' @ r"

fun hasError :: "log_value \<Rightarrow> bool" where
  "hasError (VError e) = True"
| "hasError (VGroup as) = list_ex (\<lambda>a. hasError (snd a)) as"
| "hasError _ = False"

fun stringifyErrors :: "log_value \<Rightarrow> log_value \<times> bool" where
  "stringifyErrors (VError e) = (VString (errorString e), True)"
| "stringifyErrors (VGroup as) =
     (let cs = map (\<lambda>a. (fst a, stringifyErrors (snd a))) as in
      if list_ex (\<lambda>c. snd (snd c)) cs then (GroupValue (map (\<lambda>c. (fst c, fst (snd c))) cs), True)
      else (VGroup as, False))"
| "stringifyErrors v = (v, False)"

definition stringify_attr :: "log_attr \<Rightarrow> log_attr" where
  "stringify_attr a = (fst a, fst (stringifyErrors (snd a)))"

definition error_Handle :: "log_attr list \<Rightarrow> log_attr list" where
  "error_Handle r =
     (if \<not> list_ex (\<lambda>a. hasError (snd a)) r then r
      else foldl (\<lambda>out a. AddAttrs out [stringify_attr a]) [] r)"

definition error_WithAttrs :: "('h \<Rightarrow> log_attr list \<Rightarrow> 'h) \<Rightarrow> 'h \<Rightarrow> log_attr list \<Rightarrow> 'h" where
  "error_WithAttrs bw h attrs =
     (let converted = map stringify_attr attrs; changed = list_ex (\<lambda>a. snd (stringifyErrors (snd a))) attrs
      in bw h (if \<not> changed then attrs else converted))"

section \<open>Resolving LogValuers\<close>

text \<open>\<^verbatim>\<open>resolveAttr\<close> on the value, with the \<^verbatim>\<open>changed\<close> flag threaded through: a resolved \<^verbatim>\<open>LogValuer\<close> sets it.\<close>

fun resolve_value :: "bool \<Rightarrow> log_value \<Rightarrow> log_value \<times> bool" where
  "resolve_value changed (VLogValuer v) = resolve_value True v"
| "resolve_value changed (VGroup as) =
     (let cs = map (\<lambda>a. (fst a, resolve_value False (snd a))) as in
      if changed \<or> list_ex (\<lambda>c. snd (snd c)) cs then (GroupValue (map (\<lambda>c. (fst c, fst (snd c))) cs), True)
      else (VGroup as, False))"
| "resolve_value changed v = (v, changed)"

definition resolveAttr :: "log_attr \<Rightarrow> log_attr" where
  "resolveAttr a = (fst a, fst (resolve_value False (snd a)))"

fun attrHasLogValuer :: "log_value \<Rightarrow> bool" where
  "attrHasLogValuer (VLogValuer v) = True"
| "attrHasLogValuer (VGroup as) = list_ex (\<lambda>a. attrHasLogValuer (snd a)) as"
| "attrHasLogValuer _ = False"

definition recordHasLogValuer :: "log_attr list \<Rightarrow> bool" where
  "recordHasLogValuer r = list_ex (\<lambda>a. attrHasLogValuer (snd a)) r"

definition resolveRecord :: "log_attr list \<Rightarrow> log_attr list" where
  "resolveRecord r = AddAttrs [] (map resolveAttr r)"

section \<open>The trace-correlation handler\<close>

record 'h otel_handler =
  otel_base :: 'h
  otel_groups :: "(string \<times> log_attr list) list"

definition NewOTelHandler :: "'h \<Rightarrow> 'h otel_handler" where
  "NewOTelHandler base = \<lparr>otel_base = base, otel_groups = []\<rparr>"

text \<open>A span context: its trace and span ID in hex when it is valid.\<close>

type_synonym span_context = "(string \<times> string) option"

definition trace_attrs :: "span_context \<Rightarrow> log_attr list" where
  "trace_attrs sc = (case sc of None \<Rightarrow> []
     | Some (tid, sid) \<Rightarrow> [(''traceId'', VString tid), (''spanId'', VString sid)])"

definition regroup_nested :: "(string \<times> log_attr list) list \<Rightarrow> log_attr list \<Rightarrow> log_attr list" where
  "regroup_nested frames nested =
     foldr (\<lambda>(name, attrs) nested. let inner = attrs @ nested in if inner = [] then [] else [(name, GroupValue inner)])
       frames nested"

definition regroup :: "(string \<times> log_attr list) list \<Rightarrow> log_attr list \<Rightarrow> span_context \<Rightarrow> log_attr list" where
  "regroup frames r sc = AddAttrs (AddAttrs [] (trace_attrs sc)) (regroup_nested frames r)"

definition otel_Handle :: "'h otel_handler \<Rightarrow> span_context \<Rightarrow> log_attr list \<Rightarrow> 'h \<times> log_attr list" where
  "otel_Handle h sc r =
     (if otel_groups h \<noteq> [] then (otel_base h, regroup (otel_groups h) r sc)
      else if sc = None then (otel_base h, r)
      else (otel_base h, AddAttrs r (trace_attrs sc)))"

definition otel_WithAttrs :: "('h \<Rightarrow> log_attr list \<Rightarrow> 'h) \<Rightarrow> 'h otel_handler \<Rightarrow> log_attr list \<Rightarrow> 'h otel_handler" where
  "otel_WithAttrs bw h attrs =
     (if attrs = [] then h
      else if otel_groups h = [] then \<lparr>otel_base = bw (otel_base h) attrs, otel_groups = []\<rparr>
      else let (name, held) = last (otel_groups h)
           in h\<lparr>otel_groups := butlast (otel_groups h) @ [(name, held @ map resolveAttr attrs)]\<rparr>)"

definition otel_WithGroup :: "'h otel_handler \<Rightarrow> string \<Rightarrow> 'h otel_handler" where
  "otel_WithGroup h name = (if name = [] then h else h\<lparr>otel_groups := otel_groups h @ [(name, [])]\<rparr>)"

section \<open>The baggage handler\<close>

record 'h baggage_handler =
  bag_base :: 'h
  bag_whitelist :: whitelist
  presetKeys :: "string list"

definition NewBaggageHandler :: "'h \<Rightarrow> whitelist \<Rightarrow> 'h baggage_handler" where
  "NewBaggageHandler base w = \<lparr>bag_base = base, bag_whitelist = w, presetKeys = []\<rparr>"

fun suppressShadowed :: "string \<Rightarrow> log_value \<Rightarrow> log_attr list \<Rightarrow> log_attr list" where
  "suppressShadowed key v bas =
     (if (key, v) = zero_attr then bas
      else if key \<noteq> [] then map (\<lambda>b. if fst b = key then zero_attr else b) bas
      else case v of VGroup as \<Rightarrow> foldl (\<lambda>bas a. suppressShadowed (fst a) (snd a) bas) bas as | _ \<Rightarrow> bas)"

fun collectSameLevelKeys :: "string \<Rightarrow> log_value \<Rightarrow> string list \<Rightarrow> string list" where
  "collectSameLevelKeys key v ks =
     (if (key, v) = zero_attr then ks
      else if key \<noteq> [] then key # ks
      else case v of VGroup as \<Rightarrow> foldl (\<lambda>ks a. collectSameLevelKeys (fst a) (snd a) ks) ks as | _ \<Rightarrow> ks)"

declare suppressShadowed.simps [simp del] collectSameLevelKeys.simps [simp del]

definition bag_Handle ::
  "('b, 'm) baggage_api \<Rightarrow> 'h baggage_handler \<Rightarrow> 'b \<Rightarrow> log_attr list \<Rightarrow> 'h \<times> log_attr list" where
  "bag_Handle api h ctx r =
     (let baggageAttrs = map (\<lambda>(k, v). (k, VString v)) (LogAttrsFromContext api (bag_whitelist h) ctx) in
      if baggageAttrs = [] then (bag_base h, r)
      else
        let b1 = map (\<lambda>b. if fst b \<in> set (presetKeys h) then zero_attr else b) baggageAttrs;
            r1 = (if recordHasLogValuer r then resolveRecord r else r);
            b2 = foldl (\<lambda>bas a. suppressShadowed (fst a) (snd a) bas) b1 r1
        in (bag_base h, foldl (\<lambda>r b. if b = zero_attr then r else AddAttrs r [b]) r1 b2))"

definition bag_WithAttrs :: "('h \<Rightarrow> log_attr list \<Rightarrow> 'h) \<Rightarrow> 'h baggage_handler \<Rightarrow> log_attr list \<Rightarrow> 'h baggage_handler" where
  "bag_WithAttrs bw h attrs =
     (let resolved = map resolveAttr attrs
      in \<lparr>bag_base = bw (bag_base h) resolved, bag_whitelist = bag_whitelist h,
          presetKeys = foldl (\<lambda>ks a. collectSameLevelKeys (fst a) (snd a) ks) (presetKeys h) resolved\<rparr>)"

definition bag_WithGroup :: "('h \<Rightarrow> string \<Rightarrow> 'h) \<Rightarrow> 'h baggage_handler \<Rightarrow> string \<Rightarrow> 'h baggage_handler" where
  "bag_WithGroup bg h name =
     (if name = [] then h
      else \<lparr>bag_base = bg (bag_base h) name, bag_whitelist = bag_whitelist h, presetKeys = []\<rparr>)"

section \<open>Lemmas on attribute lists\<close>

lemma non_empty_simps [simp]:
  "non_empty [] = []" "non_empty (a # as) = (if empty_group (snd a) then non_empty as else a # non_empty as)"
  "non_empty (as @ bs) = non_empty as @ non_empty bs"
  by (simp_all add: non_empty_def)

lemma set_non_empty: "set (non_empty as) \<subseteq> set as"
  by (auto simp: non_empty_def)

lemma foldl_AddAttrs: "foldl (\<lambda>out a. AddAttrs out [f a]) out r = out @ non_empty (map f r)"
  by (induction r arbitrary: out) (auto simp: AddAttrs_def)

lemma trace_attrs_non_empty [simp]: "non_empty (trace_attrs sc) = trace_attrs sc"
  by (simp add: trace_attrs_def split: option.splits)

section \<open>No error value reaches the bridge\<close>

lemma stringifyErrors_spec:
  "\<not> hasError (fst (stringifyErrors v)) \<and> snd (stringifyErrors v) = hasError v \<and>
   (\<not> hasError v \<longrightarrow> fst (stringifyErrors v) = v) \<and> empty_group (fst (stringifyErrors v)) = empty_group v"
proof (induction v rule: stringifyErrors.induct)
  case (2 as)
  let ?cs = "map (\<lambda>a. (fst a, stringifyErrors (snd a))) as"
  have ex: "list_ex (\<lambda>c. snd (snd c)) ?cs = list_ex (\<lambda>a. hasError (snd a)) as"
    using 2 by (auto simp: list_ex_iff)
  show ?case
  proof (cases "list_ex (\<lambda>a. hasError (snd a)) as")
    case True
    let ?out = "map (\<lambda>c. (fst c, fst (snd c))) ?cs"
    have "\<not> hasError (GroupValue ?out)"
      using 2 set_non_empty[of ?out] by (fastforce simp: GroupValue_def list_ex_iff)
    moreover have "non_empty ?out \<noteq> []"
    proof -
      obtain a where a: "a \<in> set as" "hasError (snd a)" using True by (auto simp: list_ex_iff)
      then have "\<not> empty_group (snd a)" by (cases "snd a") auto
      then have "(fst a, fst (stringifyErrors (snd a))) \<in> set (non_empty ?out)"
        using a 2 by (auto simp: non_empty_def)
      then show ?thesis by auto
    qed
    ultimately show ?thesis using True ex by (auto simp: Let_def GroupValue_def)
  qed (use ex in \<open>auto simp: Let_def\<close>)
qed auto

text \<open>The record the OTLP bridge receives holds no error value at any depth of groups; every
  attribute that was there keeps its place and its key, and a record without an error is passed on
  untouched.\<close>

theorem no_error_value_reaches_the_bridge:
  "list_all (\<lambda>a. \<not> hasError (snd a)) (error_Handle r) \<and>
   map fst (non_empty (error_Handle r)) = map fst (non_empty r) \<and>
   (error_Handle r = r \<or> list_ex (\<lambda>a. hasError (snd a)) r)"
proof (cases "list_ex (\<lambda>a. hasError (snd a)) r")
  case True
  then have eq: "error_Handle r = non_empty (map stringify_attr r)"
    by (simp add: error_Handle_def foldl_AddAttrs)
  have "list_all (\<lambda>a. \<not> hasError (snd a)) (non_empty (map stringify_attr r))"
    by (induction r) (auto simp: stringify_attr_def stringifyErrors_spec)
  moreover have "map fst (non_empty (map stringify_attr r)) = map fst (non_empty r)"
    by (induction r) (auto simp: stringify_attr_def stringifyErrors_spec)
  moreover have "non_empty (non_empty xs) = non_empty xs" for xs by (simp add: non_empty_def)
  ultimately show ?thesis using True by (simp add: eq)
next
  case False
  then show ?thesis by (auto simp: error_Handle_def list_all_iff list_ex_iff)
qed

section \<open>Trace identifiers stay at the top level\<close>

text \<open>The derivations of a logger, and the record its attributes make according to slog: attributes given
  inside a group and the record's own nest in it, a group without content disappears.\<close>

datatype derivation = WithAttrs "log_attr list" | WithGroup string

fun derive :: "('h \<Rightarrow> log_attr list \<Rightarrow> 'h) \<Rightarrow> 'h otel_handler \<Rightarrow> derivation list \<Rightarrow> 'h otel_handler" where
  "derive bw h [] = h"
| "derive bw h (WithAttrs as # ds) = derive bw (otel_WithAttrs bw h as) ds"
| "derive bw h (WithGroup g # ds) = derive bw (otel_WithGroup h g) ds"

fun nest :: "derivation list \<Rightarrow> log_attr list \<Rightarrow> log_attr list" where
  "nest [] r = r"
| "nest (WithAttrs as # ds) r = map resolveAttr as @ nest ds r"
| "nest (WithGroup g # ds) r =
     (if g = [] then nest ds r else let inner = nest ds r in if inner = [] then [] else [(g, GroupValue inner)])"

text \<open>The derivations before the first group is opened, and from there on.\<close>

fun opens_group :: "derivation \<Rightarrow> bool" where
  "opens_group (WithGroup g) \<longleftrightarrow> g \<noteq> []"
| "opens_group _ \<longleftrightarrow> False"

fun preset :: "('h \<Rightarrow> log_attr list \<Rightarrow> 'h) \<Rightarrow> 'h \<Rightarrow> derivation list \<Rightarrow> 'h" where
  "preset bw b [] = b"
| "preset bw b (WithAttrs as # ds) = preset bw (if as = [] then b else bw b as) ds"
| "preset bw b (WithGroup g # ds) = preset bw b ds"

lemma regroup_snoc:
  "regroup_nested (frames @ [(name, held)]) nested =
     regroup_nested frames (if held @ nested = [] then [] else [(name, GroupValue (held @ nested))])"
  by (simp add: regroup_nested_def Let_def)

lemma derive_grouped:
  "otel_groups h \<noteq> [] \<Longrightarrow> otel_base (derive bw h ds) = otel_base h \<and> otel_groups (derive bw h ds) \<noteq> [] \<and>
   regroup_nested (otel_groups (derive bw h ds)) r = regroup_nested (otel_groups h) (nest ds r)"
proof (induction ds arbitrary: h)
  case (Cons d ds)
  obtain frames name held where g: "otel_groups h = frames @ [(name, held)]"
    using Cons.prems by (metis rev_exhaust surj_pair)
  show ?case
  proof (cases d)
    case (WithAttrs as)
    then show ?thesis
    proof (cases "as = []")
      case False
      let ?h = "h\<lparr>otel_groups := frames @ [(name, held @ map resolveAttr as)]\<rparr>"
      have "otel_WithAttrs bw h as = ?h" using False g by (simp add: otel_WithAttrs_def)
      then show ?thesis using Cons.IH[of ?h] WithAttrs g by (simp add: regroup_snoc)
    qed (use Cons in \<open>simp add: otel_WithAttrs_def\<close>)
  next
    case (WithGroup n)
    then show ?thesis
    proof (cases "n = []")
      case False
      let ?h = "h\<lparr>otel_groups := otel_groups h @ [(n, [])]\<rparr>"
      have "otel_WithGroup h n = ?h" using False by (simp add: otel_WithGroup_def)
      then show ?thesis using Cons.IH[of ?h] WithGroup False by (simp add: regroup_snoc Let_def)
    qed (use Cons in \<open>simp add: otel_WithGroup_def\<close>)
  qed
qed simp

lemma derive_ungrouped:
  "otel_groups h = [] \<Longrightarrow>
   otel_base (derive bw h ds) = preset bw (otel_base h) (takeWhile (\<lambda>d. \<not> opens_group d) ds) \<and>
   (let rest = dropWhile (\<lambda>d. \<not> opens_group d) ds in
    (otel_groups (derive bw h ds) = [] \<longleftrightarrow> rest = []) \<and>
    (rest \<noteq> [] \<longrightarrow> regroup_nested (otel_groups (derive bw h ds)) r = nest rest r))"
proof (induction ds arbitrary: h)
  case (Cons d ds)
  show ?case
  proof (cases d)
    case (WithAttrs as)
    then show ?thesis
      using Cons.IH[of "otel_WithAttrs bw h as"] Cons.prems by (simp add: otel_WithAttrs_def)
  next
    case (WithGroup n)
    show ?thesis
    proof (cases "n = []")
      case True
      then show ?thesis using Cons.IH[of h] Cons.prems WithGroup by (simp add: otel_WithGroup_def)
    next
      case False
      let ?h = "h\<lparr>otel_groups := [(n, [])]\<rparr>"
      have "otel_WithGroup h n = ?h" using False Cons.prems by (simp add: otel_WithGroup_def)
      moreover have "regroup_nested [(n, [])] xs = (if xs = [] then [] else [(n, GroupValue xs)])" for xs
        by (simp add: regroup_nested_def)
      ultimately show ?thesis using derive_grouped[of ?h bw ds r] WithGroup False by (simp add: Let_def)
    qed
  qed
qed simp

text \<open>C31. However a logger was derived, the record handed on carries the trace and span ID at its top
  level and, beside them, exactly the attributes slog prescribes: those given before the first group
  preset on the wrapped handler, everything else nested in the open groups.\<close>

theorem trace_ids_stay_top_level:
  "otel_Handle (derive bw (NewOTelHandler base) ds) sc r =
     (preset bw base (takeWhile (\<lambda>d. \<not> opens_group d) ds),
      (let rest = dropWhile (\<lambda>d. \<not> opens_group d) ds in
       if rest = [] then r @ trace_attrs sc else trace_attrs sc @ non_empty (nest rest r)))"
proof -
  have "otel_groups (NewOTelHandler base) = []" "otel_base (NewOTelHandler base) = base"
    by (simp_all add: NewOTelHandler_def)
  note d = derive_ungrouped[OF this(1), of bw ds r, unfolded this(2) Let_def]
  have "trace_attrs None = []" by (simp add: trace_attrs_def)
  with d show ?thesis
    by (auto simp: otel_Handle_def regroup_def AddAttrs_def Let_def)
qed

section \<open>Application attributes win over baggage\<close>

text \<open>The keys an attribute occupies at its own level: its key, or those of the members of an inlined
  group.\<close>

fun level_keys :: "string \<Rightarrow> log_value \<Rightarrow> string set" where
  "level_keys key (VGroup as) = (if key \<noteq> [] then {key} else (\<Union>a \<in> set as. level_keys (fst a) (snd a)))"
| "level_keys key v = (if key \<noteq> [] then {key} else {})"

definition record_keys :: "log_attr list \<Rightarrow> string set" where
  "record_keys r = (\<Union>a \<in> set r. level_keys (fst a) (snd a))"

definition strike :: "string set \<Rightarrow> log_attr list \<Rightarrow> log_attr list" where
  "strike K bas = map (\<lambda>b. if fst b \<in> K then zero_attr else b) bas"

lemma level_keys_named: "[] \<notin> level_keys k v"
  by (induction k v rule: level_keys.induct) auto

lemma strike_strike: "[] \<notin> B \<Longrightarrow> strike B (strike A bas) = strike (A \<union> B) bas"
  by (auto simp: strike_def zero_attr_def)

lemma level_keys_simps: "k \<noteq> [] \<Longrightarrow> level_keys k v = {k}" "level_keys [] VNil = {}"
  by (cases v) auto

lemma suppressShadowed_strike: "suppressShadowed k v bas = strike (level_keys k v) bas"
proof (induction v arbitrary: k bas rule: log_value.induct)
  case (VGroup as)
  have fold: "set bs \<subseteq> set as \<Longrightarrow>
    foldl (\<lambda>bas a. suppressShadowed (fst a) (snd a) bas) (strike A bas) bs = strike (A \<union> record_keys bs) bas" for A bs
  proof (induction bs arbitrary: A)
    case (Cons b bs)
    have "suppressShadowed (fst b) (snd b) (strike A bas) = strike (A \<union> level_keys (fst b) (snd b)) bas"
      using VGroup.IH[of b "snd b"] Cons.prems by (cases b) (simp add: strike_strike level_keys_named)
    then show ?case using Cons.IH Cons.prems by (simp add: record_keys_def Un_assoc)
  qed (simp add: record_keys_def)
  have none: "strike {} bas = bas" by (simp add: strike_def)
  show ?case
    using fold[of as "{}"] none
    by (cases "k = []") (auto simp: suppressShadowed.simps[of k] suppressShadowed.simps[of "[]"] zero_attr_def strike_def record_keys_def)
qed (auto simp: suppressShadowed.simps zero_attr_def strike_def)

lemma collectSameLevelKeys_set: "set (collectSameLevelKeys k v ks) = level_keys k v \<union> set ks"
proof (induction v arbitrary: k ks rule: log_value.induct)
  case (VGroup as)
  have fold: "set bs \<subseteq> set as \<Longrightarrow>
    set (foldl (\<lambda>ks a. collectSameLevelKeys (fst a) (snd a) ks) acc bs) = record_keys bs \<union> set acc" for acc bs
  proof (induction bs arbitrary: acc)
    case (Cons b bs)
    have "set (collectSameLevelKeys (fst b) (snd b) acc) = level_keys (fst b) (snd b) \<union> set acc"
      using VGroup.IH[of b "snd b"] Cons.prems by (cases b) simp
    then show ?case using Cons.IH Cons.prems by (auto simp: record_keys_def)
  qed (simp add: record_keys_def)
  show ?case
    using fold[of as ks]
    by (cases "k = []") (auto simp: collectSameLevelKeys.simps[of k] collectSameLevelKeys.simps[of "[]"] zero_attr_def record_keys_def)
qed (auto simp: collectSameLevelKeys.simps zero_attr_def)

lemma foldl_suppress:
  "foldl (\<lambda>bas a. suppressShadowed (fst a) (snd a) bas) (strike A bas) r = strike (A \<union> record_keys r) bas"
  by (induction r arbitrary: A)
     (simp_all add: suppressShadowed_strike strike_strike level_keys_named record_keys_def Un_assoc)

lemma foldl_add_struck:
  "foldl (\<lambda>r b. if b = zero_attr then r else AddAttrs r [b]) r (strike K (map (\<lambda>(k, v). (k, VString v)) kvs)) =
   r @ filter (\<lambda>b. fst b \<notin> K) (map (\<lambda>(k, v). (k, VString v)) kvs)"
  by (induction kvs arbitrary: r) (auto simp: strike_def zero_attr_def AddAttrs_def)

text \<open>A baggage member is added to a record exactly when no attribute of the application occupies its
  key at the record's level, be it one of the record (inlined groups included) or one preset by
  \<^verbatim>\<open>WithAttrs\<close> since the innermost group was opened; the record's own attributes are kept.\<close>

theorem application_attrs_win_over_baggage:
  "snd (bag_Handle api (bag_WithAttrs bw (NewBaggageHandler base w) attrs) ctx r) =
     (if LogAttrsFromContext api w ctx = [] then r
      else let r1 = (if recordHasLogValuer r then resolveRecord r else r)
           in r1 @ filter (\<lambda>b. fst b \<notin> record_keys (map resolveAttr attrs) \<union> record_keys r1)
                (map (\<lambda>(k, v). (k, VString v)) (LogAttrsFromContext api w ctx)))"
proof -
  let ?h = "bag_WithAttrs bw (NewBaggageHandler base w) attrs"
  have acc: "set (foldl (\<lambda>ks a. collectSameLevelKeys (fst a) (snd a) ks) acc as) = record_keys as \<union> set acc" for as acc
    by (induction as arbitrary: acc) (auto simp: collectSameLevelKeys_set record_keys_def)
  have ks: "set (presetKeys ?h) = record_keys (map resolveAttr attrs)"
    by (simp add: bag_WithAttrs_def NewBaggageHandler_def acc Let_def)
  have w: "bag_whitelist ?h = w" by (simp add: bag_WithAttrs_def NewBaggageHandler_def Let_def)
  show ?thesis
    unfolding bag_Handle_def w Let_def strike_def[symmetric] foldl_suppress foldl_add_struck ks by auto
qed

section \<open>Every enabled handler gets the record once\<close>

lemma multi_Handle_eq:
  "multi_Handle enabled handle hs level r =
     (map (\<lambda>h. (h, r)) (filter (\<lambda>h. enabled h level) hs),
      List.map_filter (\<lambda>h. handle h r) (filter (\<lambda>h. enabled h level) hs))"
  by (induction hs) (auto simp: map_filter_simps split: option.splits)

text \<open>A record is delivered, in order and unchanged, to exactly the handlers that are present and
  enabled for its level, so to some handler exactly when the fan-out reports itself enabled; an error
  of one delivery does not keep the others from happening.\<close>

theorem fan_out_delivers_once:
  "fst (multi_Handle enabled handle (NewMultiHandler hs) level r) =
     map (\<lambda>h. (h, r)) (filter (\<lambda>h. enabled h level) (NewMultiHandler hs)) \<and>
   (multi_Enabled enabled (NewMultiHandler hs) level \<longleftrightarrow>
      fst (multi_Handle enabled handle (NewMultiHandler hs) level r) \<noteq> []) \<and>
   set (snd (multi_Handle enabled handle (NewMultiHandler hs) level r)) =
     {e. \<exists>h. Some h \<in> set hs \<and> enabled h level \<and> handle h r = Some e}"
proof -
  have hs: "set (NewMultiHandler hs) = {h. Some h \<in> set hs}"
    by (force simp: NewMultiHandler_def split: option.splits)
  show ?thesis
    by (auto simp: multi_Handle_eq multi_Enabled_def list_ex_iff filter_empty_conv map_filter_def hs image_iff)
      (metis option.sel)
qed

end
