(* ===== verification/ExportStats.thy ===== *)
theory ExportStats
  imports GoStd
begin

text \<open>
  \<^verbatim>\<open>internal/exportstats/exportstats.go\<close>: one failure counter per signal, incremented by the wrappers
  around the three OTLP exporters and observed by one instrument.

  A signal is its name, as in the source; the atomics are the fields of a record, threaded through.  The
  wrapped exporter is a parameter: the error it returns for the batch, if any.
\<close>

definition SignalTraces :: string where "SignalTraces = ''traces''"
definition SignalLogs :: string where "SignalLogs = ''logs''"
definition SignalMetrics :: string where "SignalMetrics = ''metrics''"

definition ComponentType :: "string \<Rightarrow> key_value" where
  "ComponentType signal =
     (if signal = SignalTraces then (''otel.component.type'', StrV ''otlp_http_span_exporter'')
      else if signal = SignalLogs then (''otel.component.type'', StrV ''otlp_http_log_exporter'')
      else if signal = SignalMetrics then (''otel.component.type'', StrV ''otlp_http_metric_exporter'')
      else ([], StrV []))"

record recorder =
  traces :: "64 word"
  logs :: "64 word"
  metrics :: "64 word"
  tracesActive :: bool
  logsActive :: bool
  metricsActive :: bool

definition new_recorder :: recorder where
  "new_recorder = \<lparr>traces = 0, logs = 0, metrics = 0, tracesActive = False, logsActive = False, metricsActive = False\<rparr>"

text \<open>\<^verbatim>\<open>counter\<close> and \<^verbatim>\<open>active\<close> return a pointer into the recorder: here an update of the field and its value.\<close>

definition counter_add :: "recorder \<Rightarrow> string \<Rightarrow> 64 word \<Rightarrow> recorder" where
  "counter_add r signal n =
     (if signal = SignalTraces then r\<lparr>traces := traces r + n\<rparr>
      else if signal = SignalLogs then r\<lparr>logs := logs r + n\<rparr>
      else if signal = SignalMetrics then r\<lparr>metrics := metrics r + n\<rparr>
      else r)"

definition Fail :: "recorder \<Rightarrow> string \<Rightarrow> recorder" where
  "Fail r signal = counter_add r signal 1"

definition Failures :: "recorder \<Rightarrow> string \<Rightarrow> 64 word" where
  "Failures r signal =
     (if signal = SignalTraces then traces r else if signal = SignalLogs then logs r
      else if signal = SignalMetrics then metrics r else 0)"

definition Active :: "recorder \<Rightarrow> string \<Rightarrow> bool" where
  "Active r signal =
     (if signal = SignalTraces then tracesActive r else if signal = SignalLogs then logsActive r
      else if signal = SignalMetrics then metricsActive r else False)"

definition activate :: "recorder \<Rightarrow> string \<Rightarrow> recorder" where
  "activate r signal =
     (if signal = SignalTraces then r\<lparr>tracesActive := True\<rparr> else if signal = SignalLogs then r\<lparr>logsActive := True\<rparr>
      else if signal = SignalMetrics then r\<lparr>metricsActive := True\<rparr> else r)"

text \<open>The callback of \<^verbatim>\<open>Register\<close>: the observations it makes.\<close>

definition Register :: "recorder \<Rightarrow> (64 word \<times> key_value) list" where
  "Register r =
     map (\<lambda>s. (Failures r s, ComponentType s)) (filter (Active r) [SignalTraces, SignalLogs, SignalMetrics])"

definition SpanExporter :: "recorder \<Rightarrow> recorder" where "SpanExporter r = activate r SignalTraces"
definition LogExporter :: "recorder \<Rightarrow> recorder" where "LogExporter r = activate r SignalLogs"
definition MetricExporter :: "recorder \<Rightarrow> recorder" where "MetricExporter r = activate r SignalMetrics"

definition ExportSpans :: "('a \<Rightarrow> 'e option) \<Rightarrow> recorder \<Rightarrow> 'a \<Rightarrow> 'e option \<times> recorder" where
  "ExportSpans inner r spans = (let err = inner spans in (err, if err \<noteq> None then Fail r SignalTraces else r))"

definition ExportLogs :: "('a \<Rightarrow> 'e option) \<Rightarrow> recorder \<Rightarrow> 'a \<Rightarrow> 'e option \<times> recorder" where
  "ExportLogs inner r records = (let err = inner records in (err, if err \<noteq> None then Fail r SignalLogs else r))"

definition ExportMetrics :: "('a \<Rightarrow> 'e option) \<Rightarrow> recorder \<Rightarrow> 'a \<Rightarrow> 'e option \<times> recorder" where
  "ExportMetrics inner r rm = (let err = inner rm in (err, if err \<noteq> None then Fail r SignalMetrics else r))"

section \<open>The contract of a counting exporter\<close>

lemma signals_distinct [simp]:
  "SignalTraces \<noteq> SignalLogs" "SignalTraces \<noteq> SignalMetrics" "SignalLogs \<noteq> SignalMetrics"
  "SignalLogs \<noteq> SignalTraces" "SignalMetrics \<noteq> SignalTraces" "SignalMetrics \<noteq> SignalLogs"
  by (simp_all add: SignalTraces_def SignalLogs_def SignalMetrics_def)

lemma Fail_counts:
  "Failures (Fail r s) s' = Failures r s' + (if s' = s \<and> s \<in> {SignalTraces, SignalLogs, SignalMetrics} then 1 else 0)"
  "Active (Fail r s) s' = Active r s'"
  by (auto simp: Fail_def counter_add_def Failures_def Active_def)

locale counting_exporter =
  fixes export :: "('a \<Rightarrow> 'e option) \<Rightarrow> recorder \<Rightarrow> 'a \<Rightarrow> 'e option \<times> recorder" and signal :: string
  assumes passes_error: "fst (export inner r b) = inner b"
    and counts: "Failures (snd (export inner r b)) s = Failures r s + (if inner b \<noteq> None \<and> s = signal then 1 else 0)"
    and keeps_active: "Active (snd (export inner r b)) s = Active r s"
begin

fun export_all :: "('a \<Rightarrow> 'e option) \<Rightarrow> recorder \<Rightarrow> 'a list \<Rightarrow> recorder" where
  "export_all inner r [] = r"
| "export_all inner r (b # bs) = export_all inner (snd (export inner r b)) bs"

lemma export_all_counts:
  "Failures (export_all inner r bs) s =
     Failures r s + (if s = signal then of_nat (length (filter (\<lambda>b. inner b \<noteq> None) bs)) else 0)"
  by (induction bs arbitrary: r) (auto simp: counts)

end

interpretation spans: counting_exporter ExportSpans SignalTraces
  by unfold_locales (auto simp: ExportSpans_def Let_def Fail_counts)

interpretation logs: counting_exporter ExportLogs SignalLogs
  by unfold_locales (auto simp: ExportLogs_def Let_def Fail_counts)

interpretation metrics: counting_exporter ExportMetrics SignalMetrics
  by unfold_locales (auto simp: ExportMetrics_def Let_def Fail_counts)

section \<open>Any interleaving of the three pipelines\<close>

datatype ('s, 'l, 'm) export_call = Spans 's | Logs 'l | Metrics 'm

fun run ::
  "('s \<Rightarrow> 'e option) \<Rightarrow> ('l \<Rightarrow> 'e option) \<Rightarrow> ('m \<Rightarrow> 'e option) \<Rightarrow> recorder \<Rightarrow> ('s, 'l, 'm) export_call list \<Rightarrow> recorder" where
  "run fs fl fm r [] = r"
| "run fs fl fm r (Spans b # cs) = run fs fl fm (snd (ExportSpans fs r b)) cs"
| "run fs fl fm r (Logs b # cs) = run fs fl fm (snd (ExportLogs fl r b)) cs"
| "run fs fl fm r (Metrics b # cs) = run fs fl fm (snd (ExportMetrics fm r b)) cs"

fun failed :: "('s \<Rightarrow> 'e option) \<Rightarrow> ('l \<Rightarrow> 'e option) \<Rightarrow> ('m \<Rightarrow> 'e option) \<Rightarrow> string \<Rightarrow> ('s, 'l, 'm) export_call \<Rightarrow> bool" where
  "failed fs fl fm s (Spans b) \<longleftrightarrow> s = SignalTraces \<and> fs b \<noteq> None"
| "failed fs fl fm s (Logs b) \<longleftrightarrow> s = SignalLogs \<and> fl b \<noteq> None"
| "failed fs fl fm s (Metrics b) \<longleftrightarrow> s = SignalMetrics \<and> fm b \<noteq> None"

lemma run_counts:
  "Failures (run fs fl fm r cs) s = Failures r s + of_nat (length (filter (failed fs fl fm s) cs)) \<and>
   Active (run fs fl fm r cs) s = Active r s"
proof (induction cs arbitrary: r)
  case (Cons c cs)
  then show ?case
    by (cases c) (auto simp: spans.counts logs.counts metrics.counts spans.keeps_active logs.keeps_active metrics.keeps_active)
qed simp

text \<open>Whatever the order in which the pipelines export, each signal's count grows by exactly the number
  of its export calls that returned an error (in 64-bit arithmetic), and the instrument reports one
  point per signal that has an exporter, with that count under the exporter's own component type: never
  more than three series.\<close>

theorem failure_counter_is_exact:
  "Register (run fs fl fm r cs) =
     map (\<lambda>s. (Failures r s + of_nat (length (filter (failed fs fl fm s) cs)), ComponentType s))
       (filter (Active r) [SignalTraces, SignalLogs, SignalMetrics]) \<and>
   distinct (map snd (Register r)) \<and> length (Register r) \<le> 3"
proof -
  have "distinct (map ComponentType (filter (Active r) [SignalTraces, SignalLogs, SignalMetrics]))"
    by (simp add: ComponentType_def)
  then show ?thesis by (simp add: Register_def run_counts comp_def)
qed

end
