(* ===== verification/CassandraCql.thy ===== *)
theory CassandraCql
  imports GoStd
begin

text \<open>
  The CQL statement analysis of \<^verbatim>\<open>cassandra/attributes.go\<close>: comment stripping, the operation verb, the
  keyspace and the table of a statement, identifier unquoting, the span name, and the contact point.

  A Go byte index into the statement is modelled by the suffix that starts there.  The lemmas show what
  the comment stripper computes on a statement given as a sequence of lexical pieces, that it is
  idempotent, and that unquoting inverts CQL's quoting.
\<close>

section \<open>The contact point\<close>

record serverAddr =
  srv_host :: string
  srv_port :: int

definition contactPoint :: "string list \<Rightarrow> int \<Rightarrow> serverAddr" where
  "contactPoint hosts defaultPort =
     (if hosts = [] then \<lparr>srv_host = [], srv_port = 0\<rparr>
      else let first = trim_space (hd hosts) in
        if first = [] then \<lparr>srv_host = [], srv_port = 0\<rparr>
        else case split_host_port first of
            Some (host, port) \<Rightarrow>
              (case atoi port of
                 Some parsed \<Rightarrow> \<lparr>srv_host = host, srv_port = parsed\<rparr>
               | None \<Rightarrow> \<lparr>srv_host = host, srv_port = defaultPort\<rparr>)
          | None \<Rightarrow> \<lparr>srv_host = first, srv_port = defaultPort\<rparr>)"

section \<open>Comments\<close>

definition quote_chars :: "char list" where
  "quote_chars = [CHR 0x27, CHR 0x22, CHR 0x60]"

fun quoted_run :: "char \<Rightarrow> string \<Rightarrow> string \<times> string" where
  "quoted_run q [] = ([], [])"
| "quoted_run q (c # s) = (if c = q then ([c], s) else let (run, rest) = quoted_run q s in (c # run, rest))"

lemma quoted_run_split: "fst (quoted_run q s) @ snd (quoted_run q s) = s"
  by (induction s) (auto simp: split_beta)

lemma quoted_run_length: "length (snd (quoted_run q s)) \<le> length s"
  by (induction s) (auto simp: split_beta)

definition line_comment :: "string \<Rightarrow> bool" where
  "line_comment s \<longleftrightarrow> prefix ''--'' s \<or> prefix ''//'' s"

definition block_comment :: "string \<Rightarrow> bool" where
  "block_comment s \<longleftrightarrow> prefix ''/*'' s"

function stripComments :: "string \<Rightarrow> string" where
  "stripComments stmt = (case stmt of [] \<Rightarrow> [] | c # s \<Rightarrow>
     if c \<in> set quote_chars then
       (let (run, rest) = quoted_run c s in c # run @ stripComments rest)
     else if line_comment stmt then
       (case index_byte stmt CHR 0x0A of None \<Rightarrow> []
        | Some nl \<Rightarrow> CHR '' '' # stripComments (drop (nl + 1) stmt))
     else if block_comment stmt then
       (case index_sub stmt ''*/'' of None \<Rightarrow> []
        | Some e \<Rightarrow> CHR '' '' # stripComments (drop (e + 2) stmt))
     else c # stripComments s)"
  by pat_completeness auto
termination
proof (relation "measure length", goal_cases)
  case (2 stmt c s x run rest)
  then show ?case using quoted_run_length[of c s] by (metis in_measure le_imp_less_Suc length_Cons snd_conv)
qed auto

declare stripComments.simps [simp del]

lemma stripComments_Nil [simp]: "stripComments [] = []"
  by (simp add: stripComments.simps)

section \<open>The addressed object\<close>

definition unquoteIdentifier :: "string \<Rightarrow> string" where
  "unquoteIdentifier token =
     (let dq = CHR 0x22; bt = CHR 0x60;
          unq = (\<lambda>q. replace_all (take (length token - 2) (drop 1 token)) [q, q] [q]);
          wrapped = (\<lambda>q. length token \<ge> 2 \<and> prefix [q] token \<and> suffix [q] token)
      in if odd (count_list token dq) \<or> odd (count_list token bt) then []
         else if wrapped dq then unq dq
         else if wrapped bt then unq bt
         else token)"

definition normalizeTable :: "string \<Rightarrow> string \<times> string" where
  "normalizeTable token0 =
     (let token = (case index_any token0 ''(;,'' of None \<Rightarrow> token0 | Some i \<Rightarrow> take i token0)
      in case last_index_byte token CHR ''.'' of
           None \<Rightarrow> ([], unquoteIdentifier token)
         | Some i \<Rightarrow> (unquoteIdentifier (take i token), unquoteIdentifier (drop (i + 1) token)))"

fun first_object :: "unicode \<Rightarrow> string list \<Rightarrow> string \<times> string" where
  "first_object U [] = ([], [])"
| "first_object U (f # fs) =
     (if to_upper U f \<in> {''IF'', ''NOT'', ''EXISTS''} then first_object U fs else normalizeTable f)"

definition objectToken :: "unicode \<Rightarrow> string list \<Rightarrow> nat \<Rightarrow> string \<times> string" where
  "objectToken U fs start = first_object U (drop start fs)"

definition parseDDLTarget :: "unicode \<Rightarrow> string list \<Rightarrow> string \<times> string" where
  "parseDDLTarget U fs =
     (if length fs < 3 then ([], [])
      else let kind = to_upper U (fs ! 1) in
        if kind \<in> {''TABLE'', ''COLUMNFAMILY''} then objectToken U fs 2
        else if kind \<in> {''KEYSPACE'', ''SCHEMA''} then (snd (objectToken U fs 2), [])
        else ([], []))"

fun scan_keyword :: "unicode \<Rightarrow> string \<Rightarrow> string list \<Rightarrow> string \<times> string" where
  "scan_keyword U keyword (f # g # fs) =
     (if to_upper U f = keyword then normalizeTable g else scan_keyword U keyword (g # fs))"
| "scan_keyword U keyword _ = ([], [])"

definition afterKeyword :: "unicode \<Rightarrow> string list \<Rightarrow> string \<Rightarrow> string \<times> string" where
  "afterKeyword U fs keyword = scan_keyword U keyword (drop 1 fs)"

definition parseTableFields :: "unicode \<Rightarrow> string list \<Rightarrow> string \<times> string" where
  "parseTableFields U fs =
     (if length fs < 2 then ([], [])
      else let verb = to_upper U (hd fs) in
        if verb \<in> {''SELECT'', ''DELETE''} then afterKeyword U fs ''FROM''
        else if verb = ''INSERT'' then afterKeyword U fs ''INTO''
        else if verb = ''UPDATE'' then normalizeTable (fs ! 1)
        else if verb = ''TRUNCATE'' then
          (if to_upper U (fs ! 1) = ''TABLE'' then objectToken U fs 2 else objectToken U fs 1)
        else if verb \<in> {''CREATE'', ''DROP'', ''ALTER''} then parseDDLTarget U fs
        else ([], []))"

definition parseStatement :: "unicode \<Rightarrow> string \<Rightarrow> string \<times> string \<times> string" where
  "parseStatement U statement =
     (let fs = GoStd.fields (stripComments statement) in
      if fs = [] then ([], [], [])
      else let (keyspace, table) = parseTableFields U fs in (to_upper U (hd fs), keyspace, table))"

definition spanName :: "string \<Rightarrow> string \<Rightarrow> string" where
  "spanName operation table =
     (if operation = [] then ''cassandra''
      else if table = [] then ''cassandra.'' @ operation
      else ''cassandra.'' @ operation @ '' '' @ table)"

section \<open>Lexical pieces\<close>

text \<open>A statement as a sequence of complete pieces: a byte outside quotes and comments, a quoted run, a
  line comment with its newline, a block comment.  \<open>pieces_ok\<close> says that the pieces are what the CQL
  lexer sees: no byte starts a comment by accident and every run ends where it says.\<close>

datatype piece = Plain char | Quoted char string | LineC string string | BlockC string

fun piece_text :: "piece \<Rightarrow> string" where
  "piece_text (Plain c) = [c]"
| "piece_text (Quoted q s) = q # s @ [q]"
| "piece_text (LineC m b) = m @ b @ [CHR 0x0A]"
| "piece_text (BlockC b) = ''/*'' @ b @ ''*/''"

fun blank :: "piece \<Rightarrow> piece" where
  "blank (LineC m b) = Plain CHR '' ''"
| "blank (BlockC b) = Plain CHR '' ''"
| "blank p = p"

lemma blank_idem: "blank \<circ> blank = blank"
proof
  show "(blank \<circ> blank) p = blank p" for p by (cases p) simp_all
qed

definition source_text :: "piece list \<Rightarrow> string" where
  "source_text ps = concat (map piece_text ps)"

lemma source_text_simps [simp]:
  "source_text [] = []" "source_text (p # ps) = piece_text p @ source_text ps"
  by (simp_all add: source_text_def)

fun pieces_ok :: "piece list \<Rightarrow> bool" where
  "pieces_ok [] \<longleftrightarrow> True"
| "pieces_ok (Plain c # ps) \<longleftrightarrow> c \<notin> set quote_chars \<and> \<not> line_comment (c # source_text ps) \<and>
     \<not> block_comment (c # source_text ps) \<and> pieces_ok ps"
| "pieces_ok (Quoted q s # ps) \<longleftrightarrow> q \<in> set quote_chars \<and> q \<notin> set s \<and> pieces_ok ps"
| "pieces_ok (LineC m b # ps) \<longleftrightarrow> m \<in> {''--'', ''//''} \<and> CHR 0x0A \<notin> set b \<and> pieces_ok ps"
| "pieces_ok (BlockC b # ps) \<longleftrightarrow> \<not> contains (''*'' @ b @ ''*'') ''*/'' \<and> pieces_ok ps"

lemma quoted_run_closed: "q \<notin> set s \<Longrightarrow> quoted_run q (s @ q # t) = (s @ [q], t)"
  by (induction s) auto

lemma contains_Cons: "contains (c # s) sub \<longleftrightarrow> prefix sub (c # s) \<or> contains s sub"
  by (auto simp: contains_def)

lemma index_sub_close:
  "\<not> contains (u @ ''*'') ''*/'' \<Longrightarrow> index_sub (u @ ''*/'' @ v) ''*/'' = Some (length u)"
proof (induction u)
  case (Cons a u)
  have "\<not> prefix ''*/'' (a # u @ ''*/'' @ v)"
    using Cons.prems by (cases u) (auto simp: contains_Cons)
  with Cons show ?case by (simp add: contains_Cons)
qed simp

lemma index_newline:
  assumes "CHR 0x0A \<notin> set b"
  shows "index_byte (b @ CHR 0x0A # t) CHR 0x0A = Some (length b)"
proof -
  have "index_where (\<lambda>d. d = CHR 0x0A) b = None" using assms by (auto simp: index_where_None)
  then show ?thesis by (simp add: index_byte_def index_where_append)
qed

lemma strip_plain:
  "c \<notin> set quote_chars \<Longrightarrow> \<not> line_comment (c # s) \<Longrightarrow> \<not> block_comment (c # s) \<Longrightarrow>
   stripComments (c # s) = c # stripComments s"
  by (subst stripComments.simps) simp

lemma strip_line_cases:
  "c \<notin> set quote_chars \<Longrightarrow> line_comment (c # s) \<Longrightarrow>
   stripComments (c # s) = (case index_byte (c # s) CHR 0x0A of None \<Rightarrow> []
     | Some nl \<Rightarrow> CHR '' '' # stripComments (drop (nl + 1) (c # s)))"
  by (subst stripComments.simps) simp

lemma strip_block_cases:
  "c \<notin> set quote_chars \<Longrightarrow> \<not> line_comment (c # s) \<Longrightarrow> block_comment (c # s) \<Longrightarrow>
   stripComments (c # s) = (case index_sub (c # s) ''*/'' of None \<Rightarrow> []
     | Some e \<Rightarrow> CHR '' '' # stripComments (drop (e + 2) (c # s)))"
  by (subst stripComments.simps) simp

lemma strip_quote_cases:
  "c \<in> set quote_chars \<Longrightarrow> stripComments (c # s) = c # fst (quoted_run c s) @ stripComments (snd (quoted_run c s))"
  by (subst stripComments.simps) (simp add: split_beta)

lemmas strip_cases = strip_line_cases strip_block_cases strip_quote_cases strip_plain

lemma strip_space [simp]: "stripComments (CHR '' '' # s) = CHR '' '' # stripComments s"
  by (rule strip_plain) (simp_all add: quote_chars_def line_comment_def block_comment_def)

lemma strip_quoted:
  "q \<in> set quote_chars \<Longrightarrow> q \<notin> set s \<Longrightarrow> stripComments (q # s @ q # t) = q # s @ q # stripComments t"
  by (subst stripComments.simps) (simp add: quoted_run_closed)

lemma strip_line:
  assumes "m \<in> {''--'', ''//''}" "CHR 0x0A \<notin> set b"
  shows "stripComments (m @ b @ CHR 0x0A # t) = CHR '' '' # stripComments t"
proof -
  have "CHR 0x0A \<notin> set (m @ b)" using assms by auto
  from index_newline[OF this] assms show ?thesis
    by (subst stripComments.simps) (auto simp: quote_chars_def line_comment_def)
qed

lemma strip_block:
  assumes "\<not> contains (''*'' @ b @ ''*'') ''*/''"
  shows "stripComments (''/*'' @ b @ ''*/'' @ t) = CHR '' '' # stripComments t"
proof -
  have "index_sub (''/*'' @ b @ ''*/'' @ t) ''*/'' = Some (length b + 2)"
    using index_sub_close[of "''*'' @ b" t] assms by simp
  then show ?thesis
    by (subst stripComments.simps) (simp add: quote_chars_def line_comment_def block_comment_def)
qed

lemma strip_pieces: "pieces_ok ps \<Longrightarrow> stripComments (source_text ps) = source_text (map blank ps)"
proof (induction ps rule: pieces_ok.induct)
  case (4 m b ps)
  then show ?case using strip_line[of m b "source_text ps"] by simp
next
  case (5 b ps)
  then show ?case using strip_block[of b "source_text ps"] by simp
qed (simp_all add: strip_plain strip_quoted)

lemma source_text_head:
  "ps \<noteq> [] \<Longrightarrow> pieces_ok ps \<Longrightarrow>
   hd (source_text (map blank ps)) = CHR '' '' \<or> hd (source_text (map blank ps)) = hd (source_text ps)"
  by (cases ps; cases "hd ps") auto

lemma comment_next:
  "(s = [] \<longleftrightarrow> t = []) \<Longrightarrow> (t \<noteq> [] \<Longrightarrow> hd t = CHR '' '' \<or> hd t = hd s) \<Longrightarrow>
   (line_comment (c # t) \<longrightarrow> line_comment (c # s)) \<and> (block_comment (c # t) \<longrightarrow> block_comment (c # s))"
  by (cases s; cases t) (auto simp: line_comment_def block_comment_def)

lemma source_text_Nil: "pieces_ok ps \<Longrightarrow> source_text ps = [] \<longleftrightarrow> ps = []"
  by (cases ps; cases "hd ps") auto

lemma pieces_ok_blank: "pieces_ok ps \<Longrightarrow> pieces_ok (map blank ps)"
proof (induction ps rule: pieces_ok.induct)
  case (2 c ps)
  then have ok: "pieces_ok ps" "pieces_ok (map blank ps)" by simp_all
  have "hd (source_text (map blank ps)) = CHR '' '' \<or> hd (source_text (map blank ps)) = hd (source_text ps)"
    if "source_text (map blank ps) \<noteq> []"
    using that source_text_head[OF _ ok(1)] by (cases "ps = []") auto
  then show ?case
    using comment_next[of "source_text ps" "source_text (map blank ps)" c] "2.prems" ok
    by (auto simp: source_text_Nil)
next
  case (4 m b ps)
  then show ?case by (simp add: quote_chars_def line_comment_def block_comment_def)
next
  case (5 b ps)
  then show ?case by (simp add: quote_chars_def line_comment_def block_comment_def)
qed simp_all



section \<open>Stripping twice\<close>

lemma quoted_run_again:
  "quoted_run q s = (run, rest) \<Longrightarrow> (rest = [] \<and> quoted_run q run = (run, [])) \<or> (\<forall>t. quoted_run q (run @ t) = (run, t))"
proof (induction s arbitrary: run rest)
  case (Cons c s)
  show ?case
  proof (cases "c = q")
    case False
    obtain u v where uv: "quoted_run q s = (u, v)" by fastforce
    with Cons.prems False have "run = c # u" "rest = v" by auto
    then show ?thesis using Cons.IH[OF uv] False by auto
  qed (use Cons.prems in auto)
qed simp

lemma strip_head:
  assumes "stripComments s \<noteq> []"
  shows "s \<noteq> [] \<and> (hd (stripComments s) = CHR '' '' \<or> hd (stripComments s) = hd s)"
proof (cases s)
  case (Cons c r)
  show ?thesis unfolding Cons using assms[unfolded Cons]
    by (cases "c \<in> set quote_chars"; cases "line_comment (c # r)"; cases "block_comment (c # r)")
      (simp_all only: strip_cases, auto split: option.splits)
qed (use assms in simp)

lemma comment_after_strip:
  "\<not> line_comment (c # s) \<Longrightarrow> \<not> block_comment (c # s) \<Longrightarrow>
   \<not> line_comment (c # stripComments s) \<and> \<not> block_comment (c # stripComments s)"
  using strip_head[of s]
  by (cases "stripComments s"; cases s) (auto simp: line_comment_def block_comment_def)

text \<open>Stripping leaves no comment behind: a second pass changes nothing, whatever the statement,
  unterminated quotes and comments included.\<close>

theorem stripComments_idempotent: "stripComments (stripComments stmt) = stripComments stmt"
proof (induction stmt rule: stripComments.induct)
  case (1 stmt)
  show ?case
  proof (cases stmt)
    case (Cons c s)
    show ?thesis
    proof (cases "c \<in> set quote_chars")
      case True
      obtain run rest where r: "quoted_run c s = (run, rest)" by fastforce
      have IH: "stripComments (stripComments rest) = stripComments rest" using 1(1) Cons True r by simp
      have s1: "stripComments stmt = c # run @ stripComments rest"
        using True Cons r by (simp add: strip_quote_cases)
      show ?thesis unfolding s1 strip_quote_cases[OF True] using quoted_run_again[OF r] IH by auto
    next
      case q: False
      show ?thesis
      proof (cases "line_comment stmt")
        case line: True
        show ?thesis
        proof (cases "index_byte stmt CHR 0x0A")
          case (Some nl)
          with 1(2) q line Cons have "stripComments (stripComments (drop (nl + 1) stmt)) = stripComments (drop (nl + 1) stmt)"
            by simp
          moreover have "stripComments stmt = CHR '' '' # stripComments (drop (nl + 1) stmt)"
            using Some q line Cons by (simp add: strip_line_cases)
          ultimately show ?thesis by simp
        qed (use q line Cons in \<open>simp add: strip_line_cases\<close>)
      next
        case nl: False
        show ?thesis
        proof (cases "block_comment stmt")
          case block: True
          show ?thesis
          proof (cases "index_sub stmt ''*/''")
            case (Some e)
            with 1(3) q nl block Cons have "stripComments (stripComments (drop (e + 2) stmt)) = stripComments (drop (e + 2) stmt)"
              by simp
            moreover have "stripComments stmt = CHR '' '' # stripComments (drop (e + 2) stmt)"
              using Some q nl block Cons by (simp add: strip_block_cases)
            ultimately show ?thesis by simp
          qed (use q nl block Cons in \<open>simp add: strip_block_cases\<close>)
        next
          case block: False
          then have "stripComments stmt = c # stripComments s" using q nl Cons by (simp add: strip_plain)
          then show ?thesis using 1(4) q nl block Cons comment_after_strip[of c s] by (simp add: strip_plain)
        qed
      qed
    qed
  qed simp
qed

section \<open>Identifiers\<close>

text \<open>How CQL writes an arbitrary name as a quoted identifier.\<close>

definition quote_identifier :: "char \<Rightarrow> string \<Rightarrow> string" where
  "quote_identifier q name = q # replace_all name [q] [q, q] @ [q]"

lemma replace_all_Nil [simp]: "replace_all [] old new = []"
  by (subst replace_all.simps) simp

lemma replace_all_Cons:
  "old \<noteq> [] \<Longrightarrow> replace_all (c # s) old new =
     (if prefix old (c # s) then new @ replace_all (drop (length old) (c # s)) old new else c # replace_all s old new)"
  by (subst replace_all.simps) simp

lemma undouble: "replace_all (replace_all s [q] [q, q]) [q, q] [q] = s"
  by (induction s) (auto simp: replace_all_Cons)

lemma count_double: "count_list (replace_all s [q] [q, q]) c = (if c = q then 2 else 1) * count_list s c"
  by (induction s) (auto simp: replace_all_Cons)

text \<open>Unquoting inverts CQL's quoting: a quoted identifier yields the very name it quotes, doubled
  quotes decoded, or nothing when the name holds an odd number of the other quote; it never yields a
  different name.\<close>

theorem unquote_inverts_quoting:
  "unquoteIdentifier (quote_identifier CHR 0x22 name) = (if even (count_list name CHR 0x60) then name else []) \<and>
   unquoteIdentifier (quote_identifier CHR 0x60 name) = (if even (count_list name CHR 0x22) then name else [])"
  by (simp add: unquoteIdentifier_def quote_identifier_def count_double undouble count_list_append suffix_def)

lemma set_replace_all: "set (replace_all s old new) \<subseteq> set s \<union> set new"
proof (induction s old new rule: replace_all.induct)
  case (1 s old new)
  show ?case
  proof (cases "old = [] \<or> s = []")
    case False
    then obtain c r where s: "s = c # r" by (cases s) auto
    have "set (drop (length old) (c # r)) \<subseteq> set (c # r)" by (rule set_drop_subset)
    then show ?thesis using 1 False unfolding s by (simp add: replace_all_Cons) blast
  qed (subst replace_all.simps, simp)
qed

lemma set_unquoteIdentifier: "set (unquoteIdentifier t) \<subseteq> set t"
proof -
  have "set (replace_all (take n (drop 1 t)) [q, q] [q]) \<subseteq> set t" if "prefix [q] t" for n q
  proof -
    have "q \<in> set t" using that by (cases t) auto
    moreover have "set (take n (drop 1 t)) \<subseteq> set t" by (meson set_drop_subset set_take_subset subset_trans)
    ultimately show ?thesis using set_replace_all[of "take n (drop 1 t)" "[q, q]" "[q]"] by auto
  qed
  then show ?thesis by (simp add: unquoteIdentifier_def Let_def)
qed

lemma last_index_byte_None: "last_index_byte s c = None \<longleftrightarrow> c \<notin> set s"
  by (auto simp: last_index_byte_def index_byte_def index_where_None)

lemma last_index_byte_rest: "last_index_byte s c = Some i \<Longrightarrow> c \<notin> set (drop (i + 1) s)"
proof -
  assume a: "last_index_byte s c = Some i"
  then obtain j where j: "index_where (\<lambda>d. d = c) (rev s) = Some j" "i = length s - 1 - j"
    by (auto simp: last_index_byte_def index_byte_def)
  then have jl: "j < length s" "\<forall>k < j. rev s ! k \<noteq> c" using index_where_Some[OF j(1)] by auto
  show ?thesis
  proof
    assume "c \<in> set (drop (i + 1) s)"
    then obtain k where k: "k < length s - (i + 1)" "s ! (i + 1 + k) = c" by (auto simp: in_set_conv_nth)
    have "j - 1 - k < j" "length s - Suc (j - 1 - k) = i + 1 + k" using k(1) j(2) jl(1) by auto
    then have "j - 1 - k < j" "rev s ! (j - 1 - k) = c" using k(2) jl(1) by (simp_all add: rev_nth)
    with jl(2) show False by blast
  qed
qed

lemma normalizeTable_no_dot: "CHR ''.'' \<notin> set (snd (normalizeTable t))"
  using set_unquoteIdentifier last_index_byte_rest
  by (auto simp: normalizeTable_def Let_def last_index_byte_None split: option.splits) blast+

lemma first_object_no_dot: "CHR ''.'' \<notin> set (snd (first_object U fs))"
  by (induction fs) (auto simp: normalizeTable_no_dot)

lemma scan_keyword_no_dot: "CHR ''.'' \<notin> set (snd (scan_keyword U k fs))"
  by (induction U k fs rule: scan_keyword.induct) (auto simp: normalizeTable_no_dot)

lemma parseTableFields_no_dot: "CHR ''.'' \<notin> set (snd (parseTableFields U fs))"
  by (simp add: parseTableFields_def parseDDLTarget_def objectToken_def afterKeyword_def Let_def
      first_object_no_dot scan_keyword_no_dot normalizeTable_no_dot)

lemma parseStatement_no_dot: "parseStatement U s = (operation, keyspace, table) \<Longrightarrow> CHR ''.'' \<notin> set table"
  using parseTableFields_no_dot[of U "GoStd.fields (stripComments s)"]
  by (auto simp: parseStatement_def Let_def split_beta split: if_splits)

section \<open>A comment that opens with a slash\<close>


section \<open>Contact points\<close>

text \<open>A contact point written as \<^verbatim>\<open>net.JoinHostPort\<close> writes it is read back exactly, an IPv6 address in
  brackets included, and the cluster-wide port is not used.\<close>

lemma contactPoint_roundtrip:
  assumes "list_all (\<lambda>c. byte c < 128 \<and> \<not> space_rune (byte c) \<and> c \<noteq> CHR ''['' \<and> c \<noteq> CHR '']'') h"
    and "min_int64 \<le> port" "port \<le> max_int64"
  shows "contactPoint (join_host_port h (itoa port) # hosts) defaultPort = \<lparr>srv_host = h, srv_port = port\<rparr>"
proof -
  have digits: "is_digit c \<or> c = CHR ''-''" if "c \<in> set (itoa port)" for c
    using that dec_digits_digit by (auto simp: itoa_def split: if_splits)
  have chars: "byte c < 128 \<and> \<not> space_rune (byte c)" if mem: "c \<in> set (join_host_port h (itoa port))" for c
  proof -
    have plain: "byte d < 128 \<and> \<not> space_rune (byte d)" if "is_digit d \<or> d \<in> set ''-[]:''" for d
      using that by (auto simp: is_digit_def space_rune_def)
    consider "c \<in> set h" | "c \<in> set (itoa port)" | "c \<in> set ''-[]:''"
      using mem by (auto simp: join_host_port_def split: if_splits)
    then show ?thesis
    proof cases
      case 1
      then show ?thesis using assms(1) by (simp add: list_all_iff)
    next
      case 2
      then show ?thesis using digits[of c] plain[of c] by auto
    qed (rule plain, simp)
  qed
  then have "trim_space (join_host_port h (itoa port)) = join_host_port h (itoa port)"
    by (intro trim_space_id) (simp add: list_all_iff)
  moreover have "join_host_port h (itoa port) \<noteq> []" by (simp add: join_host_port_def)
  moreover have "split_host_port (join_host_port h (itoa port)) = Some (h, itoa port)"
  proof (rule split_join_host_port)
    show "CHR ''['' \<notin> set h" "CHR '']'' \<notin> set h" using assms(1) by (auto simp: list_all_iff)
    show "CHR '':'' \<notin> set (itoa port)" "CHR ''['' \<notin> set (itoa port)" "CHR '']'' \<notin> set (itoa port)"
      using digits by (fastforce simp: is_digit_def)+
  qed
  ultimately show ?thesis using atoi_itoa[OF assms(2,3)] by (simp add: contactPoint_def)
qed

lemma contactPoint_roundtrip_example:
  "contactPoint [''[::1]:9042''] 7000 = \<lparr>srv_host = ''::1'', srv_port = 9042\<rparr>"
proof -
  have "list_all (\<lambda>c. byte c < 128 \<and> \<not> space_rune (byte c) \<and> c \<noteq> CHR ''['' \<and> c \<noteq> CHR '']'') ''::1''" by code_simp
  moreover have "join_host_port ''::1'' (itoa 9042) = ''[::1]:9042''" by code_simp
  ultimately show ?thesis using contactPoint_roundtrip[of "''::1''" 9042 "[]" 7000]
    by (simp add: min_int64_def max_int64_def)
qed

end
