(* ===== verification/Telemetry.thy ===== *)
theory Telemetry
  imports GoStd
begin

text \<open>
  What the client integrations emit: finished spans and measurements, in the order of the calls on the
  OpenTelemetry API, and the view of a Go \<^verbatim>\<open>error\<close> that the integrations take.  A span's attributes are
  listed in the order they were set; \<open>last_value\<close> is the value the SDK keeps for a key.  A duration is
  kept in nanoseconds (the code passes \<^verbatim>\<open>Duration.Seconds\<close>).
\<close>

record go_error =
  err_text :: string
  err_type :: string
  is_deadline :: bool
  is_canceled :: bool

datatype span_kind = KindInternal | KindClient | KindServer | KindProducer | KindConsumer

datatype span_status = Unset | Failed string

record span =
  span_title :: string
  span_role :: span_kind
  span_start :: nanos
  span_end :: nanos
  span_attrs :: "key_value list"
  span_state :: span_status
  span_errors :: "(nanos \<times> string) list"

datatype emission = Ended span | Measured string int "key_value list"

definition last_value :: "key_value list \<Rightarrow> string \<Rightarrow> attr_value option" where
  "last_value attrs k = map_of (rev attrs) k"

lemma last_value_append:
  "last_value (xs @ ys) k = (case last_value ys k of Some v \<Rightarrow> Some v | None \<Rightarrow> last_value xs k)"
  by (simp add: last_value_def map_add_def split: option.splits)

lemma last_value_foreign: "k \<notin> set (keys xs) \<Longrightarrow> last_value (xs @ ys) k = last_value ys k"
proof -
  assume "k \<notin> set (keys xs)"
  then have "map_of (rev xs) k = None" by (simp add: map_of_eq_None_iff)
  then show ?thesis by (simp add: last_value_def map_add_def split: option.splits)
qed

text \<open>Attributes that are present only under a condition.\<close>

definition when_set :: "bool \<Rightarrow> string \<Rightarrow> attr_value \<Rightarrow> key_value list" where
  "when_set b k v = (if b then [(k, v)] else [])"

lemma keys_when_set [simp]: "keys (when_set b k v) = (if b then [k] else [])"
  by (simp add: when_set_def)

lemma last_value_absent: "k \<notin> set (keys xs) \<Longrightarrow> last_value xs k = None"
  by (simp add: last_value_def map_of_eq_None_iff)

lemma last_value_when_set: "last_value (when_set b k v @ xs) k' = (case last_value xs k' of Some w \<Rightarrow> Some w | None \<Rightarrow> if b \<and> k = k' then Some v else None)"
  unfolding last_value_append by (auto simp: when_set_def last_value_def split: option.split)

lemma last_value_Cons: "last_value ((k, v) # xs) k' = (case last_value xs k' of Some w \<Rightarrow> Some w | None \<Rightarrow> if k = k' then Some v else None)"
  using last_value_when_set[of True k v xs k'] by (simp add: when_set_def)

lemma last_value_when: "last_value (when_set b k v) k' = (if b \<and> k = k' then Some v else None)"
  by (auto simp: when_set_def last_value_def)

text \<open>The keys of an attribute list that is built by conditional appends, as a subsequence of the keys
  that may occur: this bounds the key set and shows that no key repeats, one rule per append.\<close>

lemma key_order_nil: "subseq (keys []) K"
  by simp

lemma key_order_kv: "subseq (keys xs) K \<Longrightarrow> subseq (keys ((k, v) # xs)) (k # K)"
  by simp

lemma key_order_when: "subseq (keys xs) K \<Longrightarrow> subseq (keys (when_set b k v @ xs)) (k # K)"
  by (cases b) (auto simp: when_set_def)

lemma key_order_last: "subseq (keys (when_set b k v)) (k # K)"
  by (cases b) (auto simp: when_set_def)

lemmas key_order = key_order_nil key_order_kv key_order_when key_order_last

lemma key_order_append: "subseq (keys xs) K \<Longrightarrow> subseq (keys ys) L \<Longrightarrow> subseq (keys (xs @ ys)) (K @ L)"
  by (simp add: list_emb_append_mono)

lemma subseq_distinctD: "subseq xs ys \<Longrightarrow> distinct ys \<Longrightarrow> distinct xs"
  by (induction rule: list_emb.induct) (auto dest: list_emb_set)

lemma subseq_subset: "subseq xs ys \<Longrightarrow> set xs \<subseteq> set ys"
  by (auto dest: list_emb_set)

end
