(* ===== verification/Cassandra.thy ===== *)
theory Cassandra
  imports CassandraCql Telemetry
begin

text \<open>
  The Cassandra integration (\<^verbatim>\<open>cassandra/options.go\<close>, \<^verbatim>\<open>observer.go\<close>, \<^verbatim>\<open>batch.go\<close>, \<^verbatim>\<open>session.go\<close>,
  \<^verbatim>\<open>metrics.go\<close>): the options, the query and connect observers with every span and measurement they
  emit, the batch wrappers, the registry of sessions, and session creation.

  The driver is a parameter: an observed query, a batch and a host are records of what their accessors
  return, executing a batch and creating a session are functions.
\<close>

section \<open>Options\<close>

record config =
  queryTextEnabled :: bool
  hostAttributesEnabled :: bool
  attrs :: "key_value list"
  cfg_poolName :: string
  collectionMetricLabelDisabled :: bool

definition collectionMetricLabel :: "config \<Rightarrow> bool" where
  "collectionMetricLabel c \<longleftrightarrow> \<not> collectionMetricLabelDisabled c"

definition WithQueryText :: "bool \<Rightarrow> config \<Rightarrow> config" where
  "WithQueryText enabled cfg = cfg\<lparr>queryTextEnabled := enabled\<rparr>"

definition WithCollectionMetricLabel :: "bool \<Rightarrow> config \<Rightarrow> config" where
  "WithCollectionMetricLabel enabled cfg = cfg\<lparr>collectionMetricLabelDisabled := \<not> enabled\<rparr>"

definition WithAttributes :: "key_value list \<Rightarrow> config \<Rightarrow> config" where
  "WithAttributes as cfg = cfg\<lparr>attrs := attrs cfg @ as\<rparr>"

definition WithHostAttributes :: "bool \<Rightarrow> config \<Rightarrow> config" where
  "WithHostAttributes enabled cfg = cfg\<lparr>hostAttributesEnabled := enabled\<rparr>"

definition WithPoolName :: "string \<Rightarrow> config \<Rightarrow> config" where
  "WithPoolName name cfg = cfg\<lparr>cfg_poolName := name\<rparr>"

definition reservedAttrKeys :: "string list" where
  "reservedAttrKeys =
     [''db.system.name'', ''db.namespace'', ''db.operation.name'', ''db.collection.name'',
      ''db.response.returned_rows'', ''db.query.text'', ''db.operation.batch.size'', ''server.address'',
      ''server.port'', ''network.peer.address'', ''network.peer.port'', ''cassandra.coordinator.id'',
      ''cassandra.coordinator.dc'', ''error.type'', ''db.client.connection.pool.name'', ''cassandra.query.attempt'']"

definition filterReservedAttrs :: "key_value list \<Rightarrow> key_value list" where
  "filterReservedAttrs as =
     (if list_ex (\<lambda>a. fst a \<in> set reservedAttrKeys) as
      then filter (\<lambda>a. fst a \<notin> set reservedAttrKeys) as else as)"

definition newConfig :: "(config \<Rightarrow> config) option list \<Rightarrow> config" where
  "newConfig opts =
     (let cfg = foldl (\<lambda>cfg opt. case opt of Some f \<Rightarrow> f cfg | None \<Rightarrow> cfg)
        \<lparr>queryTextEnabled = False, hostAttributesEnabled = False, attrs = [], cfg_poolName = [],
         collectionMetricLabelDisabled = False\<rparr> opts
      in cfg\<lparr>attrs := filterReservedAttrs (attrs cfg)\<rparr>)"

section \<open>The observer\<close>

record target =
  operation :: string
  keyspace :: string
  table :: string

record host_info =
  ConnectAddress :: string
  HostPort :: int
  HostID :: string
  DataCenter :: string

record observer =
  cfg :: config
  server :: serverAddr
  poolName_of :: string

record observed_query =
  Statement :: string
  QKeyspace :: string
  QHost :: "host_info option"
  Rows :: int
  Attempt :: int
  QStart :: nanos
  QEnd :: nanos
  QErr :: "go_error option"

record observed_connect =
  CHost :: "host_info option"
  CStart :: nanos
  CEnd :: nanos
  CErr :: "go_error option"

definition errorType :: "go_error option \<Rightarrow> string" where
  "errorType err = (case err of None \<Rightarrow> ''_OTHER''
     | Some e \<Rightarrow> if is_deadline e then ''context.DeadlineExceeded''
                 else if is_canceled e then ''context.Canceled'' else err_type e)"

definition appendServerAttrs :: "key_value list \<Rightarrow> serverAddr \<Rightarrow> key_value list" where
  "appendServerAttrs as srv =
     (if srv_host srv = [] then as
      else as @ [(''server.address'', StrV (srv_host srv))] @ when_set (srv_port srv > 0) ''server.port'' (IntV (srv_port srv)))"

definition queryServer :: "observer \<Rightarrow> host_info option \<Rightarrow> serverAddr" where
  "queryServer obs host = (case host of None \<Rightarrow> server obs
     | Some h \<Rightarrow> if ConnectAddress h \<noteq> [] then \<lparr>srv_host = ConnectAddress h, srv_port = HostPort h\<rparr> else server obs)"

definition baseAttrs :: "observer \<Rightarrow> target \<Rightarrow> serverAddr \<Rightarrow> host_info option \<Rightarrow> key_value list" where
  "baseAttrs obs tgt srv host =
     appendServerAttrs
       ([(''db.system.name'', StrV ''cassandra'')] @
        when_set (operation tgt \<noteq> []) ''db.operation.name'' (StrV (operation tgt)) @
        when_set (keyspace tgt \<noteq> []) ''db.namespace'' (StrV (keyspace tgt)) @
        when_set (table tgt \<noteq> []) ''db.collection.name'' (StrV (table tgt))) srv @
     (case host of None \<Rightarrow> []
      | Some h \<Rightarrow> if hostAttributesEnabled (cfg obs) then
          when_set (ConnectAddress h \<noteq> []) ''network.peer.address'' (StrV (ConnectAddress h)) @
          when_set (ConnectAddress h \<noteq> [] \<and> HostPort h > 0) ''network.peer.port'' (IntV (HostPort h)) @
          when_set (HostID h \<noteq> []) ''cassandra.coordinator.id'' (StrV (HostID h)) @
          when_set (DataCenter h \<noteq> []) ''cassandra.coordinator.dc'' (StrV (DataCenter h))
        else [])"

definition metricAttrs :: "observer \<Rightarrow> target \<Rightarrow> serverAddr \<Rightarrow> go_error option \<Rightarrow> key_value list" where
  "metricAttrs obs tgt srv obsErr =
     appendServerAttrs
       ([(''db.system.name'', StrV ''cassandra'')] @
        when_set (operation tgt \<noteq> []) ''db.operation.name'' (StrV (operation tgt)) @
        when_set (keyspace tgt \<noteq> []) ''db.namespace'' (StrV (keyspace tgt)) @
        when_set (table tgt \<noteq> [] \<and> collectionMetricLabel (cfg obs)) ''db.collection.name'' (StrV (table tgt))) srv @
     when_set (obsErr \<noteq> None) ''error.type'' (StrV (errorType obsErr))"

definition observer_record ::
  "observer \<Rightarrow> string \<Rightarrow> target \<Rightarrow> serverAddr \<Rightarrow> nanos \<Rightarrow> nanos \<Rightarrow> go_error option \<Rightarrow> key_value list \<Rightarrow> emission list" where
  "observer_record obs name tgt srv start end obsErr as =
     [Ended \<lparr>span_title = name, span_role = KindClient, span_start = start, span_end = end,
        span_attrs = attrs (cfg obs) @ as @ when_set (obsErr \<noteq> None) ''error.type'' (StrV (errorType obsErr)),
        span_state = (case obsErr of None \<Rightarrow> Unset | Some e \<Rightarrow> Failed (err_text e)),
        span_errors = (case obsErr of None \<Rightarrow> [] | Some e \<Rightarrow> [(end, err_text e)])\<rparr>,
      Measured ''db.client.operation.duration'' (time_sub end start) (metricAttrs obs tgt srv obsErr)]"

definition ObserveQuery :: "unicode \<Rightarrow> observer \<Rightarrow> observed_query \<Rightarrow> emission list" where
  "ObserveQuery U obs q =
     (let (op, parsedKeyspace, tbl) = parseStatement U (Statement q);
          namespace = (if parsedKeyspace = [] then QKeyspace q else parsedKeyspace);
          tgt = \<lparr>operation = op, keyspace = namespace, table = tbl\<rparr>;
          srv = queryServer obs (QHost q);
          as = baseAttrs obs tgt srv (QHost q) @ [(''db.response.returned_rows'', IntV (Rows q))] @
               [(''cassandra.query.attempt'', IntV (Attempt q))] @
               when_set (queryTextEnabled (cfg obs) \<and> Statement q \<noteq> []) ''db.query.text'' (StrV (Statement q))
      in observer_record obs (spanName op tbl) tgt srv (QStart q) (QEnd q) (QErr q) as @
         [Measured ''cassandra.query.attempts'' 1 (metricAttrs obs tgt srv (QErr q))])"

definition connectPeer :: "observer \<Rightarrow> host_info option \<Rightarrow> string \<times> int" where
  "connectPeer obs host = (let srv = queryServer obs host in (srv_host srv, srv_port srv))"

definition ObserveConnect :: "observer \<Rightarrow> observed_connect \<Rightarrow> emission list" where
  "ObserveConnect obs c =
     (let (host, port) = connectPeer obs (CHost c);
          as = [(''db.system.name'', StrV ''cassandra''), (''db.client.connection.pool.name'', StrV (poolName_of obs))] @
               when_set (host \<noteq> []) ''server.address'' (StrV host) @
               when_set (host \<noteq> [] \<and> port > 0) ''server.port'' (IntV port) @
               when_set (CErr c \<noteq> None) ''error.type'' (StrV (errorType (CErr c)))
      in Measured ''cassandra.connection.attempts'' 1 as #
         (if CErr c = None then [Measured ''db.client.connection.create_time'' (time_sub (CEnd c) (CStart c)) as] else []))"

section \<open>Batches\<close>

record batch =
  BKeyspace :: string
  Entries :: "string list"

definition batchTarget :: "string \<Rightarrow> string \<Rightarrow> target" where
  "batchTarget namespace tbl = \<lparr>operation = ''BATCH'', keyspace = namespace, table = tbl\<rparr>"

text \<open>The loop state of \<^verbatim>\<open>batchTargets\<close>: the resolved namespace and whether it conflicts, the resolved table,
  its qualified key and whether it conflicts.\<close>

record resolution =
  resolvedNS :: string
  nsConflict :: bool
  resolvedTbl :: string
  resolvedKey :: string
  tblConflict :: bool

definition resolve_ns :: "string \<Rightarrow> resolution \<Rightarrow> resolution" where
  "resolve_ns ks r =
     (if nsConflict r then r
      else if ks = [] then r\<lparr>resolvedNS := [], nsConflict := True\<rparr>
      else if resolvedNS r = [] then r\<lparr>resolvedNS := ks\<rparr>
      else if resolvedNS r \<noteq> ks then r\<lparr>resolvedNS := [], nsConflict := True\<rparr>
      else r)"

definition resolve_table :: "string \<Rightarrow> string \<Rightarrow> resolution \<Rightarrow> resolution" where
  "resolve_table ks tbl r =
     (if tblConflict r then r
      else let key = ks @ ''.'' @ tbl in
        if tbl = [] then r\<lparr>resolvedTbl := [], tblConflict := True\<rparr>
        else if resolvedKey r = [] then r\<lparr>resolvedTbl := tbl, resolvedKey := key\<rparr>
        else if resolvedKey r \<noteq> key then r\<lparr>resolvedTbl := [], tblConflict := True\<rparr>
        else r)"

definition resolve_entry :: "unicode \<Rightarrow> string \<Rightarrow> string \<Rightarrow> resolution \<Rightarrow> resolution" where
  "resolve_entry U session stmt r =
     (let (_, ks0, tbl) = parseStatement U stmt; ks = (if ks0 = [] then session else ks0)
      in resolve_table ks tbl (resolve_ns ks r))"

definition batchTargets :: "unicode \<Rightarrow> batch \<Rightarrow> string \<times> string" where
  "batchTargets U b =
     (let r = fold (resolve_entry U (BKeyspace b)) (Entries b)
                \<lparr>resolvedNS = [], nsConflict = False, resolvedTbl = [], resolvedKey = [], tblConflict = False\<rparr>
      in (if resolvedNS r = [] \<and> \<not> nsConflict r then BKeyspace b else resolvedNS r, resolvedTbl r))"

definition batchQueryText :: "batch \<Rightarrow> string" where
  "batchQueryText b = join ''; '' (filter (\<lambda>stmt. stmt \<noteq> []) (Entries b))"

definition batchAttrs :: "observer \<Rightarrow> batch \<Rightarrow> target \<Rightarrow> key_value list" where
  "batchAttrs obs b tgt =
     baseAttrs obs tgt (server obs) None @
     when_set (length (Entries b) > 0) ''db.operation.batch.size'' (IntV (int (length (Entries b)))) @
     when_set (queryTextEnabled (cfg obs) \<and> batchQueryText b \<noteq> []) ''db.query.text'' (StrV (batchQueryText b))"

text \<open>The registry of observers by session address.  A session is garbage collected some time after its
  last use; its cleanup then removes the entry only if it still holds the observer it was registered
  with.\<close>

type_synonym registry = "(nat \<times> nat) list"

definition registerSession :: "registry \<Rightarrow> nat \<Rightarrow> nat \<Rightarrow> registry" where
  "registerSession m key obs = AList.update key obs m"

definition session_cleanup :: "registry \<Rightarrow> nat \<Rightarrow> nat \<Rightarrow> registry" where
  "session_cleanup m key prev = (if map_of m key = Some prev then AList.delete key m else m)"

definition lookupObserver :: "registry \<Rightarrow> nat \<Rightarrow> nat option" where
  "lookupObserver m key = map_of m key"

datatype batch_error = NilSession | NilBatch | Exec go_error

definition instrumentBatch ::
  "unicode \<Rightarrow> registry \<Rightarrow> (nat \<Rightarrow> observer) \<Rightarrow> nat option \<Rightarrow> batch option \<Rightarrow> nanos \<Rightarrow> nanos \<Rightarrow>
   (batch \<Rightarrow> go_error option) \<Rightarrow> batch_error option \<times> emission list" where
  "instrumentBatch U m heap session batch start end exec =
     (case session of None \<Rightarrow> (Some NilSession, [])
      | Some s \<Rightarrow> (case batch of None \<Rightarrow> (Some NilBatch, [])
        | Some b \<Rightarrow> (case lookupObserver m s of
            None \<Rightarrow> (map_option Exec (exec b), [])
          | Some o_ptr \<Rightarrow>
              let obs = heap o_ptr; err = exec b; (ns, tbl) = batchTargets U b; tgt = batchTarget ns tbl
              in (map_option Exec err,
                  observer_record obs (spanName (operation tgt) (table tgt)) tgt (server obs) start end err
                    (batchAttrs obs b tgt)))))"

section \<open>Sessions\<close>

definition pool_name :: "string \<Rightarrow> serverAddr \<Rightarrow> string \<Rightarrow> string" where
  "pool_name configured srv ks =
     (if configured \<noteq> [] then configured
      else if srv_host srv = [] then (if ks \<noteq> [] then ''cassandra/'' @ ks else ''cassandra'')
      else let name = (if srv_port srv > 0 then ''cassandra/'' @ join_host_port (srv_host srv) (itoa (srv_port srv))
                       else ''cassandra/'' @ srv_host srv)
           in if ks \<noteq> [] then name @ ''/'' @ ks else name)"

datatype 'o observer_ref = App 'o | Sdk nat | Chained "'o observer_ref" nat

definition chainQueryObserver :: "'o observer_ref option \<Rightarrow> nat \<Rightarrow> 'o observer_ref" where
  "chainQueryObserver existing sdk = (case existing of None \<Rightarrow> Sdk sdk | Some e \<Rightarrow> Chained e sdk)"

definition chainConnectObserver :: "'o observer_ref option \<Rightarrow> nat \<Rightarrow> 'o observer_ref" where
  "chainConnectObserver existing sdk = (case existing of None \<Rightarrow> Sdk sdk | Some e \<Rightarrow> Chained e sdk)"

text \<open>A chained observer runs the observer it was given first, then the SDK's.\<close>

fun run_observer :: "('o \<Rightarrow> 'q \<Rightarrow> 'x list) \<Rightarrow> (nat \<Rightarrow> 'q \<Rightarrow> 'x list) \<Rightarrow> 'o observer_ref \<Rightarrow> 'q \<Rightarrow> 'x list" where
  "run_observer app sdk (App e) q = app e q"
| "run_observer app sdk (Sdk s) q = sdk s q"
| "run_observer app sdk (Chained e s) q = run_observer app sdk e q @ sdk s q"

record ('q, 'c) cluster_config =
  Hosts :: "string list"
  ClusterPort :: int
  ClusterKeyspace :: string
  QueryObserver :: "'q observer_ref option"
  ConnectObserver :: "'c observer_ref option"

datatype instrument_kind = Float64Histogram | Int64Counter

datatype session_error = NilCluster | NilTracerProvider | NilMeterProvider
  | CreateInstrument string go_error | CreateSessionFailed go_error

definition instrument_specs :: "(instrument_kind \<times> string \<times> string \<times> string) list" where
  "instrument_specs =
     [(Float64Histogram, ''db.client.operation.duration'', ''s'', ''cassandra: create operation duration histogram''),
      (Int64Counter, ''cassandra.query.attempts'', ''{attempt}'', ''cassandra: create attempts counter''),
      (Float64Histogram, ''db.client.connection.create_time'', ''s'', ''cassandra: create connection create_time histogram''),
      (Int64Counter, ''cassandra.connection.attempts'', ''{attempt}'', ''cassandra: create connection attempts counter'')]"

fun create_instruments ::
  "(instrument_kind \<Rightarrow> string \<Rightarrow> string \<Rightarrow> go_error + 'i) \<Rightarrow> (instrument_kind \<times> string \<times> string \<times> string) list \<Rightarrow>
   session_error + 'i list" where
  "create_instruments create [] = Inr []"
| "create_instruments create ((kind, name, unit, what) # specs) =
     (case create kind name unit of Inl e \<Rightarrow> Inl (CreateInstrument what e)
      | Inr i \<Rightarrow> (case create_instruments create specs of Inl e \<Rightarrow> Inl e | Inr is \<Rightarrow> Inr (i # is)))"

definition newInstruments ::
  "(instrument_kind \<Rightarrow> string \<Rightarrow> string \<Rightarrow> go_error + 'i) \<Rightarrow> session_error + 'i list" where
  "newInstruments create = create_instruments create instrument_specs"

definition newObserver ::
  "(instrument_kind \<Rightarrow> string \<Rightarrow> string \<Rightarrow> go_error + 'i) \<Rightarrow> ('q, 'c) cluster_config \<Rightarrow> (config \<Rightarrow> config) option list \<Rightarrow>
   session_error + observer" where
  "newObserver create cluster opts =
     (case newInstruments create of Inl e \<Rightarrow> Inl e
      | Inr _ \<Rightarrow>
          let c = newConfig opts; srv = contactPoint (Hosts cluster) (ClusterPort cluster)
          in Inr \<lparr>cfg = c, server = srv, poolName_of = pool_name (cfg_poolName c) srv (ClusterKeyspace cluster)\<rparr>)"

text \<open>The state \<^verbatim>\<open>NewSession\<close> works on: the caller's cluster configuration, the registry, and the observers
  allocated so far.\<close>

record ('q, 'c) session_state =
  cluster :: "('q, 'c) cluster_config option"
  sessions :: registry
  observers :: "observer list"

definition NewSession ::
  "(instrument_kind \<Rightarrow> string \<Rightarrow> string \<Rightarrow> go_error + 'i) \<Rightarrow> (('q, 'c) cluster_config \<Rightarrow> go_error + nat) \<Rightarrow>
   bool \<Rightarrow> bool \<Rightarrow> (config \<Rightarrow> config) option list \<Rightarrow> ('q, 'c) session_state \<Rightarrow>
   (session_error + nat) \<times> ('q, 'c) session_state" where
  "NewSession create CreateSession tp mp opts st =
     (case cluster st of None \<Rightarrow> (Inl NilCluster, st)
      | Some cl \<Rightarrow>
        if \<not> tp then (Inl NilTracerProvider, st)
        else if \<not> mp then (Inl NilMeterProvider, st)
        else case newObserver create cl opts of Inl e \<Rightarrow> (Inl e, st)
          | Inr obs \<Rightarrow>
            let ptr = length (observers st);
                origQuery = QueryObserver cl; origConnect = ConnectObserver cl;
                cl1 = cl\<lparr>QueryObserver := Some (chainQueryObserver origQuery ptr),
                         ConnectObserver := Some (chainConnectObserver origConnect ptr)\<rparr>;
                res = CreateSession cl1;
                cl2 = cl1\<lparr>QueryObserver := origQuery, ConnectObserver := origConnect\<rparr>;
                st2 = st\<lparr>cluster := Some cl2, observers := observers st @ [obs]\<rparr>
            in case res of Inl e \<Rightarrow> (Inl (CreateSessionFailed e), st2)
               | Inr session \<Rightarrow> (Inr session, st2\<lparr>sessions := registerSession (sessions st) session ptr\<rparr>))"

section \<open>What is emitted\<close>

lemma newConfig_attrs: "list_all (\<lambda>a. fst a \<notin> set reservedAttrKeys) (attrs (newConfig opts))"
  by (simp add: newConfig_def filterReservedAttrs_def Let_def list_all_iff list_ex_iff)

lemma appendServerAttrs_eq:
  "appendServerAttrs as srv = as @ when_set (srv_host srv \<noteq> []) ''server.address'' (StrV (srv_host srv)) @
     when_set (srv_host srv \<noteq> [] \<and> srv_port srv > 0) ''server.port'' (IntV (srv_port srv))"
  by (simp add: appendServerAttrs_def when_set_def)

definition metric_keys :: "string list" where
  "metric_keys = [''db.system.name'', ''db.operation.name'', ''db.namespace'', ''db.collection.name'', ''server.address'',
     ''server.port'', ''error.type'']"

definition base_keys :: "string list" where
  "base_keys = [''db.system.name'', ''db.operation.name'', ''db.namespace'', ''db.collection.name'', ''server.address'',
     ''server.port'', ''network.peer.address'', ''network.peer.port'', ''cassandra.coordinator.id'', ''cassandra.coordinator.dc'']"

lemma metricAttrs_keys: "subseq (keys (metricAttrs obs tgt srv err)) metric_keys"
  unfolding metricAttrs_def metric_keys_def appendServerAttrs_eq append_assoc append_Cons append_Nil
  by (intro key_order)

lemma baseAttrs_keys: "subseq (keys (baseAttrs obs tgt srv host)) base_keys"
proof (cases "host \<noteq> None \<and> hostAttributesEnabled (cfg obs)")
  case True
  then obtain h where "host = Some h" by auto
  with True show ?thesis
    unfolding baseAttrs_def base_keys_def appendServerAttrs_eq append_assoc append_Cons append_Nil
    by (simp only: option.case if_True) (intro key_order)
next
  case False
  then have "baseAttrs obs tgt srv host = baseAttrs obs tgt srv None" by (auto simp: baseAttrs_def split: option.splits)
  then show ?thesis
    unfolding baseAttrs_def base_keys_def appendServerAttrs_eq append_assoc append_Cons append_Nil
    by (simp only: option.case append_Nil2) (intro key_order)
qed

text \<open>The attributes the SDK adds to the base attributes of a query.\<close>

definition query_extra :: "observer \<Rightarrow> observed_query \<Rightarrow> key_value list" where
  "query_extra obs q =
     [(''db.response.returned_rows'', IntV (Rows q)), (''cassandra.query.attempt'', IntV (Attempt q))] @
     when_set (queryTextEnabled (cfg obs) \<and> Statement q \<noteq> []) ''db.query.text'' (StrV (Statement q)) @
     when_set (QErr q \<noteq> None) ''error.type'' (StrV (errorType (QErr q)))"

definition extra_keys :: "string list" where
  "extra_keys = [''db.response.returned_rows'', ''cassandra.query.attempt'', ''db.query.text'', ''error.type'']"

lemma query_extra_keys: "subseq (keys (query_extra obs q)) extra_keys"
  unfolding query_extra_def extra_keys_def append_Cons append_Nil by (intro key_order)

lemma query_extra_text:
  "last_value (query_extra obs q) ''db.query.text'' =
     (if queryTextEnabled (cfg obs) \<and> Statement q \<noteq> [] then Some (StrV (Statement q)) else None)"
  by (simp add: query_extra_def last_value_def when_set_def)

lemma own_keys: "distinct (base_keys @ extra_keys)" "set (base_keys @ extra_keys) \<subseteq> set reservedAttrKeys"
  by (simp_all add: base_keys_def extra_keys_def reservedAttrKeys_def)

text \<open>One callback of the driver emits one client span and two measurements.  Whatever options the
  application passed, the span's reserved attributes are the SDK's own: the application's attributes are
  kept apart from them, no reserved key occurs twice, and the statement text is there exactly when it was
  asked for.  The labels of the measurements come from a fixed set of keys, so neither the statement text
  nor an attribute of the application reaches a metric.\<close>

theorem query_telemetry_is_guarded:
  assumes "cfg obs = newConfig opts"
  shows "\<exists>sp n as. ObserveQuery U obs q =
      [Ended sp, Measured ''db.client.operation.duration'' n as, Measured ''cassandra.query.attempts'' 1 as] \<and>
    n = time_sub (QEnd q) (QStart q) \<and> distinct (keys as) \<and> set (keys as) \<subseteq> set metric_keys \<and>
    (\<exists>own. span_attrs sp = attrs (cfg obs) @ own \<and> distinct (keys own) \<and> set (keys own) \<subseteq> set reservedAttrKeys \<and>
       set (keys (attrs (cfg obs))) \<inter> set reservedAttrKeys = {} \<and>
       last_value (span_attrs sp) ''db.query.text'' =
         (if queryTextEnabled (cfg obs) \<and> Statement q \<noteq> [] then Some (StrV (Statement q)) else None)) \<and>
    (span_state sp = Unset \<longleftrightarrow> QErr q = None)"
proof -
  obtain op ks tbl where p: "parseStatement U (Statement q) = (op, ks, tbl)" by (cases "parseStatement U (Statement q)")
  let ?tgt = "\<lparr>operation = op, keyspace = (if ks = [] then QKeyspace q else ks), table = tbl\<rparr>"
  let ?srv = "queryServer obs (QHost q)"
  let ?base = "baseAttrs obs ?tgt ?srv (QHost q)"
  let ?own = "?base @ query_extra obs q"
  note base = baseAttrs_keys[of obs ?tgt ?srv "QHost q"]
  note order = key_order_append[OF base query_extra_keys[of obs q]]
  have own: "distinct (keys ?own)" "set (keys ?own) \<subseteq> set reservedAttrKeys"
    using subseq_distinctD[OF order own_keys(1)] subseq_subset[OF order] own_keys(2) by blast+
  have app: "set (keys (attrs (cfg obs))) \<inter> set reservedAttrKeys = {}"
    using newConfig_attrs[of opts] assms by (auto simp: list_all_iff)
  have "''db.query.text'' \<in> set reservedAttrKeys" "''db.query.text'' \<notin> set base_keys"
    by (simp_all add: reservedAttrKeys_def base_keys_def)
  then have "''db.query.text'' \<notin> set (keys ?base)" "''db.query.text'' \<notin> set (keys (attrs (cfg obs)))"
    using subseq_subset[OF base] app by blast+
  then have qtext: "last_value (attrs (cfg obs) @ ?own) ''db.query.text'' =
      (if queryTextEnabled (cfg obs) \<and> Statement q \<noteq> [] then Some (StrV (Statement q)) else None)"
    by (simp only: last_value_foreign query_extra_text not_False_eq_True)
  define M where "M = metricAttrs obs ?tgt ?srv (QErr q)"
  define sp where "sp = \<lparr>span_title = spanName op tbl, span_role = KindClient, span_start = QStart q, span_end = QEnd q,
      span_attrs = attrs (cfg obs) @ ?own, span_state = (case QErr q of None \<Rightarrow> Unset | Some e \<Rightarrow> Failed (err_text e)),
      span_errors = (case QErr q of None \<Rightarrow> [] | Some e \<Rightarrow> [(QEnd q, err_text e)])\<rparr>"
  have eq: "ObserveQuery U obs q =
      [Ended sp, Measured ''db.client.operation.duration'' (time_sub (QEnd q) (QStart q)) M,
       Measured ''cassandra.query.attempts'' 1 M]"
    by (simp add: ObserveQuery_def p observer_record_def query_extra_def Let_def M_def sp_def)
  have "subseq (keys M) metric_keys" unfolding M_def by (rule metricAttrs_keys)
  from subseq_distinctD[OF this] subseq_subset[OF this]
  have met: "distinct (keys M)" "set (keys M) \<subseteq> set metric_keys" by (simp_all add: metric_keys_def)
  have sp: "span_attrs sp = attrs (cfg obs) @ ?own" "span_state sp = Unset \<longleftrightarrow> QErr q = None"
    by (simp_all add: sp_def split: option.splits)
  show ?thesis
  proof (intro exI conjI)
    show "ObserveQuery U obs q = [Ended sp, Measured ''db.client.operation.duration'' (time_sub (QEnd q) (QStart q)) M,
       Measured ''cassandra.query.attempts'' 1 M]" by (rule eq)
    show "span_attrs sp = attrs (cfg obs) @ ?own" by (rule sp)
    show "distinct (keys ?own)" "set (keys ?own) \<subseteq> set reservedAttrKeys" by (rule own)+
    show "last_value (span_attrs sp) ''db.query.text'' =
      (if queryTextEnabled (cfg obs) \<and> Statement q \<noteq> [] then Some (StrV (Statement q)) else None)"
      unfolding sp(1) by (rule qtext)
  qed (rule refl met app sp)+
qed

definition demo_observer :: observer where
  "demo_observer = \<lparr>cfg = newConfig [Some (WithAttributes [(''db.system.name'', StrV ''x''), (''team'', StrV ''a'')]),
     Some (WithQueryText True), None], server = \<lparr>srv_host = ''c1'', srv_port = 9042\<rparr>, poolName_of = ''p''\<rparr>"

definition demo_query :: observed_query where
  "demo_query = \<lparr>Statement = ''SELECT id FROM ks.rooms'', QKeyspace = ''main'', QHost = None, Rows = 1, Attempt = 0, QStart = 0,
     QEnd = 5, QErr = None\<rparr>"

theorem query_telemetry_is_guarded_witness:
  "cfg demo_observer = newConfig [Some (WithAttributes [(''db.system.name'', StrV ''x''), (''team'', StrV ''a'')]),
     Some (WithQueryText True), None] \<and>
   (\<exists>sp n as. ObserveQuery ascii_tables demo_observer demo_query =
      [Ended sp, Measured ''db.client.operation.duration'' n as, Measured ''cassandra.query.attempts'' 1 as] \<and>
      n = 5 \<and> last_value (span_attrs sp) ''db.query.text'' = Some (StrV ''SELECT id FROM ks.rooms''))"
proof -
  have c: "cfg demo_observer = newConfig [Some (WithAttributes [(''db.system.name'', StrV ''x''), (''team'', StrV ''a'')]),
     Some (WithQueryText True), None]" by (simp add: demo_observer_def)
  have "time_sub (QEnd demo_query) (QStart demo_query) = 5" "Statement demo_query = ''SELECT id FROM ks.rooms''"
    by (simp_all add: demo_query_def time_sub_def min_int64_def max_int64_def)
  moreover have "queryTextEnabled (cfg demo_observer)" by code_simp
  ultimately show ?thesis
    using c query_telemetry_is_guarded[OF c, of ascii_tables demo_query] by force
qed

section \<open>The targets of a batch\<close>

text \<open>What each statement of a batch addresses, the session's keyspace standing in for a missing
  qualifier.\<close>

definition address_of :: "unicode \<Rightarrow> string \<Rightarrow> string \<Rightarrow> string \<times> string" where
  "address_of U session stmt =
     (let (_, ks, tbl) = parseStatement U stmt in (if ks = [] then session else ks, tbl))"

definition addressed :: "unicode \<Rightarrow> batch \<Rightarrow> (string \<times> string) list" where
  "addressed U b = map (address_of U (BKeyspace b)) (Entries b)"

lemma address_of_no_dot: "CHR ''.'' \<notin> set (snd (address_of U session stmt))"
  by (cases "parseStatement U stmt") (simp add: address_of_def parseStatement_no_dot)

lemma resolve_entry_eq:
  "resolve_entry U session stmt r =
     resolve_table (fst (address_of U session stmt)) (snd (address_of U session stmt))
       (resolve_ns (fst (address_of U session stmt)) r)"
  by (cases "parseStatement U stmt") (simp add: resolve_entry_def address_of_def)

text \<open>The value all elements agree on, if there is one and it is not empty.\<close>

definition agreed :: "string list \<Rightarrow> string" where
  "agreed xs = (if xs \<noteq> [] \<and> list_all (\<lambda>x. x = hd xs) xs then hd xs else [])"

lemma qualified_key_inj:
  "CHR ''.'' \<notin> set t \<Longrightarrow> CHR ''.'' \<notin> set u \<Longrightarrow> ks @ ''.'' @ t = ls @ ''.'' @ u \<longleftrightarrow> ks = ls \<and> t = u"
  using append_sep_inj[of "CHR ''.''" "rev t" "rev u" "rev ks" "rev ls"]
  by (metis append_Cons append_Nil append_assoc rev.simps(2) rev_append rev_rev_ident set_rev)

text \<open>The invariant of the loop: the state describes the statements seen so far.\<close>

definition same_ns :: "(string \<times> string) list \<Rightarrow> bool" where
  "same_ns xs \<longleftrightarrow> list_all (\<lambda>x. fst x = fst (hd xs) \<and> fst x \<noteq> []) xs"

definition same_table :: "(string \<times> string) list \<Rightarrow> bool" where
  "same_table xs \<longleftrightarrow> list_all (\<lambda>x. x = hd xs \<and> snd x \<noteq> []) xs"

lemma same_snoc:
  "same_ns (xs @ [x]) \<longleftrightarrow> same_ns xs \<and> fst x \<noteq> [] \<and> (xs = [] \<or> fst x = fst (hd xs))"
  "same_table (xs @ [x]) \<longleftrightarrow> same_table xs \<and> snd x \<noteq> [] \<and> (xs = [] \<or> x = hd xs)"
  by (cases xs; auto simp: same_ns_def same_table_def)+

definition resolves_ns :: "(string \<times> string) list \<Rightarrow> resolution \<Rightarrow> bool" where
  "resolves_ns xs r \<longleftrightarrow> nsConflict r = (\<not> same_ns xs) \<and> resolvedNS r = (if same_ns xs \<and> xs \<noteq> [] then fst (hd xs) else [])"

definition resolves_table :: "(string \<times> string) list \<Rightarrow> resolution \<Rightarrow> bool" where
  "resolves_table xs r \<longleftrightarrow> tblConflict r = (\<not> same_table xs) \<and>
     resolvedTbl r = (if same_table xs \<and> xs \<noteq> [] then snd (hd xs) else []) \<and>
     (\<not> same_table xs \<or> resolvedKey r = (if xs = [] then [] else fst (hd xs) @ ''.'' @ snd (hd xs)))"

lemma same_hd:
  "same_ns xs \<Longrightarrow> xs \<noteq> [] \<Longrightarrow> fst (hd xs) \<noteq> []" "same_table xs \<Longrightarrow> xs \<noteq> [] \<Longrightarrow> snd (hd xs) \<noteq> []"
  by (cases xs; simp add: same_ns_def same_table_def)+

lemma resolve_frame [simp]:
  "resolves_ns xs (resolve_table ks tbl r) = resolves_ns xs r"
  "resolves_table xs (resolve_ns ks r) = resolves_table xs r"
  by (simp_all add: resolves_ns_def resolves_table_def resolve_table_def resolve_ns_def Let_def)

lemma resolve_ns_step: "resolves_ns xs r \<Longrightarrow> resolves_ns (xs @ [x]) (resolve_ns (fst x) r)"
  using same_hd(1)[of xs]
  by (cases "same_ns xs"; cases "xs = []") (simp_all add: resolves_ns_def resolve_ns_def same_snoc same_ns_def)

lemma resolve_table_step:
  assumes "resolves_table xs r" "CHR ''.'' \<notin> set (snd x)" "list_all (\<lambda>y. CHR ''.'' \<notin> set (snd y)) xs"
  shows "resolves_table (xs @ [x]) (resolve_table (fst x) (snd x) r)"
proof (cases "same_table xs \<and> xs \<noteq> []")
  case True
  then have "fst (hd xs) @ ''.'' @ snd (hd xs) = fst x @ ''.'' @ snd x \<longleftrightarrow> hd xs = x"
    using qualified_key_inj[of "snd (hd xs)" "snd x" "fst (hd xs)" "fst x"] assms(2,3)
    by (cases xs) (auto simp: prod_eq_iff)
  with True assms(1) same_hd(2)[of xs] show ?thesis
    by (auto simp: resolves_table_def resolve_table_def same_snoc Let_def)
next
  case False
  then show ?thesis using assms(1)
    by (cases "xs = []") (simp_all add: resolves_table_def resolve_table_def same_snoc same_table_def Let_def)
qed

definition unresolved :: resolution where
  "unresolved = \<lparr>resolvedNS = [], nsConflict = False, resolvedTbl = [], resolvedKey = [], tblConflict = False\<rparr>"

lemma resolves_fold:
  "resolves_ns (map (address_of U session) es) (fold (resolve_entry U session) es unresolved)"
  "resolves_table (map (address_of U session) es) (fold (resolve_entry U session) es unresolved)"
proof (induction es rule: rev_induct)
  case Nil
  show "resolves_ns (map (address_of U session) []) (fold (resolve_entry U session) [] unresolved)"
    "resolves_table (map (address_of U session) []) (fold (resolve_entry U session) [] unresolved)"
    by (simp_all add: resolves_ns_def resolves_table_def unresolved_def same_ns_def same_table_def)
next
  case (snoc e es)
  have "list_all (\<lambda>y. CHR ''.'' \<notin> set (snd y)) (map (address_of U session) es)"
    by (simp add: list_all_iff address_of_no_dot)
  with snoc.IH address_of_no_dot[of U session e]
  show "resolves_ns (map (address_of U session) (es @ [e])) (fold (resolve_entry U session) (es @ [e]) unresolved)"
    "resolves_table (map (address_of U session) (es @ [e])) (fold (resolve_entry U session) (es @ [e]) unresolved)"
    by (simp_all add: resolve_entry_eq[of U session e] resolve_ns_step resolve_table_step)
qed

text \<open>A batch is reported under a keyspace or table exactly when all its statements address that one:
  the table only when keyspace and table agree in every statement, the namespace only when every
  statement has one and all are equal; an empty batch is reported under the session's keyspace.\<close>

lemma batch_target_iff_all_agree:
  "batchTargets U b =
     (if Entries b = [] then BKeyspace b else agreed (map fst (addressed U b)),
      snd (if list_all (\<lambda>x. x = hd (addressed U b)) (addressed U b) \<and> Entries b \<noteq> [] then hd (addressed U b) else ([], [])))"
proof (cases "Entries b")
  case Nil
  then show ?thesis by (simp add: batchTargets_def)
next
  case (Cons e es)
  then have ne: "addressed U b \<noteq> []" by (simp add: addressed_def)
  have ns: "(if same_ns (addressed U b) then fst (hd (addressed U b)) else []) = agreed (map fst (addressed U b))"
    using ne by (cases "addressed U b") (auto simp: same_ns_def agreed_def list_all_iff)
  have tbl: "(if same_table (addressed U b) then snd (hd (addressed U b)) else []) =
      snd (if list_all (\<lambda>x. x = hd (addressed U b)) (addressed U b) then hd (addressed U b) else ([], []))"
    using ne by (cases "addressed U b") (auto simp: same_table_def list_all_iff)
  let ?r = "fold (resolve_entry U (BKeyspace b)) (Entries b) unresolved"
  have "resolvedNS ?r = agreed (map fst (addressed U b))" "nsConflict ?r = (\<not> same_ns (addressed U b))"
    "resolvedTbl ?r = snd (if list_all (\<lambda>x. x = hd (addressed U b)) (addressed U b) then hd (addressed U b) else ([], []))"
    using resolves_fold[of U "BKeyspace b" "Entries b", folded addressed_def] ne
    unfolding ns[symmetric] tbl[symmetric] resolves_ns_def resolves_table_def by simp_all
  moreover have "agreed (map fst (addressed U b)) \<noteq> []" if "same_ns (addressed U b)"
    using that same_hd(1)[OF that ne] unfolding ns[symmetric] by simp
  ultimately show ?thesis
    using Cons unfolding batchTargets_def unresolved_def[symmetric] Let_def by (cases "same_ns (addressed U b)") simp_all
qed

section \<open>Sessions and their observers\<close>

datatype registry_op = Register nat nat | Cleanup nat nat

fun registry_step :: "registry_op \<Rightarrow> registry \<Rightarrow> registry" where
  "registry_step (Register key obs) m = registerSession m key obs"
| "registry_step (Cleanup key prev) m = session_cleanup m key prev"

lemma map_of_delete: "map_of (AList.delete k m) k' = (if k = k' then None else map_of m k')"
  by (simp add: AList.delete_conv)

lemma registry_step_other:
  "op \<noteq> Cleanup key obs \<Longrightarrow> \<forall>o'. op \<noteq> Register key o' \<Longrightarrow> map_of m key = Some obs \<Longrightarrow>
   map_of (registry_step op m) key = Some obs"
  by (cases op) (auto simp: registerSession_def session_cleanup_def map_of_delete update_conv)

lemma registry_keeps:
  "map_of m key = Some obs \<Longrightarrow> Cleanup key obs \<notin> set ops \<Longrightarrow> \<forall>o'. Register key o' \<notin> set ops \<Longrightarrow>
   map_of (fold registry_step ops m) key = Some obs"
proof (induction ops arbitrary: m)
  case (Cons op ops)
  then show ?case using registry_step_other[of op key obs m] by fastforce
qed simp

text \<open>The driver may reuse the address of a session that was garbage collected, and the cleanup of the
  old session may run after the new one registered.  Whatever cleanups of other sessions and observers
  run, a registered session keeps its observer until its own cleanup, and the cleanup then removes it:
  nothing is evicted early and nothing leaks.\<close>

theorem recycled_address_keeps_observer:
  assumes "\<forall>o'. Register key o' \<notin> set ops" "Cleanup key obs \<notin> set ops"
  shows "lookupObserver (fold registry_step (Register key obs # ops) m) key = Some obs \<and>
    lookupObserver (fold registry_step (Register key obs # ops @ [Cleanup key obs]) m) key = None"
proof -
  have "map_of (registerSession m key obs) key = Some obs" by (simp add: registerSession_def update_conv)
  from registry_keeps[OF this assms(2,1)] show ?thesis
    by (simp add: lookupObserver_def session_cleanup_def map_of_delete)
qed

theorem recycled_address_keeps_observer_witness:
  "lookupObserver (fold registry_step [Register 7 2, Cleanup 7 1] [(7, 1)]) 7 = Some 2"
  using recycled_address_keeps_observer[of 7 "[Cleanup 7 1]" 2 "[(7, 1)]"] by simp

text \<open>Creating a session leaves the caller's cluster configuration as it was, whether or not the driver
  fails, while the driver itself sees observers that run the application's own first and the SDK's after
  it; the registry changes only on success, and then the new session finds its observer.\<close>

theorem NewSession_restores_the_cluster:
  "cluster (snd (NewSession create CreateSession tp mp opts st)) = cluster st \<and>
   (case fst (NewSession create CreateSession tp mp opts st) of
      Inl e \<Rightarrow> sessions (snd (NewSession create CreateSession tp mp opts st)) = sessions st
    | Inr session \<Rightarrow> \<exists>cl qo co.
        cluster st = Some cl \<and> CreateSession (cl\<lparr>QueryObserver := Some qo, ConnectObserver := Some co\<rparr>) = Inr session \<and>
        lookupObserver (sessions (snd (NewSession create CreateSession tp mp opts st))) session = Some (length (observers st)) \<and>
        run_observer app sdk qo q =
          (case QueryObserver cl of None \<Rightarrow> [] | Some e \<Rightarrow> run_observer app sdk e q) @ sdk (length (observers st)) q \<and>
        run_observer app' sdk' co c =
          (case ConnectObserver cl of None \<Rightarrow> [] | Some e \<Rightarrow> run_observer app' sdk' e c) @ sdk' (length (observers st)) c)"
proof (cases "\<exists>cl obs. cluster st = Some cl \<and> tp \<and> mp \<and> newObserver create cl opts = Inr obs")
  case True
  then obtain cl obs where c: "cluster st = Some cl" "tp" "mp" "newObserver create cl opts = Inr obs" by blast
  let ?cl = "cl\<lparr>QueryObserver := Some (chainQueryObserver (QueryObserver cl) (length (observers st))),
      ConnectObserver := Some (chainConnectObserver (ConnectObserver cl) (length (observers st)))\<rparr>"
  have restore: "?cl\<lparr>QueryObserver := QueryObserver cl, ConnectObserver := ConnectObserver cl\<rparr> = cl" by simp
  show ?thesis
  proof (cases "CreateSession ?cl")
    case (Inl e)
    then show ?thesis using c restore by (simp add: NewSession_def Let_def)
  next
    case (Inr session)
    have chains: "run_observer app sdk (chainQueryObserver (QueryObserver cl) (length (observers st))) q =
        (case QueryObserver cl of None \<Rightarrow> [] | Some e \<Rightarrow> run_observer app sdk e q) @ sdk (length (observers st)) q"
      "run_observer app' sdk' (chainConnectObserver (ConnectObserver cl) (length (observers st))) c =
        (case ConnectObserver cl of None \<Rightarrow> [] | Some e \<Rightarrow> run_observer app' sdk' e c) @ sdk' (length (observers st)) c"
      by (simp_all add: chainQueryObserver_def chainConnectObserver_def split: option.splits)
    from Inr c chains show ?thesis
      by (auto simp: NewSession_def Let_def lookupObserver_def registerSession_def update_conv)
  qed
next
  case False
  then show ?thesis
    by (cases "cluster st"; cases "newObserver create (the (cluster st)) opts") (auto simp: NewSession_def)
qed

end
