(* ===== verification/MongoClient.thy ===== *)
theory MongoClient
  imports PoolMetrics Connid
begin

text \<open>
  The MongoDB client integration (\<^verbatim>\<open>mongo/client.go\<close>, and the constructor of the pool monitor in \<^verbatim>\<open>mongo/pool_metrics.go\<close>): command and pool
  monitors, their composition with those the application installed, the normalisation of connection identifiers, span names, and
  \<^verbatim>\<open>Instrument\<close> and \<^verbatim>\<open>Connect\<close>.

  A callback acts on a world: the pool tracker the package installs, and whatever the application and \<^verbatim>\<open>otelmongo\<close> keep, which are parameters.
\<close>

section \<open>Events and monitors\<close>

record command_event =
  ConnectionID :: string
  RequestID :: int
  CommandName :: string

datatype bson_value = BsonString string | BsonOther

text \<open>A started event has the command document: its first element, if it has one, with the key and value that decode.\<close>

record started_event = command_event +
  command_head :: "(string option \<times> bson_value option) option"

record 'w world =
  w_tracker :: tracker
  w_rest :: 'w

type_synonym ('e, 'w) callback = "nat \<Rightarrow> 'e option \<Rightarrow> 'w world \<Rightarrow> 'w world"

record 'w command_monitor =
  Started :: "(started_event, 'w) callback option"
  Succeeded :: "(command_event, 'w) callback option"
  CommandFailed :: "(command_event, 'w) callback option"

record 'w pool_monitor =
  PoolEventFn :: "(pool_event option \<Rightarrow> 'w world \<Rightarrow> 'w world) option"

text \<open>The callback a driver runs: none when the field is nil.\<close>

definition run_hook :: "('e, 'w) callback option \<Rightarrow> ('e, 'w) callback" where
  "run_hook f ctx evt w = (case f of Some g \<Rightarrow> g ctx evt w | None \<Rightarrow> w)"

definition normalized_id :: "'a command_event_scheme option \<Rightarrow> 'a command_event_scheme option" where
  "normalized_id evt = (case evt of None \<Rightarrow> None
     | Some e \<Rightarrow> let cid = normalizeConnectionID (ConnectionID e) in
         if cid \<noteq> ConnectionID e then Some (e\<lparr>ConnectionID := cid\<rparr>) else Some e)"

definition withNormalizedConnectionIDs :: "'w command_monitor option \<Rightarrow> 'w command_monitor option" where
  "withNormalizedConnectionIDs inner = map_option (\<lambda>m.
     \<lparr>Started = map_option (\<lambda>f ctx evt. f ctx (normalized_id evt)) (Started m),
      Succeeded = map_option (\<lambda>f ctx evt. f ctx (normalized_id evt)) (Succeeded m),
      CommandFailed = map_option (\<lambda>f ctx evt. f ctx (normalized_id evt)) (CommandFailed m)\<rparr>) inner"

definition composeCommandMonitors :: "'w command_monitor option \<Rightarrow> 'w command_monitor option \<Rightarrow> 'w command_monitor option" where
  "composeCommandMonitors first second = (case (first, second) of
     (None, _) \<Rightarrow> second
   | (_, None) \<Rightarrow> first
   | (Some a, Some b) \<Rightarrow> Some
       \<lparr>Started = Some (\<lambda>ctx evt w. run_hook (Started b) ctx evt (run_hook (Started a) ctx evt w)),
        Succeeded = Some (\<lambda>ctx evt w. run_hook (Succeeded b) ctx evt (run_hook (Succeeded a) ctx evt w)),
        CommandFailed = Some (\<lambda>ctx evt w. run_hook (CommandFailed b) ctx evt (run_hook (CommandFailed a) ctx evt w))\<rparr>)"

definition run_pool :: "'w pool_monitor option \<Rightarrow> pool_event option \<Rightarrow> 'w world \<Rightarrow> 'w world" where
  "run_pool m evt w = (case Option.bind m PoolEventFn of Some f \<Rightarrow> f evt w | None \<Rightarrow> w)"

definition composePoolMonitors :: "'w pool_monitor option \<Rightarrow> 'w pool_monitor option \<Rightarrow> 'w pool_monitor option" where
  "composePoolMonitors first second = (case (first, second) of
     (None, _) \<Rightarrow> second
   | (_, None) \<Rightarrow> first
   | (Some a, Some b) \<Rightarrow> Some \<lparr>PoolEventFn = Some (\<lambda>evt w. run_pool (Some b) evt (run_pool (Some a) evt w))\<rparr>)"

section \<open>Span names\<close>

definition commandCollection :: "started_event \<Rightarrow> string" where
  "commandCollection evt = (case command_head evt of None \<Rightarrow> []
     | Some (key, val) \<Rightarrow>
       if key \<noteq> Some (CommandName evt) then []
       else (case val of Some (BsonString s) \<Rightarrow> s | _ \<Rightarrow> []))"

definition mongo_spanName :: "started_event option \<Rightarrow> string" where
  "mongo_spanName evt = (case evt of None \<Rightarrow> ''mongodb''
     | Some e \<Rightarrow>
       let collection = commandCollection e in
       if collection \<noteq> [] then ''mongodb.'' @ CommandName e @ '' '' @ collection else ''mongodb.'' @ CommandName e)"

section \<open>Instrumenting a client\<close>

definition mongo_WithPoolName :: "string \<Rightarrow> string \<Rightarrow> string" where
  "mongo_WithPoolName name cfg = trim_space name"

text \<open>The configuration is the pool name.\<close>

definition mongo_newConfig :: "(string \<Rightarrow> string) option list \<Rightarrow> string" where
  "mongo_newConfig opts = foldl (\<lambda>cfg opt. case opt of Some f \<Rightarrow> f cfg | None \<Rightarrow> cfg) [] opts"

definition mongo_instruments :: "(string \<times> string) list" where
  "mongo_instruments =
     [(''db.client.connection.count'', ''create connection count up-down counter: ''),
      (''db.client.connection.idle.min'', ''create idle min up-down counter: ''),
      (''db.client.connection.max'', ''create max up-down counter: ''),
      (''db.client.connection.pending_requests'', ''create pending requests up-down counter: ''),
      (''db.client.connection.timeouts'', ''create timeouts counter: ''),
      (''db.client.connection.create_time'', ''create connection create_time histogram: '')]"

fun first_failure :: "(string \<Rightarrow> string option) \<Rightarrow> (string \<times> string) list \<Rightarrow> string option" where
  "first_failure meter [] = None"
| "first_failure meter ((name, what) # rest) = (case meter name of Some err \<Rightarrow> Some (what @ err) | None \<Rightarrow> first_failure meter rest)"

definition mongo_newPoolMetrics :: "(string \<Rightarrow> string option) \<Rightarrow> string option" where
  "mongo_newPoolMetrics meter = first_failure meter mongo_instruments"

text \<open>The sequence number is a 64-bit counter of the process.\<close>

definition format_seq :: "64 word \<Rightarrow> string" where
  "format_seq n = dec_digits (unat n)"

definition defaultPoolName :: "string list \<Rightarrow> string \<Rightarrow> 64 word \<Rightarrow> string \<times> 64 word" where
  "defaultPoolName hosts override counter =
     (if override \<noteq> [] then (override, counter)
      else let seq = counter + 1 in
        (case hosts of
           h # _ \<Rightarrow>
             let parsed = parseAddress h in
             if pa_host parsed \<noteq> [] then ''mongo-'' @ pa_host parsed @ ''-'' @ format_seq seq else ''mongo-'' @ format_seq seq
         | [] \<Rightarrow> ''mongo-'' @ format_seq seq, seq))"

record 'w client_opts =
  Hosts :: "string list"
  Monitor :: "'w command_monitor option"
  PoolMonitor :: "'w pool_monitor option"

definition track_pool :: "'w pool_monitor" where
  "track_pool = \<lparr>PoolEventFn = Some (\<lambda>evt w. w\<lparr>w_tracker := handle (w_tracker w) evt\<rparr>)\<rparr>"

definition newPoolMonitor :: "string list \<Rightarrow> (string \<Rightarrow> string option) \<Rightarrow> string \<Rightarrow> 64 word \<Rightarrow> string + tracker \<times> 64 word" where
  "newPoolMonitor hosts meter poolName counter = (case mongo_newPoolMetrics meter of
     Some err \<Rightarrow> Inl (''create MongoDB pool metrics: '' @ err)
   | None \<Rightarrow> (case defaultPoolName hosts poolName counter of (name, counter') \<Rightarrow> Inr (new_tracker name, counter')))"

text \<open>\<open>otel\<close> is the monitor \<^verbatim>\<open>otelmongo\<close> returns for the two providers.\<close>

definition NewMonitor :: "'w command_monitor \<Rightarrow> 'w command_monitor option" where
  "NewMonitor otel = withNormalizedConnectionIDs (Some otel)"

record ('w) mongo_env =
  env_tpNil :: bool
  env_meter :: "(string \<Rightarrow> string option) option"
  env_propNil :: bool
  env_otel :: "'w command_monitor"

text \<open>What instrumenting yields: an error, or the options with both monitors installed, the tracker behind them and the counter.\<close>

definition Instrument ::
  "'w mongo_env \<Rightarrow> 'w client_opts option \<Rightarrow> (string \<Rightarrow> string) option list \<Rightarrow> 64 word \<Rightarrow> string + 'w client_opts \<times> tracker \<times> 64 word" where
  "Instrument env opts instrumentOpts counter = (case opts of None \<Rightarrow> Inl ''client options must not be nil''
     | Some o' \<Rightarrow>
       if env_tpNil env then Inl ''tracer provider must not be nil''
       else case env_meter env of None \<Rightarrow> Inl ''meter provider must not be nil''
         | Some meter \<Rightarrow>
           if env_propNil env then Inl ''propagator must not be nil''
           else case newPoolMonitor (Hosts o') meter (mongo_newConfig instrumentOpts) counter of
               Inl err \<Rightarrow> Inl err
             | Inr (tr, counter') \<Rightarrow>
               Inr (o'\<lparr>Monitor := composeCommandMonitors (Monitor o') (NewMonitor (env_otel env)),
                       PoolMonitor := composePoolMonitors (PoolMonitor o') (Some track_pool)\<rparr>, tr, counter'))"

text \<open>The context is nil, done with an error, or alive.  The driver builds the options from the URI and connects; when it fails the tracker is cleaned up.\<close>

definition mongo_Connect ::
  "'w mongo_env \<Rightarrow> (string \<Rightarrow> 'w client_opts) \<Rightarrow> ('w client_opts \<Rightarrow> string + 'c) \<Rightarrow> string option option \<Rightarrow> string \<Rightarrow> (string \<Rightarrow> string) option list \<Rightarrow> 64 word \<Rightarrow>
     (string + 'c) \<times> tracker option" where
  "mongo_Connect env apply_uri connect ctx uri opts counter = (case ctx of
     None \<Rightarrow> (Inl ''mongo connect: context must not be nil'', None)
   | Some (Some err) \<Rightarrow> (Inl (''mongo connect: context already canceled: '' @ err), None)
   | Some None \<Rightarrow>
     if uri = [] then (Inl ''mongo connect: uri must not be empty'', None)
     else case Instrument env (Some (apply_uri uri)) opts counter of
         Inl err \<Rightarrow> (Inl (''mongo connect: '' @ err), None)
       | Inr (clientOptions, tr, counter') \<Rightarrow>
         (case connect clientOptions of
            Inl err \<Rightarrow> (Inl (''mongo connect: '' @ err), Some (cleanup tr))
          | Inr client \<Rightarrow> (Inr client, Some tr)))"

section \<open>What the monitors see\<close>

lemma normalized_id_eq: "normalized_id (Some e) = Some (e\<lparr>ConnectionID := normalizeConnectionID (ConnectionID e)\<rparr>)"
  by (simp add: normalized_id_def Let_def)

lemma run_composed:
  "(case composeCommandMonitors (Some a) (Some b) of Some m \<Rightarrow> run_hook (Started m) ctx evt w | None \<Rightarrow> w) =
     run_hook (Started b) ctx evt (run_hook (Started a) ctx evt w)"
  by (simp add: composeCommandMonitors_def run_hook_def)

lemma run_normalized: "run_hook (map_option (\<lambda>f ctx evt. f ctx (normalized_id evt)) f) ctx evt w = run_hook f ctx (normalized_id evt) w"
  by (cases f) (simp_all add: run_hook_def)

lemma run_pool_composed: "run_pool (composePoolMonitors first (Some track_pool)) evt w =
    (let w' = run_pool first evt w in w'\<lparr>w_tracker := handle (w_tracker w') evt\<rparr>)"
  by (cases first) (simp_all add: composePoolMonitors_def run_pool_def track_pool_def Let_def)

definition installed_started :: "'w client_opts \<Rightarrow> (started_event, 'w) callback" where
  "installed_started o' = run_hook (Option.bind (Monitor o') Started)"

definition installed_succeeded :: "'w client_opts \<Rightarrow> (command_event, 'w) callback" where
  "installed_succeeded o' = run_hook (Option.bind (Monitor o') Succeeded)"

definition installed_failed :: "'w client_opts \<Rightarrow> (command_event, 'w) callback" where
  "installed_failed o' = run_hook (Option.bind (Monitor o') CommandFailed)"

lemmas installed_defs = installed_started_def installed_succeeded_def installed_failed_def

text \<open>On instrumented options every command event reaches the monitor the application had installed unchanged and first, and then the
  OpenTelemetry monitor with the address in place of the connection identifier and nothing else changed; every pool event reaches the
  application's pool monitor and then the tracker.  Hosts are left alone, and a failure of instrumenting installs nothing.\<close>

theorem instrumented_monitors_compose:
  assumes "Instrument env (Some o') opts counter = Inr (o'', tr, counter')"
  shows "Hosts o'' = Hosts o' \<and>
    (\<forall>e. installed_started o'' ctx (Some e) w =
       run_hook (Started (env_otel env)) ctx (Some (e\<lparr>ConnectionID := normalizeConnectionID (ConnectionID e)\<rparr>)) (installed_started o' ctx (Some e) w)) \<and>
    (\<forall>e. installed_succeeded o'' ctx (Some e) w =
       run_hook (Succeeded (env_otel env)) ctx (Some (e\<lparr>ConnectionID := normalizeConnectionID (ConnectionID e)\<rparr>)) (installed_succeeded o' ctx (Some e) w)) \<and>
    (\<forall>e. installed_failed o'' ctx (Some e) w =
       run_hook (CommandFailed (env_otel env)) ctx (Some (e\<lparr>ConnectionID := normalizeConnectionID (ConnectionID e)\<rparr>)) (installed_failed o' ctx (Some e) w)) \<and>
    (\<forall>e. run_pool (PoolMonitor o'') e w =
       (let w' = run_pool (PoolMonitor o') e w in w'\<lparr>w_tracker := handle (w_tracker w') e\<rparr>))"
proof -
  from assms have o'': "o'' = o'\<lparr>Monitor := composeCommandMonitors (Monitor o') (NewMonitor (env_otel env)),
      PoolMonitor := composePoolMonitors (PoolMonitor o') (Some track_pool)\<rparr>"
    by (auto simp: Instrument_def split: if_splits option.splits sum.splits)
  obtain a b c where m: "NewMonitor (env_otel env) = Some \<lparr>Started = a, Succeeded = b, CommandFailed = c\<rparr>"
      "a = map_option (\<lambda>f ctx evt. f ctx (normalized_id evt)) (Started (env_otel env))"
      "b = map_option (\<lambda>f ctx evt. f ctx (normalized_id evt)) (Succeeded (env_otel env))"
      "c = map_option (\<lambda>f ctx evt. f ctx (normalized_id evt)) (CommandFailed (env_otel env))"
    by (simp add: NewMonitor_def withNormalizedConnectionIDs_def)
  have hooks: "run_hook a ctx evt w = run_hook (Started (env_otel env)) ctx (normalized_id evt) w"
      "run_hook b ctx evt' w = run_hook (Succeeded (env_otel env)) ctx (normalized_id evt') w"
      "run_hook c ctx evt' w = run_hook (CommandFailed (env_otel env)) ctx (normalized_id evt') w" for ctx evt evt' w
    unfolding m by (rule run_normalized)+
  show ?thesis
    by (cases "Monitor o'")
      (simp_all add: o'' m(1) installed_defs composeCommandMonitors_def run_hook_def[of "Some _"] run_hook_def[of None] hooks normalized_id_eq run_pool_composed)
qed

definition demo_mongo :: "nat list mongo_env" where
  "demo_mongo = \<lparr>env_tpNil = False, env_meter = Some (\<lambda>_. None), env_propNil = False,
     env_otel = \<lparr>Started = Some (\<lambda>ctx e w. w\<lparr>w_rest := ctx # w_rest w\<rparr>), Succeeded = None, CommandFailed = None\<rparr>\<rparr>"

definition demo_client :: "nat list client_opts" where
  "demo_client = \<lparr>Hosts = [], Monitor = None, PoolMonitor = None\<rparr>"

theorem instrumented_monitors_compose_witness:
  "\<exists>o'' tr n. Instrument demo_mongo (Some demo_client) [] 0 = Inr (o'', tr, n) \<and> Hosts o'' = []"
proof -
  have "newPoolMonitor [] (\<lambda>_. None) [] 0 = Inr (new_tracker (fst (defaultPoolName [] [] 0)), snd (defaultPoolName [] [] 0))"
    by (simp add: newPoolMonitor_def mongo_newPoolMetrics_def mongo_instruments_def split: prod.split)
  then have "\<exists>o'' tr n. Instrument demo_mongo (Some demo_client) [] 0 = Inr (o'', tr, n)"
    by (simp add: Instrument_def demo_mongo_def demo_client_def mongo_newConfig_def)
  then obtain o'' tr n where i: "Instrument demo_mongo (Some demo_client) [] 0 = Inr (o'', tr, n)" by blast
  with instrumented_monitors_compose[OF i] show ?thesis by (simp add: demo_client_def)
qed

section \<open>Default pool names\<close>

lemma last_dash_inj:
  assumes "a @ CHR ''-'' # b = c @ CHR ''-'' # d" "CHR ''-'' \<notin> set b" "CHR ''-'' \<notin> set d"
  shows "b = d"
proof -
  have "last_index_byte (a @ [CHR ''-''] @ b) CHR ''-'' = Some (length a)" "last_index_byte (c @ [CHR ''-''] @ d) CHR ''-'' = Some (length c)"
    using last_index_byte_append[of "CHR ''-''" b a] last_index_byte_append[of "CHR ''-''" d c] assms(2,3) by auto
  with assms(1) show ?thesis by simp
qed

lemma format_seq_no_dash: "CHR ''-'' \<notin> set (format_seq n)"
  using dec_digits_digit by (fastforce simp: format_seq_def is_digit_def)

lemma format_seq_inj: "format_seq m = format_seq n \<Longrightarrow> m = n"
  using dec_digits_value by (metis format_seq_def nat_int option.inject unsigned_word_eqI)

text \<open>Two clients that are given no pool name get different ones, whatever their hosts are, unless \<open>2\<^sup>6\<^sup>4\<close> names were drawn between them.\<close>

theorem default_pool_names_differ:
  assumes "defaultPoolName hosts [] m = (name, m')" "defaultPoolName hosts' [] n = (name', n')" "m \<noteq> n"
  shows "name \<noteq> name'"
proof -
  have shape: "\<exists>pre. fst (defaultPoolName hosts [] m) = pre @ CHR ''-'' # format_seq (m + 1)" for hosts m
    by (cases hosts) (auto simp: defaultPoolName_def Let_def intro: exI[of _ "''mongo''"] exI[of _ "''mongo-'' @ _"])
  obtain p where p: "name = p @ CHR ''-'' # format_seq (m + 1)" using shape[of hosts m] assms(1) by auto
  obtain q where q: "name' = q @ CHR ''-'' # format_seq (n + 1)" using shape[of hosts' n] assms(2) by auto
  show ?thesis
  proof
    assume "name = name'"
    then have "format_seq (m + 1) = format_seq (n + 1)"
      using last_dash_inj[of p _ q] p q format_seq_no_dash by blast
    then show False using format_seq_inj assms(3) by fastforce
  qed
qed

text \<open>A connection attempt that fails after instrumenting leaves a tracker that ignores events.\<close>

lemma failed_connect_is_cleaned_up:
  assumes "mongo_Connect env apply_uri connect ctx uri opts counter = (Inl err, Some tr)"
  shows "disabled tr \<and> handle tr evt = tr"
proof -
  have "disabled tr" using assms
    by (auto simp: mongo_Connect_def cleanup_def split: option.splits if_splits sum.splits prod.splits)
  then show ?thesis by (simp add: handle_def split: option.split)
qed

end
