(* ===== verification/RedisHook.thy ===== *)
theory RedisHook
  imports Telemetry "HOL-Library.Word"
begin

text \<open>
  The Redis hook (\<^verbatim>\<open>redis/options.go\<close>, \<^verbatim>\<open>redis/hook.go\<close>, \<^verbatim>\<open>redis/metrics.go\<close>): the options, the three hooks
  go-redis calls around a dial, a command and a pipeline, and the observation of a client's pool.

  go-redis is a parameter: a command is a record of what its accessors return, and the next hook of the
  chain a function from a context to its outcome and the time it took.  \<^verbatim>\<open>cmd.Err()\<close> changes while a
  pipeline runs, so the errors of the commands are part of the outcome, by the identity of the command.
\<close>

section \<open>Options\<close>

record redis_config =
  commandTextEnabled :: bool
  requireParentSpan :: bool
  redis_attrs :: "key_value list"
  ignored :: "string list"
  redis_poolName :: string

definition WithCommandTextEnabled :: "bool \<Rightarrow> redis_config \<Rightarrow> redis_config" where
  "WithCommandTextEnabled enabled cfg = cfg\<lparr>commandTextEnabled := enabled\<rparr>"

definition redis_WithAttributes :: "key_value list \<Rightarrow> redis_config \<Rightarrow> redis_config" where
  "redis_WithAttributes as cfg = cfg\<lparr>redis_attrs := redis_attrs cfg @ as\<rparr>"

text \<open>The map \<^verbatim>\<open>ignored\<close> is the list of its keys; a nil map is the empty list.\<close>

definition WithIgnoredCommands :: "unicode \<Rightarrow> string list \<Rightarrow> redis_config \<Rightarrow> redis_config" where
  "WithIgnoredCommands U names cfg =
     foldl (\<lambda>cfg name. let name = to_lower U (trim_space name)
        in if name = [] then cfg else cfg\<lparr>ignored := List.insert name (ignored cfg)\<rparr>) cfg names"

definition WithRequireParentSpan :: "bool \<Rightarrow> redis_config \<Rightarrow> redis_config" where
  "WithRequireParentSpan enabled cfg = cfg\<lparr>requireParentSpan := enabled\<rparr>"

definition redis_WithPoolName :: "string \<Rightarrow> redis_config \<Rightarrow> redis_config" where
  "redis_WithPoolName name cfg = cfg\<lparr>redis_poolName := name\<rparr>"

definition redis_newConfig :: "(redis_config \<Rightarrow> redis_config) option list \<Rightarrow> redis_config" where
  "redis_newConfig opts =
     foldl (\<lambda>cfg opt. case opt of Some f \<Rightarrow> f cfg | None \<Rightarrow> cfg)
       \<lparr>commandTextEnabled = False, requireParentSpan = False, redis_attrs = [], ignored = [], redis_poolName = []\<rparr> opts"

section \<open>Commands and errors\<close>

datatype redis_arg = ArgString string | ArgBytes string | ArgOther string

record redis_cmd =
  cmd_ref :: nat
  cmd_name :: string
  cmd_full_name :: string
  cmd_args :: "redis_arg list"

record redis_error = go_error +
  is_redis_nil :: bool
  is_pool_timeout :: bool

record addressAttrs =
  addr_text :: string
  addr_host :: string
  addr_port :: int

definition redis_parseAddress :: "string \<Rightarrow> addressAttrs" where
  "redis_parseAddress addr =
     (let out = \<lparr>addr_text = addr, addr_host = addr, addr_port = 0\<rparr>
      in case split_host_port addr of None \<Rightarrow> out
         | Some (host, port) \<Rightarrow>
             let out = out\<lparr>addr_host := host\<rparr>
             in case atoi port of Some parsed \<Rightarrow> out\<lparr>addr_port := parsed\<rparr> | None \<Rightarrow> out)"

definition redis_errorType :: "redis_error \<Rightarrow> string" where
  "redis_errorType err =
     (if is_deadline err then ''context.DeadlineExceeded''
      else if is_canceled err then ''context.Canceled'' else err_type err)"

definition redisErrorKind :: "redis_error \<Rightarrow> string option" where
  "redisErrorKind err =
     (if is_pool_timeout err then Some ''pool_timeout''
      else if is_deadline err then Some ''client_timeout''
      else if is_canceled err then Some ''client_canceled'' else None)"

text \<open>\<^verbatim>\<open>fmt.Sprint\<close> of an argument: a byte slice prints as the list of its bytes.\<close>

fun sprint_arg :: "redis_arg \<Rightarrow> string" where
  "sprint_arg (ArgString s) = s"
| "sprint_arg (ArgBytes bs) = ''['' @ join '' '' (map (\<lambda>b. itoa (int (byte b))) bs) @ '']''"
| "sprint_arg (ArgOther s) = s"

definition commandText :: "redis_cmd \<Rightarrow> string" where
  "commandText cmd = join '' '' (map sprint_arg (cmd_args cmd))"

definition pipelineText :: "redis_cmd list \<Rightarrow> string" where
  "pipelineText cmds = join ''; '' (map commandText cmds)"

definition maxCommandTextLen :: nat where "maxCommandTextLen = 1024"

definition RuneStart :: "char \<Rightarrow> bool" where
  "RuneStart c \<longleftrightarrow> \<not> continuation (byte c)"

fun cut_back :: "string \<Rightarrow> nat \<Rightarrow> nat" where
  "cut_back t 0 = 0"
| "cut_back t (Suc e) = (if RuneStart (t ! Suc e) then Suc e else cut_back t e)"

definition truncateCommandText :: "string \<Rightarrow> string" where
  "truncateCommandText t =
     (if length t \<le> maxCommandTextLen then t else take (cut_back t maxCommandTextLen) t)"

section \<open>Which commands are observed\<close>

definition isPubSubCommand :: "unicode \<Rightarrow> string \<Rightarrow> bool" where
  "isPubSubCommand U name \<longleftrightarrow> to_lower U name \<in> set
     [''publish'', ''spublish'', ''subscribe'', ''psubscribe'', ''ssubscribe'', ''unsubscribe'', ''punsubscribe'',
      ''sunsubscribe'', ''pubsub'']"

definition isClientSetupSubcommand :: "unicode \<Rightarrow> redis_cmd \<Rightarrow> bool" where
  "isClientSetupSubcommand U cmd =
     (let args = cmd_args cmd in
      if length args < 2 then False
      else case args ! 1 of
          ArgString v \<Rightarrow> to_lower U v \<in> set [''setinfo'', ''setname'']
        | ArgBytes v \<Rightarrow> to_lower U v \<in> set [''setinfo'', ''setname'']
        | ArgOther _ \<Rightarrow> False)"

definition isConnectionLifecycleCommand :: "unicode \<Rightarrow> string \<Rightarrow> redis_cmd \<Rightarrow> bool" where
  "isConnectionLifecycleCommand U name cmd =
     (if name \<in> set [''auth'', ''hello'', ''select'', ''readonly''] then True
      else if name = ''client'' then isClientSetupSubcommand U cmd else False)"

definition userPipelineCommands :: "unicode \<Rightarrow> redis_cmd list \<Rightarrow> redis_cmd list" where
  "userPipelineCommands U cmds = filter (\<lambda>c. to_lower U (cmd_name c) \<notin> set [''multi'', ''exec'']) cmds"

text \<open>The loop over the commands returns the first error that is not \<^verbatim>\<open>redis.Nil\<close>.\<close>

fun pipelineError :: "redis_error option \<Rightarrow> (nat \<Rightarrow> redis_error option) \<Rightarrow> redis_cmd list \<Rightarrow> redis_error option" where
  "pipelineError execErr errs [] = execErr"
| "pipelineError execErr errs (c # cs) =
     (case errs (cmd_ref c) of
        Some e \<Rightarrow> if \<not> is_redis_nil e then Some e else pipelineError execErr errs cs
      | None \<Rightarrow> pipelineError execErr errs cs)"

section \<open>The hook\<close>

text \<open>A context is what the hook sees of it: whether it carries a valid span context.  \<open>tracer_start\<close> is the context
  \<^verbatim>\<open>tracer.Start\<close> returns.\<close>

record redis_hook =
  hook_cfg :: redis_config
  hook_address :: addressAttrs
  hook_db :: int
  poolMetricAttrs :: "key_value list"
  hook_disabled :: bool
  tracer_start :: "bool \<Rightarrow> bool"

record client_options =
  Network :: string
  Addr :: string
  DB :: int
  MinIdleConns :: int
  MaxIdleConns :: int
  MaxActiveConns :: int

definition newRedisHook :: "(bool \<Rightarrow> bool) \<Rightarrow> redis_config \<Rightarrow> client_options \<Rightarrow> string \<Rightarrow> bool \<Rightarrow> redis_hook" where
  "newRedisHook start cfg opt poolName disabled =
     (let addr = redis_parseAddress (Addr opt)
      in \<lparr>hook_cfg = cfg, hook_address = addr, hook_db = DB opt,
          poolMetricAttrs =
            [(''db.system.name'', StrV ''redis''), (''db.client.connection.pool.name'', StrV poolName),
             (''server.address'', StrV (addr_host addr))] @
            when_set (addr_port addr > 0) ''server.port'' (IntV (addr_port addr)),
          hook_disabled = disabled, tracer_start = start\<rparr>)"

definition namespace_of :: "redis_hook \<Rightarrow> string" where
  "namespace_of h = (if hook_db h = 0 then [] else itoa (hook_db h))"

definition spanAttrs :: "redis_hook \<Rightarrow> string \<Rightarrow> key_value list" where
  "spanAttrs h operation =
     (''db.system.name'', StrV ''redis'') # (''db.operation.name'', StrV operation) #
     (''server.address'', StrV (addr_host (hook_address h))) #
     when_set (addr_port (hook_address h) > 0) ''server.port'' (IntV (addr_port (hook_address h))) @
     when_set (namespace_of h \<noteq> []) ''db.namespace'' (StrV (namespace_of h))"

definition isFilteredCommand :: "unicode \<Rightarrow> redis_hook \<Rightarrow> redis_cmd \<Rightarrow> bool" where
  "isFilteredCommand U h cmd =
     (let name = to_lower U (cmd_name cmd)
      in isPubSubCommand U name \<or> isConnectionLifecycleCommand U name cmd \<or> name \<in> set (ignored (hook_cfg h)))"

definition unfilteredPipelineCommands :: "unicode \<Rightarrow> redis_hook \<Rightarrow> redis_cmd list \<Rightarrow> redis_cmd list" where
  "unfilteredPipelineCommands U h cmds = filter (\<lambda>c. \<not> isFilteredCommand U h c) cmds"

definition skipUnparented :: "redis_hook \<Rightarrow> bool \<Rightarrow> bool" where
  "skipUnparented h ctx \<longleftrightarrow> requireParentSpan (hook_cfg h) \<and> \<not> ctx"

text \<open>\<^verbatim>\<open>finish\<close>: the failure an operation reports, the attributes of its measurement, and what it emits.\<close>

definition reported :: "redis_error option \<Rightarrow> redis_error option" where
  "reported err = (case err of Some e \<Rightarrow> if is_redis_nil e then None else Some e | None \<Rightarrow> None)"

definition redis_metricAttrs :: "redis_hook \<Rightarrow> string \<Rightarrow> redis_error option \<Rightarrow> key_value list" where
  "redis_metricAttrs h operation err =
     (''db.system.name'', StrV ''redis'') # (''db.operation.name'', StrV operation) #
     (''server.address'', StrV (addr_host (hook_address h))) #
     when_set (addr_port (hook_address h) > 0) ''server.port'' (IntV (addr_port (hook_address h))) @
     (case reported err of Some e \<Rightarrow> [(''error.type'', StrV (redis_errorType e))] | None \<Rightarrow> [])"

definition finish :: "redis_hook \<Rightarrow> string \<Rightarrow> nanos \<Rightarrow> nanos \<Rightarrow> key_value list \<Rightarrow> string \<Rightarrow> redis_error option \<Rightarrow> emission list" where
  "finish h title start fin as operation err =
     [Measured ''db.client.operation.duration'' (time_sub fin start) (redis_metricAttrs h operation err),
      Ended \<lparr>span_title = title, span_role = KindClient, span_start = start, span_end = fin,
        span_attrs = as @ (case reported err of None \<Rightarrow> []
          | Some e \<Rightarrow> (''error.type'', StrV (redis_errorType e)) #
              (case redisErrorKind e of Some kind \<Rightarrow> [(''redis.error.kind'', StrV kind)] | None \<Rightarrow> [])),
        span_state = (case reported err of None \<Rightarrow> Unset | Some e \<Rightarrow> Failed (err_text e)),
        span_errors = (case reported err of None \<Rightarrow> [] | Some e \<Rightarrow> [(fin, err_text e)])\<rparr>]"

text \<open>Each hook returns the result for the caller and what it emitted.  \<open>start\<close> is the instant before the call, and the
  outcome of the next hook carries the instant after it; the clock readings the tracer takes for the span next to
  those of the hook are the same instants.\<close>

definition DialHook ::
  "redis_hook \<Rightarrow> (bool \<Rightarrow> 'a \<Rightarrow> 'conn \<times> redis_error option \<times> nanos) \<Rightarrow> nanos \<Rightarrow> bool \<Rightarrow> 'a \<Rightarrow>
     ('conn \<times> redis_error option) \<times> emission list" where
  "DialHook h next start ctx target =
     (let (conn, err, fin) = next ctx target
      in if hook_disabled h then ((conn, err), [])
         else ((conn, err),
           if err = None then [Measured ''db.client.connection.create_time'' (time_sub fin start) (poolMetricAttrs h)] else []))"

definition ProcessHook ::
  "unicode \<Rightarrow> redis_hook \<Rightarrow> (bool \<Rightarrow> redis_cmd \<Rightarrow> redis_error option \<times> nanos) \<Rightarrow> nanos \<Rightarrow> bool \<Rightarrow> redis_cmd \<Rightarrow>
     redis_error option \<times> emission list" where
  "ProcessHook U h next start ctx cmd =
     (if hook_disabled h \<or> skipUnparented h ctx \<or> isFilteredCommand U h cmd then (fst (next ctx cmd), [])
      else
        let operation = to_upper U (cmd_full_name cmd);
            operation = (if operation = [] then to_upper U (cmd_name cmd) else operation);
            as = redis_attrs (hook_cfg h) @ spanAttrs h operation @
                 when_set (commandTextEnabled (hook_cfg h)) ''db.query.text'' (StrV (truncateCommandText (commandText cmd)));
            (err, fin) = next (tracer_start h ctx) cmd
        in (err, finish h (''redis.'' @ operation) start fin as operation err))"

definition ProcessPipelineHook ::
  "unicode \<Rightarrow> redis_hook \<Rightarrow> (bool \<Rightarrow> redis_cmd list \<Rightarrow> redis_error option \<times> (nat \<Rightarrow> redis_error option) \<times> nanos) \<Rightarrow>
     nanos \<Rightarrow> bool \<Rightarrow> redis_cmd list \<Rightarrow> redis_error option \<times> emission list" where
  "ProcessPipelineHook U h next start ctx cmds =
     (if hook_disabled h then (fst (next ctx cmds), [])
      else let userCmds = userPipelineCommands U cmds in
        if userCmds = [] \<or> skipUnparented h ctx then (fst (next ctx cmds), [])
        else let visibleCmds = unfilteredPipelineCommands U h userCmds in
          if visibleCmds = [] then (fst (next ctx cmds), [])
          else
            let as = redis_attrs (hook_cfg h) @ spanAttrs h ''pipeline'' @
                  when_set (length userCmds \<ge> 2) ''db.operation.batch.size'' (IntV (int (length userCmds))) @
                  when_set (commandTextEnabled (hook_cfg h)) ''db.query.text'' (StrV (truncateCommandText (pipelineText visibleCmds)));
                (err, errs, fin) = next (tracer_start h ctx) cmds;
                observedErr = pipelineError err errs userCmds
            in (err, finish h ''redis.pipeline'' start fin as ''pipeline'' observedErr))"

section \<open>Pool observation\<close>

text \<open>\<^verbatim>\<open>PoolStats\<close> holds \<^verbatim>\<open>uint32\<close> counters, read under separate locks.\<close>

record pool_stats =
  TotalConns :: "32 word"
  IdleConns :: "32 word"
  Timeouts :: "32 word"

definition connectionCounts :: "pool_stats \<Rightarrow> int \<times> int" where
  "connectionCounts stats =
     (let total = uint (TotalConns stats); idle = min (uint (IdleConns stats)) total in (total - idle, idle))"

definition poolAttrs :: "string \<Rightarrow> string \<Rightarrow> key_value list" where
  "poolAttrs poolName addr =
     (let parsed = redis_parseAddress addr
      in [(''db.system.name'', StrV ''redis''), (''db.client.connection.pool.name'', StrV poolName),
          (''server.address'', StrV (addr_host parsed))] @
         when_set (addr_port parsed > 0) ''server.port'' (IntV (addr_port parsed)))"

definition maxConnections :: "client_options \<Rightarrow> int option" where
  "maxConnections opt = (if MaxActiveConns opt > 0 then Some (MaxActiveConns opt) else None)"

definition maxIdleConnections :: "client_options \<Rightarrow> int option" where
  "maxIdleConnections opt = (if MaxIdleConns opt > 0 then Some (MaxIdleConns opt) else None)"

definition observeClient :: "pool_stats \<Rightarrow> client_options \<Rightarrow> string \<Rightarrow> emission list" where
  "observeClient stats opt poolName =
     (let as = poolAttrs poolName (Addr opt); (used, idle) = connectionCounts stats
      in [Measured ''db.client.connection.count'' used (as @ [(''db.client.connection.state'', StrV ''used'')]),
          Measured ''db.client.connection.count'' idle (as @ [(''db.client.connection.state'', StrV ''idle'')])] @
         (case maxIdleConnections opt of Some m \<Rightarrow> [Measured ''db.client.connection.idle.max'' m as] | None \<Rightarrow> []) @
         [Measured ''db.client.connection.idle.min'' (MinIdleConns opt) as] @
         (case maxConnections opt of Some m \<Rightarrow> [Measured ''db.client.connection.max'' m as] | None \<Rightarrow> []) @
         [Measured ''db.client.connection.timeouts'' (uint (Timeouts stats)) as])"

section \<open>Command text is cut between runes\<close>

lemma cut_back_le: "cut_back t e \<le> e"
  by (induction e) auto

lemma cut_back_start: "cut_back t e = 0 \<or> RuneStart (t ! cut_back t e)"
  by (induction e) auto

text \<open>Only the first byte of a rune that takes several bytes is no continuation byte.\<close>

lemma decode_rune_tail:
  assumes "decode_rune s = (r, n)" "0 < i" "i < n" "i < length s"
  shows "continuation (byte (s ! i))"
proof -
  obtain c0 s1 where s: "s = c0 # s1" using assms by (cases s) auto
  have "n \<le> 4" using assms(1) by (auto simp: s decode_rune_def split: if_splits list.splits)
  then consider "i = 1" "2 \<le> n" | "i = 2" "3 \<le> n" | "i = 3" "4 \<le> n" using assms by linarith
  then show ?thesis
  proof cases
    case 1
    obtain a t where "s1 = a # t" using 1 assms(4) s by (cases s1) auto
    then show ?thesis using assms(1) 1 by (auto simp: s decode_rune_def continuation_def split: if_splits list.splits)
  next
    case 2
    obtain a b t where "s1 = a # b # t" using 2 assms(4) s by (cases s1; cases "tl s1") auto
    then show ?thesis using assms(1) 2
      by (auto simp: s decode_rune_def continuation_def numeral_2_eq_2 split: if_splits list.splits)
  next
    case 3
    obtain a b d t where "s1 = a # b # d # t" using 3 assms(4) s by (cases s1; cases "tl s1"; cases "tl (tl s1)") auto
    then show ?thesis using assms(1) 3
      by (auto simp: s decode_rune_def continuation_def numeral_3_eq_3 split: if_splits)
  qed
qed

lemma start_is_boundary:
  assumes "i \<le> length s" "i = length s \<or> RuneStart (s ! i)"
  shows "\<exists>n. take i s = concat (map snd (take n (rune_chunks s)))"
  using assms
proof (induction s arbitrary: i rule: rune_chunks.induct)
  case (1 s)
  show ?case
  proof (cases "s = [] \<or> i = 0")
    case True
    then show ?thesis by (intro exI[of _ 0]) auto
  next
    case False
    obtain r w where rw: "decode_rune s = (r, w)" by fastforce
    have c: "rune_chunks s = (r, take w s) # rune_chunks (drop w s)"
      using False rw by (subst rune_chunks.simps) simp
    show ?thesis
    proof (cases "i < w")
      case True
      then have "\<not> RuneStart (s ! i)" if "i < length s"
        using decode_rune_tail[OF rw, of i] False that by (simp add: RuneStart_def)
      then have "i = length s" using "1.prems" by fastforce
      then show ?thesis using rune_chunks_concat[of s] by (metis take_all order_refl)
    next
      case w: False
      have "\<exists>n. take (i - w) (drop w s) = concat (map snd (take n (rune_chunks (drop w s))))"
        using False w "1.prems" by (intro "1.IH"[OF _ rw[symmetric]]) auto
      then obtain n where n: "take (i - w) (drop w s) = concat (map snd (take n (rune_chunks (drop w s))))" ..
      have "take i s = take w s @ take (i - w) (drop w s)" using w by (metis le_add_diff_inverse not_le take_add)
      then show ?thesis using n by (intro exI[of _ "Suc n"]) (simp add: c)
    qed
  qed
qed

text \<open>A command text is at most 1024 bytes and is cut between two characters.\<close>

theorem command_text_cut_at_rune_boundary:
  "length (truncateCommandText t) \<le> 1024 \<and>
   (\<exists>n. truncateCommandText t = concat (map snd (take n (rune_chunks t))))"
proof (cases "length t \<le> maxCommandTextLen")
  case True
  then show ?thesis
    using start_is_boundary[of "length t" t] by (simp add: truncateCommandText_def maxCommandTextLen_def)
next
  case False
  let ?e = "cut_back t maxCommandTextLen"
  have e: "?e \<le> maxCommandTextLen" by (rule cut_back_le)
  have "\<exists>n. take ?e t = concat (map snd (take n (rune_chunks t)))"
  proof (cases "?e = 0")
    case True
    then show ?thesis by (intro exI[of _ 0]) simp
  next
    case nz: False
    then show ?thesis using cut_back_start[of t maxCommandTextLen] e False by (intro start_is_boundary) auto
  qed
  then show ?thesis using False e by (simp add: truncateCommandText_def maxCommandTextLen_def)
qed

section \<open>What the hooks show and what they leave alone\<close>

definition observes :: "unicode \<Rightarrow> redis_hook \<Rightarrow> bool \<Rightarrow> redis_cmd list \<Rightarrow> bool" where
  "observes U h ctx cmds \<longleftrightarrow> \<not> hook_disabled h \<and> \<not> skipUnparented h ctx \<and> unfilteredPipelineCommands U h cmds \<noteq> []"

lemma ProcessHook_cases:
  "ProcessHook U h next start ctx cmd =
     (if observes U h ctx [cmd] then
        let operation = (if to_upper U (cmd_full_name cmd) = [] then to_upper U (cmd_name cmd) else to_upper U (cmd_full_name cmd))
        in (fst (next (tracer_start h ctx) cmd),
            finish h (''redis.'' @ operation) start (snd (next (tracer_start h ctx) cmd))
              (redis_attrs (hook_cfg h) @ spanAttrs h operation @
               when_set (commandTextEnabled (hook_cfg h)) ''db.query.text'' (StrV (truncateCommandText (commandText cmd))))
              operation (fst (next (tracer_start h ctx) cmd)))
      else (fst (next ctx cmd), []))"
  by (simp add: ProcessHook_def observes_def unfilteredPipelineCommands_def Let_def split: prod.splits)

lemma ProcessPipelineHook_cases:
  "ProcessPipelineHook U h next start ctx cmds =
     (let user = userPipelineCommands U cmds; out = next (tracer_start h ctx) cmds
      in if observes U h ctx user then
        (fst out,
         finish h ''redis.pipeline'' start (snd (snd out))
           (redis_attrs (hook_cfg h) @ spanAttrs h ''pipeline'' @
            when_set (length user \<ge> 2) ''db.operation.batch.size'' (IntV (int (length user))) @
            when_set (commandTextEnabled (hook_cfg h)) ''db.query.text''
              (StrV (truncateCommandText (pipelineText (unfilteredPipelineCommands U h user)))))
           ''pipeline'' (pipelineError (fst out) (fst (snd out)) user))
      else (fst (next ctx cmds), []))"
  by (simp add: ProcessPipelineHook_def observes_def unfilteredPipelineCommands_def Let_def split: prod.splits)

text \<open>The hooks never change what the caller gets: the connection and the errors are those of the next hook.\<close>

theorem redis_hooks_are_transparent:
  "fst (DialHook h dial start ctx target) = (fst (dial ctx target), fst (snd (dial ctx target))) \<and>
   fst (ProcessHook U h next1 start ctx cmd) =
     fst (next1 (if observes U h ctx [cmd] then tracer_start h ctx else ctx) cmd) \<and>
   fst (ProcessPipelineHook U h next2 start ctx cmds) =
     fst (next2 (if observes U h ctx (userPipelineCommands U cmds) then tracer_start h ctx else ctx) cmds)"
  by (simp add: DialHook_def ProcessHook_cases ProcessPipelineHook_cases Let_def split: prod.splits)

text \<open>A verb that hides its arguments: one the filter matches by name alone.\<close>

definition hidden_verb :: "unicode \<Rightarrow> redis_hook \<Rightarrow> string \<Rightarrow> bool" where
  "hidden_verb U h name =
     (let name = to_lower U name
      in isPubSubCommand U name \<or> name \<in> set [''auth'', ''hello'', ''select'', ''readonly''] \<or> name \<in> set (ignored (hook_cfg h)))"

definition same_visible :: "unicode \<Rightarrow> redis_hook \<Rightarrow> redis_cmd \<Rightarrow> redis_cmd \<Rightarrow> bool" where
  "same_visible U h c c' \<longleftrightarrow> c = c' \<or> cmd_ref c = cmd_ref c' \<and> cmd_name c = cmd_name c' \<and> hidden_verb U h (cmd_name c)"

lemma hidden_filtered: "hidden_verb U h (cmd_name c) \<Longrightarrow> isFilteredCommand U h c"
  by (auto simp: hidden_verb_def isFilteredCommand_def isConnectionLifecycleCommand_def Let_def)

lemma same_visible_user:
  "list_all2 (same_visible U h) cs cs' \<Longrightarrow>
     list_all2 (same_visible U h) (userPipelineCommands U cs) (userPipelineCommands U cs')"
proof (induction rule: list_all2_induct)
  case (Cons c cs c' cs')
  have "cmd_name c = cmd_name c'" using Cons.hyps(1) by (auto simp: same_visible_def)
  then show ?case using Cons by (simp add: userPipelineCommands_def del: list.set)
qed (simp add: userPipelineCommands_def)

lemma same_visible_unfiltered:
  "list_all2 (same_visible U h) cs cs' \<Longrightarrow> unfilteredPipelineCommands U h cs = unfilteredPipelineCommands U h cs'"
proof (induction rule: list_all2_induct)
  case (Cons c cs c' cs')
  then show ?case using hidden_filtered[of U h c] hidden_filtered[of U h c']
    by (auto simp: unfilteredPipelineCommands_def same_visible_def)
qed simp

lemma same_visible_errors:
  "list_all2 (same_visible U h) cs cs' \<Longrightarrow> pipelineError e errs cs = pipelineError e errs cs'"
proof (induction rule: list_all2_induct)
  case (Cons c cs c' cs')
  then have "cmd_ref c = cmd_ref c'" by (auto simp: same_visible_def)
  with Cons.IH show ?case by (simp split: option.splits)
qed simp

text \<open>C11. Credentials stay out of telemetry: replacing the arguments of any \<^verbatim>\<open>AUTH\<close>, \<^verbatim>\<open>HELLO\<close>, \<^verbatim>\<open>SELECT\<close>, \<^verbatim>\<open>READONLY\<close>, Pub/Sub or ignored command of
  a pipeline changes neither its result nor anything that is emitted, as long as the server answers the same.\<close>

theorem hidden_arguments_never_reach_telemetry:
  assumes "list_all2 (same_visible U h) cmds cmds'" "\<And>c. next' c cmds' = next c cmds"
  shows "ProcessPipelineHook U h next' start ctx cmds' = ProcessPipelineHook U h next start ctx cmds"
proof -
  have u: "list_all2 (same_visible U h) (userPipelineCommands U cmds) (userPipelineCommands U cmds')"
    using assms(1) by (rule same_visible_user)
  then have "length (userPipelineCommands U cmds') = length (userPipelineCommands U cmds)"
    "userPipelineCommands U cmds' = [] \<longleftrightarrow> userPipelineCommands U cmds = []"
    by (auto dest: list_all2_lengthD)
  then show ?thesis
    by (simp only: ProcessPipelineHook_def Let_def assms(2) same_visible_unfiltered[OF u] same_visible_errors[OF u])
qed

definition sample_hook :: redis_hook where
  "sample_hook = newRedisHook (\<lambda>_. True) (redis_newConfig [Some (WithCommandTextEnabled True)])
     \<lparr>Network = ''tcp'', Addr = ''cache:6379'', DB = 0, MinIdleConns = 0, MaxIdleConns = 0, MaxActiveConns = 0\<rparr> ''p'' False"

definition sample_cmd :: "nat \<Rightarrow> string \<Rightarrow> string \<Rightarrow> redis_cmd" where
  "sample_cmd i name arg = \<lparr>cmd_ref = i, cmd_name = name, cmd_full_name = name, cmd_args = [ArgString name, ArgString arg]\<rparr>"

theorem hidden_arguments_never_reach_telemetry_witness:
  "ProcessPipelineHook ascii_tables sample_hook (\<lambda>c cs. (None, \<lambda>_. None, 7)) 5 True
      [sample_cmd 0 ''auth'' ''hunter2'', sample_cmd 1 ''get'' ''k''] =
   ProcessPipelineHook ascii_tables sample_hook (\<lambda>c cs. (None, \<lambda>_. None, 7)) 5 True
      [sample_cmd 0 ''auth'' ''other'', sample_cmd 1 ''get'' ''k'']"
proof (rule hidden_arguments_never_reach_telemetry)
  have "hidden_verb ascii_tables sample_hook ''auth''" by code_simp
  then show "list_all2 (same_visible ascii_tables sample_hook)
      [sample_cmd 0 ''auth'' ''other'', sample_cmd 1 ''get'' ''k''] [sample_cmd 0 ''auth'' ''hunter2'', sample_cmd 1 ''get'' ''k'']"
    by (simp add: same_visible_def sample_cmd_def)
qed simp

text \<open>What a span says is decided by the SDK: an attribute of the options never changes one the hook sets.\<close>

definition redis_span_keys :: "string list" where
  "redis_span_keys = [''db.system.name'', ''db.operation.name'', ''server.address'', ''server.port'', ''db.namespace'',
     ''db.operation.batch.size'', ''db.query.text'', ''error.type'', ''redis.error.kind'']"

definition redis_metric_keys :: "string list" where
  "redis_metric_keys = [''db.system.name'', ''db.operation.name'', ''server.address'', ''server.port'', ''error.type'']"

lemma redis_metricAttrs_keys: "subseq (keys (redis_metricAttrs h operation err)) redis_metric_keys"
  by (auto simp: redis_metricAttrs_def redis_metric_keys_def when_set_def split: option.splits)

text \<open>What a finished operation emits: one measurement over the fixed keys and one span, which fail together, and never
  because a key was missing.\<close>

definition consistent_pair :: "redis_error option \<Rightarrow> emission list \<Rightarrow> bool" where
  "consistent_pair err es = (case es of
     [Measured name d mattrs, Ended sp] \<Rightarrow>
       name = ''db.client.operation.duration'' \<and> d = time_sub (span_end sp) (span_start sp) \<and>
       subseq (keys mattrs) redis_metric_keys \<and>
       (span_state sp \<noteq> Unset \<longleftrightarrow> reported err \<noteq> None) \<and>
       (span_errors sp \<noteq> [] \<longleftrightarrow> reported err \<noteq> None) \<and>
       (''error.type'' \<in> set (keys mattrs) \<longleftrightarrow> reported err \<noteq> None) \<and>
       (reported err \<noteq> None \<longrightarrow> last_value (span_attrs sp) ''error.type'' = last_value mattrs ''error.type'') \<and>
       last_value (span_attrs sp) ''db.operation.name'' = last_value mattrs ''db.operation.name'' \<and>
       last_value (span_attrs sp) ''server.address'' = last_value mattrs ''server.address''
   | _ \<Rightarrow> False)"

lemma last_value_sdk:
  assumes "k \<notin> set (keys rest)"
  shows "last_value (user @ sdk @ rest) k = (case last_value sdk k of Some v \<Rightarrow> Some v | None \<Rightarrow> last_value user k)"
  using assms by (simp add: last_value_append last_value_absent)

lemma spanAttrs_values:
  "last_value (spanAttrs h operation) ''db.operation.name'' = Some (StrV operation)"
  "last_value (spanAttrs h operation) ''server.address'' = Some (StrV (addr_host (hook_address h)))"
  by (simp_all add: last_value_def spanAttrs_def when_set_def)

lemma metricAttrs_values:
  "last_value (redis_metricAttrs h operation err) ''db.operation.name'' = Some (StrV operation)"
  "last_value (redis_metricAttrs h operation err) ''server.address'' = Some (StrV (addr_host (hook_address h)))"
  "last_value (redis_metricAttrs h operation err) ''error.type'' = map_option (\<lambda>e. StrV (redis_errorType e)) (reported err)"
  by (simp_all add: last_value_def redis_metricAttrs_def when_set_def split: option.splits)

lemma metricAttrs_error_key: "''error.type'' \<in> set (keys (redis_metricAttrs h operation err)) \<longleftrightarrow> reported err \<noteq> None"
  by (cases "reported err") (auto simp: redis_metricAttrs_def when_set_def)

definition failure_attrs :: "redis_error option \<Rightarrow> key_value list" where
  "failure_attrs err = (case reported err of None \<Rightarrow> []
     | Some e \<Rightarrow> (''error.type'', StrV (redis_errorType e)) #
         (case redisErrorKind e of Some kind \<Rightarrow> [(''redis.error.kind'', StrV kind)] | None \<Rightarrow> []))"

lemma failure_attrs_keys: "set (keys (failure_attrs err)) \<subseteq> {''error.type'', ''redis.error.kind''}"
  by (auto simp: failure_attrs_def split: option.splits)

lemma failure_attrs_type: "reported err = Some e \<Longrightarrow> last_value (xs @ failure_attrs err) ''error.type'' = Some (StrV (redis_errorType e))"
  by (simp add: failure_attrs_def last_value_def split: option.splits)

lemma finish_consistent:
  assumes "''db.operation.name'' \<notin> set (keys rest)" "''server.address'' \<notin> set (keys rest)"
  shows "consistent_pair err (finish h title start fin (user @ spanAttrs h operation @ rest) operation err)"
proof -
  have k: "''db.operation.name'' \<notin> set (keys (failure_attrs err))" "''server.address'' \<notin> set (keys (failure_attrs err))"
    using failure_attrs_keys[of err] by auto
  have f: "finish h title start fin (user @ spanAttrs h operation @ rest) operation err =
     [Measured ''db.client.operation.duration'' (time_sub fin start) (redis_metricAttrs h operation err),
      Ended \<lparr>span_title = title, span_role = KindClient, span_start = start, span_end = fin,
        span_attrs = user @ spanAttrs h operation @ (rest @ failure_attrs err),
        span_state = (case reported err of None \<Rightarrow> Unset | Some e \<Rightarrow> Failed (err_text e)),
        span_errors = (case reported err of None \<Rightarrow> [] | Some e \<Rightarrow> [(fin, err_text e)])\<rparr>]"
    by (simp add: finish_def failure_attrs_def)
  have v: "last_value (user @ spanAttrs h operation @ (rest @ failure_attrs err)) ''db.operation.name'' = Some (StrV operation)"
    "last_value (user @ spanAttrs h operation @ (rest @ failure_attrs err)) ''server.address'' = Some (StrV (addr_host (hook_address h)))"
    using assms k by (subst last_value_sdk; simp add: spanAttrs_values)+
  show ?thesis
  proof (cases "reported err")
    case None
    then show ?thesis unfolding f consistent_pair_def
      by (simp only: list.case emission.case span.simps v metricAttrs_values metricAttrs_error_key redis_metricAttrs_keys) simp
  next
    case (Some e)
    have "last_value (user @ spanAttrs h operation @ (rest @ failure_attrs err)) ''error.type'' = Some (StrV (redis_errorType e))"
      using failure_attrs_type[OF Some, of "user @ spanAttrs h operation @ rest"] by simp
    with Some show ?thesis unfolding f consistent_pair_def
      by (simp only: list.case emission.case span.simps v metricAttrs_values metricAttrs_error_key redis_metricAttrs_keys) simp
  qed
qed

text \<open>An observed command or pipeline emits exactly one measurement, over a fixed set of keys, and one span; both carry the same
  operation and server, and both fail or neither, which \<^verbatim>\<open>redis.Nil\<close> never causes.  Commands that are not observed emit nothing.\<close>

theorem redis_span_and_measurement_agree:
  "(if observes U h ctx [cmd] then
      consistent_pair (fst (ProcessHook U h next1 start ctx cmd)) (snd (ProcessHook U h next1 start ctx cmd))
    else snd (ProcessHook U h next1 start ctx cmd) = []) \<and>
   (if observes U h ctx (userPipelineCommands U cmds) then
      consistent_pair (pipelineError (fst (ProcessPipelineHook U h next2 start ctx cmds))
          (fst (snd (next2 (tracer_start h ctx) cmds))) (userPipelineCommands U cmds))
        (snd (ProcessPipelineHook U h next2 start ctx cmds))
    else snd (ProcessPipelineHook U h next2 start ctx cmds) = [])"
  by (simp add: ProcessHook_cases ProcessPipelineHook_cases Let_def finish_consistent)

section \<open>Pool counts\<close>

text \<open>Although the two counters are read at different moments, the used and idle connections reported add up to the total
  and neither wraps around.\<close>

theorem redis_pool_counts_add_up:
  "fst (connectionCounts stats) + snd (connectionCounts stats) = uint (TotalConns stats) \<and>
   0 \<le> fst (connectionCounts stats) \<and> 0 \<le> snd (connectionCounts stats) \<and>
   fst (connectionCounts stats) < 2 ^ 32 \<and> snd (connectionCounts stats) \<le> uint (IdleConns stats)"
proof -
  have *: "t - min i t + min i t = t \<and> 0 \<le> t - min i t \<and> 0 \<le> min i t \<and> t - min i t < 2 ^ 32 \<and> min i t \<le> i"
    if "0 \<le> i" "0 \<le> t" "t < 2 ^ 32" for i t :: int using that by linarith
  show ?thesis using *[of "uint (IdleConns stats)" "uint (TotalConns stats)"] uint_bounded[of "TotalConns stats"]
    by (simp add: connectionCounts_def Let_def)
qed

end
