(* ===== verification/RedisClient.thy ===== *)
theory RedisClient
  imports RedisHook "HOL-Library.AList" "HOL-Library.List_Lexorder" "HOL-Library.Char_ord"
begin

text \<open>
  Wrapping Redis clients (\<^verbatim>\<open>redis/client.go\<close> and the instruments of \<^verbatim>\<open>redis/metrics.go\<close>): the allocator of pool
  names, the process-wide registry of wrapped clients, and \<^verbatim>\<open>Wrap\<close>, \<^verbatim>\<open>Unwrap\<close> and the cleanup the garbage
  collector runs.

  A client is an object with an identity; \<open>addr\<close> gives the address of an object, which a later object may
  reuse once the earlier one is collected.  A weak pointer is the identity it was made from, and it is nil
  when that object is no longer \<open>live\<close>.  \<^verbatim>\<open>Wrap\<close> and \<^verbatim>\<open>Unwrap\<close> first look their entry up in a \<^verbatim>\<open>sync.Map\<close> and
  then work under the mutex of that entry: each of the two parts is one step of the interleaving.
\<close>

section \<open>Pool names\<close>

definition redis_pool_name :: "string \<Rightarrow> nat \<Rightarrow> string" where
  "redis_pool_name base n = base @ ''-'' @ dec_digits n"

definition free_name :: "(string \<times> int) list \<Rightarrow> string \<Rightarrow> bool" where
  "free_name held name =
     (if (case map_of held name of Some c \<Rightarrow> c > 0 | None \<Rightarrow> False) then False
      else \<not> list_ex (\<lambda>h. prefix (name @ ''/'') h) (keys held))"

text \<open>A name that is not free is visible in the number that follows the base in some held name; so only finitely many
  numbers are taken and the search of \<^verbatim>\<open>acquire\<close> ends.\<close>

definition number_part :: "string \<Rightarrow> string \<Rightarrow> string" where
  "number_part base h = takeWhile (\<lambda>c. c \<noteq> CHR ''/'') (drop (length base + 1) h)"

lemma dec_digits_no_slash: "CHR ''/'' \<notin> set (dec_digits n)"
  using dec_digits_digit[of "CHR ''/''" n] by (auto simp: is_digit_def)

lemma number_part_name: "number_part base (redis_pool_name base n) = dec_digits n"
  using dec_digits_no_slash[of n] by (simp add: number_part_def redis_pool_name_def takeWhile_eq_all_conv) metis

lemma number_part_shard: "number_part base (redis_pool_name base n @ ''/'' @ t) = dec_digits n"
proof -
  have "takeWhile (\<lambda>c. c \<noteq> CHR ''/'') (dec_digits n @ ''/'' @ t) = dec_digits n @ takeWhile (\<lambda>c. c \<noteq> CHR ''/'') (''/'' @ t)"
    using dec_digits_no_slash[of n] by (intro takeWhile_append2) auto
  then show ?thesis by (simp add: number_part_def redis_pool_name_def)
qed

lemma dec_digits_inj: "dec_digits m = dec_digits n \<Longrightarrow> m = n"
  by (metis dec_digits_value of_nat_eq_iff option.inject)

definition occupied :: "(string \<times> int) list \<Rightarrow> string \<Rightarrow> nat set" where
  "occupied held base = {n. \<not> free_name held (redis_pool_name base n)}"

lemma occupied_digits: "dec_digits ` occupied held base \<subseteq> number_part base ` set (keys held)"
proof (rule image_subsetI)
  fix n assume "n \<in> occupied held base"
  then consider "redis_pool_name base n \<in> set (keys held)" | h where "h \<in> set (keys held)" "prefix (redis_pool_name base n @ ''/'') h"
    by (auto simp: occupied_def free_name_def list_ex_iff split: if_splits option.splits)
      (metis fst_conv image_eqI map_of_SomeD)
  then show "dec_digits n \<in> number_part base ` set (keys held)"
  proof cases
    case 1
    then show ?thesis by (intro rev_image_eqI[OF 1]) (simp add: number_part_name)
  next
    case 2
    then obtain t where "h = redis_pool_name base n @ ''/'' @ t" by (auto simp: prefix_def)
    then show ?thesis using 2 by (intro rev_image_eqI[OF 2(1)]) (simp only: number_part_shard)
  qed
qed

lemma occupied_finite: "finite (occupied held base)"
proof (rule finite_imageD)
  show "finite (dec_digits ` occupied held base)" by (rule finite_subset[OF occupied_digits]) simp
  show "inj_on dec_digits (occupied held base)" by (auto intro: inj_onI dec_digits_inj)
qed

lemma occupied_card: "card (occupied held base) \<le> length held"
proof -
  have "card (occupied held base) = card (dec_digits ` occupied held base)"
    by (rule card_image[symmetric]) (auto intro: inj_onI dec_digits_inj)
  also have "\<dots> \<le> card (number_part base ` set (keys held))" by (rule card_mono[OF _ occupied_digits]) simp
  also have "\<dots> \<le> length held" by (metis card_image_le card_length finite_set le_trans length_map)
  finally show ?thesis .
qed

function acquire_from :: "(string \<times> int) list \<Rightarrow> string \<Rightarrow> nat \<Rightarrow> nat" where
  "acquire_from held base n = (if free_name held (redis_pool_name base n) then n else acquire_from held base (n + 1))"
  by pat_completeness auto
termination
proof (relation "measure (\<lambda>(held, base, n). card {m \<in> occupied held base. n \<le> m})", simp)
  fix held base n assume "\<not> free_name held (redis_pool_name base n)"
  then have n: "n \<in> {m \<in> occupied held base. n \<le> m}" "n \<notin> {m \<in> occupied held base. n + 1 \<le> m}"
    by (simp_all add: occupied_def)
  have "{m \<in> occupied held base. n + 1 \<le> m} \<subseteq> {m \<in> occupied held base. n \<le> m}" by auto
  then have "{m \<in> occupied held base. n + 1 \<le> m} \<subset> {m \<in> occupied held base. n \<le> m}" using n by blast
  then show "((held, base, n + 1), (held, base, n)) \<in> measure (\<lambda>(held, base, n). card {m \<in> occupied held base. n \<le> m})"
    using occupied_finite[of held base] by (auto intro: psubset_card_mono)
qed

declare acquire_from.simps [simp del]

definition acquire :: "string \<Rightarrow> (string \<times> int) list \<Rightarrow> string \<times> (string \<times> int) list" where
  "acquire base held = (let name = redis_pool_name base (acquire_from held base 1) in (name, AList.update name 1 held))"

definition hold :: "string \<Rightarrow> (string \<times> int) list \<Rightarrow> (string \<times> int) list" where
  "hold name held = AList.update name ((case map_of held name of Some c \<Rightarrow> c | None \<Rightarrow> 0) + 1) held"

definition release_name :: "string \<Rightarrow> (string \<times> int) list \<Rightarrow> (string \<times> int) list" where
  "release_name name held =
     (let c = (case map_of held name of Some c \<Rightarrow> c | None \<Rightarrow> 0) - 1;
          held = AList.update name c held
      in if c \<le> 0 then AList.delete name held else held)"

lemma acquire_from_props:
  "n \<le> acquire_from held base n \<and> free_name held (redis_pool_name base (acquire_from held base n)) \<and>
   (\<forall>m. n \<le> m \<longrightarrow> m < acquire_from held base n \<longrightarrow> \<not> free_name held (redis_pool_name base m))"
proof (induction held base n rule: acquire_from.induct)
  case (1 held base n)
  show ?case
  proof (cases "free_name held (redis_pool_name base n)")
    case True
    then show ?thesis by (subst (1 2 3) acquire_from.simps) simp
  next
    case False
    have e: "acquire_from held base n = acquire_from held base (n + 1)" using False by (subst acquire_from.simps) simp
    show ?thesis using 1[OF False] False unfolding e by (metis Suc_eq_plus1 Suc_leD le_neq_implies_less Suc_leI)
  qed
qed

text \<open>The search for a default pool name ends, whatever names are held: it yields the lowest number, at most one more than the
  number of names held, such that nobody holds the name or the name of one of its shards, and holds it once.\<close>

lemma acquired_name_is_lowest_free:
  "\<exists>n. 1 \<le> n \<and> n \<le> length held + 1 \<and> fst (acquire base held) = base @ ''-'' @ itoa (int n) \<and>
     (case map_of held (fst (acquire base held)) of Some c \<Rightarrow> c \<le> 0 | None \<Rightarrow> True) \<and>
     \<not> list_ex (prefix (fst (acquire base held) @ ''/'')) (keys held) \<and>
     list_all (\<lambda>m. \<not> free_name held (base @ ''-'' @ itoa (int m))) [1..<n] \<and>
     snd (acquire base held) = AList.update (fst (acquire base held)) 1 held"
proof -
  let ?n = "acquire_from held base 1"
  have free: "(case map_of held name of Some c \<Rightarrow> c \<le> 0 | None \<Rightarrow> True) \<and> \<not> list_ex (prefix (name @ ''/'')) (keys held)"
    if "free_name held name" for name
    using that by (auto simp: free_name_def list_ex_iff split: if_splits option.splits)
  have p: "1 \<le> ?n" "free_name held (redis_pool_name base ?n)" "\<And>m. 1 \<le> m \<Longrightarrow> m < ?n \<Longrightarrow> \<not> free_name held (redis_pool_name base m)"
    using acquire_from_props[of 1 held base] by auto
  have "{1..<?n} \<subseteq> occupied held base" using p(3) by (auto simp: occupied_def)
  then have "?n - 1 \<le> length held"
    using card_mono[OF occupied_finite, of "{1..<?n}"] occupied_card[of held base] by (metis card_atLeastLessThan le_trans)
  then show ?thesis using p(1,3) free[OF p(2)]
    by (intro exI[of _ ?n]) (auto simp: acquire_def Let_def redis_pool_name_def itoa_def list_all_iff)
qed

section \<open>Clients\<close>

datatype client_kind = SingleClient | ClusterClient | RingClient

text \<open>\<open>c_addrs\<close>: the addresses of a cluster, the keys of the address map of a ring.\<close>

record redis_client =
  c_kind :: client_kind
  c_id :: nat
  c_options :: client_options
  c_addrs :: "string list"

datatype universal_client = NilInterface | TypedNil client_kind | Concrete redis_client | OtherClient string

definition newClientOps :: "universal_client \<Rightarrow> string + redis_client" where
  "newClientOps rdb = (case rdb of
     TypedNil _ \<Rightarrow> Inl ''redis wrap: client must not be nil''
   | Concrete c \<Rightarrow> Inr c
   | OtherClient typ \<Rightarrow> Inl (''redis wrap: unsupported client type '' @ typ)
   | NilInterface \<Rightarrow> Inl ''redis wrap: unsupported client type <nil>'')"

definition sentinelAddr :: string where "sentinelAddr = ''FailoverClient''"

definition single_defaultPoolNameBase :: "client_options \<Rightarrow> string" where
  "single_defaultPoolNameBase opt =
     (if Network opt = ''unix'' then ''redis-'' @ Addr opt
      else if Addr opt = sentinelAddr then ''redis-sentinel''
      else let parsed = redis_parseAddress (Addr opt)
        in if addr_host parsed \<noteq> [] \<and> addr_port parsed > 0 then ''redis-'' @ Addr opt else ''redis'')"

fun slices_Min :: "string list \<Rightarrow> string" where
  "slices_Min [] = []"
| "slices_Min (x # xs) = foldl min x xs"

definition cluster_defaultPoolNameBase :: "string list \<Rightarrow> string" where
  "cluster_defaultPoolNameBase addrs = (if addrs \<noteq> [] then ''redis-cluster-'' @ slices_Min addrs else ''redis-cluster'')"

definition ring_defaultPoolNameBase :: "string list \<Rightarrow> string" where
  "ring_defaultPoolNameBase addrs = (if addrs \<noteq> [] then ''redis-ring-'' @ slices_Min addrs else ''redis-ring'')"

definition defaultPoolNameBase :: "redis_client \<Rightarrow> string" where
  "defaultPoolNameBase c = (case c_kind c of
     SingleClient \<Rightarrow> single_defaultPoolNameBase (c_options c)
   | ClusterClient \<Rightarrow> cluster_defaultPoolNameBase (c_addrs c)
   | RingClient \<Rightarrow> ring_defaultPoolNameBase (c_addrs c))"

definition shardPoolName :: "string \<Rightarrow> client_options \<Rightarrow> string" where
  "shardPoolName base opt = base @ ''/'' @ Addr opt"

section \<open>Instruments and observation\<close>

text \<open>The meter is a parameter: the error the creation of an instrument gives, by the name of the instrument.
  \<^verbatim>\<open>newPoolMetrics\<close> creates its six instruments in this order and stops at the first error.\<close>

definition pool_instruments :: "(string \<times> string) list" where
  "pool_instruments =
     [(''db.client.connection.count'', ''redis wrap: create connection count observable: ''),
      (''db.client.connection.idle.max'', ''redis wrap: create idle max observable: ''),
      (''db.client.connection.idle.min'', ''redis wrap: create idle min observable: ''),
      (''db.client.connection.max'', ''redis wrap: create max observable: ''),
      (''db.client.connection.timeouts'', ''redis wrap: create timeouts observable: ''),
      (''db.client.connection.create_time'', ''redis wrap: create connection create_time histogram: '')]"

fun create_all :: "(string \<Rightarrow> string option) \<Rightarrow> (string \<times> string) list \<Rightarrow> string option" where
  "create_all meter [] = None"
| "create_all meter ((name, what) # is) =
     (case meter name of Some err \<Rightarrow> Some (what @ err) | None \<Rightarrow> create_all meter is)"

definition newPoolMetrics :: "(string \<Rightarrow> string option) \<Rightarrow> string option" where
  "newPoolMetrics meter = create_all meter pool_instruments"

text \<open>What one collection observes of a target: nothing once the client is collected, else its pool or the pool of
  every shard.\<close>

definition singlePoolTarget_observe :: "bool \<Rightarrow> string \<Rightarrow> pool_stats \<Rightarrow> client_options \<Rightarrow> emission list" where
  "singlePoolTarget_observe alive poolName stats opt = (if alive then observeClient stats opt poolName else [])"

definition shardPoolTarget_observe :: "bool \<Rightarrow> string \<Rightarrow> (pool_stats \<times> client_options) list \<Rightarrow> emission list" where
  "shardPoolTarget_observe alive poolName shards =
     (if alive then concat (map (\<lambda>(stats, opt). observeClient stats opt (shardPoolName poolName opt)) shards) else [])"

definition register_callback :: "bool \<Rightarrow> emission list \<Rightarrow> emission list" where
  "register_callback disabled observed = (if disabled then [] else observed)"

section \<open>Installing hooks\<close>

record redis_node =
  node_id :: nat
  node_options :: client_options

text \<open>The closure \<^verbatim>\<open>hook\<close> of \<^verbatim>\<open>installShardedHooks\<close>, on the set of seen addresses (absent after the walk): the new set, and
  the hook it adds.\<close>

definition node_hook ::
  "(nat \<Rightarrow> nat) \<Rightarrow> string \<Rightarrow> bool \<Rightarrow> nat list option \<Rightarrow> redis_node option \<Rightarrow> nat list option \<times> (nat \<times> string) list" where
  "node_hook addr poolName disabled seen node = (case node of None \<Rightarrow> (seen, [])
     | Some nd \<Rightarrow>
       if disabled then (seen, [])
       else case seen of
          None \<Rightarrow> (None, [(node_id nd, shardPoolName poolName (node_options nd))])
        | Some ks \<Rightarrow>
          if addr (node_id nd) \<in> set ks then (seen, [])
          else (Some (addr (node_id nd) # ks), [(node_id nd, shardPoolName poolName (node_options nd))]))"

fun walk_nodes ::
  "(nat \<Rightarrow> nat) \<Rightarrow> string \<Rightarrow> bool \<Rightarrow> nat list option \<Rightarrow> redis_node option list \<Rightarrow> (nat \<times> string) list" where
  "walk_nodes addr poolName disabled seen [] = []"
| "walk_nodes addr poolName disabled seen (nd # nds) =
     (let (seen', hs) = node_hook addr poolName disabled seen nd in hs @ walk_nodes addr poolName disabled seen' nds)"

text \<open>\<open>nodes\<close> are the nodes the hook is called on during the walk, by \<^verbatim>\<open>OnNewNode\<close> and by \<^verbatim>\<open>ForEachShard\<close>, in the order of the
  calls; the error is the one of \<^verbatim>\<open>ForEachShard\<close>.\<close>

definition installShardedHooks ::
  "(nat \<Rightarrow> nat) \<Rightarrow> string \<Rightarrow> bool \<Rightarrow> redis_node option list \<Rightarrow> string option \<Rightarrow> (nat \<times> string) list \<times> string option" where
  "installShardedHooks addr poolName disabled nodes err = (walk_nodes addr poolName disabled (Some []) nodes, err)"

definition install ::
  "(nat \<Rightarrow> nat) \<Rightarrow> redis_client \<Rightarrow> string \<Rightarrow> bool \<Rightarrow> redis_node option list \<Rightarrow> string option \<Rightarrow> (nat \<times> string) list \<times> string option" where
  "install addr c poolName disabled nodes err = (case c_kind c of
     SingleClient \<Rightarrow> ([(c_id c, poolName)], None)
   | ClusterClient \<Rightarrow> installShardedHooks addr poolName disabled nodes err
   | RingClient \<Rightarrow> installShardedHooks addr poolName disabled nodes err)"

section \<open>The registry\<close>

datatype registration = NoRegistration | Registered | Unregistered

record wrap_entry =
  e_ref :: "client_kind \<times> nat"
  e_done :: bool
  e_disabled :: bool
  e_reg :: registration
  e_cleanupStopped :: bool
  e_poolName :: string

text \<open>\<open>entries\<close> is the heap of entries ever stored, \<open>wrapped\<close> the map from addresses to entries, \<open>held\<close> the allocator and
  \<open>hooked\<close> the hooks that were added to nodes, each with its pool name and the entry whose \<^verbatim>\<open>disabled\<close> flag it reads.\<close>

record redis_registry =
  wrapped :: "(nat \<times> nat) list"
  entries :: "wrap_entry list"
  held :: "(string \<times> int) list"
  live :: "nat list"
  hooked :: "(nat \<times> string \<times> nat) list"

definition update_entry :: "nat \<Rightarrow> (wrap_entry \<Rightarrow> wrap_entry) \<Rightarrow> redis_registry \<Rightarrow> redis_registry" where
  "update_entry e f s = s\<lparr>entries := (entries s)[e := f (entries s ! e)]\<rparr>"

definition ref_alive :: "redis_registry \<Rightarrow> client_kind \<times> nat \<Rightarrow> bool" where
  "ref_alive s r \<longleftrightarrow> snd r \<in> set (live s)"

definition ref_matches :: "redis_registry \<Rightarrow> client_kind \<times> nat \<Rightarrow> redis_client \<Rightarrow> bool" where
  "ref_matches s r c \<longleftrightarrow> fst r = c_kind c \<and> ref_alive s r \<and> snd r = c_id c"

definition detach_entry :: "wrap_entry \<Rightarrow> wrap_entry" where
  "detach_entry en = en\<lparr>e_disabled := True,
     e_reg := (if e_reg en \<noteq> NoRegistration then Unregistered else NoRegistration),
     e_poolName := [],
     e_cleanupStopped := (if e_done en then True else e_cleanupStopped en)\<rparr>"

definition detach :: "nat \<Rightarrow> redis_registry \<Rightarrow> redis_registry" where
  "detach e s =
     (let name = e_poolName (entries s ! e)
      in (update_entry e detach_entry s)\<lparr>held := (if name \<noteq> [] then release_name name (held s) else held s)\<rparr>)"

definition compare_and_delete :: "nat \<Rightarrow> nat \<Rightarrow> redis_registry \<Rightarrow> redis_registry" where
  "compare_and_delete key e s =
     (if map_of (wrapped s) key = Some e then s\<lparr>wrapped := AList.delete key (wrapped s)\<rparr> else s)"

definition new_entry :: "redis_client \<Rightarrow> wrap_entry" where
  "new_entry c = \<lparr>e_ref = (c_kind c, c_id c), e_done = False, e_disabled = False, e_reg = NoRegistration,
     e_cleanupStopped = False, e_poolName = []\<rparr>"

text \<open>\<^verbatim>\<open>wrappedClients.LoadOrStore(key, candidate)\<close>.\<close>

definition load_or_store :: "(nat \<Rightarrow> nat) \<Rightarrow> redis_client \<Rightarrow> redis_registry \<Rightarrow> nat \<times> redis_registry" where
  "load_or_store addr c s = (case map_of (wrapped s) (addr (c_id c)) of
     Some e \<Rightarrow> (e, s)
   | None \<Rightarrow> (length (entries s),
       s\<lparr>wrapped := AList.update (addr (c_id c)) (length (entries s)) (wrapped s), entries := entries s @ [new_entry c]\<rparr>))"

record wrap_call =
  w_options :: "(redis_config \<Rightarrow> redis_config) option list"
  w_meter :: "string \<Rightarrow> string option"
  w_register :: "string option"
  w_nodes :: "redis_node option list"
  w_walk :: "string option"

datatype wrap_outcome = Retry | Wrapped "string option"

definition assign_pool :: "wrap_call \<Rightarrow> redis_client \<Rightarrow> nat \<Rightarrow> redis_registry \<Rightarrow> redis_registry" where
  "assign_pool w c e s =
     (let cfg = redis_newConfig (w_options w);
          (name, held') = (if redis_poolName cfg = [] then acquire (defaultPoolNameBase c) (held s)
                           else (redis_poolName cfg, hold (redis_poolName cfg) (held s)))
      in update_entry e (\<lambda>en. en\<lparr>e_poolName := name\<rparr>) (s\<lparr>held := held'\<rparr>))"

definition give_up :: "(nat \<Rightarrow> nat) \<Rightarrow> redis_client \<Rightarrow> nat \<Rightarrow> redis_registry \<Rightarrow> redis_registry" where
  "give_up addr c e s = compare_and_delete (addr (c_id c)) e (detach e s)"

definition commit :: "(nat \<Rightarrow> nat) \<Rightarrow> wrap_call \<Rightarrow> redis_client \<Rightarrow> nat \<Rightarrow> redis_registry \<Rightarrow> wrap_outcome \<times> redis_registry" where
  "commit addr w c e s =
     (let s = update_entry e (\<lambda>en. en\<lparr>e_reg := Registered\<rparr>) s;
          name = e_poolName (entries s ! e);
          (hs, installErr) = install addr c name (e_disabled (entries s ! e)) (w_nodes w) (w_walk w);
          s = s\<lparr>hooked := hooked s @ map (\<lambda>(n, p). (n, p, e)) hs\<rparr>;
          s = update_entry e (\<lambda>en. en\<lparr>e_done := True\<rparr>) s
      in (Wrapped (map_option (\<lambda>err. ''redis wrap: install hooks: '' @ err) installErr), s))"

text \<open>The body of the loop of \<^verbatim>\<open>Wrap\<close> under the mutex of the entry.\<close>

definition wrap_locked :: "(nat \<Rightarrow> nat) \<Rightarrow> wrap_call \<Rightarrow> redis_client \<Rightarrow> nat \<Rightarrow> redis_registry \<Rightarrow> wrap_outcome \<times> redis_registry" where
  "wrap_locked addr w c e s =
     (if map_of (wrapped s) (addr (c_id c)) \<noteq> Some e then (Retry, s)
      else if \<not> ref_matches s (e_ref (entries s ! e)) c then (Retry, give_up addr c e s)
      else if e_done (entries s ! e) then (Wrapped None, s)
      else let s = assign_pool w c e s in
        case w_meter w ''db.client.operation.duration'' of
          Some err \<Rightarrow> (Wrapped (Some (''redis wrap: create operation duration histogram: '' @ err)), give_up addr c e s)
        | None \<Rightarrow> (case newPoolMetrics (w_meter w) of
            Some err \<Rightarrow> (Wrapped (Some err), give_up addr c e s)
          | None \<Rightarrow> (case w_register w of
              Some err \<Rightarrow> (Wrapped (Some (''redis wrap: register pool metrics callback: '' @ err)), give_up addr c e s)
            | None \<Rightarrow> commit addr w c e s)))"

text \<open>\<^verbatim>\<open>Wrap\<close> without interference: \<open>None\<close> when the loop has not returned within \<open>fuel\<close> rounds.\<close>

fun wrap_loop :: "nat \<Rightarrow> (nat \<Rightarrow> nat) \<Rightarrow> wrap_call \<Rightarrow> redis_client \<Rightarrow> redis_registry \<Rightarrow> (string option \<times> redis_registry) option" where
  "wrap_loop 0 addr w c s = None"
| "wrap_loop (Suc fuel) addr w c s =
     (let (e, s) = load_or_store addr c s
      in case wrap_locked addr w c e s of
           (Wrapped err, s) \<Rightarrow> Some (err, s)
         | (Retry, s) \<Rightarrow> wrap_loop fuel addr w c s)"

definition Wrap ::
  "nat \<Rightarrow> (nat \<Rightarrow> nat) \<Rightarrow> wrap_call \<Rightarrow> universal_client \<Rightarrow> bool \<Rightarrow> bool \<Rightarrow> redis_registry \<Rightarrow> (string option \<times> redis_registry) option" where
  "Wrap fuel addr w rdb tpNil mpNil s =
     (if rdb = NilInterface then Some (Some ''redis wrap: client must not be nil'', s)
      else if tpNil then Some (Some ''redis wrap: tracer provider must not be nil'', s)
      else if mpNil then Some (Some ''redis wrap: meter provider must not be nil'', s)
      else case newClientOps rdb of Inl err \<Rightarrow> Some (Some err, s) | Inr c \<Rightarrow> wrap_loop fuel addr w c s)"

definition unwrap_locked :: "(nat \<Rightarrow> nat) \<Rightarrow> redis_client \<Rightarrow> nat \<Rightarrow> redis_registry \<Rightarrow> redis_registry" where
  "unwrap_locked addr c e s = (if \<not> ref_matches s (e_ref (entries s ! e)) c then s else give_up addr c e s)"

definition Unwrap :: "(nat \<Rightarrow> nat) \<Rightarrow> universal_client \<Rightarrow> redis_registry \<Rightarrow> redis_registry" where
  "Unwrap addr rdb s =
     (if rdb = NilInterface then s
      else case newClientOps rdb of Inl _ \<Rightarrow> s
         | Inr c \<Rightarrow> (case map_of (wrapped s) (addr (c_id c)) of None \<Rightarrow> s | Some e \<Rightarrow> unwrap_locked addr c e s))"

text \<open>The cleanup of a collected client: its key and its reference were fixed when it was wrapped.\<close>

definition cleanup_locked :: "nat \<Rightarrow> client_kind \<times> nat \<Rightarrow> nat \<Rightarrow> redis_registry \<Rightarrow> redis_registry" where
  "cleanup_locked key ref e s =
     (if \<not> ref_alive s (e_ref (entries s ! e)) \<and> e_ref (entries s ! e) = ref
      then compare_and_delete key e (detach e s) else s)"

definition cleanupWrappedClient :: "nat \<Rightarrow> client_kind \<times> nat \<Rightarrow> redis_registry \<Rightarrow> redis_registry" where
  "cleanupWrappedClient key ref s =
     (case map_of (wrapped s) key of None \<Rightarrow> s | Some e \<Rightarrow> cleanup_locked key ref e s)"

section \<open>Interleaving\<close>

datatype pending = PWrap wrap_call redis_client nat | PUnwrap redis_client nat | PCleanup nat "client_kind \<times> nat" nat

text \<open>The steps of the process: allocation and collection of clients, the two parts of each operation, and a node that a
  wrapped cluster or ring discovers later.  A client that an operation in progress refers to is not collected; a cleanup
  may run whenever the client it was registered for is gone, also after it was stopped.\<close>

fun refers :: "nat \<Rightarrow> pending \<Rightarrow> bool" where
  "refers i (PWrap w c e) = (c_id c = i)"
| "refers i (PUnwrap c e) = (c_id c = i)"
| "refers i (PCleanup k r e) = False"

inductive redis_step :: "(nat \<Rightarrow> nat) \<Rightarrow> redis_registry \<times> pending list \<Rightarrow> redis_registry \<times> pending list \<Rightarrow> bool" for addr where
  allocate: "i \<notin> set (live s) \<Longrightarrow> list_all (\<lambda>en. snd (e_ref en) \<noteq> i) (entries s) \<Longrightarrow> addr i \<notin> addr ` set (live s) \<Longrightarrow>
    redis_step addr (s, ps) (s\<lparr>live := i # live s\<rparr>, ps)"
| collect: "list_all (\<lambda>p. \<not> refers i p) ps \<Longrightarrow> redis_step addr (s, ps) (s\<lparr>live := removeAll i (live s)\<rparr>, ps)"
| wrap_load: "c_id c \<in> set (live s) \<Longrightarrow> load_or_store addr c s = (e, s') \<Longrightarrow>
    redis_step addr (s, ps) (s', PWrap w c e # ps)"
| wrap_run: "PWrap w c e \<in> set ps \<Longrightarrow> wrap_locked addr w c e s = (out, s') \<Longrightarrow>
    redis_step addr (s, ps) (s', remove1 (PWrap w c e) ps)"
| unwrap_load: "c_id c \<in> set (live s) \<Longrightarrow> map_of (wrapped s) (addr (c_id c)) = Some e \<Longrightarrow>
    redis_step addr (s, ps) (s, PUnwrap c e # ps)"
| unwrap_run: "PUnwrap c e \<in> set ps \<Longrightarrow> redis_step addr (s, ps) (unwrap_locked addr c e s, remove1 (PUnwrap c e) ps)"
| cleanup_load: "\<not> ref_alive s ref \<Longrightarrow> map_of (wrapped s) (addr (snd ref)) = Some e \<Longrightarrow>
    redis_step addr (s, ps) (s, PCleanup (addr (snd ref)) ref e # ps)"
| cleanup_run: "PCleanup key ref e \<in> set ps \<Longrightarrow>
    redis_step addr (s, ps) (cleanup_locked key ref e s, remove1 (PCleanup key ref e) ps)"
| new_node: "e < length (entries s) \<Longrightarrow> e_done (entries s ! e) \<Longrightarrow> fst (e_ref (entries s ! e)) \<noteq> SingleClient \<Longrightarrow>
    node_hook addr (e_poolName (entries s ! e)) (e_disabled (entries s ! e)) None (Some nd) = (seen, hs) \<Longrightarrow>
    redis_step addr (s, ps) (s\<lparr>hooked := hooked s @ map (\<lambda>(n, p). (n, p, e)) hs\<rparr>, ps)"

section \<open>Names are held exactly by live wrappers\<close>

definition alloc_ok :: "(string \<times> int) list \<Rightarrow> string list \<Rightarrow> bool" where
  "alloc_ok hm names \<longleftrightarrow> distinct (keys hm) \<and>
     (\<forall>name. map_of hm name =
        (if name \<noteq> [] \<and> count_list names name > 0 then Some (int (count_list names name)) else None))"

lemma map_of_alist_update: "map_of (AList.update k v m) = (map_of m)(k \<mapsto> v)"
  by (simp add: update_conv')

lemma map_of_alist_delete: "map_of (AList.delete k m) = (map_of m)(k := None)"
  by (simp add: delete_conv')

lemma alloc_ok_release:
  assumes "alloc_ok hm names" "e < length names" "names ! e \<noteq> []"
  shows "alloc_ok (release_name (names ! e) hm) (names[e := []])"
proof -
  let ?n = "names ! e"
  have c: "count_list (names[e := []]) z = (if z = ?n then count_list names z - 1 else count_list names z)" if "z \<noteq> []" for z
    using count_list_update[OF assms(2), of "[]" z] that assms(3) by (auto split: if_splits)
  have pos: "count_list names ?n > 0" using assms(2) by (metis count_list_0_iff gr0I nth_mem)
  then have m: "map_of hm ?n = Some (int (count_list names ?n))" using assms by (simp add: alloc_ok_def)
  have "map_of (release_name ?n hm) z =
      (if z \<noteq> [] \<and> count_list (names[e := []]) z > 0 then Some (int (count_list (names[e := []]) z)) else None)" for z
  proof (cases "z = []")
    case True
    then show ?thesis using assms(1,3) m by (simp add: alloc_ok_def release_name_def Let_def map_of_alist_update map_of_alist_delete)
  next
    case False
    then show ?thesis using assms(1,3) pos c[OF False] m
      by (cases "z = ?n")
        (auto simp: alloc_ok_def release_name_def Let_def map_of_alist_update map_of_alist_delete of_nat_diff)
  qed
  moreover have "distinct (keys (release_name ?n hm))"
    using assms(1) by (auto simp: alloc_ok_def release_name_def Let_def distinct_update distinct_delete)
  ultimately show ?thesis by (simp add: alloc_ok_def)
qed

lemma alloc_ok_add:
  assumes "alloc_ok hm names" "e < length names" "names ! e = []" "name \<noteq> []"
  shows "alloc_ok (AList.update name (int (count_list names name) + 1) hm) (names[e := name])"
proof -
  have c: "count_list (names[e := name]) z = (if z = name then count_list names z + 1 else count_list names z)" if "z \<noteq> []" for z
    using count_list_update[OF assms(2), of name z] that assms(3) by (auto split: if_splits)
  have "map_of (AList.update name (int (count_list names name) + 1) hm) z =
      (if z \<noteq> [] \<and> count_list (names[e := name]) z > 0 then Some (int (count_list (names[e := name]) z)) else None)" for z
  proof (cases "z = []")
    case True
    then show ?thesis using assms(1,4) by (simp add: alloc_ok_def map_of_alist_update)
  next
    case False
    then show ?thesis using assms(1,4) c[OF False] by (simp add: alloc_ok_def map_of_alist_update)
  qed
  then show ?thesis using assms(1) by (simp add: alloc_ok_def distinct_update)
qed

lemma alloc_ok_count: "alloc_ok hm names \<Longrightarrow> name \<noteq> [] \<Longrightarrow> (case map_of hm name of Some c \<Rightarrow> c | None \<Rightarrow> 0) = int (count_list names name)"
  by (simp add: alloc_ok_def)

lemma alloc_ok_hold:
  assumes "alloc_ok hm names" "e < length names" "names ! e = []" "name \<noteq> []"
  shows "alloc_ok (hold name hm) (names[e := name])"
  using alloc_ok_add[OF assms] alloc_ok_count[OF assms(1,4)] by (simp add: hold_def)

lemma free_name_unused: "alloc_ok hm names \<Longrightarrow> free_name hm name \<Longrightarrow> name \<noteq> [] \<Longrightarrow> count_list names name = 0"
  by (auto simp: alloc_ok_def free_name_def split: if_splits option.splits)

lemma acquire_free: "free_name hm (fst (acquire base hm))" "fst (acquire base hm) \<noteq> []"
  using acquire_from_props[of 1 hm base] by (auto simp: acquire_def Let_def redis_pool_name_def)

lemma alloc_ok_acquire:
  assumes "alloc_ok hm names" "e < length names" "names ! e = []"
  shows "alloc_ok (snd (acquire base hm)) (names[e := fst (acquire base hm)])"
proof -
  let ?n = "fst (acquire base hm)"
  have "count_list names ?n = 0" by (rule free_name_unused[OF assms(1)]) (rule acquire_free)+
  then have "snd (acquire base hm) = AList.update ?n (int (count_list names ?n) + 1) hm"
    by (simp add: acquire_def Let_def)
  then show ?thesis using alloc_ok_add[OF assms acquire_free(2)[where base = base and hm = hm]] by simp
qed

section \<open>The registry invariant\<close>

definition entry_ok :: "wrap_entry \<Rightarrow> bool" where
  "entry_ok en =
     (if e_disabled en then e_poolName en = [] \<and> e_reg en \<noteq> Registered
      else if e_done en then e_poolName en \<noteq> [] \<and> e_reg en = Registered
      else e_poolName en = [] \<and> e_reg en = NoRegistration)"

definition entry_key :: "(nat \<Rightarrow> nat) \<Rightarrow> wrap_entry \<Rightarrow> nat" where
  "entry_key addr en = addr (snd (e_ref en))"

definition registry_core :: "(nat \<Rightarrow> nat) \<Rightarrow> redis_registry \<Rightarrow> bool" where
  "registry_core addr s \<longleftrightarrow>
     (\<forall>k e. map_of (wrapped s) k = Some e \<longleftrightarrow>
        e < length (entries s) \<and> \<not> e_disabled (entries s ! e) \<and> entry_key addr (entries s ! e) = k) \<and>
     alloc_ok (held s) (map e_poolName (entries s)) \<and> inj_on addr (set (live s))"

definition registry_ok :: "(nat \<Rightarrow> nat) \<Rightarrow> redis_registry \<Rightarrow> bool" where
  "registry_ok addr s \<longleftrightarrow> registry_core addr s \<and> list_all entry_ok (entries s)"

fun pending_ok :: "(nat \<Rightarrow> nat) \<Rightarrow> redis_registry \<Rightarrow> pending \<Rightarrow> bool" where
  "pending_ok addr s (PWrap w c e) \<longleftrightarrow>
     e < length (entries s) \<and> entry_key addr (entries s ! e) = addr (c_id c) \<and> c_id c \<in> set (live s)"
| "pending_ok addr s (PUnwrap c e) \<longleftrightarrow>
     e < length (entries s) \<and> entry_key addr (entries s ! e) = addr (c_id c) \<and> c_id c \<in> set (live s)"
| "pending_ok addr s (PCleanup key ref e) \<longleftrightarrow> e < length (entries s) \<and> entry_key addr (entries s ! e) = key"

definition drop_entry :: "nat \<Rightarrow> nat \<Rightarrow> redis_registry \<Rightarrow> redis_registry" where
  "drop_entry key e s = compare_and_delete key e (detach e s)"

lemma drop_entry_core:
  assumes "registry_core addr s" "e < length (entries s)" "entry_key addr (entries s ! e) = key"
  shows "registry_core addr (drop_entry key e s)"
proof -
  let ?t = "drop_entry key e s"
  have en: "entries ?t = (entries s)[e := detach_entry (entries s ! e)]"
    by (simp add: drop_entry_def compare_and_delete_def detach_def update_entry_def Let_def)
  have w: "map_of (wrapped ?t) k = (if k = key \<and> map_of (wrapped s) k = Some e then None else map_of (wrapped s) k)" for k
    by (auto simp: drop_entry_def compare_and_delete_def detach_def update_entry_def Let_def map_of_alist_delete)
  have h: "held ?t = (if e_poolName (entries s ! e) \<noteq> [] then release_name (e_poolName (entries s ! e)) (held s) else held s)"
    "live ?t = live s"
    by (simp_all add: drop_entry_def compare_and_delete_def detach_def update_entry_def Let_def)
  have iff: "map_of (wrapped s) k = Some i \<longleftrightarrow>
      i < length (entries s) \<and> \<not> e_disabled (entries s ! i) \<and> entry_key addr (entries s ! i) = k" for k i
    using assms(1) by (simp add: registry_core_def)
  have d: "e_disabled (detach_entry en)" "e_poolName (detach_entry en) = []" "e_ref (detach_entry en) = e_ref en" for en
    by (simp_all add: detach_entry_def)
  have "map_of (wrapped ?t) k = Some i \<longleftrightarrow>
      i < length (entries ?t) \<and> \<not> e_disabled (entries ?t ! i) \<and> entry_key addr (entries ?t ! i) = k" for k i
  proof (cases "i = e")
    case True
    then show ?thesis using iff[of k e] assms(2,3) by (auto simp: w en d)
  next
    case False
    then have "map_of (wrapped ?t) k = Some i \<longleftrightarrow> map_of (wrapped s) k = Some i" unfolding w by auto
    then show ?thesis using iff[of k i] False by (simp add: en)
  qed
  moreover have "alloc_ok (held ?t) (map e_poolName (entries ?t))"
  proof -
    have a: "alloc_ok (held s) (map e_poolName (entries s))" using assms(1) by (simp add: registry_core_def)
    have "map e_poolName (entries ?t) = (map e_poolName (entries s))[e := []]" by (simp add: en map_update d)
    moreover have "(map e_poolName (entries s))[e := []] = map e_poolName (entries s)" if "e_poolName (entries s ! e) = []"
      using that assms(2) by (metis length_map list_update_id nth_map)
    ultimately show ?thesis
      using alloc_ok_release[OF a, of e] a assms(2) h by (cases "e_poolName (entries s ! e) = []") auto
  qed
  ultimately show ?thesis using assms(1) h by (simp add: registry_core_def)
qed

lemma drop_entry_ok:
  assumes "registry_core addr s" "e < length (entries s)" "entry_key addr (entries s ! e) = key"
    and "\<And>i. i < length (entries s) \<Longrightarrow> i \<noteq> e \<Longrightarrow> entry_ok (entries s ! i)"
  shows "registry_ok addr (drop_entry key e s)"
proof -
  have en: "entries (drop_entry key e s) = (entries s)[e := detach_entry (entries s ! e)]"
    by (simp add: drop_entry_def compare_and_delete_def detach_def update_entry_def Let_def)
  have "entry_ok (detach_entry (entries s ! e))" by (simp add: entry_ok_def detach_entry_def)
  then have "list_all entry_ok (entries (drop_entry key e s))"
    using assms(2,4) unfolding en list_all_length by (metis length_list_update nth_list_update)
  then show ?thesis using drop_entry_core[OF assms(1-3)] by (simp add: registry_ok_def)
qed

lemma nth_update_iff: "xs[e := y] ! i = (if i = e \<and> e < length xs then y else xs ! i)"
  by (cases "e < length xs") (auto simp: nth_list_update list_update_beyond)

text \<open>Under \<open>registry_core\<close> a change of entry \<open>e\<close> that keeps its reference and its flag \<open>e_disabled\<close> touches only the allocator.\<close>

lemma update_entry_core:
  assumes "registry_core addr s" "e < length (entries s)" "e_ref (f (entries s ! e)) = e_ref (entries s ! e)"
    "e_disabled (f (entries s ! e)) = e_disabled (entries s ! e)"
    "alloc_ok hm ((map e_poolName (entries s))[e := e_poolName (f (entries s ! e))])"
  shows "registry_core addr (update_entry e f (s\<lparr>held := hm\<rparr>))"
proof -
  have k: "entry_key addr ((entries s)[e := f (entries s ! e)] ! i) = entry_key addr (entries s ! i)"
    "e_disabled ((entries s)[e := f (entries s ! e)] ! i) = e_disabled (entries s ! i)" for i
    using assms(2-4) by (auto simp: entry_key_def nth_update_iff)
  show ?thesis using assms(1,5)
    by (simp add: registry_core_def update_entry_def k map_update)
qed

lemma update_entry_core_same:
  assumes "registry_core addr s" "e < length (entries s)" "e_ref (f (entries s ! e)) = e_ref (entries s ! e)"
    "e_disabled (f (entries s ! e)) = e_disabled (entries s ! e)" "e_poolName (f (entries s ! e)) = e_poolName (entries s ! e)"
  shows "registry_core addr (update_entry e f s)"
proof -
  have "(map e_poolName (entries s))[e := e_poolName (f (entries s ! e))] = map e_poolName (entries s)"
    using assms(2,5) by (metis length_map list_update_id nth_map)
  then have "registry_core addr (update_entry e f (s\<lparr>held := held s\<rparr>))"
    using assms by (intro update_entry_core) (auto simp: registry_core_def)
  then show ?thesis by simp
qed

lemma assign_pool_core:
  assumes "registry_core addr s" "e < length (entries s)" "e_poolName (entries s ! e) = []"
  shows "registry_core addr (assign_pool w c e s)"
    and "e_poolName (entries (assign_pool w c e s) ! e) \<noteq> []"
    and "entries (assign_pool w c e s) =
      (entries s)[e := (entries s ! e)\<lparr>e_poolName := e_poolName (entries (assign_pool w c e s) ! e)\<rparr>]"
    and "wrapped (assign_pool w c e s) = wrapped s" "live (assign_pool w c e s) = live s" "hooked (assign_pool w c e s) = hooked s"
proof -
  obtain name hm where nh: "(if redis_poolName (redis_newConfig (w_options w)) = [] then acquire (defaultPoolNameBase c) (held s)
      else (redis_poolName (redis_newConfig (w_options w)), hold (redis_poolName (redis_newConfig (w_options w))) (held s))) = (name, hm)"
    by fastforce
  have ap: "assign_pool w c e s = update_entry e (\<lambda>en. en\<lparr>e_poolName := name\<rparr>) (s\<lparr>held := hm\<rparr>)"
    by (simp add: assign_pool_def Let_def nh)
  have a: "alloc_ok (held s) (map e_poolName (entries s))" using assms(1) by (simp add: registry_core_def)
  have n: "name \<noteq> [] \<and> alloc_ok hm ((map e_poolName (entries s))[e := name])"
  proof (cases "redis_poolName (redis_newConfig (w_options w)) = []")
    case True
    then have "name = fst (acquire (defaultPoolNameBase c) (held s))" "hm = snd (acquire (defaultPoolNameBase c) (held s))"
      using nh by simp_all
    then show ?thesis using alloc_ok_acquire[OF a] acquire_free(2) assms(2,3) by simp
  next
    case False
    then show ?thesis using alloc_ok_hold[OF a] assms(2,3) nh by auto
  qed
  show "registry_core addr (assign_pool w c e s)"
    unfolding ap using assms n by (intro update_entry_core) auto
  show "e_poolName (entries (assign_pool w c e s) ! e) \<noteq> []"
    and "entries (assign_pool w c e s) =
      (entries s)[e := (entries s ! e)\<lparr>e_poolName := e_poolName (entries (assign_pool w c e s) ! e)\<rparr>]"
    and "wrapped (assign_pool w c e s) = wrapped s" "live (assign_pool w c e s) = live s" "hooked (assign_pool w c e s) = hooked s"
    using n assms(2) by (simp_all add: ap update_entry_def)
qed

lemma give_up_drop: "give_up addr c e s = drop_entry (addr (c_id c)) e s"
  by (simp add: give_up_def drop_entry_def)

lemma registry_okD:
  "registry_ok addr s \<Longrightarrow> registry_core addr s"
  "registry_ok addr s \<Longrightarrow> i < length (entries s) \<Longrightarrow> entry_ok (entries s ! i)"
  by (simp_all add: registry_ok_def list_all_length)

lemma loaded_entry:
  "registry_ok addr s \<Longrightarrow> map_of (wrapped s) k = Some e \<Longrightarrow>
     e < length (entries s) \<and> \<not> e_disabled (entries s ! e) \<and> entry_key addr (entries s ! e) = k"
  unfolding registry_ok_def registry_core_def by blast

lemma commit_ok:
  assumes "registry_core addr s" "e < length (entries s)" "e_poolName (entries s ! e) \<noteq> []" "\<not> e_disabled (entries s ! e)"
    "\<And>i. i < length (entries s) \<Longrightarrow> i \<noteq> e \<Longrightarrow> entry_ok (entries s ! i)"
  shows "registry_ok addr (snd (commit addr w c e s))"
proof -
  let ?t = "snd (commit addr w c e s)"
  obtain hs ierr where i: "install addr c (e_poolName (entries s ! e)) (e_disabled (entries s ! e)) (w_nodes w) (w_walk w) = (hs, ierr)"
    by fastforce
  have t: "?t = update_entry e (\<lambda>en. en\<lparr>e_reg := Registered, e_done := True\<rparr>) s
      \<lparr>hooked := hooked s @ map (\<lambda>(n, p). (n, p, e)) hs\<rparr>"
    using assms(2) by (simp add: commit_def Let_def update_entry_def i)
  have "registry_core addr (update_entry e (\<lambda>en. en\<lparr>e_reg := Registered, e_done := True\<rparr>) s)"
    using assms(1,2) by (intro update_entry_core_same) auto
  then have "registry_core addr ?t" by (simp add: t registry_core_def)
  moreover have "list_all entry_ok (entries ?t)"
    using assms(2-5) by (auto simp: t update_entry_def list_all_length nth_update_iff entry_ok_def)
  ultimately show ?thesis by (simp add: registry_ok_def)
qed

lemma wrap_locked_ok:
  assumes "registry_ok addr s" "e < length (entries s)" "entry_key addr (entries s ! e) = addr (c_id c)"
  shows "registry_ok addr (snd (wrap_locked addr w c e s))"
proof -
  have core: "registry_core addr s" using assms(1) by (rule registry_okD)
  have drop: "registry_ok addr (give_up addr c e s)"
    unfolding give_up_drop using core assms registry_okD(2)[OF assms(1)] by (intro drop_entry_ok) auto
  show ?thesis
  proof (cases "map_of (wrapped s) (addr (c_id c)) \<noteq> Some e \<or> \<not> ref_matches s (e_ref (entries s ! e)) c \<or> e_done (entries s ! e)")
    case True
    then show ?thesis using assms(1) drop by (auto simp: wrap_locked_def)
  next
    case False
    then have en: "\<not> e_disabled (entries s ! e)" "\<not> e_done (entries s ! e)"
      using core by (auto simp: registry_core_def)
    then have nm: "e_poolName (entries s ! e) = []" using registry_okD(2)[OF assms(1,2)] by (simp add: entry_ok_def)
    let ?s = "assign_pool w c e s"
    note ap = assign_pool_core[OF core assms(2) nm, of w c]
    have l: "e < length (entries ?s)" "length (entries ?s) = length (entries s)" using ap(3) assms(2) by (metis length_list_update)+
    have nth: "entries ?s ! e = (entries s ! e)\<lparr>e_poolName := e_poolName (entries ?s ! e)\<rparr>"
      using ap(3) assms(2) by (metis nth_list_update_eq)
    have others: "entry_ok (entries ?s ! i)" if "i < length (entries ?s)" "i \<noteq> e" for i
      using that ap(3) registry_okD(2)[OF assms(1), of i] l by (metis nth_list_update_neq)
    have key: "entry_key addr (entries ?s ! e) = addr (c_id c)" "\<not> e_disabled (entries ?s ! e)"
      using assms(3) en by (subst nth; simp add: entry_key_def)+
    have "registry_ok addr (give_up addr c e ?s)"
      unfolding give_up_drop using ap(1) l(1) key(1) others by (rule drop_entry_ok)
    moreover have "registry_ok addr (snd (commit addr w c e ?s))"
      using ap(1) l(1) ap(2) key(2) others by (rule commit_ok)
    ultimately show ?thesis using False by (simp add: wrap_locked_def Let_def split: option.splits)
  qed
qed

lemma load_or_store_ok:
  assumes "registry_ok addr s" "load_or_store addr c s = (e, s')"
  shows "registry_ok addr s'" "e < length (entries s')" "entry_key addr (entries s' ! e) = addr (c_id c)"
proof -
  have iff: "map_of (wrapped s) k = Some i \<longleftrightarrow>
      i < length (entries s) \<and> \<not> e_disabled (entries s ! i) \<and> entry_key addr (entries s ! i) = k" for k i
    using registry_okD(1)[OF assms(1)] by (simp add: registry_core_def)
  have "registry_ok addr s' \<and> e < length (entries s') \<and> entry_key addr (entries s' ! e) = addr (c_id c)"
  proof (cases "map_of (wrapped s) (addr (c_id c))")
    case (Some i)
    then show ?thesis using assms iff[of "addr (c_id c)" i] by (auto simp: load_or_store_def)
  next
    case None
    then have e: "e = length (entries s)"
      and s': "s' = s\<lparr>wrapped := AList.update (addr (c_id c)) e (wrapped s), entries := entries s @ [new_entry c]\<rparr>"
      using assms(2) by (auto simp: load_or_store_def)
    have n: "\<not> e_disabled (new_entry c)" "entry_key addr (new_entry c) = addr (c_id c)" "entry_ok (new_entry c)" "e_poolName (new_entry c) = []"
      by (simp_all add: new_entry_def entry_key_def entry_ok_def)
    have "map_of (wrapped s') k = Some i \<longleftrightarrow>
        i < length (entries s') \<and> \<not> e_disabled (entries s' ! i) \<and> entry_key addr (entries s' ! i) = k" for k i
    proof (cases "i = length (entries s)")
      case True
      then show ?thesis using iff[of k i] n by (auto simp: s' e map_of_alist_update nth_append)
    next
      case False
      then have "map_of (wrapped s') k = Some i \<longleftrightarrow> map_of (wrapped s) k = Some i"
        using None e by (auto simp: s' map_of_alist_update)
      then show ?thesis using iff[of k i] False by (auto simp: s' nth_append)
    qed
    moreover have "alloc_ok (held s') (map e_poolName (entries s'))"
      using registry_okD(1)[OF assms(1)] n(4) by (auto simp: s' registry_core_def alloc_ok_def)
    ultimately have "registry_ok addr s'"
      using assms(1) n(3) by (auto simp: registry_ok_def registry_core_def s')
    then show ?thesis using n(2) by (simp add: s' e)
  qed
  then show "registry_ok addr s'" "e < length (entries s')" "entry_key addr (entries s' ! e) = addr (c_id c)" by simp_all
qed

text \<open>Entries are never removed from the heap and never change their reference, so an operation in progress stays valid.\<close>

definition extends :: "redis_registry \<Rightarrow> redis_registry \<Rightarrow> bool" where
  "extends s s' \<longleftrightarrow> live s' = live s \<and> length (entries s) \<le> length (entries s') \<and>
     (\<forall>i < length (entries s). e_ref (entries s' ! i) = e_ref (entries s ! i))"

lemma registry_extends_refl: "extends s s"
  by (simp add: extends_def)

lemma registry_extends_trans: "extends s t \<Longrightarrow> extends t u \<Longrightarrow> extends s u"
  by (auto simp: extends_def)

lemma pending_ok_extends: "extends s s' \<Longrightarrow> pending_ok addr s p \<Longrightarrow> pending_ok addr s' p"
  by (cases p) (auto simp: extends_def entry_key_def)

lemma extends_update: "(\<And>en. e_ref (f en) = e_ref en) \<Longrightarrow> extends s (update_entry e f s)"
  by (auto simp: extends_def update_entry_def nth_update_iff)

lemma extends_drop: "extends s (drop_entry k e s)"
  by (auto simp: extends_def drop_entry_def compare_and_delete_def detach_def update_entry_def nth_update_iff detach_entry_def Let_def)

lemma extends_load: "load_or_store addr c s = (e, s') \<Longrightarrow> extends s s'"
  by (auto simp: load_or_store_def extends_def nth_append split: option.splits)

lemma extends_assign: "extends s (assign_pool w c e s)"
  by (auto simp: assign_pool_def extends_def update_entry_def nth_update_iff Let_def split: prod.splits)

lemma extends_commit: "extends s (snd (commit addr w c e s))"
  by (auto simp: commit_def extends_def update_entry_def nth_update_iff Let_def split: prod.splits)

lemma extends_wrap: "extends s (snd (wrap_locked addr w c e s))"
  using extends_drop registry_extends_refl registry_extends_trans[OF extends_assign extends_drop] registry_extends_trans[OF extends_assign extends_commit]
  by (simp add: wrap_locked_def give_up_drop Let_def split: option.splits)

lemma unwrap_locked_ok:
  assumes "registry_ok addr s" "e < length (entries s)" "entry_key addr (entries s ! e) = addr (c_id c)"
  shows "registry_ok addr (unwrap_locked addr c e s)"
  using assms registry_okD[OF assms(1)] by (auto simp: unwrap_locked_def give_up_drop intro: drop_entry_ok)

lemma cleanup_locked_ok:
  assumes "registry_ok addr s" "e < length (entries s)" "entry_key addr (entries s ! e) = key"
  shows "registry_ok addr (cleanup_locked key ref e s)"
  using assms registry_okD[OF assms(1)]
  by (auto simp: cleanup_locked_def drop_entry_def[symmetric] intro: drop_entry_ok)

definition state_ok :: "(nat \<Rightarrow> nat) \<Rightarrow> redis_registry \<times> pending list \<Rightarrow> bool" where
  "state_ok addr sp \<longleftrightarrow> registry_ok addr (fst sp) \<and> list_all (pending_ok addr (fst sp)) (snd sp)"

lemma state_ok_advance:
  assumes "state_ok addr (s, ps)" "extends s s'" "registry_ok addr s'" "set ps' \<subseteq> set ps"
  shows "state_ok addr (s', ps')"
  using assms pending_ok_extends[OF assms(2)] by (auto simp: state_ok_def list_all_iff)

lemma redis_step_ok:
  assumes "redis_step addr sp sp'" "state_ok addr sp"
  shows "state_ok addr sp'"
  using assms
proof (induction rule: redis_step.induct)
  case (allocate i s ps)
  have "registry_ok addr (s\<lparr>live := i # live s\<rparr>)"
    using allocate by (simp add: state_ok_def registry_ok_def registry_core_def inj_on_insert)
  moreover have "pending_ok addr (s\<lparr>live := i # live s\<rparr>) p" if "pending_ok addr s p" for p
    using that by (cases p) auto
  ultimately show ?case using allocate.prems by (auto simp: state_ok_def list_all_iff)
next
  case (collect i ps s)
  have "registry_ok addr (s\<lparr>live := removeAll i (live s)\<rparr>)"
    using collect by (auto simp: state_ok_def registry_ok_def registry_core_def inj_on_def)
  moreover have "pending_ok addr (s\<lparr>live := removeAll i (live s)\<rparr>) p" if "p \<in> set ps" "pending_ok addr s p" for p
  proof -
    have "\<not> refers i p" using that(1) collect.hyps by (simp add: list_all_iff)
    with that(2) show ?thesis by (cases p) auto
  qed
  ultimately show ?case using collect.prems by (auto simp: state_ok_def list_all_iff)
next
  case (wrap_load c s e s' ps w)
  note l = load_or_store_ok[OF _ wrap_load(2)] and x = extends_load[OF wrap_load(2)]
  have "registry_ok addr s" using wrap_load.prems by (simp add: state_ok_def)
  then have "state_ok addr (s', ps)" using l(1) by (intro state_ok_advance[OF wrap_load.prems x]) auto
  moreover have "pending_ok addr s' (PWrap w c e)"
    using l wrap_load x by (simp add: state_ok_def extends_def)
  ultimately show ?case by (simp add: state_ok_def)
next
  case (wrap_run w c e ps s out s')
  have p: "pending_ok addr s (PWrap w c e)" using wrap_run by (auto simp: state_ok_def list_all_iff)
  have s': "s' = snd (wrap_locked addr w c e s)" using wrap_run by simp
  show ?case unfolding s'
  proof (rule state_ok_advance[OF wrap_run.prems extends_wrap _ set_remove1_subset])
    show "registry_ok addr (snd (wrap_locked addr w c e s))"
      using wrap_run.prems p by (intro wrap_locked_ok) (simp_all add: state_ok_def)
  qed
next
  case (unwrap_load c s e ps)
  then show ?case using loaded_entry[of addr s "addr (c_id c)" e] by (simp add: state_ok_def)
next
  case (unwrap_run c e ps s)
  then have p: "pending_ok addr s (PUnwrap c e)" by (auto simp: state_ok_def list_all_iff)
  have "extends s (unwrap_locked addr c e s)" by (simp add: unwrap_locked_def give_up_drop extends_drop registry_extends_refl)
  then show ?case
  proof (rule state_ok_advance[OF unwrap_run.prems _ _ set_remove1_subset])
    show "registry_ok addr (unwrap_locked addr c e s)"
      using unwrap_run.prems p by (intro unwrap_locked_ok) (simp_all add: state_ok_def)
  qed
next
  case (cleanup_load s ref e ps)
  then show ?case using loaded_entry[of addr s "addr (snd ref)" e] by (simp add: state_ok_def)
next
  case (cleanup_run key ref e ps s)
  then have p: "pending_ok addr s (PCleanup key ref e)" by (auto simp: state_ok_def list_all_iff)
  have "extends s (cleanup_locked key ref e s)"
    using extends_drop[of s key e] by (simp add: cleanup_locked_def drop_entry_def registry_extends_refl)
  then show ?case
  proof (rule state_ok_advance[OF cleanup_run.prems _ _ set_remove1_subset])
    show "registry_ok addr (cleanup_locked key ref e s)"
      using cleanup_run.prems p by (intro cleanup_locked_ok) (simp_all add: state_ok_def)
  qed
next
  case (new_node e s nd seen hs ps)
  then have "registry_ok addr (s\<lparr>hooked := hooked s @ map (\<lambda>(n, p). (n, p, e)) hs\<rparr>)"
    by (simp add: state_ok_def registry_ok_def registry_core_def)
  moreover have "extends s (s\<lparr>hooked := hooked s @ map (\<lambda>(n, p). (n, p, e)) hs\<rparr>)" by (simp add: extends_def)
  ultimately show ?case using state_ok_advance[OF new_node.prems] by blast
qed

definition registry_init :: redis_registry where
  "registry_init = \<lparr>wrapped = [], entries = [], held = [], live = [], hooked = []\<rparr>"

lemma reachable_ok: "(redis_step addr)\<^sup>*\<^sup>* (registry_init, []) sp \<Longrightarrow> state_ok addr sp"
proof (induction rule: rtranclp_induct)
  case base
  then show ?case by (simp add: state_ok_def registry_init_def registry_ok_def registry_core_def alloc_ok_def)
qed (rule redis_step_ok)

lemma length_filter_le_1:
  assumes "\<And>a b. a < length xs \<Longrightarrow> b < length xs \<Longrightarrow> P (xs ! a) \<Longrightarrow> P (xs ! b) \<Longrightarrow> a = b"
  shows "length (filter P xs) \<le> 1"
  unfolding length_filter_conv_card One_nat_def by (subst card_le_Suc0_iff_eq) (use assms in auto)

lemma registered_enabled: "entry_ok en \<Longrightarrow> e_reg en = Registered \<longleftrightarrow> e_poolName en \<noteq> []"
  "entry_ok en \<Longrightarrow> e_reg en = Registered \<Longrightarrow> \<not> e_disabled en \<and> e_done en"
  by (auto simp: entry_ok_def split: if_splits)

lemma one_registration:
  assumes "registry_ok addr s"
  shows "length (filter (\<lambda>en. e_reg en = Registered \<and> snd (e_ref en) = i) (entries s)) \<le> 1"
proof (rule length_filter_le_1)
  fix a b assume ab: "a < length (entries s)" "b < length (entries s)"
    "e_reg (entries s ! a) = Registered \<and> snd (e_ref (entries s ! a)) = i"
    "e_reg (entries s ! b) = Registered \<and> snd (e_ref (entries s ! b)) = i"
  then have "map_of (wrapped s) (addr i) = Some a" "map_of (wrapped s) (addr i) = Some b"
    using registered_enabled(2)[OF registry_okD(2)[OF assms]] registry_okD(1)[OF assms]
    by (simp_all add: registry_core_def entry_key_def)
  then show "a = b" by simp
qed

lemma holders_registered:
  assumes "registry_ok addr s" "name \<noteq> []"
  shows "(case map_of (held s) name of Some n \<Rightarrow> n | None \<Rightarrow> 0) =
    int (length (filter (\<lambda>en. e_reg en = Registered \<and> e_poolName en = name) (entries s)))"
proof -
  have "filter (\<lambda>en. e_reg en = Registered \<and> e_poolName en = name) (entries s) = filter (\<lambda>en. e_poolName en = name) (entries s)"
    using registered_enabled(1) assms by (intro filter_cong) (auto simp: registry_ok_def list_all_iff)
  moreover have "count_list (map e_poolName xs) name = length (filter (\<lambda>en. e_poolName en = name) xs)" for xs
    by (induction xs) auto
  moreover have "alloc_ok (held s) (map e_poolName (entries s))" using registry_okD(1)[OF assms(1)] by (simp add: registry_core_def)
  ultimately show ?thesis using alloc_ok_count[OF _ assms(2)] by metis
qed

text \<open>C7. However wrapping, unwrapping, garbage collection and cleanups interleave, and however addresses are reused: a client
  never has two registered instrumentations, so nothing is counted twice; every pool name is held exactly as often as
  registered wrappers carry it, so no name leaks and none is given out twice; and an entry that was disabled
  observes nothing and holds no name.\<close>

theorem redis_registry_consistent:
  assumes "(redis_step addr)\<^sup>*\<^sup>* (registry_init, []) (s, ps)"
  shows "length (filter (\<lambda>en. e_reg en = Registered \<and> snd (e_ref en) = i) (entries s)) \<le> 1 \<and>
    (name \<noteq> [] \<longrightarrow> (case map_of (held s) name of Some n \<Rightarrow> n | None \<Rightarrow> 0) =
       int (length (filter (\<lambda>en. e_reg en = Registered \<and> e_poolName en = name) (entries s)))) \<and>
    list_all (\<lambda>en. e_disabled en \<longrightarrow> e_reg en \<noteq> Registered \<and> e_poolName en = []) (entries s)"
proof -
  have ok: "registry_ok addr s" using reachable_ok[OF assms] by (simp add: state_ok_def)
  then have "list_all (\<lambda>en. e_disabled en \<longrightarrow> e_reg en \<noteq> Registered \<and> e_poolName en = []) (entries s)"
    by (auto simp: registry_ok_def list_all_iff entry_ok_def split: if_splits)
  then show ?thesis using one_registration[OF ok] holders_registered[OF ok] by blast
qed

definition sample_options :: client_options where
  "sample_options = \<lparr>Network = ''tcp'', Addr = ''c:6379'', DB = 0, MinIdleConns = 0, MaxIdleConns = 0, MaxActiveConns = 0\<rparr>"

definition sample_client :: redis_client where
  "sample_client = \<lparr>c_kind = SingleClient, c_id = 3, c_options = sample_options, c_addrs = []\<rparr>"

definition sample_call :: wrap_call where
  "sample_call = \<lparr>w_options = [], w_meter = (\<lambda>_. None), w_register = None, w_nodes = [], w_walk = None\<rparr>"

definition sample_loaded :: redis_registry where
  "sample_loaded = registry_init\<lparr>live := [3], wrapped := [(3, 0)], entries := [new_entry sample_client]\<rparr>"

definition sample_wrapped :: redis_registry where
  "sample_wrapped = snd (wrap_locked id sample_call sample_client 0 sample_loaded)"

lemma sample_reachable: "(redis_step id)\<^sup>*\<^sup>* (registry_init, []) (sample_wrapped, [])"
proof -
  have a: "redis_step id (registry_init, []) (registry_init\<lparr>live := 3 # live registry_init\<rparr>, [])"
    by (rule redis_step.allocate) (simp_all add: registry_init_def)
  have b: "redis_step id (registry_init\<lparr>live := 3 # live registry_init\<rparr>, []) (sample_loaded, [PWrap sample_call sample_client 0])"
    by (rule redis_step.wrap_load)
      (simp_all add: registry_init_def sample_loaded_def sample_client_def load_or_store_def)
  have "redis_step id (sample_loaded, [PWrap sample_call sample_client 0])
      (sample_wrapped, remove1 (PWrap sample_call sample_client 0) [PWrap sample_call sample_client 0])"
    by (rule redis_step.wrap_run[where out = "fst (wrap_locked id sample_call sample_client 0 sample_loaded)"])
      (simp_all add: sample_wrapped_def)
  then have c: "redis_step id (sample_loaded, [PWrap sample_call sample_client 0]) (sample_wrapped, [])" by simp
  show ?thesis using a b c by (meson rtranclp.rtrancl_into_rtrancl rtranclp.rtrancl_refl)
qed

theorem redis_registry_consistent_witness:
  "length (filter (\<lambda>en. e_reg en = Registered \<and> snd (e_ref en) = 3) (entries sample_wrapped)) \<le> 1 \<and>
   (case map_of (held sample_wrapped) ''redis-c:6379-1'' of Some n \<Rightarrow> n | None \<Rightarrow> 0) = 1 \<and>
   length (filter (\<lambda>en. e_reg en = Registered \<and> e_poolName en = ''redis-c:6379-1'') (entries sample_wrapped)) = 1"
proof -
  have "length (filter (\<lambda>en. e_reg en = Registered \<and> e_poolName en = ''redis-c:6379-1'') (entries sample_wrapped)) = 1"
    by code_simp
  then show ?thesis
    using redis_registry_consistent[OF sample_reachable, of 3 "''redis-c:6379-1''"] by simp
qed

section \<open>Wrap returns\<close>

definition instrumented :: "(nat \<Rightarrow> nat) \<Rightarrow> redis_registry \<Rightarrow> redis_client \<Rightarrow> bool" where
  "instrumented addr s c = (case map_of (wrapped s) (addr (c_id c)) of
     Some e \<Rightarrow> e_done (entries s ! e) \<and> e_ref (entries s ! e) = (c_kind c, c_id c) | None \<Rightarrow> False)"

lemma drop_entry_gone: "map_of (wrapped (drop_entry key e s)) key \<noteq> Some e"
  by (auto simp: drop_entry_def compare_and_delete_def map_of_alist_delete)

lemma drop_entry_wrapped:
  "map_of (wrapped s) key = Some e \<Longrightarrow> map_of (wrapped (drop_entry key e s)) key = None"
  by (simp add: drop_entry_def compare_and_delete_def detach_def update_entry_def Let_def map_of_alist_delete)

lemma commit_outcome:
  assumes "map_of (wrapped s) (addr (c_id c)) = Some e" "e < length (entries s)" "e_ref (entries s ! e) = (c_kind c, c_id c)"
  shows "\<exists>err. fst (commit addr w c e s) = Wrapped err" "instrumented addr (snd (commit addr w c e s)) c"
  using assms by (auto simp: commit_def instrumented_def update_entry_def Let_def split: prod.splits)

lemma wrap_locked_outcome:
  assumes "registry_ok addr s" "map_of (wrapped s) (addr (c_id c)) = Some e" "ref_matches s (e_ref (entries s ! e)) c"
  shows "\<exists>err s'. wrap_locked addr w c e s = (Wrapped err, s') \<and>
    (instrumented addr s' c \<or> err \<noteq> None \<and> map_of (wrapped s') (addr (c_id c)) = None)"
proof -
  have e: "e < length (entries s)" "\<not> e_disabled (entries s ! e)" "e_ref (entries s ! e) = (c_kind c, c_id c)"
    using assms registry_okD(1)[OF assms(1)] by (auto simp: registry_core_def ref_matches_def prod_eq_iff)
  show ?thesis
  proof (cases "e_done (entries s ! e)")
    case True
    then show ?thesis using assms e by (simp add: wrap_locked_def instrumented_def)
  next
    case False
    then have nm: "e_poolName (entries s ! e) = []" using registry_okD(2)[OF assms(1) e(1)] e(2) by (simp add: entry_ok_def)
    let ?s = "assign_pool w c e s"
    note ap = assign_pool_core[OF registry_okD(1)[OF assms(1)] e(1) nm, of w c]
    have w: "map_of (wrapped ?s) (addr (c_id c)) = Some e" using ap(4) assms(2) by simp
    have r: "e < length (entries ?s)" "e_ref (entries ?s ! e) = (c_kind c, c_id c)"
      using ap(3) e by (metis length_list_update, metis nth_list_update_eq wrap_entry.select_convs(1) wrap_entry.surjective wrap_entry.update_convs(6))
    obtain err t where "commit addr w c e ?s = (Wrapped err, t)" "instrumented addr t c"
      using commit_outcome[of ?s addr c e w, OF w r] by (metis prod.collapse)
    then show ?thesis using assms(2,3) False drop_entry_wrapped[OF w]
      by (auto simp: wrap_locked_def Let_def give_up_drop split: option.splits)
  qed
qed

lemma load_or_store_matches:
  assumes "map_of (wrapped s) (addr (c_id c)) = None" "c_id c \<in> set (live s)" "load_or_store addr c s = (e, s')"
  shows "map_of (wrapped s') (addr (c_id c)) = Some e \<and> ref_matches s' (e_ref (entries s' ! e)) c"
  using assms by (auto simp: load_or_store_def new_entry_def ref_matches_def ref_alive_def map_of_alist_update)

lemma wrap_loop_fresh:
  assumes "registry_ok addr s" "map_of (wrapped s) (addr (c_id c)) = None" "c_id c \<in> set (live s)"
  shows "\<exists>err s'. wrap_loop (Suc n) addr w c s = Some (err, s') \<and>
    (instrumented addr s' c \<or> err \<noteq> None \<and> map_of (wrapped s') (addr (c_id c)) = None)"
proof -
  obtain e s1 where l: "load_or_store addr c s = (e, s1)" by fastforce
  from load_or_store_matches[OF assms(2,3) l] load_or_store_ok(1)[OF assms(1) l] wrap_locked_outcome[of addr s1 c e w]
  show ?thesis using l by auto
qed

text \<open>\<^verbatim>\<open>Wrap\<close> of a live client returns: left alone, its loop ends within two rounds from every reachable state, also when a stale
  entry of a collected client sits at the same address; then the client is instrumented, or there was an error
  and no entry is left for its address.\<close>

theorem redis_wrap_settles:
  assumes "(redis_step addr)\<^sup>*\<^sup>* (registry_init, []) (s, ps)" "c_id c \<in> set (live s)"
  shows "\<exists>err s'. Wrap 2 addr w (Concrete c) False False s = Some (err, s') \<and>
    (instrumented addr s' c \<or> err \<noteq> None \<and> map_of (wrapped s') (addr (c_id c)) = None)"
proof -
  have ok: "registry_ok addr s" using reachable_ok[OF assms(1)] by (simp add: state_ok_def)
  have W: "Wrap 2 addr w (Concrete c) False False s = wrap_loop (Suc (Suc 0)) addr w c s"
    by (simp add: Wrap_def newClientOps_def numeral_2_eq_2)
  show ?thesis
  proof (cases "map_of (wrapped s) (addr (c_id c))")
    case None
    then show ?thesis unfolding W using wrap_loop_fresh[OF ok None assms(2)] by simp
  next
    case (Some e)
    have l: "load_or_store addr c s = (e, s)" using Some by (simp add: load_or_store_def)
    show ?thesis
    proof (cases "ref_matches s (e_ref (entries s ! e)) c")
      case True
      then show ?thesis unfolding W using wrap_locked_outcome[OF ok Some True, of w] l by auto
    next
      case False
      let ?t = "give_up addr c e s"
      have "wrap_locked addr w c e s = (Retry, ?t)" using Some False by (simp add: wrap_locked_def)
      then have r: "wrap_loop (Suc (Suc 0)) addr w c s = wrap_loop (Suc 0) addr w c ?t" by (simp add: l)
      have "map_of (wrapped ?t) (addr (c_id c)) = None" using Some by (simp add: give_up_drop drop_entry_wrapped)
      moreover have "live ?t = live s" using extends_drop[of s "addr (c_id c)" e] by (simp add: give_up_drop extends_def)
      moreover have "registry_ok addr ?t"
        using ok Some registry_okD[OF ok] unfolding give_up_drop by (intro drop_entry_ok) (auto simp: registry_core_def)
      ultimately show ?thesis unfolding W r using assms(2) by (intro wrap_loop_fresh) auto
    qed
  qed
qed

theorem redis_wrap_settles_witness:
  "\<exists>err s'. Wrap 2 id sample_call (Concrete sample_client) False False sample_wrapped = Some (err, s') \<and>
    (instrumented id s' sample_client \<or> err \<noteq> None \<and> map_of (wrapped s') (id (c_id sample_client)) = None)"
proof (rule redis_wrap_settles[OF sample_reachable])
  show "c_id sample_client \<in> set (live sample_wrapped)" by code_simp
qed

text \<open>A second \<^verbatim>\<open>Wrap\<close> of an instrumented client changes nothing.\<close>

theorem redis_rewrap_is_noop:
  assumes "instrumented addr s c" "c_id c \<in> set (live s)"
  shows "Wrap (Suc n) addr w (Concrete c) False False s = Some (None, s)"
  using assms
  by (auto simp: instrumented_def Wrap_def newClientOps_def load_or_store_def wrap_locked_def ref_matches_def ref_alive_def
      split: option.splits)

text \<open>A \<^verbatim>\<open>Wrap\<close> that fails before it commits leaves nothing behind: the same clients are registered and the same names held.\<close>

lemma alloc_ok_unique: "alloc_ok hm names \<Longrightarrow> alloc_ok hm' names' \<Longrightarrow> (\<And>n. n \<noteq> [] \<Longrightarrow> count_list names n = count_list names' n) \<Longrightarrow>
    map_of hm n = map_of hm' n"
  by (cases "n = []") (simp_all add: alloc_ok_def)

lemma give_up_assigned:
  fixes w :: wrap_call
  assumes "registry_ok addr s" "load_or_store addr c s = (e, s1)" "map_of (wrapped s) (addr (c_id c)) = None"
    and t_def: "t = give_up addr c e (assign_pool w c e s1)"
  shows "map_of (wrapped t) k = map_of (wrapped s) k" "map_of (held t) name = map_of (held s) name"
proof -
  have e: "e = length (entries s)"
    and s1: "s1 = s\<lparr>wrapped := AList.update (addr (c_id c)) e (wrapped s), entries := entries s @ [new_entry c]\<rparr>"
    using assms(2,3) by (auto simp: load_or_store_def)
  note l = load_or_store_ok[OF assms(1,2)]
  have nm: "e_poolName (entries s1 ! e) = []" by (simp add: s1 e new_entry_def)
  note ap = assign_pool_core[OF registry_okD(1)[OF l(1)] l(2) nm, of w c]
  have en: "entries t = (entries (assign_pool w c e s1))[e := detach_entry (entries (assign_pool w c e s1) ! e)]"
    and w: "map_of (wrapped t) = (if map_of (wrapped s1) (addr (c_id c)) = Some e then (map_of (wrapped s1))(addr (c_id c) := None) else map_of (wrapped s1))"
    by (simp_all add: t_def give_up_def compare_and_delete_def detach_def update_entry_def Let_def map_of_alist_delete ap(4))
  show "map_of (wrapped t) k = map_of (wrapped s) k"
    using assms(3) by (simp add: w) (simp add: s1 map_of_alist_update)
  have d: "e_poolName (detach_entry en) = []" for en by (simp add: detach_entry_def)
  have "entries t = (entries s1)[e := detach_entry (entries (assign_pool w c e s1) ! e)]"
    unfolding en by (subst ap(3)) simp
  then have names: "map e_poolName (entries t) = map e_poolName (entries s) @ [[]]"
    by (simp add: s1 e d)
  have key: "entry_key addr (entries (assign_pool w c e s1) ! e) = addr (c_id c)"
    using l(2,3) by (subst ap(3)) (simp add: entry_key_def)
  have "e < length (entries (assign_pool w c e s1))" using ap(3) l(2) by (metis length_list_update)
  then have "registry_core addr t" using ap(1) key unfolding t_def give_up_drop by (intro drop_entry_core) auto
  then have "alloc_ok (held t) (map e_poolName (entries s) @ [[]])" by (simp add: registry_core_def names)
  moreover have "alloc_ok (held s) (map e_poolName (entries s))" using registry_okD(1)[OF assms(1)] by (simp add: registry_core_def)
  ultimately show "map_of (held t) name = map_of (held s) name" by (rule alloc_ok_unique) simp
qed

theorem failed_wrap_leaves_nothing:
  assumes "(redis_step addr)\<^sup>*\<^sup>* (registry_init, []) (s, ps)" "c_id c \<in> set (live s)" "map_of (wrapped s) (addr (c_id c)) = None"
    and "newPoolMetrics (w_meter w) \<noteq> None \<or> w_register w \<noteq> None \<or> w_meter w ''db.client.operation.duration'' \<noteq> None"
  shows "\<exists>err s'. Wrap 1 addr w (Concrete c) False False s = Some (Some err, s') \<and>
    map_of (wrapped s') = map_of (wrapped s) \<and> map_of (held s') = map_of (held s) \<and> hooked s' = hooked s"
proof -
  have ok: "registry_ok addr s" using reachable_ok[OF assms(1)] by (simp add: state_ok_def)
  obtain e s1 where l: "load_or_store addr c s = (e, s1)" by fastforce
  have m: "map_of (wrapped s1) (addr (c_id c)) = Some e" "ref_matches s1 (e_ref (entries s1 ! e)) c"
    using load_or_store_matches[OF assms(3,2) l] by simp_all
  have nd: "\<not> e_done (entries s1 ! e)" using l assms(3) by (auto simp: load_or_store_def new_entry_def)
  let ?t = "give_up addr c e (assign_pool w c e s1)"
  have "\<exists>err. wrap_locked addr w c e s1 = (Wrapped (Some err), ?t)"
    using m nd assms(4) by (auto simp: wrap_locked_def Let_def split: option.splits)
  then obtain err where "Wrap 1 addr w (Concrete c) False False s = Some (Some err, ?t)"
    by (auto simp: Wrap_def newClientOps_def l)
  moreover have "hooked ?t = hooked s"
    using l by (auto simp: give_up_def compare_and_delete_def detach_def update_entry_def assign_pool_def load_or_store_def Let_def
        split: option.splits prod.splits)
  ultimately show ?thesis using give_up_assigned[OF ok l assms(3) refl] by (intro exI[of _ err] exI[of _ ?t]) auto
qed

section \<open>Each node is hooked once\<close>

lemma walk_nodes_seen:
  "distinct (map (\<lambda>h. addr (fst h)) (walk_nodes addr p False (Some ks) nodes)) \<and>
   (\<lambda>h. addr (fst h)) ` set (walk_nodes addr p False (Some ks) nodes) =
     {addr (node_id nd) | nd. Some nd \<in> set nodes} - set ks"
proof (induction nodes arbitrary: ks)
  case (Cons n nodes)
  show ?case
  proof (cases n)
    case None
    then show ?thesis using Cons.IH[of ks] by (simp add: node_hook_def)
  next
    case (Some nd)
    then show ?thesis
    proof (cases "addr (node_id nd) \<in> set ks")
      case True
      then show ?thesis using Cons.IH[of ks] Some by (auto simp: node_hook_def)
    next
      case False
      have img: "addr (node_id nd) \<notin> (\<lambda>h. addr (fst h)) ` set (walk_nodes addr p False (Some (addr (node_id nd) # ks)) nodes)"
        using Cons.IH[of "addr (node_id nd) # ks"] by simp
      show ?thesis using Cons.IH[of "addr (node_id nd) # ks"] img Some False by (auto simp: node_hook_def)
    qed
  qed
qed simp

text \<open>The walk over the nodes of a cluster hooks every node it is shown exactly once, although the same node may be reported
  both as new and as a shard.\<close>

theorem walk_hooks_every_node_once:
  "distinct (map (\<lambda>h. addr (fst h)) (fst (installShardedHooks addr p False nodes err))) \<and>
   (\<lambda>h. addr (fst h)) ` set (fst (installShardedHooks addr p False nodes err)) = {addr (node_id nd) | nd. Some nd \<in> set nodes}"
  using walk_nodes_seen[of addr p "[]" nodes] by (simp add: installShardedHooks_def)

end
