(* ===== verification/Elasticsearch.thy ===== *)
theory Elasticsearch
  imports Telemetry
begin

text \<open>
  The Elasticsearch integration (\<^verbatim>\<open>elasticsearch/client.go\<close>, \<^verbatim>\<open>metrics.go\<close>): the options, the constructors, and the callbacks that
  wrap the client's first-party instrumentation.

  \<^verbatim>\<open>go-elasticsearch\<close> and \<^verbatim>\<open>elastictransport\<close> are parameters: a call of the wrapped instrumentation is an effect in the list of effects
  of a request, in the order the code makes it, beside the calls on the span and the recorded measurement.
\<close>

section \<open>Options and constructors\<close>

record es_config =
  captureSearchBody :: bool
  es_collectionMetricLabelDisabled :: bool
  typed :: bool

definition es_collectionMetricLabel :: "es_config \<Rightarrow> bool" where
  "es_collectionMetricLabel c = (\<not> es_collectionMetricLabelDisabled c)"

definition WithSearchBody :: "bool \<Rightarrow> es_config \<Rightarrow> es_config" where
  "WithSearchBody enabled cfg = cfg\<lparr>captureSearchBody := enabled\<rparr>"

definition es_WithCollectionMetricLabel :: "bool \<Rightarrow> es_config \<Rightarrow> es_config" where
  "es_WithCollectionMetricLabel enabled cfg = cfg\<lparr>es_collectionMetricLabelDisabled := \<not> enabled\<rparr>"

definition es_newConfig :: "(es_config \<Rightarrow> es_config) option list \<Rightarrow> es_config" where
  "es_newConfig opts = foldl (\<lambda>cfg opt. case opt of Some f \<Rightarrow> f cfg | None \<Rightarrow> cfg)
     \<lparr>captureSearchBody = False, es_collectionMetricLabelDisabled = False, typed = False\<rparr> opts"

text \<open>The meter yields the error of creating the histogram, or the instrument.\<close>

record es_instrumentation =
  has_inst :: bool
  es_cfg :: es_config

definition es_newInstruments :: "(string \<Rightarrow> string option) \<Rightarrow> string + bool" where
  "es_newInstruments meter = (case meter ''db.client.operation.duration'' of
     Some err \<Rightarrow> Inl (''elasticsearch: create operation duration histogram: '' @ err) | None \<Rightarrow> Inr True)"

definition instrument_client ::
  "bool \<Rightarrow> (string \<Rightarrow> string option) option \<Rightarrow> bool \<Rightarrow> (es_config \<Rightarrow> es_config) option list \<Rightarrow> string + es_instrumentation" where
  "instrument_client tpNil mp typed_client opts =
     (if tpNil then Inl ''tracer provider must not be nil''
      else case mp of None \<Rightarrow> Inl ''meter provider must not be nil''
        | Some meter \<Rightarrow>
          let c = (es_newConfig opts)\<lparr>typed := typed_client\<rparr>
          in case es_newInstruments meter of Inl err \<Rightarrow> Inl err | Inr inst \<Rightarrow> Inr \<lparr>has_inst = inst, es_cfg = c\<rparr>)"

text \<open>The constructor of the client is given the instrumentation that replaces the caller's.\<close>

definition NewClient ::
  "(es_instrumentation \<Rightarrow> string + 'c) \<Rightarrow> bool \<Rightarrow> (string \<Rightarrow> string option) option \<Rightarrow> (es_config \<Rightarrow> es_config) option list \<Rightarrow> string + 'c" where
  "NewClient new tpNil mp opts = (case instrument_client tpNil mp False opts of
     Inl err \<Rightarrow> Inl (''elasticsearch new client: '' @ err)
   | Inr g \<Rightarrow> (case new g of Inl err \<Rightarrow> Inl (''elasticsearch new client: '' @ err) | Inr client \<Rightarrow> Inr client))"

definition NewTypedClient ::
  "(es_instrumentation \<Rightarrow> string + 'c) \<Rightarrow> bool \<Rightarrow> (string \<Rightarrow> string option) option \<Rightarrow> (es_config \<Rightarrow> es_config) option list \<Rightarrow> string + 'c" where
  "NewTypedClient new tpNil mp opts = (case instrument_client tpNil mp True opts of
     Inl err \<Rightarrow> Inl (''elasticsearch new typed client: '' @ err)
   | Inr g \<Rightarrow> (case new g of Inl err \<Rightarrow> Inl (''elasticsearch new typed client: '' @ err) | Inr client \<Rightarrow> Inr client))"

section \<open>Errors\<close>

text \<open>An error as the package reads it: whether its chain holds an \<^verbatim>\<open>ElasticsearchError\<close>, and the types of what
  repeated \<^verbatim>\<open>errors.Unwrap\<close> yields.\<close>

record es_error = go_error +
  is_es_error :: bool
  unwrapped_types :: "string list"

definition isTypedResponseError :: "es_error option \<Rightarrow> bool" where
  "isTypedResponseError err = (case err of Some e \<Rightarrow> is_es_error e | None \<Rightarrow> False)"

definition pattern_head :: string where "pattern_head = ''an error happened during the ''"
definition pattern_tail :: string where "pattern_tail = '' query execution, status code: ''"

text \<open>The submatch of \<^verbatim>\<open>typedStatusErrorPattern\<close>: the text before the trailing digits ends in the literal, whose last byte is no
  digit, so the digits are the longest numeric suffix; \<^verbatim>\<open>.+\<close> matches a non-empty text with no line feed.\<close>

definition status_submatch :: "string \<Rightarrow> string option" where
  "status_submatch t =
     (let ds = rev (takeWhile is_digit (rev t));
          before = take (length t - length ds) t;
          endpoint = take (length before - length pattern_head - length pattern_tail) (drop (length pattern_head) before)
      in if ds \<noteq> [] \<and> before = pattern_head @ endpoint @ pattern_tail \<and> endpoint \<noteq> [] \<and> CHR 10 \<notin> set endpoint
         then Some ds else None)"

definition typedStatusError :: "es_error option \<Rightarrow> int \<Rightarrow> bool" where
  "typedStatusError err terminalStatus = (case err of None \<Rightarrow> False
     | Some e \<Rightarrow>
       if terminalStatus = 0 then False
       else (case status_submatch (err_text e) of None \<Rightarrow> False | Some m \<Rightarrow> atoi m = Some terminalStatus))"

fun unwrap_type :: "string list \<Rightarrow> string" where
  "unwrap_type [] = ''_OTHER''"
| "unwrap_type (name # names) = (if \<not> prefix ''*fmt.'' name then name else unwrap_type names)"

definition es_errorType :: "es_error option \<Rightarrow> string" where
  "es_errorType err = (case err of None \<Rightarrow> ''_OTHER''
     | Some e \<Rightarrow>
       if is_deadline e then ''context.DeadlineExceeded''
       else if is_canceled e then ''context.Canceled''
       else unwrap_type (err_type e # unwrapped_types e))"

section \<open>The callbacks of a request\<close>

definition esSystem :: string where "esSystem = ''elasticsearch''"

record responseState =
  rs_start :: "nanos option"
  rs_operation :: string
  rs_index :: string
  rs_host :: string
  rs_port :: int
  rs_statusCode :: int
  rs_errored :: bool
  rs_err :: "es_error option"
  rs_esError :: bool

datatype es_effect =
    UpStart string
  | UpPathPart string string
  | UpRequestBody string nat
  | UpAfterRequest string string
  | UpAfterResponse "int option"
  | UpError "es_error option"
  | UpClose
  | SpanName string
  | SpanAttr key_value
  | SpanError string
  | Recorded int "key_value list"

text \<open>What the context of a request carries: the state, unless the context did not come from \<^verbatim>\<open>Start\<close>, and whether its span records.\<close>

record es_request =
  rq_state :: "responseState option"
  rq_recording :: bool
  rq_effects :: "es_effect list"

definition emit :: "es_effect list \<Rightarrow> es_request \<Rightarrow> es_request" where
  "emit fx r = r\<lparr>rq_effects := rq_effects r @ fx\<rparr>"

definition es_Start :: "string \<Rightarrow> nanos \<Rightarrow> bool \<Rightarrow> es_request" where
  "es_Start name now recording =
     \<lparr>rq_state = Some \<lparr>rs_start = Some now, rs_operation = name, rs_index = [], rs_host = [], rs_port = 0, rs_statusCode = 0,
        rs_errored = False, rs_err = None, rs_esError = False\<rparr>,
      rq_recording = recording, rq_effects = [UpStart (esSystem @ ''.'' @ name)]\<rparr>"

definition RecordPathPart :: "string \<Rightarrow> string \<Rightarrow> es_request \<Rightarrow> es_request" where
  "RecordPathPart pathPart value r0 =
     (let r = emit [UpPathPart pathPart value] r0
      in if pathPart \<noteq> ''index'' \<or> value = [] then r
         else case rq_state r of None \<Rightarrow> r
           | Some st \<Rightarrow>
             if rs_operation st = [] then r
             else let r' = r\<lparr>rq_state := Some (st\<lparr>rs_index := value\<rparr>)\<rparr>
               in if rq_recording r' then emit [SpanName (esSystem @ ''.'' @ rs_operation st @ '' '' @ value)] r' else r')"

text \<open>A body is a reader of the caller's; the wrapped instrumentation returns the reader that replaces it.\<close>

definition RecordRequestBody :: "(nat \<Rightarrow> nat) \<Rightarrow> string \<Rightarrow> nat option \<Rightarrow> es_request \<Rightarrow> nat option \<times> es_request" where
  "RecordRequestBody upstream endpoint query r = (case query of None \<Rightarrow> (None, r)
     | Some q \<Rightarrow> (Some (upstream q), emit [UpRequestBody endpoint q] r))"

text \<open>A request is the host name and the port text of its URL, if it has one.\<close>

definition AfterRequest :: "(string \<times> string) option option \<Rightarrow> string \<Rightarrow> string \<Rightarrow> es_request \<Rightarrow> es_request" where
  "AfterRequest req system endpoint r0 =
     (let r = emit [UpAfterRequest system endpoint] r0
      in case req of Some (Some (hostname, port)) \<Rightarrow>
           (case rq_state r of None \<Rightarrow> r
            | Some st \<Rightarrow>
              let st1 = st\<lparr>rs_host := hostname\<rparr>
              in r\<lparr>rq_state := Some (case atoi port of Some n \<Rightarrow> if n > 0 then st1\<lparr>rs_port := n\<rparr> else st1 | None \<Rightarrow> st1)\<rparr>)
         | _ \<Rightarrow> r)"

definition AfterResponse :: "int option \<Rightarrow> es_request \<Rightarrow> es_request" where
  "AfterResponse res r0 =
     (let r = emit [UpAfterResponse res] r0
      in case res of None \<Rightarrow> r
         | Some code \<Rightarrow> r\<lparr>rq_state := map_option (\<lambda>st. st\<lparr>rs_statusCode := code\<rparr>) (rq_state r)\<rparr>)"

definition RecordError :: "es_instrumentation \<Rightarrow> es_error option \<Rightarrow> es_request \<Rightarrow> es_request" where
  "RecordError g err r0 =
     (let r = emit [UpError err] r0
      in case rq_state r of None \<Rightarrow> r
         | Some st \<Rightarrow>
           r\<lparr>rq_state := Some
             (if isTypedResponseError err \<or> (typed (es_cfg g) \<and> typedStatusError err (rs_statusCode st))
              then st\<lparr>rs_esError := True\<rparr>
              else st\<lparr>rs_errored := True, rs_err := err\<rparr>)\<rparr>)"

definition httpFailed :: "es_instrumentation \<Rightarrow> responseState \<Rightarrow> bool" where
  "httpFailed g st = (if typed (es_cfg g) then rs_esError st else rs_statusCode st > 299)"

definition singleIndex :: "string \<Rightarrow> string" where
  "singleIndex idx = (if idx = [] \<or> contains idx '','' then [] else idx)"

definition metricErrorType :: "es_instrumentation \<Rightarrow> responseState \<Rightarrow> string" where
  "metricErrorType g st =
     (if rs_errored st then es_errorType (rs_err st)
      else if rs_statusCode st \<noteq> 0 \<and> httpFailed g st then itoa (rs_statusCode st)
      else [])"

definition es_metricAttrs :: "es_instrumentation \<Rightarrow> responseState \<Rightarrow> key_value list" where
  "es_metricAttrs g st =
     (''db.system.name'', StrV ''elasticsearch'') #
     when_set (rs_operation st \<noteq> []) ''db.operation.name'' (StrV (rs_operation st)) @
     when_set (singleIndex (rs_index st) \<noteq> [] \<and> es_collectionMetricLabel (es_cfg g)) ''db.collection.name'' (StrV (singleIndex (rs_index st))) @
     when_set (rs_host st \<noteq> []) ''server.address'' (StrV (rs_host st)) @
     when_set (rs_host st \<noteq> [] \<and> rs_port st > 0) ''server.port'' (IntV (rs_port st)) @
     when_set (metricErrorType g st \<noteq> []) ''error.type'' (StrV (metricErrorType g st)) @
     when_set (\<not> rs_errored st \<and> rs_statusCode st \<noteq> 0 \<and> httpFailed g st) ''db.response.status_code'' (StrV (itoa (rs_statusCode st)))"

definition recordDuration :: "es_instrumentation \<Rightarrow> nanos \<Rightarrow> responseState \<Rightarrow> es_effect list" where
  "recordDuration g now st = (case rs_start st of
     Some start \<Rightarrow> if has_inst g then [Recorded (time_sub now start) (es_metricAttrs g st)] else []
   | None \<Rightarrow> [])"

definition es_Close :: "es_instrumentation \<Rightarrow> (int \<Rightarrow> string) \<Rightarrow> nanos \<Rightarrow> es_request \<Rightarrow> es_request" where
  "es_Close g statusText now r = (case rq_state r of
     None \<Rightarrow> emit [UpClose] r
   | Some st \<Rightarrow>
     emit (recordDuration g now st @
       (if \<not> rs_errored st \<and> rs_statusCode st \<noteq> 0 \<and> rq_recording r
        then SpanAttr (''http.response.status_code'', IntV (rs_statusCode st)) #
          (if httpFailed g st then [SpanError (statusText (rs_statusCode st))] else [])
        else []) @
       [UpClose]) r)"

text \<open>A request is what the generated API makes of it: \<^verbatim>\<open>Start\<close>, any callbacks, and the deferred \<^verbatim>\<open>Close\<close>.\<close>

datatype es_call =
    PathPart string string
  | RequestBody string "nat option"
  | RequestDone "(string \<times> string) option option" string string
  | ResponseSeen "int option"
  | ErrorSeen "es_error option"

fun run_call :: "es_instrumentation \<Rightarrow> es_call \<Rightarrow> es_request \<Rightarrow> es_request" where
  "run_call g (PathPart k v) r = RecordPathPart k v r"
| "run_call g (RequestBody ep q) r = snd (RecordRequestBody (\<lambda>q. q) ep q r)"
| "run_call g (RequestDone req system ep) r = AfterRequest req system ep r"
| "run_call g (ResponseSeen res) r = AfterResponse res r"
| "run_call g (ErrorSeen err) r = RecordError g err r"

definition es_exchange :: "es_instrumentation \<Rightarrow> (int \<Rightarrow> string) \<Rightarrow> string \<Rightarrow> nanos \<Rightarrow> bool \<Rightarrow> es_call list \<Rightarrow> nanos \<Rightarrow> es_effect list" where
  "es_exchange g statusText name start recording calls end_time =
     rq_effects (es_Close g statusText end_time (fold (run_call g) calls (es_Start name start recording)))"

section \<open>What a request comes to\<close>

text \<open>The outcome, read off the calls: the last response, the last index, whether and with what error the request ended.\<close>

fun status_after :: "int \<Rightarrow> es_call \<Rightarrow> int" where
  "status_after c (ResponseSeen (Some d)) = d"
| "status_after c _ = c"

fun index_after :: "string \<Rightarrow> es_call \<Rightarrow> string" where
  "index_after i (PathPart k v) = (if k = ''index'' \<and> v \<noteq> [] then v else i)"
| "index_after i _ = i"

definition last_status :: "int \<Rightarrow> es_call list \<Rightarrow> int" where
  "last_status = foldl status_after"

definition last_index :: "string \<Rightarrow> es_call list \<Rightarrow> string" where
  "last_index = foldl index_after"

definition rejects :: "es_instrumentation \<Rightarrow> es_error option \<Rightarrow> int \<Rightarrow> bool" where
  "rejects g err c \<longleftrightarrow> isTypedResponseError err \<or> (typed (es_cfg g) \<and> typedStatusError err c)"

text \<open>The errors that did not come from a response the endpoint rejected, and whether one did.\<close>

fun errors_of :: "es_instrumentation \<Rightarrow> int \<Rightarrow> es_call \<Rightarrow> es_error option list" where
  "errors_of g c (ErrorSeen err) = (if rejects g err c then [] else [err])"
| "errors_of g c _ = []"

fun rejected_by :: "es_instrumentation \<Rightarrow> int \<Rightarrow> es_call \<Rightarrow> bool" where
  "rejected_by g c (ErrorSeen err) = rejects g err c"
| "rejected_by g c _ = False"

fun terminal_errors :: "es_instrumentation \<Rightarrow> int \<Rightarrow> es_call list \<Rightarrow> es_error option list" where
  "terminal_errors g c [] = []"
| "terminal_errors g c (call # calls) = errors_of g c call @ terminal_errors g (status_after c call) calls"

fun rejections :: "es_instrumentation \<Rightarrow> int \<Rightarrow> es_call list \<Rightarrow> bool" where
  "rejections g c [] = False"
| "rejections g c (call # calls) = (rejected_by g c call \<or> rejections g (status_after c call) calls)"

definition request_failed :: "es_instrumentation \<Rightarrow> es_call list \<Rightarrow> bool" where
  "request_failed g calls \<longleftrightarrow> terminal_errors g 0 calls \<noteq> [] \<or>
     last_status 0 calls \<noteq> 0 \<and> (if typed (es_cfg g) then rejections g 0 calls else last_status 0 calls > 299)"

definition summarised :: "es_instrumentation \<Rightarrow> es_request \<Rightarrow> responseState \<Rightarrow> es_call list \<Rightarrow> es_request \<Rightarrow> responseState \<Rightarrow> bool" where
  "summarised g r st calls r' st' \<longleftrightarrow>
     rq_state r' = Some st' \<and> rq_recording r' = rq_recording r \<and>
     rs_start st' = rs_start st \<and> rs_operation st' = rs_operation st \<and>
     rs_index st' = last_index (rs_index st) calls \<and>
     rs_statusCode st' = last_status (rs_statusCode st) calls \<and>
     rs_errored st' = (rs_errored st \<or> terminal_errors g (rs_statusCode st) calls \<noteq> []) \<and>
     rs_err st' = last (rs_err st # terminal_errors g (rs_statusCode st) calls) \<and>
     rs_esError st' = (rs_esError st \<or> rejections g (rs_statusCode st) calls)"

lemmas callback_defs = RecordPathPart_def RecordRequestBody_def AfterRequest_def AfterResponse_def RecordError_def emit_def Let_def

lemma run_call_summarised:
  assumes "rq_state r = Some st" "rs_operation st \<noteq> []"
  shows "\<exists>st'. summarised g r st [call] (run_call g call r) st'"
proof (cases call)
  case (ResponseSeen res)
  then show ?thesis using assms
    by (cases res) (auto simp: callback_defs summarised_def last_index_def last_status_def)
qed (use assms in \<open>auto simp: callback_defs summarised_def last_index_def last_status_def rejects_def split: option.split\<close>)

lemma run_calls_summarised:
  assumes "rq_state r = Some st" "rs_operation st \<noteq> []"
  shows "\<exists>st'. summarised g r st calls (fold (run_call g) calls r) st'"
  using assms
proof (induction calls arbitrary: r st)
  case Nil
  then show ?case by (simp add: summarised_def last_index_def last_status_def)
next
  case (Cons call calls)
  obtain st1 where st1: "summarised g r st [call] (run_call g call r) st1"
    using run_call_summarised[OF Cons.prems] by blast
  then have "rq_state (run_call g call r) = Some st1" "rs_operation st1 \<noteq> []" using Cons.prems by (auto simp: summarised_def)
  then obtain st' where "summarised g (run_call g call r) st1 calls (fold (run_call g) calls (run_call g call r)) st'"
    using Cons.IH by blast
  with st1 have "summarised g r st (call # calls) (fold (run_call g) (call # calls) r) st'"
    by (auto simp: summarised_def last_index_def last_status_def last_append)
  then show ?case ..
qed

fun closing :: "es_effect \<Rightarrow> bool" where
  "closing (Recorded _ _) = True"
| "closing (SpanAttr _) = True"
| "closing (SpanError _) = True"
| "closing UpClose = True"
| "closing _ = False"

lemma run_call_quiet: "filter closing (rq_effects (run_call g call r)) = filter closing (rq_effects r)"
  by (cases call) (auto simp: callback_defs split: option.split prod.split)

lemma run_calls_quiet: "filter closing (rq_effects (fold (run_call g) calls r)) = filter closing (rq_effects r)"
  by (induction calls arbitrary: r) (simp_all add: run_call_quiet)

text \<open>Every Go type has a name.\<close>

definition named_types :: "es_call list \<Rightarrow> bool" where
  "named_types calls \<longleftrightarrow> list_all (\<lambda>call. case call of ErrorSeen (Some e) \<Rightarrow> [] \<notin> set (err_type e # unwrapped_types e) | _ \<Rightarrow> True) calls"

lemma unwrap_type_named: "[] \<notin> set names \<Longrightarrow> unwrap_type names \<noteq> []"
  by (induction names) auto

lemma unwrap_type_not_fmt: "\<not> prefix ''*fmt.'' (unwrap_type names)"
  by (induction names) auto

lemma terminal_errors_seen: "err \<in> set (terminal_errors g c calls) \<Longrightarrow> ErrorSeen err \<in> set calls"
proof (induction calls arbitrary: c)
  case (Cons call calls)
  then show ?case by (cases call) (auto split: if_splits)
qed simp

lemma es_errorType_named: "named_types calls \<Longrightarrow> ErrorSeen err \<in> set calls \<Longrightarrow> es_errorType err \<noteq> []"
proof (cases err)
  case (Some e)
  assume "named_types calls" "ErrorSeen err \<in> set calls"
  with Some have "[] \<notin> set (err_type e # unwrapped_types e)" by (fastforce simp: named_types_def list_all_iff)
  then show ?thesis using unwrap_type_named Some by (simp add: es_errorType_def del: unwrap_type.simps)
qed (simp add: es_errorType_def)

lemma itoa_not_Nil [simp]: "itoa i \<noteq> []"
  by (simp add: itoa_def)

lemma es_metricAttrs_order:
  "subseq (keys (es_metricAttrs g st)) [''db.system.name'', ''db.operation.name'', ''db.collection.name'', ''server.address'',
     ''server.port'', ''error.type'', ''db.response.status_code'']"
  unfolding es_metricAttrs_def by (intro key_order)

lemma es_metric_labels:
  "last_value (es_metricAttrs g st) ''error.type'' = (if metricErrorType g st \<noteq> [] then Some (StrV (metricErrorType g st)) else None)"
  "last_value (es_metricAttrs g st) ''db.response.status_code'' =
     (if \<not> rs_errored st \<and> rs_statusCode st \<noteq> 0 \<and> httpFailed g st then Some (StrV (itoa (rs_statusCode st))) else None)"
  "last_value (es_metricAttrs g st) ''db.collection.name'' =
     (if singleIndex (rs_index st) \<noteq> [] \<and> es_collectionMetricLabel (es_cfg g) then Some (StrV (singleIndex (rs_index st))) else None)"
  unfolding es_metricAttrs_def by (simp_all add: last_value_when_set last_value_Cons last_value_when)

lemma singleIndex_one: "singleIndex i \<noteq> [] \<Longrightarrow> singleIndex i = i \<and> \<not> contains i '',''"
  by (auto simp: singleIndex_def split: if_splits)

text \<open>The outcome of a request: the label the measurement carries for a failure.\<close>

definition failure_label :: "es_instrumentation \<Rightarrow> es_call list \<Rightarrow> string option" where
  "failure_label g calls =
     (if terminal_errors g 0 calls \<noteq> [] then Some (es_errorType (last (terminal_errors g 0 calls)))
      else if request_failed g calls then Some (itoa (last_status 0 calls)) else None)"

definition response_failed :: "es_instrumentation \<Rightarrow> es_call list \<Rightarrow> bool" where
  "response_failed g calls \<longleftrightarrow> request_failed g calls \<and> terminal_errors g 0 calls = []"

text \<open>C16. Whatever callbacks the client runs between the start and the end of a request, the request records exactly one measurement, over at most
  seven fixed keys none of which repeats, and closes its span last and once.  The measurement carries an error
  type exactly when the request failed: the class of the error that ended it, or else the status of the last response, if
  the low-level client would call it an error or the typed client rejected it; a retried attempt leaves no trace.  The span is given that
  status exactly when no error ended the request, is marked as failed exactly when the response is a failure, and the index is a label only
  when the request addressed exactly one.\<close>

theorem es_span_and_metric_agree:
  assumes "has_inst g" "name \<noteq> []" "named_types calls"
  shows "\<exists>attrs. filter closing (es_exchange g statusText name start recording calls end_time) =
      Recorded (time_sub end_time start) attrs #
      (if recording \<and> terminal_errors g 0 calls = [] \<and> last_status 0 calls \<noteq> 0
       then [SpanAttr (''http.response.status_code'', IntV (last_status 0 calls))] else []) @
      (if recording \<and> response_failed g calls then [SpanError (statusText (last_status 0 calls))] else []) @ [UpClose] \<and>
    subseq (keys attrs) [''db.system.name'', ''db.operation.name'', ''db.collection.name'', ''server.address'',
      ''server.port'', ''error.type'', ''db.response.status_code''] \<and>
    last_value attrs ''error.type'' = map_option StrV (failure_label g calls) \<and>
    last_value attrs ''db.response.status_code'' = (if response_failed g calls then Some (StrV (itoa (last_status 0 calls))) else None) \<and>
    last_value attrs ''db.collection.name'' =
      (let i = last_index [] calls in if i \<noteq> [] \<and> \<not> contains i '','' \<and> es_collectionMetricLabel (es_cfg g) then Some (StrV i) else None)"
proof -
  define r where "r = fold (run_call g) calls (es_Start name start recording)"
  obtain st where st: "summarised g (es_Start name start recording) (the (rq_state (es_Start name start recording))) calls r st"
    using run_calls_summarised[of "es_Start name start recording" _ g calls] assms(2) unfolding r_def by (fastforce simp: es_Start_def)
  then have f: "rq_state r = Some st" "rq_recording r = recording" "rs_start st = Some start" "rs_index st = last_index [] calls"
      "rs_statusCode st = last_status 0 calls" "rs_errored st = (terminal_errors g 0 calls \<noteq> [])"
      "rs_err st = last (None # terminal_errors g 0 calls)" "rs_esError st = rejections g 0 calls"
    by (auto simp: summarised_def es_Start_def)
  have quiet: "filter closing (rq_effects r) = []" unfolding r_def run_calls_quiet by (simp add: es_Start_def)
  have label: "metricErrorType g st = (case failure_label g calls of None \<Rightarrow> [] | Some l \<Rightarrow> l)"
    by (simp add: metricErrorType_def failure_label_def request_failed_def httpFailed_def f)
  have named: "failure_label g calls \<noteq> Some []"
    using es_errorType_named[OF assms(3) terminal_errors_seen[OF last_in_set]] by (simp add: failure_label_def)
  have failed: "response_failed g calls \<longleftrightarrow> \<not> rs_errored st \<and> rs_statusCode st \<noteq> 0 \<and> httpFailed g st"
    by (auto simp: response_failed_def request_failed_def httpFailed_def f)
  have "filter closing (es_exchange g statusText name start recording calls end_time) =
      Recorded (time_sub end_time start) (es_metricAttrs g st) #
      (if recording \<and> terminal_errors g 0 calls = [] \<and> last_status 0 calls \<noteq> 0
       then [SpanAttr (''http.response.status_code'', IntV (last_status 0 calls))] else []) @
      (if recording \<and> response_failed g calls then [SpanError (statusText (last_status 0 calls))] else []) @ [UpClose]"
    unfolding es_exchange_def r_def[symmetric] using assms(1) by (auto simp: es_Close_def emit_def quiet f recordDuration_def failed)
  moreover have "last_value (es_metricAttrs g st) ''error.type'' = map_option StrV (failure_label g calls)"
    using named by (auto simp: es_metric_labels label split: option.split)
  moreover have "last_value (es_metricAttrs g st) ''db.response.status_code'' = (if response_failed g calls then Some (StrV (itoa (last_status 0 calls))) else None)"
    unfolding es_metric_labels failed f by simp
  moreover have "last_value (es_metricAttrs g st) ''db.collection.name'' =
      (let i = last_index [] calls in if i \<noteq> [] \<and> \<not> contains i '','' \<and> es_collectionMetricLabel (es_cfg g) then Some (StrV i) else None)"
    unfolding es_metric_labels f by (simp add: singleIndex_def Let_def)
  ultimately show ?thesis using es_metricAttrs_order by blast
qed

text \<open>A search that was rejected with 503, retried and answered.\<close>

definition demo_es :: es_instrumentation where
  "demo_es = \<lparr>has_inst = True, es_cfg = es_newConfig []\<rparr>"

definition demo_calls :: "es_call list" where
  "demo_calls = [PathPart ''index'' ''logs'', ResponseSeen (Some 503), ResponseSeen (Some 200), RequestDone (Some (Some (''es1'', ''9200''))) [] []]"

theorem es_span_and_metric_agree_witness:
  "\<exists>attrs. filter closing (es_exchange demo_es (\<lambda>_. []) ''search'' 0 True demo_calls 7) =
     [Recorded 7 attrs, SpanAttr (''http.response.status_code'', IntV 200), UpClose] \<and>
     last_value attrs ''error.type'' = None \<and> last_value attrs ''db.collection.name'' = Some (StrV ''logs'')"
proof -
  have "has_inst demo_es" "''search'' \<noteq> []" "named_types demo_calls" by code_simp+
  from es_span_and_metric_agree[OF this, of "\<lambda>_. []" 0 True 7]
  have "\<exists>attrs. filter closing (es_exchange demo_es (\<lambda>_. []) ''search'' 0 True demo_calls 7) =
      Recorded (time_sub 7 0) attrs #
      (if True \<and> terminal_errors demo_es 0 demo_calls = [] \<and> last_status 0 demo_calls \<noteq> 0
       then [SpanAttr (''http.response.status_code'', IntV (last_status 0 demo_calls))] else []) @
      (if True \<and> response_failed demo_es demo_calls then [SpanError []] else []) @ [UpClose] \<and>
      last_value attrs ''error.type'' = map_option StrV (failure_label demo_es demo_calls) \<and>
      last_value attrs ''db.collection.name'' = (let i = last_index [] demo_calls in
        if i \<noteq> [] \<and> \<not> contains i '','' \<and> es_collectionMetricLabel (es_cfg demo_es) then Some (StrV i) else None)" by blast
  moreover have "terminal_errors demo_es 0 demo_calls = []" "last_status 0 demo_calls = 200" "\<not> response_failed demo_es demo_calls"
    "failure_label demo_es demo_calls = None" "last_index [] demo_calls = ''logs''" "\<not> contains ''logs'' '',''"
    "es_collectionMetricLabel (es_cfg demo_es)" "time_sub 7 0 = 7" by code_simp+
  ultimately show ?thesis by simp
qed

section \<open>The generated error of a rejected status\<close>

lemma takeWhile_rev_digits:
  assumes "list_all is_digit ds" "\<not> is_digit c"
  shows "takeWhile is_digit (rev ((xs @ [c]) @ ds)) = rev ds"
  using assms by (simp add: takeWhile_append list_all_iff)

lemma status_submatch_roundtrip:
  assumes "ep \<noteq> []" "CHR 10 \<notin> set ep" "ds \<noteq> []" "list_all is_digit ds"
  shows "status_submatch (pattern_head @ ep @ pattern_tail @ ds) = Some ds"
proof -
  have tail: "pattern_tail = butlast pattern_tail @ [CHR '' '']" "\<not> is_digit CHR '' ''" by code_simp+
  have "takeWhile is_digit (rev (((pattern_head @ ep @ butlast pattern_tail) @ [CHR '' '']) @ ds)) = rev ds"
    using assms(4) tail(2) by (rule takeWhile_rev_digits)
  moreover have "((pattern_head @ ep @ butlast pattern_tail) @ [CHR '' '']) @ ds = pattern_head @ ep @ pattern_tail @ ds"
    using tail(1) by (metis append_assoc)
  ultimately have "takeWhile is_digit (rev (pattern_head @ ep @ pattern_tail @ ds)) = rev ds" by metis
  then show ?thesis using assms by (simp add: status_submatch_def Let_def)
qed

lemma status_submatch_sound:
  assumes "status_submatch t = Some ds"
  shows "\<exists>ep. t = pattern_head @ ep @ pattern_tail @ ds \<and> ep \<noteq> [] \<and> CHR 10 \<notin> set ep \<and> ds \<noteq> [] \<and> list_all is_digit ds"
proof -
  define tw where "tw = takeWhile is_digit (rev t)"
  have t: "t = take (length t - length tw) t @ rev tw"
    unfolding tw_def by (metis append_take_drop_id drop_rev length_rev rev_rev_ident takeWhile_eq_take length_takeWhile_le rev_take)
  have "list_all is_digit (rev tw)" unfolding tw_def list_all_iff by (auto dest: set_takeWhileD)
  moreover from assms obtain ep where "ds = rev tw" "ep \<noteq> []" "CHR 10 \<notin> set ep" "ds \<noteq> []"
      "take (length t - length tw) t = pattern_head @ ep @ pattern_tail"
    unfolding status_submatch_def Let_def tw_def[symmetric] length_rev by (metis option.distinct(1) option.inject)
  ultimately show ?thesis using t by (metis append_assoc)
qed

text \<open>The message a typed endpoint builds for a status it rejects is recognised exactly for the status the request ended with, and no other text is.\<close>

theorem typed_status_roundtrip:
  assumes "ep \<noteq> []" "CHR 10 \<notin> set ep" "0 < n" "n \<le> max_int64" "err_text e = pattern_head @ ep @ pattern_tail @ itoa n"
  shows "typedStatusError (Some e) code \<longleftrightarrow> code = n"
proof -
  have d: "list_all is_digit (itoa n)" using assms(3) dec_digits_digit by (auto simp: itoa_def list_all_iff)
  have "atoi (itoa n) = Some n" using assms(3,4) by (intro atoi_itoa) (auto simp: min_int64_def)
  then show ?thesis using assms status_submatch_roundtrip[OF assms(1,2) _ d] by (auto simp: typedStatusError_def)
qed

lemma typedStatusError_shape:
  assumes "typedStatusError (Some e) code"
  shows "\<exists>ep ds. err_text e = pattern_head @ ep @ pattern_tail @ ds \<and> atoi ds = Some code"
  using assms status_submatch_sound by (fastforce simp: typedStatusError_def split: if_splits option.splits)

end
