(* ===== verification/Progress.thy ===== *)
theory Progress
  imports Main
begin

text \<open>
  Goroutines that end by themselves.  A goroutine is the relation of its own steps.  From the states in which it has all it needs
  (\<open>good\<close>), every step brings it nearer to the end and keeps it there, and it is never stuck before it has returned
  (\<open>final\<close>).  Then every run is bounded, can only stop where it has returned, and there is one that returns.  The forwarding goroutine of a NATS batch and
  the lister of MinIO interpret the locale.
\<close>

locale progressing =
  fixes step :: "'s \<Rightarrow> 's \<Rightarrow> bool"
    and cost :: "'s \<Rightarrow> nat"
    and good :: "'s \<Rightarrow> bool"
    and final :: "'s \<Rightarrow> bool"
  assumes step_cost: "good s \<Longrightarrow> step s s' \<Longrightarrow> cost s' < cost s"
    and step_good: "good s \<Longrightarrow> step s s' \<Longrightarrow> good s'"
    and step_progress: "good s \<Longrightarrow> \<not> final s \<Longrightarrow> \<exists>s'. step s s'"
begin

lemma run_good: "step\<^sup>*\<^sup>* s s' \<Longrightarrow> good s \<Longrightarrow> good s'"
  by (induction rule: rtranclp_induct) (auto intro: step_good)

lemma run_bounded: "(step ^^ k) s s' \<Longrightarrow> good s \<Longrightarrow> k + cost s' \<le> cost s"
proof (induction k arbitrary: s')
  case (Suc k)
  then obtain t where t: "(step ^^ k) s t" "step t s'" by auto
  then have "good t" using run_good Suc.prems(2) by (metis relpowp_imp_rtranclp)
  then show ?case using Suc.IH[OF t(1) Suc.prems(2)] step_cost t(2) by fastforce
qed simp

lemma stuck_final: "step\<^sup>*\<^sup>* s s' \<Longrightarrow> good s \<Longrightarrow> \<nexists>s''. step s' s'' \<Longrightarrow> final s'"
  using run_good step_progress by blast

lemma reaches_final: "good s \<Longrightarrow> \<exists>s'. step\<^sup>*\<^sup>* s s' \<and> final s' \<and> good s'"
proof (induction s rule: measure_induct_rule[of cost])
  case (less s)
  show ?case
  proof (cases "final s")
    case False
    then obtain t where t: "step s t" using step_progress less.prems by blast
    then show ?thesis
      using less.IH[OF step_cost[OF less.prems t] step_good[OF less.prems t]]
      by (meson converse_rtranclp_into_rtranclp)
  qed (use less.prems in blast)
qed

end

end
