(* ===== verification/Minio.thy ===== *)
theory Minio
  imports Telemetry Progress
begin

text \<open>
  The MinIO integration (\<^verbatim>\<open>minio/options.go\<close>, \<^verbatim>\<open>errors.go\<close>, \<^verbatim>\<open>client.go\<close>): the options, the classification of errors, the constructor, the logical
  operations, and the goroutine behind \<^verbatim>\<open>ListObjects\<close>.

  \<^verbatim>\<open>minio-go\<close> is a parameter: an operation takes the call it makes, a function of the context it passes on.  The clock is read
  once where a callback begins and once where it ends.
\<close>

section \<open>Options\<close>

record minio_config =
  httpChildSpans :: bool
  objectKeyAttribute :: bool
  awsS3CompatAliases :: bool
  spanNameFormatter :: "(string \<Rightarrow> string \<Rightarrow> string \<Rightarrow> string) option"

definition minio_newConfig :: "(minio_config \<Rightarrow> minio_config) option list \<Rightarrow> minio_config" where
  "minio_newConfig opts = foldl (\<lambda>cfg opt. case opt of Some f \<Rightarrow> f cfg | None \<Rightarrow> cfg)
     \<lparr>httpChildSpans = False, objectKeyAttribute = True, awsS3CompatAliases = False, spanNameFormatter = None\<rparr> opts"

definition WithHTTPChildSpans :: "bool \<Rightarrow> minio_config \<Rightarrow> minio_config" where
  "WithHTTPChildSpans enabled cfg = cfg\<lparr>httpChildSpans := enabled\<rparr>"

definition WithObjectKeyAttribute :: "bool \<Rightarrow> minio_config \<Rightarrow> minio_config" where
  "WithObjectKeyAttribute enabled cfg = cfg\<lparr>objectKeyAttribute := enabled\<rparr>"

definition WithAWSS3CompatAttributes :: "bool \<Rightarrow> minio_config \<Rightarrow> minio_config" where
  "WithAWSS3CompatAttributes enabled cfg = cfg\<lparr>awsS3CompatAliases := enabled\<rparr>"

definition minio_WithSpanNameFormatter :: "(string \<Rightarrow> string \<Rightarrow> string \<Rightarrow> string) option \<Rightarrow> minio_config \<Rightarrow> minio_config" where
  "minio_WithSpanNameFormatter f cfg = cfg\<lparr>spanNameFormatter := f\<rparr>"

definition defaultSpanName :: "string \<Rightarrow> string \<Rightarrow> string" where
  "defaultSpanName operation bucket = (if bucket = [] then ''s3.'' @ operation else ''s3.'' @ operation @ '' '' @ bucket)"

section \<open>Errors\<close>

text \<open>What \<^verbatim>\<open>errors.As\<close> finds in the chain of an error: the code and status of an S3 response, the two TLS errors, and a
  network operation error with the text of the error inside it, if it has one.\<close>

record minio_error = go_error +
  s3_response :: "(string \<times> int) option"
  has_cert_error :: bool
  has_record_error :: bool
  net_op_error :: "string option option"

definition s3StatusCode :: "minio_error option \<Rightarrow> int" where
  "s3StatusCode err = (case Option.bind err s3_response of Some (code, status) \<Rightarrow> status | None \<Rightarrow> 0)"

definition s3ErrorCode :: "minio_error option \<Rightarrow> string" where
  "s3ErrorCode err = (case Option.bind err s3_response of Some (code, status) \<Rightarrow> code | None \<Rightarrow> [])"

definition minio_errorType :: "minio_error option \<Rightarrow> string" where
  "minio_errorType err = (case err of None \<Rightarrow> []
     | Some e \<Rightarrow>
       if is_deadline e then ''context.DeadlineExceeded''
       else if is_canceled e then ''context.Canceled''
       else if s3ErrorCode err \<noteq> [] then s3ErrorCode err
       else err_type e)"

definition minio_isTLSError :: "unicode \<Rightarrow> minio_error \<Rightarrow> bool" where
  "minio_isTLSError U e \<longleftrightarrow> has_cert_error e \<or> has_record_error e \<or>
     (case net_op_error e of Some (Some t) \<Rightarrow> contains (to_lower U t) ''tls'' | _ \<Rightarrow> False) \<or>
     contains (to_lower U (err_text e)) ''tls:'' \<or> contains (to_lower U (err_text e)) ''certificate''"

definition minio_isTransportError :: "minio_error \<Rightarrow> bool" where
  "minio_isTransportError e \<longleftrightarrow> net_op_error e \<noteq> None"

definition minioErrorKind :: "unicode \<Rightarrow> minio_error option \<Rightarrow> string" where
  "minioErrorKind U err = (case err of None \<Rightarrow> []
     | Some e \<Rightarrow>
       if is_canceled e \<and> \<not> is_deadline e then ''client_canceled''
       else if is_deadline e then ''client_timeout''
       else let code = s3ErrorCode err in
         if code \<in> {''NoSuchKey'', ''NoSuchBucket''} then ''not_found''
         else if code \<in> {''AccessDenied'', ''InvalidAccessKeyId'', ''SignatureDoesNotMatch''} then ''access_denied''
         else if code = ''PreconditionFailed'' then ''precondition''
         else if code = ''SlowDown'' then ''throttled''
         else if s3StatusCode err = 503 then ''throttled''
         else if minio_isTLSError U e then ''transport''
         else if minio_isTransportError e then ''transport''
         else if code \<noteq> [] \<and> s3StatusCode err \<ge> 500 then ''server_error''
         else ''unknown'')"

section \<open>The client\<close>

definition splitHostPort :: "string \<Rightarrow> bool \<Rightarrow> string \<times> int" where
  "splitHostPort endpoint secure =
     (if endpoint = [] then ([], 0)
      else let defaultPort = (if secure then 443 else 80)
        in case split_host_port endpoint of None \<Rightarrow> (endpoint, defaultPort)
           | Some (host, portStr) \<Rightarrow> (case atoi portStr of None \<Rightarrow> (host, defaultPort) | Some port \<Rightarrow> (host, port)))"

record 't minio_options =
  Secure :: bool
  Transport :: "'t option"

text \<open>A context is a number, and a tracer maps it to the context of the span it starts.  A provider that is nil, or a meter that cannot create the histogram,
  is replaced by one that emits nothing.\<close>

record 'c minio_client =
  wrapped_client :: 'c
  span_ctx :: "nat \<Rightarrow> nat"
  traced :: bool
  metered :: bool
  minio_cfg :: minio_config
  serverAddress :: string
  serverPort :: int

text \<open>The parts of \<^verbatim>\<open>minio-go\<close> and of the HTTP integration that the constructor uses.\<close>

record ('t, 'c) minio_lib =
  DefaultTransport :: "bool \<Rightarrow> string + 't"
  NewTransport :: "'t \<Rightarrow> 't"
  minio_new :: "string \<Rightarrow> 't minio_options \<Rightarrow> string + 'c"

definition instrumented_options :: "('t, 'c) minio_lib \<Rightarrow> minio_config \<Rightarrow> 't minio_options \<Rightarrow> string + 't minio_options" where
  "instrumented_options L cfg opts =
     (if httpChildSpans cfg
      then (case Transport opts of
          Some base \<Rightarrow> Inr (opts\<lparr>Transport := Some (NewTransport L base)\<rparr>)
        | None \<Rightarrow> (case DefaultTransport L (Secure opts) of
            Inl err \<Rightarrow> Inl (''minio new: build default transport: '' @ err)
          | Inr base \<Rightarrow> Inr (opts\<lparr>Transport := Some (NewTransport L base)\<rparr>)))
      else Inr opts)"

definition minio_New ::
  "('t, 'c) minio_lib \<Rightarrow> string \<Rightarrow> 't minio_options option \<Rightarrow> (nat \<Rightarrow> nat) option \<Rightarrow> (string \<Rightarrow> string option) option \<Rightarrow>
     (minio_config \<Rightarrow> minio_config) option list \<Rightarrow> string + 'c minio_client" where
  "minio_New L endpoint minioOpts tp mp opts =
     (if endpoint = [] then Inl ''minio new: endpoint must not be empty''
      else case minioOpts of None \<Rightarrow> Inl ''minio new: options must not be nil''
        | Some given \<Rightarrow>
          let cfg = minio_newConfig opts
          in case instrumented_options L cfg given of Inl err \<Rightarrow> Inl err
             | Inr localOpts \<Rightarrow>
               (case minio_new L endpoint localOpts of Inl err \<Rightarrow> Inl (''minio new: '' @ err)
                | Inr mc \<Rightarrow>
                  let (host, port) = splitHostPort endpoint (Secure localOpts)
                  in Inr \<lparr>wrapped_client = mc,
                       span_ctx = (case tp of Some start \<Rightarrow> start | None \<Rightarrow> (\<lambda>ctx. ctx)),
                       traced = (tp \<noteq> None),
                       metered = (case mp of Some meter \<Rightarrow> meter ''minio.client.operation.duration'' = None | None \<Rightarrow> False),
                       minio_cfg = cfg, serverAddress = host, serverPort = port\<rparr>))"

section \<open>Logical operations\<close>

record minio_op =
  op_ctx :: nat
  op_title :: string
  op_attrs :: "key_value list"
  op_start :: nanos
  op_operation :: string
  op_bucket :: string

definition begin_attrs :: "'c minio_client \<Rightarrow> string \<Rightarrow> string \<Rightarrow> string \<Rightarrow> int \<Rightarrow> key_value list" where
  "begin_attrs c operation bucket key sz =
     (''object_store.system.name'', StrV ''s3'') # (''object_store.operation.name'', StrV operation) #
     when_set (bucket \<noteq> []) ''object_store.bucket.name'' (StrV bucket) @
     when_set (bucket \<noteq> [] \<and> awsS3CompatAliases (minio_cfg c)) ''aws.s3.bucket'' (StrV bucket) @
     when_set (key \<noteq> [] \<and> objectKeyAttribute (minio_cfg c)) ''object_store.object.key'' (StrV key) @
     when_set (key \<noteq> [] \<and> objectKeyAttribute (minio_cfg c) \<and> awsS3CompatAliases (minio_cfg c)) ''aws.s3.key'' (StrV key) @
     when_set (sz \<ge> 0) ''object_store.object.size'' (IntV sz) @
     when_set (serverAddress c \<noteq> []) ''server.address'' (StrV (serverAddress c)) @
     when_set (serverPort c > 0) ''server.port'' (IntV (serverPort c))"

definition begin_op :: "'c minio_client \<Rightarrow> nat \<Rightarrow> string \<Rightarrow> string \<Rightarrow> string \<Rightarrow> int \<Rightarrow> nanos \<Rightarrow> minio_op" where
  "begin_op c ctx operation bucket key sz now =
     \<lparr>op_ctx = span_ctx c ctx,
      op_title = (case spanNameFormatter (minio_cfg c) of
         Some f \<Rightarrow> (let custom = f operation bucket key in if custom \<noteq> [] then custom else defaultSpanName operation bucket)
       | None \<Rightarrow> defaultSpanName operation bucket),
      op_attrs = begin_attrs c operation bucket key sz,
      op_start = now, op_operation = operation, op_bucket = bucket\<rparr>"

definition set_size :: "int \<Rightarrow> minio_op \<Rightarrow> minio_op" where
  "set_size n oper = oper\<lparr>op_attrs := op_attrs oper @ [(''object_store.object.size'', IntV n)]\<rparr>"

definition minio_metricAttrs :: "'c minio_client \<Rightarrow> minio_op \<Rightarrow> minio_error option \<Rightarrow> key_value list" where
  "minio_metricAttrs c oper err =
     (''object_store.operation.name'', StrV (op_operation oper)) #
     when_set (op_bucket oper \<noteq> []) ''object_store.bucket.name'' (StrV (op_bucket oper)) @
     when_set (serverAddress c \<noteq> []) ''server.address'' (StrV (serverAddress c)) @
     when_set (serverPort c > 0) ''server.port'' (IntV (serverPort c)) @
     when_set (err \<noteq> None) ''error.type'' (StrV (minio_errorType err))"

definition error_attrs :: "unicode \<Rightarrow> minio_error option \<Rightarrow> key_value list" where
  "error_attrs U err =
     when_set (err \<noteq> None) ''error.type'' (StrV (minio_errorType err)) @
     when_set (err \<noteq> None) ''minio.error.kind'' (StrV (minioErrorKind U err)) @
     when_set (err \<noteq> None \<and> s3StatusCode err > 0) ''http.response.status_code'' (IntV (s3StatusCode err))"

definition finish_op :: "unicode \<Rightarrow> 'c minio_client \<Rightarrow> minio_op \<Rightarrow> minio_error option \<Rightarrow> nanos \<Rightarrow> emission list" where
  "finish_op U c oper err now =
     (if metered c then [Measured ''minio.client.operation.duration'' (time_sub now (op_start oper)) (minio_metricAttrs c oper err)] else []) @
     (if traced c then [Ended \<lparr>span_title = op_title oper, span_role = KindClient, span_start = op_start oper, span_end = now,
        span_attrs = op_attrs oper @ error_attrs U err,
        span_state = (case err of Some e \<Rightarrow> Failed (err_text e) | None \<Rightarrow> Unset),
        span_errors = (case err of Some e \<Rightarrow> [(now, err_text e)] | None \<Rightarrow> [])\<rparr>] else [])"

text \<open>Each operation returns what the call of the driver returned, and what it emitted.  A call that yields an upload or an
  object description returns its size.\<close>

definition PutObject ::
  "unicode \<Rightarrow> 'c minio_client \<Rightarrow> ('c \<Rightarrow> nat \<Rightarrow> string \<Rightarrow> string \<Rightarrow> int \<Rightarrow> int \<times> minio_error option) \<Rightarrow> nat \<Rightarrow> string \<Rightarrow> string \<Rightarrow> int \<Rightarrow> nanos \<Rightarrow> nanos \<Rightarrow>
     (int \<times> minio_error option) \<times> emission list" where
  "PutObject U c put ctx bucketName objectName objectSize t0 t1 =
     (let oper = begin_op c ctx ''PutObject'' bucketName objectName objectSize t0;
          (sz, err) = put (wrapped_client c) (op_ctx oper) bucketName objectName objectSize;
          oper = (if err = None \<and> objectSize < 0 \<and> sz \<ge> 0 then set_size sz oper else oper)
      in ((sz, err), finish_op U c oper err t1))"

definition FPutObject ::
  "unicode \<Rightarrow> 'c minio_client \<Rightarrow> ('c \<Rightarrow> nat \<Rightarrow> string \<Rightarrow> string \<Rightarrow> string \<Rightarrow> int \<times> minio_error option) \<Rightarrow> nat \<Rightarrow> string \<Rightarrow> string \<Rightarrow> string \<Rightarrow> nanos \<Rightarrow> nanos \<Rightarrow>
     (int \<times> minio_error option) \<times> emission list" where
  "FPutObject U c put ctx bucketName objectName filePath t0 t1 =
     (let oper = begin_op c ctx ''FPutObject'' bucketName objectName (-1) t0;
          (sz, err) = put (wrapped_client c) (op_ctx oper) bucketName objectName filePath;
          oper = (if err = None \<and> sz \<ge> 0 then set_size sz oper else oper)
      in ((sz, err), finish_op U c oper err t1))"

definition FGetObject ::
  "unicode \<Rightarrow> 'c minio_client \<Rightarrow> ('c \<Rightarrow> nat \<Rightarrow> string \<Rightarrow> string \<Rightarrow> string \<Rightarrow> minio_error option) \<Rightarrow> nat \<Rightarrow> string \<Rightarrow> string \<Rightarrow> string \<Rightarrow> nanos \<Rightarrow> nanos \<Rightarrow>
     minio_error option \<times> emission list" where
  "FGetObject U c get ctx bucketName objectName filePath t0 t1 =
     (let oper = begin_op c ctx ''FGetObject'' bucketName objectName (-1) t0;
          err = get (wrapped_client c) (op_ctx oper) bucketName objectName filePath
      in (err, finish_op U c oper err t1))"

text \<open>The driver keeps the context it is given for the object's later reads, so it is given the caller's.\<close>

definition GetObject ::
  "unicode \<Rightarrow> 'c minio_client \<Rightarrow> ('c \<Rightarrow> nat \<Rightarrow> string \<Rightarrow> string \<Rightarrow> 'o \<times> minio_error option) \<Rightarrow> nat \<Rightarrow> string \<Rightarrow> string \<Rightarrow> nanos \<Rightarrow> nanos \<Rightarrow>
     ('o \<times> minio_error option) \<times> emission list" where
  "GetObject U c get ctx bucketName objectName t0 t1 =
     (let oper = begin_op c ctx ''GetObject'' bucketName objectName (-1) t0;
          (obj, err) = get (wrapped_client c) ctx bucketName objectName
      in ((obj, err), finish_op U c oper err t1))"

definition StatObject ::
  "unicode \<Rightarrow> 'c minio_client \<Rightarrow> ('c \<Rightarrow> nat \<Rightarrow> string \<Rightarrow> string \<Rightarrow> int \<times> minio_error option) \<Rightarrow> nat \<Rightarrow> string \<Rightarrow> string \<Rightarrow> nanos \<Rightarrow> nanos \<Rightarrow>
     (int \<times> minio_error option) \<times> emission list" where
  "StatObject U c stat ctx bucketName objectName t0 t1 =
     (let oper = begin_op c ctx ''StatObject'' bucketName objectName (-1) t0;
          (sz, err) = stat (wrapped_client c) (op_ctx oper) bucketName objectName;
          oper = (if err = None \<and> sz \<ge> 0 then set_size sz oper else oper)
      in ((sz, err), finish_op U c oper err t1))"

definition RemoveObject ::
  "unicode \<Rightarrow> 'c minio_client \<Rightarrow> ('c \<Rightarrow> nat \<Rightarrow> string \<Rightarrow> string \<Rightarrow> minio_error option) \<Rightarrow> nat \<Rightarrow> string \<Rightarrow> string \<Rightarrow> nanos \<Rightarrow> nanos \<Rightarrow>
     minio_error option \<times> emission list" where
  "RemoveObject U c remove ctx bucketName objectName t0 t1 =
     (let oper = begin_op c ctx ''RemoveObject'' bucketName objectName (-1) t0;
          err = remove (wrapped_client c) (op_ctx oper) bucketName objectName
      in (err, finish_op U c oper err t1))"

definition CopyObject ::
  "unicode \<Rightarrow> 'c minio_client \<Rightarrow> ('c \<Rightarrow> nat \<Rightarrow> string \<times> string \<Rightarrow> 's \<Rightarrow> 'i \<times> minio_error option) \<Rightarrow> nat \<Rightarrow> string \<times> string \<Rightarrow> 's \<Rightarrow> nanos \<Rightarrow> nanos \<Rightarrow>
     ('i \<times> minio_error option) \<times> emission list" where
  "CopyObject U c copy ctx dst src t0 t1 =
     (let oper = begin_op c ctx ''CopyObject'' (fst dst) (snd dst) (-1) t0;
          (info, err) = copy (wrapped_client c) (op_ctx oper) dst src
      in ((info, err), finish_op U c oper err t1))"

section \<open>Listing\<close>

text \<open>A listed entry is its name and the error it carries, if any.  The goroutine ranges over the upstream channel, offers an entry to the
  reader, and once its context is done drains what is left; at the end it finishes the operation and then closes the channel.
  \<open>l_sent\<close>, \<open>l_seen\<close> and \<open>l_delivered\<close> record what was sent upstream, taken by the loop, and received by the
  reader; \<open>l_finished\<close> the errors the operation was finished with.\<close>

type_synonym list_entry = "string \<times> minio_error option"

datatype list_phase = Ranging | Sending list_entry | Draining | Finishing | ClosingOut | ListDone

record list_state =
  l_sent :: "list_entry list"
  l_queue :: "list_entry list"
  l_closed :: bool
  l_phase :: list_phase
  l_firstErr :: "minio_error option"
  l_seen :: "list_entry list"
  l_delivered :: "list_entry list"
  l_out_closed :: bool
  l_ctxErr :: "minio_error option"
  l_finished :: "minio_error option list"

definition ListObjects :: list_state where
  "ListObjects = \<lparr>l_sent = [], l_queue = [], l_closed = False, l_phase = Ranging, l_firstErr = None, l_seen = [], l_delivered = [],
     l_out_closed = False, l_ctxErr = None, l_finished = []\<rparr>"

inductive list_step :: "list_state \<Rightarrow> list_state \<Rightarrow> bool" where
  range: "l_phase s = Ranging \<Longrightarrow> l_queue s = info # rest \<Longrightarrow>
    list_step s (s\<lparr>l_queue := rest, l_seen := l_seen s @ [info], l_phase := Sending info,
      l_firstErr := (if snd info \<noteq> None \<and> l_firstErr s = None then snd info else l_firstErr s)\<rparr>)"
| cancelled: "l_phase s = Sending info \<Longrightarrow> l_ctxErr s \<noteq> None \<Longrightarrow> list_step s (s\<lparr>l_phase := Draining\<rparr>)"
| drain: "l_phase s = Draining \<Longrightarrow> l_queue s = info # rest \<Longrightarrow> list_step s (s\<lparr>l_queue := rest\<rparr>)"
| drained: "l_phase s = Draining \<Longrightarrow> l_queue s = [] \<Longrightarrow> l_closed s \<Longrightarrow>
    list_step s (s\<lparr>l_phase := Ranging, l_firstErr := (if l_firstErr s = None then l_ctxErr s else l_firstErr s)\<rparr>)"
| range_end: "l_phase s = Ranging \<Longrightarrow> l_queue s = [] \<Longrightarrow> l_closed s \<Longrightarrow> list_step s (s\<lparr>l_phase := Finishing\<rparr>)"
| list_finish: "l_phase s = Finishing \<Longrightarrow> list_step s (s\<lparr>l_phase := ClosingOut, l_finished := l_finished s @ [l_firstErr s]\<rparr>)"
| close_out: "l_phase s = ClosingOut \<Longrightarrow> list_step s (s\<lparr>l_phase := ListDone, l_out_closed := True\<rparr>)"

inductive listing_step :: "list_state \<Rightarrow> list_state \<Rightarrow> bool" where
  lister: "list_step s s' \<Longrightarrow> listing_step s s'"
| produce: "\<not> l_closed s \<Longrightarrow> listing_step s (s\<lparr>l_sent := l_sent s @ [info], l_queue := l_queue s @ [info]\<rparr>)"
| produced_all: "\<not> l_closed s \<Longrightarrow> listing_step s (s\<lparr>l_closed := True\<rparr>)"
| receive: "l_phase s = Sending info \<Longrightarrow> listing_step s (s\<lparr>l_phase := Ranging, l_delivered := l_delivered s @ [info]\<rparr>)"
| cancel: "l_ctxErr s = None \<Longrightarrow> listing_step s (s\<lparr>l_ctxErr := Some e\<rparr>)"

inductive_cases list_stepE: "list_step s s'"

section \<open>Spans, measurements and errors\<close>

definition error_kinds :: "string list" where
  "error_kinds = [''client_canceled'', ''client_timeout'', ''not_found'', ''access_denied'', ''precondition'', ''throttled'', ''transport'',
     ''server_error'', ''unknown'']"

lemma minioErrorKind_closed: "minioErrorKind U (Some e) \<in> set error_kinds" "minioErrorKind U err = [] \<longleftrightarrow> err = None"
  by (simp_all add: minioErrorKind_def error_kinds_def Let_def split: option.split)

lemma minio_metricAttrs_order:
  "subseq (keys (minio_metricAttrs c oper err))
     [''object_store.operation.name'', ''object_store.bucket.name'', ''server.address'', ''server.port'', ''error.type'']"
  unfolding minio_metricAttrs_def by (intro key_order)

lemma minio_label_values:
  "last_value (minio_metricAttrs c oper err) ''error.type'' = (if err \<noteq> None then Some (StrV (minio_errorType err)) else None)"
  "last_value (error_attrs U err) ''error.type'' = (if err \<noteq> None then Some (StrV (minio_errorType err)) else None)"
  unfolding minio_metricAttrs_def error_attrs_def by (simp_all add: last_value_when_set last_value_Cons last_value_when)

text \<open>What an operation emits, by the operation it began as, the size it learnt and the error it ended with.\<close>

lemma finish_op_shape:
  assumes "metered c" "traced c" "''error.type'' \<notin> set (keys (op_attrs oper))"
  shows "\<exists>attrs sp. finish_op U c oper err now = [Measured ''minio.client.operation.duration'' (time_sub now (op_start oper)) attrs, Ended sp] \<and>
    subseq (keys attrs) [''object_store.operation.name'', ''object_store.bucket.name'', ''server.address'', ''server.port'', ''error.type''] \<and>
    last_value attrs ''error.type'' = last_value (span_attrs sp) ''error.type'' \<and>
    (last_value attrs ''error.type'' = None \<longleftrightarrow> err = None) \<and> (span_state sp = Unset \<longleftrightarrow> err = None) \<and>
    span_title sp = op_title oper \<and> span_attrs sp = op_attrs oper @ error_attrs U err"
  using assms minio_metricAttrs_order[of c oper err]
  by (auto simp: finish_op_def minio_label_values last_value_foreign split: option.split)

lemma begin_attrs_order:
  "subseq (keys (begin_attrs c operation bucket key sz)) [''object_store.system.name'', ''object_store.operation.name'', ''object_store.bucket.name'',
     ''aws.s3.bucket'', ''object_store.object.key'', ''aws.s3.key'', ''object_store.object.size'', ''server.address'', ''server.port'']"
  unfolding begin_attrs_def by (intro key_order)

lemma begin_no_error_type: "''error.type'' \<notin> set (keys (op_attrs (begin_op c ctx operation bucket key sz now)))"
  using subseq_subset[OF begin_attrs_order[of c operation bucket key sz]] by (auto simp: begin_op_def)

lemma begin_size: "last_value (begin_attrs c operation bucket key sz) ''object_store.object.size'' = (if sz \<ge> 0 then Some (IntV sz) else None)"
  unfolding begin_attrs_def by (simp add: last_value_when_set last_value_Cons last_value_when)

lemma error_attrs_size: "last_value (error_attrs U err) ''object_store.object.size'' = None"
  unfolding error_attrs_def by (simp add: last_value_when_set last_value_when)

text \<open>An upload emits one measurement and one span, which agree on the failure; the object key is no label, and the span carries the size the caller
  gave, or for a stream of unknown length the size the server reported.\<close>

theorem put_object_telemetry:
  assumes "metered c" "traced c" "put (wrapped_client c) (span_ctx c ctx) bucket key given = (reported, err)"
  shows "\<exists>attrs sp. PutObject U c put ctx bucket key given t0 t1 =
      ((reported, err), [Measured ''minio.client.operation.duration'' (time_sub t1 t0) attrs, Ended sp]) \<and>
    subseq (keys attrs) [''object_store.operation.name'', ''object_store.bucket.name'', ''server.address'', ''server.port'', ''error.type''] \<and>
    last_value attrs ''error.type'' = last_value (span_attrs sp) ''error.type'' \<and>
    (last_value attrs ''error.type'' = None \<longleftrightarrow> err = None) \<and> (span_state sp = Unset \<longleftrightarrow> err = None) \<and>
    last_value (span_attrs sp) ''object_store.object.size'' =
      (if given \<ge> 0 then Some (IntV given) else if err = None \<and> reported \<ge> 0 then Some (IntV reported) else None)"
proof -
  define oper where "oper = (let o' = begin_op c ctx ''PutObject'' bucket key given t0 in
    if err = None \<and> given < 0 \<and> reported \<ge> 0 then set_size reported o' else o')"
  have run: "PutObject U c put ctx bucket key given t0 t1 = ((reported, err), finish_op U c oper err t1)"
    using assms(3) by (simp add: PutObject_def oper_def Let_def begin_op_def)
  have fresh: "''error.type'' \<notin> set (keys (op_attrs oper))"
    using begin_no_error_type[of c ctx "''PutObject''" bucket key given t0] by (auto simp: oper_def Let_def set_size_def)
  have start: "op_start oper = t0" by (simp add: oper_def Let_def set_size_def begin_op_def)
  have "last_value (op_attrs oper @ error_attrs U err) ''object_store.object.size'' =
      (if given \<ge> 0 then Some (IntV given) else if err = None \<and> reported \<ge> 0 then Some (IntV reported) else None)"
    unfolding last_value_append[of "op_attrs oper"] error_attrs_size
    using begin_size[of c "''PutObject''" bucket key given]
    by (auto simp: oper_def Let_def set_size_def begin_op_def last_value_append last_value_def)
  with finish_op_shape[OF assms(1,2) fresh, of U err t1] show ?thesis unfolding run start by metis
qed

lemma splitHostPort_roundtrip:
  assumes "h \<noteq> []" "split_host_port (join_host_port h (itoa p)) = Some (h, itoa p)" "min_int64 \<le> p" "p \<le> max_int64"
  shows "splitHostPort (join_host_port h (itoa p)) secure = (h, p)"
  using assms atoi_itoa[of p] by (simp add: splitHostPort_def Let_def join_host_port_def)

section \<open>A listing ends once and reports what its reader saw\<close>

definition listed_error :: "list_entry list \<Rightarrow> minio_error option" where
  "listed_error es = (case find (\<lambda>i. snd i \<noteq> None) es of Some i \<Rightarrow> snd i | None \<Rightarrow> None)"

lemma listed_error_snoc: "listed_error (es @ [i]) = (case listed_error es of Some e \<Rightarrow> Some e | None \<Rightarrow> snd i)"
  by (induction es) (auto simp: listed_error_def split: option.splits)

lemma listed_error_None: "listed_error es = None \<longleftrightarrow> (\<forall>i \<in> set es. snd i = None)"
  by (induction es) (auto simp: listed_error_def split: option.splits)

lemma listed_error_in: "listed_error es = Some e \<Longrightarrow> \<exists>i \<in> set es. snd i = Some e"
  by (induction es) (auto simp: listed_error_def split: option.splits if_splits)

text \<open>What the loop knows: the first error of the entries it has seen, or the error of the context once it has given an entry up.\<close>

definition listing_errors :: "list_state \<Rightarrow> bool" where
  "listing_errors s \<longleftrightarrow>
     (case l_phase s of
        Sending i \<Rightarrow> l_seen s = l_delivered s @ [i] \<and> l_firstErr s = listed_error (l_seen s)
      | Draining \<Rightarrow> l_ctxErr s \<noteq> None \<and> (\<exists>i. l_seen s = l_delivered s @ [i]) \<and> l_firstErr s = listed_error (l_seen s)
      | _ \<Rightarrow>
        (if l_seen s = l_delivered s then l_firstErr s = listed_error (l_seen s)
         else l_ctxErr s \<noteq> None \<and> l_closed s \<and> l_queue s = [] \<and> (\<exists>i. l_seen s = l_delivered s @ [i]) \<and>
           l_firstErr s = (if listed_error (l_seen s) = None then l_ctxErr s else listed_error (l_seen s))))"

definition listing_inv :: "list_state \<Rightarrow> bool" where
  "listing_inv s \<longleftrightarrow>
     (\<exists>skipped. l_seen s @ skipped @ l_queue s = l_sent s \<and>
        (skipped \<noteq> [] \<longrightarrow> l_phase s = Draining \<or> l_closed s \<and> l_queue s = [] \<and> l_seen s \<noteq> l_delivered s \<and> (\<forall>i. l_phase s \<noteq> Sending i))) \<and>
     listing_errors s \<and>
     (l_phase s \<in> {Finishing, ClosingOut, ListDone} \<longrightarrow> l_closed s \<and> l_queue s = []) \<and>
     l_finished s = (if l_phase s \<in> {ClosingOut, ListDone} then [l_firstErr s] else []) \<and>
     (l_out_closed s \<longleftrightarrow> l_phase s = ListDone)"

lemmas listing_defs = listing_inv_def listing_errors_def

lemma listing_inv_lister: "list_step s s' \<Longrightarrow> listing_inv s \<Longrightarrow> listing_inv s'"
proof (induction rule: list_step.induct)
  case (range s info rest)
  then show ?case by (auto simp: listing_defs listed_error_snoc intro!: exI[of _ "[]"] split: option.split if_splits)
next
  case (cancelled s info)
  then show ?case by (auto simp: listing_defs intro!: exI[of _ "[]"])
next
  case (drain s info rest)
  then obtain skipped where "l_seen s @ skipped @ info # rest = l_sent s" by (auto simp: listing_defs)
  then have "l_seen s @ (skipped @ [info]) @ rest = l_sent s" by simp
  then show ?case using drain unfolding listing_defs
    by (intro conjI exI[of _ "skipped @ [info]"]) auto
next
  case (drained s)
  then show ?case by (auto simp: listing_defs)
next
  case (range_end s)
  then show ?case by (auto simp: listing_defs)
next
  case (list_finish s)
  then show ?case by (auto simp: listing_defs)
next
  case (close_out s)
  then show ?case by (auto simp: listing_defs)
qed

lemma listing_inv_step: "listing_step s s' \<Longrightarrow> listing_inv s \<Longrightarrow> listing_inv s'"
proof (induction rule: listing_step.induct)
  case (lister s s')
  then show ?case by (rule listing_inv_lister)
next
  case (produce s info)
  then obtain skipped where sk: "l_seen s @ skipped @ l_queue s = l_sent s"
      "skipped \<noteq> [] \<longrightarrow> l_phase s = Draining" by (auto simp: listing_defs)
  then have "l_seen s @ skipped @ l_queue s @ [info] = l_sent s @ [info]" by (metis append_assoc)
  then show ?case using produce sk unfolding listing_defs
    by (intro conjI exI[of _ skipped]) (auto split: list_phase.splits if_splits)
next
  case (produced_all s)
  then show ?case by (auto simp: listing_defs intro!: exI[of _ "[]"] split: list_phase.splits if_splits)
next
  case (receive s info)
  then show ?case by (auto simp: listing_defs)
next
  case (cancel s e)
  then show ?case by (auto simp: listing_defs split: list_phase.splits if_splits)
qed

lemma listing_reachable_inv: "listing_step\<^sup>*\<^sup>* ListObjects s \<Longrightarrow> listing_inv s"
proof (induction rule: rtranclp_induct)
  case base
  show ?case by (simp add: listing_defs ListObjects_def listed_error_def)
next
  case (step s s')
  then show ?case using listing_inv_step by blast
qed

lemma listing_pending: "listing_errors s \<Longrightarrow> \<exists>pending. l_seen s = l_delivered s @ pending"
  by (cases "l_phase s") (auto simp: listing_errors_def split: if_splits)

text \<open>C17. However the producer, the goroutine, the reader and a cancellation interleave, the reader of a listing receives a prefix of what the store sent; the
  operation is finished exactly once, before the channel is closed.  It is finished without an error only if the reader received
  everything and no entry carried one; otherwise with the error of an entry or of the context, and when the context was never done
  with the first error that was listed.\<close>

theorem list_objects_reports_truthfully:
  assumes "listing_step\<^sup>*\<^sup>* ListObjects s"
  shows "prefix (l_delivered s) (l_sent s) \<and> length (l_finished s) \<le> 1 \<and> (l_out_closed s \<longrightarrow> l_finished s \<noteq> []) \<and>
    (l_finished s = [None] \<longrightarrow> l_delivered s = l_sent s \<and> (\<forall>i \<in> set (l_sent s). snd i = None)) \<and>
    (\<forall>e. l_finished s = [Some e] \<longrightarrow> (\<exists>i \<in> set (l_sent s). snd i = Some e) \<or> l_ctxErr s = Some e) \<and>
    (l_finished s \<noteq> [] \<and> l_ctxErr s = None \<longrightarrow> l_delivered s = l_sent s \<and> l_finished s = [listed_error (l_sent s)])"
proof -
  have inv: "listing_inv s" using assms by (rule listing_reachable_inv)
  then obtain skipped where sk: "l_seen s @ skipped @ l_queue s = l_sent s" unfolding listing_defs by blast
  have seen: "\<exists>pending. l_seen s = l_delivered s @ pending"
    using inv listing_pending unfolding listing_inv_def by blast
  have fin: "l_phase s \<in> {ClosingOut, ListDone} \<and> l_closed s \<and> l_queue s = [] \<and> l_finished s = [l_firstErr s]" if "l_finished s \<noteq> []"
    using inv that by (auto simp: listing_defs split: if_splits)
  have all: "l_delivered s = l_sent s \<and> l_firstErr s = listed_error (l_sent s)"
    if "l_finished s \<noteq> []" "l_seen s = l_delivered s"
    using inv fin[OF that(1)] that(2) by (auto simp: listing_defs split: if_splits)
  have cut: "l_ctxErr s \<noteq> None \<and> l_firstErr s = (if listed_error (l_seen s) = None then l_ctxErr s else listed_error (l_seen s))"
    if "l_finished s \<noteq> []" "l_seen s \<noteq> l_delivered s"
    using inv fin[OF that(1)] that(2) by (auto simp: listing_defs split: if_splits)
  have sub: "\<exists>i \<in> set (l_sent s). snd i = Some e" if "listed_error (l_seen s) = Some e" for e
    using listed_error_in[OF that] sk by (metis Un_iff set_append)
  have "prefix (l_delivered s) (l_sent s)" using seen sk by (metis append_assoc prefixI)
  moreover have "length (l_finished s) \<le> 1" using inv by (auto simp: listing_defs)
  moreover have "l_out_closed s \<longrightarrow> l_finished s \<noteq> []" using inv by (auto simp: listing_defs)
  moreover have "l_finished s = [None] \<longrightarrow> l_delivered s = l_sent s \<and> (\<forall>i \<in> set (l_sent s). snd i = None)"
  proof
    assume f: "l_finished s = [None]"
    then have "l_firstErr s = None" "l_finished s \<noteq> []" using fin by auto
    then have "l_seen s = l_delivered s" using cut by metis
    then show "l_delivered s = l_sent s \<and> (\<forall>i \<in> set (l_sent s). snd i = None)"
      using all f \<open>l_firstErr s = None\<close> listed_error_None by (metis list.distinct(1))
  qed
  moreover have "\<forall>e. l_finished s = [Some e] \<longrightarrow> (\<exists>i \<in> set (l_sent s). snd i = Some e) \<or> l_ctxErr s = Some e"
  proof (intro allI impI)
    fix e
    assume f: "l_finished s = [Some e]"
    then have "l_firstErr s = Some e" using fin by auto
    then show "(\<exists>i \<in> set (l_sent s). snd i = Some e) \<or> l_ctxErr s = Some e"
      using all cut sub f listed_error_in[of "l_sent s" e] by (cases "l_seen s = l_delivered s") (auto split: if_splits)
  qed
  moreover have "l_finished s \<noteq> [] \<and> l_ctxErr s = None \<longrightarrow> l_delivered s = l_sent s \<and> l_finished s = [listed_error (l_sent s)]"
    using fin all cut by metis
  ultimately show ?thesis by blast
qed

definition demo_listing :: list_state where
  "demo_listing = ListObjects\<lparr>l_closed := True, l_phase := ClosingOut, l_finished := [None]\<rparr>"

lemma demo_listing_reachable: "listing_step\<^sup>*\<^sup>* ListObjects demo_listing"
proof -
  have "listing_step ListObjects (ListObjects\<lparr>l_closed := True\<rparr>)"
    by (rule listing_step.produced_all) (simp add: ListObjects_def)
  moreover have "listing_step (ListObjects\<lparr>l_closed := True\<rparr>) (ListObjects\<lparr>l_closed := True, l_phase := Finishing\<rparr>)"
    using list_step.range_end[of "ListObjects\<lparr>l_closed := True\<rparr>"] by (intro listing_step.lister) (simp add: ListObjects_def)
  moreover have "listing_step (ListObjects\<lparr>l_closed := True, l_phase := Finishing\<rparr>) demo_listing"
    using list_step.list_finish[of "ListObjects\<lparr>l_closed := True, l_phase := Finishing\<rparr>"]
    by (intro listing_step.lister) (simp add: ListObjects_def demo_listing_def)
  ultimately show ?thesis by (meson converse_rtranclp_into_rtranclp rtranclp.rtrancl_refl)
qed

theorem list_objects_reports_truthfully_witness: "l_delivered demo_listing = l_sent demo_listing \<and> l_finished demo_listing = [None]"
  using list_objects_reports_truthfully[OF demo_listing_reachable] by (simp add: demo_listing_def)

section \<open>A cancelled listing ends\<close>

fun list_phase_cost :: "list_phase \<Rightarrow> nat" where
  "list_phase_cost (Sending _) = 5"
| "list_phase_cost Draining = 4"
| "list_phase_cost Ranging = 3"
| "list_phase_cost Finishing = 2"
| "list_phase_cost ClosingOut = 1"
| "list_phase_cost ListDone = 0"

definition list_cost :: "list_state \<Rightarrow> nat" where
  "list_cost s = 4 * length (l_queue s) + list_phase_cost (l_phase s)"

lemma list_step_cost: "list_step s s' \<Longrightarrow> list_cost s' < list_cost s"
  by (induction rule: list_step.induct) (simp_all add: list_cost_def)

lemma list_progress:
  assumes "l_closed s" "l_ctxErr s \<noteq> None" "l_phase s \<noteq> ListDone"
  shows "\<exists>s'. list_step s s'"
proof (cases "l_queue s")
  case Nil
  then show ?thesis using assms by (cases "l_phase s") (use list_step.intros in blast)+
next
  case (Cons info rest)
  then show ?thesis using assms by (cases "l_phase s") (use list_step.intros in blast)+
qed

interpretation lister: progressing list_step list_cost "\<lambda>s. listing_inv s \<and> l_closed s \<and> l_ctxErr s \<noteq> None" "\<lambda>s. l_phase s = ListDone"
proof unfold_locales
  fix s s'
  assume g: "listing_inv s \<and> l_closed s \<and> l_ctxErr s \<noteq> None"
  show "list_step s s' \<Longrightarrow> list_cost s' < list_cost s" by (rule list_step_cost)
  show "list_step s s' \<Longrightarrow> listing_inv s' \<and> l_closed s' \<and> l_ctxErr s' \<noteq> None"
    using g listing_inv_lister by (auto elim!: list_stepE)
  show "l_phase s \<noteq> ListDone \<Longrightarrow> \<exists>s'. list_step s s'" using g list_progress by blast
qed

text \<open>Once its context is done and the producer has closed its channel, the goroutine of a listing ends by its own steps although nobody reads any more,
  with the operation finished and the channel closed.\<close>

theorem cancelled_listing_ends:
  assumes "listing_step\<^sup>*\<^sup>* ListObjects s" "l_closed s" "l_ctxErr s \<noteq> None"
  shows "(\<exists>s'. list_step\<^sup>*\<^sup>* s s' \<and> l_out_closed s' \<and> length (l_finished s') = 1) \<and>
    (\<forall>k s'. (list_step ^^ k) s s' \<longrightarrow> k \<le> 4 * length (l_queue s) + 5)"
proof
  have g: "listing_inv s \<and> l_closed s \<and> l_ctxErr s \<noteq> None" using assms listing_reachable_inv by blast
  from lister.reaches_final[OF g] show "\<exists>s'. list_step\<^sup>*\<^sup>* s s' \<and> l_out_closed s' \<and> length (l_finished s') = 1"
    by (auto simp: listing_defs)
  have "list_cost s \<le> 4 * length (l_queue s) + 5" by (cases "l_phase s") (simp_all add: list_cost_def)
  then show "\<forall>k s'. (list_step ^^ k) s s' \<longrightarrow> k \<le> 4 * length (l_queue s) + 5"
    using lister.run_bounded[OF _ g] by fastforce
qed

end
