(* ===== verification/RedactText.thy ===== *)
theory RedactText
  imports GoStd
begin

text \<open>
  Credential redaction in text (\<^verbatim>\<open>internal/redact/redact.go\<close>): the decoders and the decoded readings of a
  text, the replacement of named secrets (\<^verbatim>\<open>Secrets\<close>), credential query parameters, and the closed rule
  on at-signs (\<^verbatim>\<open>InText\<close>).

  \<^verbatim>\<open>html.UnescapeString\<close> (its entity table is data of the Go release), \<^verbatim>\<open>url.Parse\<close> and \<^verbatim>\<open>URL.String\<close> are
  parameters.  Each regular expression of the file matches in only one way from a given start, because
  every repeated class excludes the byte that must follow it; it is modelled by the function that finds
  that match.  The classes name ASCII bytes only, so matching bytes and matching runes agree.
\<close>

section \<open>Decoders\<close>

text \<open>\<^verbatim>\<open>strconv.ParseUint\<close> in base 16 on a fixed number of digits.\<close>

definition parse_hex :: "string \<Rightarrow> nat option" where
  "parse_hex s = (if s = [] then None else hex_value 0 s)"

fun json_loop :: "string \<Rightarrow> string" where
  "json_loop (c # d # h1 # h2 # h3 # h4 # s) =
     (if c = CHR 0x5C \<and> d = CHR ''u'' then
        (case parse_hex [h1, h2, h3, h4] of
           Some r \<Rightarrow> encode_rune r @ json_loop s
         | None \<Rightarrow> c # json_loop (d # h1 # h2 # h3 # h4 # s))
      else c # json_loop (d # h1 # h2 # h3 # h4 # s))"
| "json_loop s = s"

definition jsonUnescaped :: "string \<Rightarrow> string" where
  "jsonUnescaped text = (if \<not> contains text [CHR 0x5C, CHR ''u''] then text else json_loop text)"

definition goSimpleEscapes :: "(char \<times> char) list" where
  "goSimpleEscapes =
     [(CHR ''a'', CHR 0x07), (CHR ''b'', CHR 0x08), (CHR ''f'', CHR 0x0C), (CHR ''n'', CHR 0x0A), (CHR ''r'', CHR 0x0D),
      (CHR ''t'', CHR 0x09), (CHR ''v'', CHR 0x0B), (CHR 0x5C, CHR 0x5C), (CHR 0x22, CHR 0x22), (CHR 0x27, CHR 0x27)]"

definition escape_digits :: "char \<Rightarrow> nat" where
  "escape_digits c = (if c = CHR ''x'' then 2 else if c = CHR ''u'' then 4 else if c = CHR ''U'' then 8 else 0)"

function go_loop :: "string \<Rightarrow> string" where
  "go_loop s = (case s of
     [] \<Rightarrow> []
   | [c] \<Rightarrow> [c]
   | c # d # rest \<Rightarrow>
       if c \<noteq> CHR 0x5C then c # go_loop (d # rest)
       else case map_of goSimpleEscapes d of
         Some e \<Rightarrow> e # go_loop rest
       | None \<Rightarrow>
           let n = escape_digits d in
           if n > 0 \<and> n \<le> length rest then
             (case parse_hex (take n rest) of
                Some r \<Rightarrow> (if d = CHR ''x'' then [char_of r] else encode_rune r) @ go_loop (drop n rest)
              | None \<Rightarrow> c # go_loop (d # rest))
           else c # go_loop (d # rest))"
  by pat_completeness auto
termination by (relation "measure length") auto

declare go_loop.simps [simp del]

definition goUnescaped :: "string \<Rightarrow> string" where
  "goUnescaped text = (if CHR 0x5C \<notin> set text then text else go_loop text)"

fun percent_loop :: "string \<Rightarrow> string" where
  "percent_loop (c # h1 # h2 # s) =
     (if c = CHR ''%'' then
        (case parse_hex [h1, h2] of Some v \<Rightarrow> char_of v # percent_loop s | None \<Rightarrow> c # percent_loop (h1 # h2 # s))
      else c # percent_loop (h1 # h2 # s))"
| "percent_loop s = s"

definition percentUnescaped :: "string \<Rightarrow> string" where
  "percentUnescaped text = (if CHR ''%'' \<notin> set text then text else percent_loop text)"

definition maxDecodePasses :: nat where "maxDecodePasses = 8"

definition decodeOnce :: "(string \<Rightarrow> string) \<Rightarrow> string \<Rightarrow> string" where
  "decodeOnce H text = percentUnescaped (goUnescaped (jsonUnescaped (H text)))"

fun views_loop :: "(string \<Rightarrow> string) \<Rightarrow> nat \<Rightarrow> string \<Rightarrow> string list \<times> bool" where
  "views_loop H 0 seen = ([], decodeOnce H seen = seen)"
| "views_loop H (Suc n) seen =
     (let nxt = decodeOnce H seen in
      if nxt = seen then ([], True)
      else let (views, converged) = views_loop H n nxt in (nxt # views, converged))"

definition decodedViews :: "(string \<Rightarrow> string) \<Rightarrow> string \<Rightarrow> string list \<times> bool" where
  "decodedViews H text = views_loop H maxDecodePasses text"

section \<open>Replacing named secrets\<close>

definition opaquePlaceholder :: string where "opaquePlaceholder = ''[redacted]''"
definition redactedMessage :: string where "redactedMessage = ''[message redacted]''"
definition shortSecretLen :: nat where "shortSecretLen = 6"

definition isTokenRune :: "unicode \<Rightarrow> nat \<Rightarrow> bool" where
  "isTokenRune U r \<longleftrightarrow> letter_rune U r \<or> digit_rune U r"

text \<open>\<^verbatim>\<open>utf8.DecodeLastRuneInString\<close>.\<close>

definition decode_last_rune :: "string \<Rightarrow> nat \<times> nat" where
  "decode_last_rune s =
     (if s = [] then (RuneError, 0)
      else if byte (last s) < 128 then (byte (last s), 1)
      else let k = (case filter (\<lambda>k. k \<le> length s \<and> \<not> continuation (byte (s ! (length s - k)))) [2, 3, 4] of
                      k # _ \<Rightarrow> k | [] \<Rightarrow> min 5 (length s));
               (r, n) = decode_rune (drop (length s - k) s)
           in if n = k then (r, n) else (RuneError, 1))"

definition tokenBoundaryBefore :: "unicode \<Rightarrow> string \<Rightarrow> bool" where
  "tokenBoundaryBefore U before \<longleftrightarrow> before = [] \<or> \<not> isTokenRune U (fst (decode_last_rune before))"

definition tokenBoundaryAfter :: "unicode \<Rightarrow> string \<Rightarrow> bool" where
  "tokenBoundaryAfter U after \<longleftrightarrow> after = [] \<or> \<not> isTokenRune U (fst (decode_rune after))"

text \<open>The loop of \<^verbatim>\<open>replaceWholeToken\<close>: \<open>before\<close> is the text up to the position, \<open>text\<close> the rest of it.\<close>

function token_loop :: "unicode \<Rightarrow> string \<Rightarrow> string \<Rightarrow> string \<Rightarrow> string" where
  "token_loop U secret before text =
     (if text = [] \<or> secret = [] then text
      else case index_sub text secret of None \<Rightarrow> text
        | Some i \<Rightarrow>
            let upto = before @ take i text; end = i + length secret; after = drop end text
            in (if tokenBoundaryBefore U upto \<and> tokenBoundaryAfter U after
                then take i text @ opaquePlaceholder else take end text) @
               token_loop U secret (before @ take end text) after)"
  by pat_completeness auto
termination by (relation "measure (\<lambda>(U, secret, before, text). length text)") auto

declare token_loop.simps [simp del]

definition replaceWholeToken :: "unicode \<Rightarrow> string \<Rightarrow> string \<Rightarrow> string" where
  "replaceWholeToken U text secret = token_loop U secret [] text"

fun replaceSecrets :: "unicode \<Rightarrow> string \<Rightarrow> string list \<Rightarrow> string" where
  "replaceSecrets U text [] = text"
| "replaceSecrets U text (secret # rest) =
     replaceSecrets U (if length secret < shortSecretLen then replaceWholeToken U text secret
                       else replace_all text secret opaquePlaceholder) rest"

definition holdsPlaceholder :: "(string \<Rightarrow> string) \<Rightarrow> string \<Rightarrow> bool" where
  "holdsPlaceholder H text \<longleftrightarrow>
     contains text opaquePlaceholder \<or>
     (let (views, converged) = decodedViews H text
      in \<not> converged \<or> list_ex (\<lambda>view. contains view opaquePlaceholder) views)"

section \<open>Credentials in an Authorization value\<close>

text \<open>\<^verbatim>\<open>base64.StdEncoding.DecodeString\<close>: line breaks are skipped, padding is required, trailing bits are
  not checked.\<close>

definition b64_digit :: "char \<Rightarrow> nat option" where
  "b64_digit c =
     (if is_upper c then Some (byte c - 65)
      else if is_lower c then Some (byte c - 71)
      else if is_digit c then Some (byte c + 4)
      else if c = CHR ''+'' then Some 62
      else if c = CHR ''/'' then Some 63
      else None)"

fun b64_groups :: "string \<Rightarrow> string option" where
  "b64_groups [] = Some []"
| "b64_groups [a, b, c, d] =
     (case (b64_digit a, b64_digit b) of
        (Some x, Some y) \<Rightarrow>
          (case (b64_digit c, b64_digit d) of
             (Some z, Some w) \<Rightarrow> Some (map char_of [x * 4 + y div 16, y mod 16 * 16 + z div 4, z mod 4 * 64 + w])
           | (Some z, None) \<Rightarrow> if d = CHR ''='' then Some (map char_of [x * 4 + y div 16, y mod 16 * 16 + z div 4]) else None
           | (None, _) \<Rightarrow> if c = CHR ''='' \<and> d = CHR ''='' then Some [char_of (x * 4 + y div 16)] else None)
      | _ \<Rightarrow> None)"
| "b64_groups (a # b # c # d # e # s) =
     (case (b64_digit a, b64_digit b, b64_digit c, b64_digit d) of
        (Some x, Some y, Some z, Some w) \<Rightarrow>
          map_option ((@) (map char_of [x * 4 + y div 16, y mod 16 * 16 + z div 4, z mod 4 * 64 + w])) (b64_groups (e # s))
      | _ \<Rightarrow> None)"
| "b64_groups _ = None"

definition b64_decode :: "string \<Rightarrow> string option" where
  "b64_decode s = b64_groups (filter (\<lambda>c. c \<noteq> CHR 0x0A \<and> c \<noteq> CHR 0x0D) s)"

definition word_byte :: "char \<Rightarrow> bool" where
  "word_byte c \<longleftrightarrow> is_alnum c \<or> c = CHR ''_''"

definition re_space :: "char \<Rightarrow> bool" where
  "re_space c \<longleftrightarrow> c \<in> {CHR 0x09, CHR 0x0A, CHR 0x0C, CHR 0x0D, CHR '' ''}"

definition b64_byte :: "char \<Rightarrow> bool" where
  "b64_byte c \<longleftrightarrow> is_alnum c \<or> c = CHR ''+'' \<or> c = CHR ''/''"

text \<open>A literal word under \<^verbatim>\<open>(?i)\<close>: ASCII letters match in both cases, and \<open>s\<close> also matches U+017F, the only
  other rune that folds to a letter of the words used.\<close>

fun strip_word :: "string \<Rightarrow> string \<Rightarrow> string option" where
  "strip_word [] s = Some s"
| "strip_word (w # ws) [] = None"
| "strip_word (w # ws) (c # s) =
     (if c = w \<or> (is_upper c \<and> byte c + 32 = byte w) then strip_word ws s
      else case s of [] \<Rightarrow> None
        | d # r \<Rightarrow> if w = CHR ''s'' \<and> byte c = 197 \<and> byte d = 191 then strip_word ws r else None)"

text \<open>The longest run of a class under \<^verbatim>\<open>(?i)\<close>, as its number of runes and of bytes.  Folding adds U+017F and
  U+212A to a class that has all ASCII letters.\<close>

fun class_run :: "(char \<Rightarrow> bool) \<Rightarrow> string \<Rightarrow> nat \<times> nat" where
  "class_run P [] = (0, 0)"
| "class_run P (c # s) =
     (if P c then (let (n, b) = class_run P s in (Suc n, Suc b))
      else case s of [] \<Rightarrow> (0, 0)
        | d # r \<Rightarrow>
            if byte c = 197 \<and> byte d = 191 then (let (n, b) = class_run P r in (Suc n, b + 2))
            else case r of [] \<Rightarrow> (0, 0)
              | e # q \<Rightarrow> if byte c = 226 \<and> byte d = 132 \<and> byte e = 170
                         then (let (n, b) = class_run P q in (Suc n, b + 3)) else (0, 0))"

text \<open>\<^verbatim>\<open>(?i)\bBasic\s+([A-Za-z0-9+/]{8,}={0,2})\<close> at the start of a text whose preceding byte is given: the
  captured value and the rest after the match.\<close>

definition match_basic :: "char option \<Rightarrow> string \<Rightarrow> (string \<times> string) option" where
  "match_basic prev s =
     (if (case prev of Some p \<Rightarrow> word_byte p | None \<Rightarrow> False) then None
      else case strip_word ''basic'' s of None \<Rightarrow> None
        | Some t \<Rightarrow>
            let v = dropWhile re_space t; (runes, len) = class_run b64_byte v;
                pad = takeWhile (\<lambda>c. c = CHR ''='') (drop len v); n = len + min 2 (length pad)
            in if t = [] \<or> \<not> re_space (hd t) \<or> runes < 8 then None else Some (take n v, drop n v))"

text \<open>\<^verbatim>\<open>FindAllStringSubmatch\<close> of \<^verbatim>\<open>basicCredential\<close>: every captured value, from left to right.\<close>

function basic_matches :: "char option \<Rightarrow> string \<Rightarrow> string list" where
  "basic_matches prev s =
     (if s = [] then []
      else case match_basic prev s of
        Some (v, rest) \<Rightarrow>
          if length rest < length s then v # basic_matches (Some (s ! (length s - length rest - 1))) rest else []
      | None \<Rightarrow> basic_matches (Some (hd s)) (tl s))"
  by pat_completeness auto
termination by (relation "measure (\<lambda>(prev, s). length s)") auto

declare basic_matches.simps [simp del]

text \<open>The tail of \<^verbatim>\<open>digestCredential\<close>: from \<open>response\<close> on, and the search for it on the same line.\<close>

definition match_response :: "char option \<Rightarrow> string \<Rightarrow> bool" where
  "match_response prev s \<longleftrightarrow>
     \<not> (case prev of Some p \<Rightarrow> word_byte p | None \<Rightarrow> False) \<and>
     (case strip_word ''response'' s of None \<Rightarrow> False
      | Some t \<Rightarrow>
          (case dropWhile re_space t of
             c # u \<Rightarrow> c = CHR ''='' \<and>
               (let v = dropWhile re_space u;
                    quotes = length (takeWhile (\<lambda>c. c = CHR 0x5C \<or> c = CHR 0x22) v);
                    w = drop (min 2 quotes) v
                in 8 \<le> fst (class_run (\<lambda>c. b64_byte c \<or> c = CHR ''='') w))
           | [] \<Rightarrow> False))"

fun find_response :: "char option \<Rightarrow> string \<Rightarrow> bool" where
  "find_response prev [] \<longleftrightarrow> match_response prev []"
| "find_response prev (c # s) \<longleftrightarrow>
     match_response prev (c # s) \<or> (c \<noteq> CHR 0x0D \<and> c \<noteq> CHR 0x0A \<and> find_response (Some c) s)"

definition match_digest :: "char option \<Rightarrow> string \<Rightarrow> bool" where
  "match_digest prev s \<longleftrightarrow>
     \<not> (case prev of Some p \<Rightarrow> word_byte p | None \<Rightarrow> False) \<and>
     (case strip_word ''digest'' s of None \<Rightarrow> False
      | Some t \<Rightarrow> t \<noteq> [] \<and> re_space (hd t) \<and> find_response (Some CHR '' '') (dropWhile re_space t))"

fun digest_matches :: "char option \<Rightarrow> string \<Rightarrow> bool" where
  "digest_matches prev [] \<longleftrightarrow> False"
| "digest_matches prev (c # s) \<longleftrightarrow> match_digest prev (c # s) \<or> digest_matches (Some c) s"

definition holdsUnaccountedCredential :: "(string \<Rightarrow> string) \<Rightarrow> string \<Rightarrow> bool" where
  "holdsUnaccountedCredential H text =
     (let (views, converged) = decodedViews H text in
      \<not> converged \<or>
      list_ex (\<lambda>reading.
        list_ex (\<lambda>m. case b64_decode m of Some decoded \<Rightarrow> CHR '':'' \<in> set decoded | None \<Rightarrow> False)
          (basic_matches None reading) \<or>
        digest_matches None reading) (text # views))"

definition ordered_secrets :: "string list \<Rightarrow> string list" where
  "ordered_secrets secrets = firsts (filter (\<lambda>s. s \<noteq> []) secrets)"

definition Secrets :: "unicode \<Rightarrow> (string \<Rightarrow> string) \<Rightarrow> string \<Rightarrow> string list \<Rightarrow> string" where
  "Secrets U H text secrets =
     (if secrets = [] \<or> text = [] then text
      else let distinct_secrets = ordered_secrets secrets;
               collides = opaquePlaceholder \<in> set distinct_secrets
           in if distinct_secrets = [] then text
              else if collides \<and> holdsPlaceholder H text then redactedMessage
              else let ordered = sort_key (\<lambda>s. - int (length s)) distinct_secrets;
                       scrubbed = replaceSecrets U text ordered;
                       (views, converged) = decodedViews H scrubbed
                   in if \<not> converged then redactedMessage
                      else if list_ex (\<lambda>view. replaceSecrets U view ordered \<noteq> view) views then redactedMessage
                      else if holdsUnaccountedCredential H scrubbed then redactedMessage
                      else scrubbed)"

section \<open>No secret survives\<close>

lemma contains_iff_sublist: "contains s sub \<longleftrightarrow> sublist sub s"
proof (induction s)
  case (Cons c s)
  have "contains (c # s) sub \<longleftrightarrow> prefix sub (c # s) \<or> contains s sub" by (auto simp: contains_def)
  with Cons show ?case by (simp add: sublist_Cons_right)
qed (simp add: contains_def)

text \<open>A secret that cannot overlap the texts the package writes in its place.\<close>

definition clear_of_placeholder :: "string \<Rightarrow> bool" where
  "clear_of_placeholder s \<longleftrightarrow>
     s \<noteq> [] \<and> CHR ''['' \<notin> set s \<and> CHR '']'' \<notin> set s \<and> \<not> contains ''message redacted'' s"

lemma sublist_bracket:
  assumes "CHR ''['' \<notin> set s" "CHR '']'' \<notin> set s"
  shows "sublist s (x @ CHR ''['' # m @ CHR '']'' # y) \<longleftrightarrow> sublist s x \<or> sublist s m \<or> sublist s y"
proof -
  have start: "sublist s (u @ c # v) \<longleftrightarrow> sublist s u \<or> sublist s v" if "c \<notin> set s" for u v c
  proof -
    have nil: "xs = []" if "prefix xs (c # v)" "s = ys @ xs" for xs ys
      using that \<open>c \<notin> set s\<close> by (cases xs) auto
    have "sublist s (c # v) \<longleftrightarrow> s = [] \<or> sublist s v"
      using nil[of s "[]"] by (auto simp: sublist_Cons_right)
    moreover have "sublist s u" if "s = xs1 @ xs2" "suffix xs1 u" "prefix xs2 (c # v)" for xs1 xs2
      using nil[OF that(3,1)] that by (simp add: suffix_imp_sublist)
    ultimately show ?thesis by (auto simp: sublist_append simp del: prefix_Cons)
  qed
  show ?thesis using assms start[of "CHR ''[''" x] start[of "CHR '']''" m y] by simp
qed

lemma clear_split:
  assumes "clear_of_placeholder s"
  shows "sublist s (x @ opaquePlaceholder @ y) \<longleftrightarrow> sublist s x \<or> sublist s y"
proof -
  have s: "CHR ''['' \<notin> set s" "CHR '']'' \<notin> set s" "\<not> sublist s ''message redacted''"
    using assms by (auto simp: clear_of_placeholder_def contains_iff_sublist)
  have "\<not> sublist s ''redacted''"
  proof
    assume "sublist s ''redacted''"
    moreover have "sublist ''redacted'' ''message redacted''" by (simp add: sublist_code)
    ultimately show False using s(3) sublist_order.order.trans by blast
  qed
  then show ?thesis using sublist_bracket[OF s(1,2), of x "''redacted''" y] by (simp add: opaquePlaceholder_def)
qed

lemma replace_all_step:
  assumes "old \<noteq> []"
  shows "replace_all (c # s) old new =
     (if prefix old (c # s) then new @ replace_all (drop (length old) (c # s)) old new else c # replace_all s old new)"
  using assms by (subst replace_all.simps) simp

lemma replace_all_empty [simp]: "replace_all [] old new = []"
  by (subst replace_all.simps) simp

text \<open>Text that was cut into pieces with the placeholder between them; both replacements only do that.\<close>

inductive scrubbed :: "string \<Rightarrow> string \<Rightarrow> bool" where
  keep: "scrubbed x x"
| cut: "scrubbed y y' \<Longrightarrow> scrubbed (x @ r @ y) (x @ opaquePlaceholder @ y')"

lemma scrubbed_prepend: "scrubbed t t' \<Longrightarrow> scrubbed (u @ t) (u @ t')"
proof (induction rule: scrubbed.induct)
  case (cut y y' x r)
  then show ?case using scrubbed.cut[of y y' "u @ x" r] by simp
qed (rule keep)

lemma scrubbed_no_new:
  "scrubbed t t' \<Longrightarrow> clear_of_placeholder s \<Longrightarrow> sublist s t' \<Longrightarrow> sublist s t"
proof (induction rule: scrubbed.induct)
  case (cut y y' x r)
  then consider "sublist s x" | "sublist s y'" using clear_split by blast
  then show ?case
  proof cases
    case 1
    then show ?thesis by (meson sublist_appendI sublist_order.order.trans prefixI prefix_imp_sublist)
  next
    case 2
    with cut have "sublist s y" by blast
    then show ?thesis by (meson sublist_order.order.trans suffix_imp_sublist suffixI append_assoc)
  qed
qed simp

lemma scrubbed_replace_all: "old \<noteq> [] \<Longrightarrow> scrubbed t (replace_all t old opaquePlaceholder)"
proof (induction t rule: length_induct)
  case (1 t)
  show ?case
  proof (cases t)
    case (Cons c s)
    show ?thesis
    proof (cases "prefix old t")
      case True
      then obtain r where r: "t = old @ r" by (auto simp: prefix_def)
      with 1 have "scrubbed r (replace_all r old opaquePlaceholder)" by auto
      from scrubbed.cut[OF this, of "[]" old] show ?thesis
        using r True 1(2) Cons replace_all_step[of old c s] by simp
    next
      case False
      have "scrubbed s (replace_all s old opaquePlaceholder)" using 1 Cons by simp
      from scrubbed_prepend[OF this, of "[c]"] show ?thesis
        using False 1(2) Cons by (simp add: replace_all_step)
    qed
  qed (simp add: keep)
qed

lemma token_loop_scrubbed: "scrubbed t (token_loop U secret before t)"
proof (induction U secret before t rule: token_loop.induct)
  case (1 U secret before t)
  show ?case
  proof (cases "t = [] \<or> secret = []")
    case True
    then show ?thesis by (subst token_loop.simps) (auto intro: keep)
  next
    case False
    show ?thesis
    proof (cases "index_sub t secret")
      case None
      then show ?thesis using False by (subst token_loop.simps) (auto intro: keep)
    next
      case (Some i)
      let ?e = "i + length secret"
      let ?rest = "token_loop U secret (before @ take ?e t) (drop ?e t)"
      have IH: "scrubbed (drop ?e t) ?rest" using 1[OF False Some refl refl refl] by simp
      have split: "t = take i t @ take (length secret) (drop i t) @ drop ?e t"
        by (metis add.commute append_take_drop_id drop_drop)
      have "scrubbed t (take i t @ opaquePlaceholder @ ?rest)"
        using scrubbed.cut[OF IH, of "take i t" "take (length secret) (drop i t)"] split by simp
      moreover have "scrubbed t (take ?e t @ ?rest)"
        using scrubbed_prepend[OF IH, of "take ?e t"] by simp
      ultimately show ?thesis using False Some by (subst token_loop.simps) (simp add: Let_def)
    qed
  qed
qed

lemma scrubbed_step:
  "secret \<noteq> [] \<Longrightarrow> scrubbed t (if length secret < shortSecretLen then replaceWholeToken U t secret
     else replace_all t secret opaquePlaceholder)"
  by (simp add: replaceWholeToken_def token_loop_scrubbed scrubbed_replace_all)

text \<open>A bracket-free beginning of the replaced text was there before.\<close>

lemma replace_all_prefix:
  "old \<noteq> [] \<Longrightarrow> CHR ''['' \<notin> set p \<Longrightarrow> prefix p (replace_all t old opaquePlaceholder) \<Longrightarrow> prefix p t"
proof (induction t arbitrary: p)
  case (Cons c s)
  show ?case
  proof (cases p)
    case (Cons d q)
    show ?thesis
    proof (cases "prefix old (c # s)")
      case True
      then show ?thesis using Cons Cons.prems by (auto simp: replace_all_step opaquePlaceholder_def)
    next
      case False
      with Cons Cons.prems Cons.IH[of q] show ?thesis by (auto simp: replace_all_step)
    qed
  qed simp
qed simp

lemma replace_all_removes:
  assumes "clear_of_placeholder s"
  shows "\<not> sublist s (replace_all t s opaquePlaceholder)"
proof (induction t rule: length_induct)
  case (1 t)
  have s: "s \<noteq> []" "CHR ''['' \<notin> set s" using assms by (auto simp: clear_of_placeholder_def)
  show ?case
  proof (cases t)
    case Nil
    then show ?thesis using s by simp
  next
    case (Cons c r)
    show ?thesis
    proof (cases "prefix s t")
      case True
      have "length (drop (length s) t) < length t" using s(1) Cons by simp
      then have "\<not> sublist s (replace_all (drop (length s) t) s opaquePlaceholder)" using 1 by blast
      with clear_split[OF assms, of "[]"] s True Cons show ?thesis by (simp add: replace_all_step)
    next
      case False
      have "\<not> prefix s (c # replace_all r s opaquePlaceholder)"
      proof
        assume "prefix s (c # replace_all r s opaquePlaceholder)"
        then obtain q where "s = c # q" "prefix q (replace_all r s opaquePlaceholder)" using s(1) by (cases s) auto
        with replace_all_prefix[of s q r] s False Cons show False by auto
      qed
      moreover have "\<not> sublist s (replace_all r s opaquePlaceholder)" using 1 Cons by simp
      ultimately show ?thesis using False s Cons by (simp add: replace_all_step sublist_Cons_right)
    qed
  qed
qed

lemma replaceSecrets_no_new:
  "list_all (\<lambda>x. x \<noteq> []) ss \<Longrightarrow> clear_of_placeholder s \<Longrightarrow> \<not> sublist s t \<Longrightarrow> \<not> sublist s (replaceSecrets U t ss)"
proof (induction ss arbitrary: t)
  case (Cons x ss)
  have "\<not> sublist s (if length x < shortSecretLen then replaceWholeToken U t x else replace_all t x opaquePlaceholder)"
    using scrubbed_no_new[OF scrubbed_step[of x t U], of s] Cons.prems by auto
  with Cons show ?case by simp
qed simp

lemma replaceSecrets_removes:
  "list_all (\<lambda>x. x \<noteq> []) ss \<Longrightarrow> clear_of_placeholder s \<Longrightarrow> shortSecretLen \<le> length s \<Longrightarrow> s \<in> set ss \<Longrightarrow>
   \<not> sublist s (replaceSecrets U t ss)"
proof (induction ss arbitrary: t)
  case (Cons x ss)
  show ?case
  proof (cases "x = s")
    case True
    with Cons.prems have "\<not> sublist s (replace_all t s opaquePlaceholder)" by (simp add: replace_all_removes)
    with True Cons.prems show ?thesis using replaceSecrets_no_new[of ss s] by simp
  qed (use Cons in simp)
qed simp

lemma views_loop_iterates:
  "views_loop H n t = (views, True) \<Longrightarrow> (decodeOnce H ^^ k) t \<in> set (t # views)"
proof (induction n arbitrary: t views k)
  case 0
  then have "decodeOnce H t = t" by simp
  then have "(decodeOnce H ^^ k) t = t" by (induction k) simp_all
  then show ?case by simp
next
  case (Suc n)
  show ?case
  proof (cases "decodeOnce H t = t")
    case True
    then have "(decodeOnce H ^^ k) t = t" by (induction k) simp_all
    then show ?thesis by simp
  next
    case False
    then obtain vs where vs: "views_loop H n (decodeOnce H t) = (vs, True)" "views = decodeOnce H t # vs"
      using Suc.prems by (auto simp: Let_def split: prod.splits)
    then show ?thesis
      using Suc.IH[OF vs(1), of "k - 1"] by (cases k) (auto simp: funpow_swap1)
  qed
qed

text \<open>What is asked of \<^verbatim>\<open>html.UnescapeString\<close>: a text without an ampersand holds no entity and is unchanged.\<close>

definition html_law :: "(string \<Rightarrow> string) \<Rightarrow> bool" where
  "html_law H \<longleftrightarrow> (\<forall>t. CHR ''&'' \<notin> set t \<longrightarrow> H t = t)"

lemma decode_plain:
  assumes "html_law H" "set t \<inter> {CHR ''&'', CHR 0x5C, CHR ''%''} = {}"
  shows "decodeOnce H t = t"
proof -
  have "\<not> contains t [CHR 0x5C, CHR ''u'']"
    using assms(2) by (auto simp: contains_iff_sublist dest: set_mono_sublist)
  then show ?thesis using assms
    by (auto simp: decodeOnce_def html_law_def jsonUnescaped_def goUnescaped_def percentUnescaped_def)
qed

lemma decode_plain_iter:
  "html_law H \<Longrightarrow> set t \<inter> {CHR ''&'', CHR 0x5C, CHR ''%''} = {} \<Longrightarrow> (decodeOnce H ^^ k) t = t"
  by (induction k) (simp_all add: decode_plain)

lemma clear_message:
  assumes "clear_of_placeholder s" "html_law H"
  shows "\<not> sublist s ((decodeOnce H ^^ k) redactedMessage)"
proof -
  have "\<not> sublist s ''message redacted''" "CHR ''['' \<notin> set s" "CHR '']'' \<notin> set s" "s \<noteq> []"
    using assms(1) by (auto simp: clear_of_placeholder_def contains_iff_sublist)
  then have "\<not> sublist s redactedMessage"
    using sublist_bracket[of s "[]" "''message redacted''" "[]"] by (simp add: redactedMessage_def)
  moreover have "(decodeOnce H ^^ k) redactedMessage = redactedMessage"
    by (rule decode_plain_iter[OF assms(2)]) (simp add: redactedMessage_def)
  ultimately show ?thesis by simp
qed

lemma secrets_gone:
  assumes "html_law H" "s \<in> set secrets" "shortSecretLen \<le> length s" "clear_of_placeholder s"
  shows "\<not> contains ((decodeOnce H ^^ k) (Secrets U H t secrets)) s"
proof -
  let ?ord = "sort_key (\<lambda>s. - int (length s)) (ordered_secrets secrets)"
  have s: "s \<noteq> []" using assms(4) by (simp add: clear_of_placeholder_def)
  have mem: "s \<in> set (ordered_secrets secrets)" using assms(2) s by (simp add: ordered_secrets_def)
  then have ord: "s \<in> set ?ord" "ordered_secrets secrets \<noteq> []" by auto
  have ne: "list_all (\<lambda>x. x \<noteq> []) ?ord" by (simp add: ordered_secrets_def list_all_iff)
  note removes = replaceSecrets_removes[OF ne assms(4,3) ord(1)]
  obtain views conv where v: "decodedViews H (replaceSecrets U t ?ord) = (views, conv)" by fastforce
  define bad where "bad \<longleftrightarrow> (opaquePlaceholder \<in> set (ordered_secrets secrets) \<and> holdsPlaceholder H t) \<or> \<not> conv \<or>
      list_ex (\<lambda>w. replaceSecrets U w ?ord \<noteq> w) views \<or> holdsUnaccountedCredential H (replaceSecrets U t ?ord)"
  have eq: "Secrets U H t secrets = (if t = [] then [] else if bad then redactedMessage else replaceSecrets U t ?ord)"
    using ord(2) assms(2) v by (auto simp: Secrets_def Let_def bad_def)
  show ?thesis
  proof (cases "t = [] \<or> bad")
    case True
    moreover have "\<not> sublist s ((decodeOnce H ^^ k) [])" using decode_plain_iter[OF assms(1), of "[]" k] s by simp
    ultimately show ?thesis using eq clear_message[OF assms(4,1)] by (auto simp: contains_iff_sublist)
  next
    case False
    then have "(decodeOnce H ^^ k) (replaceSecrets U t ?ord) \<in> set (replaceSecrets U t ?ord # views)"
      using v by (intro views_loop_iterates) (simp add: decodedViews_def bad_def)
    moreover have "\<not> sublist s w" if "w \<in> set views" for w
      using that False removes[of U w] by (auto simp: bad_def list_ex_iff)
    ultimately show ?thesis using eq False removes[of U t] by (auto simp: contains_iff_sublist)
  qed
qed

text \<open>C2. However the text escapes it, a secret of at least six bytes never survives: neither the returned
  text nor anything that unescaping it any number of times yields contains it.  (The secret must not
  overlap the placeholder the package itself writes.)\<close>

theorem secrets_never_survive:
  assumes "html_law H" "s \<in> set secrets" "shortSecretLen \<le> length s" "clear_of_placeholder s"
  shows "\<not> contains ((decodeOnce H ^^ k) (Secrets U H t secrets)) s"
  using assms by (rule secrets_gone)

theorem secrets_never_survive_witness:
  "Secrets ascii_tables (\<lambda>t. t) ''token hunter22 rejected'' [''ab'', ''hunter22''] = ''token [redacted] rejected'' \<and>
   \<not> contains ((decodeOnce (\<lambda>t. t) ^^ 3) (Secrets ascii_tables (\<lambda>t. t) ''token hunter22 rejected'' [''ab'', ''hunter22''])) ''hunter22''"
proof
  show "Secrets ascii_tables (\<lambda>t. t) ''token hunter22 rejected'' [''ab'', ''hunter22''] = ''token [redacted] rejected''"
    by code_simp
  have "clear_of_placeholder ''hunter22''" "shortSecretLen \<le> length ''hunter22''" by code_simp+
  then show "\<not> contains ((decodeOnce (\<lambda>t. t) ^^ 3) (Secrets ascii_tables (\<lambda>t. t) ''token hunter22 rejected'' [''ab'', ''hunter22''])) ''hunter22''"
    by (intro secrets_never_survive) (simp_all add: html_law_def)
qed

end
