(* ===== verification/RedactUrl.thy ===== *)
theory RedactUrl
  imports RedactText
begin

text \<open>
  Credentials in URLs (\<^verbatim>\<open>internal/redact/redact.go\<close>): userinfo, credential query parameters and opaque URLs,
  and the closed rule \<^verbatim>\<open>InText\<close> applies to a text about to be logged.  \<^verbatim>\<open>url.Parse\<close> and \<^verbatim>\<open>URL.String\<close> are the
  fields of a parameter record; the percent codecs are modelled.
\<close>

section \<open>Percent codecs\<close>

text \<open>\<^verbatim>\<open>url.QueryUnescape\<close> (\<open>pl\<close> true) and \<^verbatim>\<open>url.PathUnescape\<close>.\<close>

fun url_unescape :: "bool \<Rightarrow> string \<Rightarrow> string option" where
  "url_unescape pl [] = Some []"
| "url_unescape pl (c # s) =
     (if c = CHR ''%'' then
        (case s of a # b # r \<Rightarrow>
           (case (hex_digit a, hex_digit b) of
              (Some x, Some y) \<Rightarrow> map_option ((#) (char_of (x * 16 + y))) (url_unescape pl r)
            | _ \<Rightarrow> None)
         | _ \<Rightarrow> None)
      else map_option ((#) (if pl \<and> c = CHR ''+'' then CHR '' '' else c)) (url_unescape pl s))"

definition upper_hex :: "nat \<Rightarrow> char" where
  "upper_hex n = char_of (if n < 10 then 48 + n else 55 + n)"

definition query_escape_byte :: "char \<Rightarrow> string" where
  "query_escape_byte c =
     (if is_alnum c \<or> c \<in> set ''-_.~'' then [c]
      else if c = CHR '' '' then ''+''
      else [CHR ''%'', upper_hex (byte c div 16), upper_hex (byte c mod 16)])"

definition query_escape :: "string \<Rightarrow> string" where
  "query_escape s = concat (map query_escape_byte s)"

section \<open>Credential query parameters\<close>

definition credentialQueryKeys :: "string list" where
  "credentialQueryKeys = [''awsaccesskeyid'', ''signature'', ''sig'', ''x-goog-signature'']"

definition isCredentialQueryKey :: "unicode \<Rightarrow> string \<Rightarrow> bool" where
  "isCredentialQueryKey U rawKey \<longleftrightarrow>
     to_lower U (case url_unescape True rawKey of Some decoded \<Rightarrow> decoded | None \<Rightarrow> rawKey) \<in> set credentialQueryKeys"

definition key_byte :: "char \<Rightarrow> bool" where
  "key_byte c \<longleftrightarrow> \<not> (c \<in> set ''&=?#'' \<or> re_space c \<or> c = CHR 0x22 \<or> c = CHR 0x27)"

text \<open>The matches of \<^verbatim>\<open>queryParam\<close>, \<^verbatim>\<open>[?&]([^&=?#\s"']*)=\<close>: each key with the text after its equals sign.\<close>

function query_params :: "string \<Rightarrow> (string \<times> string) list" where
  "query_params s = (case s of [] \<Rightarrow> []
     | c # r \<Rightarrow>
         let key = takeWhile key_byte r; after = drop (length key) r
         in if (c = CHR ''?'' \<or> c = CHR ''&'') \<and> after \<noteq> [] \<and> hd after = CHR ''=''
            then (key, tl after) # query_params (tl after)
            else query_params r)"
  by pat_completeness auto
termination by (relation "measure length") auto

declare query_params.simps [simp del]

definition hasCredentialQuery :: "unicode \<Rightarrow> string \<Rightarrow> bool" where
  "hasCredentialQuery U t \<longleftrightarrow> list_ex (\<lambda>(key, _). isCredentialQueryKey U key) (query_params t)"

definition escapedOpaquePlaceholder :: string where
  "escapedOpaquePlaceholder = query_escape opaquePlaceholder"

definition param_value :: "string \<Rightarrow> string" where
  "param_value after = (case index_any after (''&#'' @ [CHR 0x22, CHR 0x27, CHR '' '', CHR 0x09, CHR 0x0D, CHR 0x0A]) of
     None \<Rightarrow> after | Some e \<Rightarrow> take e after)"

definition unaccountedCredentialQuery :: "unicode \<Rightarrow> string \<Rightarrow> bool" where
  "unaccountedCredentialQuery U t \<longleftrightarrow>
     list_ex (\<lambda>(key, after). isCredentialQueryKey U key \<and> param_value after \<noteq> escapedOpaquePlaceholder \<and>
       param_value after \<noteq> opaquePlaceholder) (query_params t)"

definition redact_pair :: "unicode \<Rightarrow> string \<Rightarrow> string \<times> bool" where
  "redact_pair U pair =
     (let (key, _, hasValue) = cut pair ''='' in
      if \<not> hasValue \<or> \<not> isCredentialQueryKey U key then (pair, False)
      else (key @ ''='' @ query_escape opaquePlaceholder, True))"

definition redactQuery :: "unicode \<Rightarrow> string \<Rightarrow> string \<times> bool" where
  "redactQuery U rawQuery =
     (let pairs = map (redact_pair U) (split_byte CHR ''&'' rawQuery)
      in (join ''&'' (map fst pairs), list_ex snd pairs))"

section \<open>URLs\<close>

record 'u url =
  Scheme :: string
  Opaque :: string
  User :: "(string \<times> string option) option"
  Host :: string
  RawQuery :: string
  url_rest :: 'u

record 'u url_lib =
  url_parse :: "string \<Rightarrow> 'u url option"
  url_string :: "'u url \<Rightarrow> string"

definition placeholder :: string where "placeholder = ''redacted''"
definition redactedWhole :: string where "redactedWhole = ''[endpoint redacted]''"

fun opaque_loop :: "nat \<Rightarrow> string \<Rightarrow> bool" where
  "opaque_loop 0 seen = True"
| "opaque_loop (Suc n) seen =
     (case url_unescape False seen of None \<Rightarrow> True
      | Some decoded \<Rightarrow>
          if decoded = seen then False
          else if CHR '':'' \<in> set decoded \<or> CHR ''@'' \<in> set decoded then True
          else opaque_loop n decoded)"

definition opaqueMayHoldCredentials :: "string \<Rightarrow> bool" where
  "opaqueMayHoldCredentials opaque \<longleftrightarrow>
     opaque \<noteq> [] \<and> (CHR '':'' \<in> set opaque \<or> CHR ''@'' \<in> set opaque \<or> opaque_loop maxDecodePasses opaque)"

text \<open>\<^verbatim>\<open>URLAttribute\<close>: the copy of the URL that is rendered, or \<^const>\<open>None\<close> when the URL is replaced wholesale.\<close>

definition redacted_url :: "unicode \<Rightarrow> 'u url \<Rightarrow> 'u url option" where
  "redacted_url U u =
     (let u1 = (if User u \<noteq> None then u\<lparr>User := Some (placeholder, None)\<rparr> else u);
          u2 = (if RawQuery u1 \<noteq> [] \<and> snd (redactQuery U (RawQuery u1)) then u1\<lparr>RawQuery := fst (redactQuery U (RawQuery u1))\<rparr> else u1)
      in if opaqueMayHoldCredentials (Opaque u2) \<or> CHR ''@'' \<in> set (Host u2) then None else Some u2)"

definition URLAttribute :: "unicode \<Rightarrow> 'u url_lib \<Rightarrow> 'u url option \<Rightarrow> string" where
  "URLAttribute U L u = (case u of None \<Rightarrow> []
     | Some v \<Rightarrow> (case redacted_url U v of None \<Rightarrow> redactedWhole | Some w \<Rightarrow> url_string L w))"

definition URL :: "unicode \<Rightarrow> 'u url_lib \<Rightarrow> string \<Rightarrow> string" where
  "URL U L raw =
     (if raw = [] then raw
      else case url_parse L raw of None \<Rightarrow> redactedWhole
        | Some u \<Rightarrow> if User u = None \<and> Opaque u = [] \<and> \<not> hasCredentialQuery U raw then raw
                    else URLAttribute U L (Some u))"

section \<open>Text\<close>

definition scheme_byte :: "char \<Rightarrow> bool" where
  "scheme_byte c \<longleftrightarrow> is_alnum c \<or> c \<in> set ''+.-''"

definition user_byte :: "char \<Rightarrow> bool" where
  "user_byte c \<longleftrightarrow> \<not> (c \<in> set ''/@?#'' \<or> re_space c \<or> c = CHR 0x22 \<or> c = CHR 0x27)"

text \<open>\<^verbatim>\<open>urlUserinfo\<close>, \<^verbatim>\<open>([a-zA-Z][a-zA-Z0-9+.\-]*://)[^/@?#\s"']+@\<close>, at the start of a text: the length of its first
  group and of its userinfo.\<close>

definition match_userinfo :: "string \<Rightarrow> (nat \<times> nat) option" where
  "match_userinfo s =
     (let scheme = takeWhile scheme_byte s; after = drop (length scheme) s;
          info = takeWhile user_byte (drop 3 after); rest = drop (3 + length info) after
      in if s \<noteq> [] \<and> (is_lower (hd s) \<or> is_upper (hd s)) \<and> prefix ''://'' after \<and> info \<noteq> [] \<and> rest \<noteq> [] \<and> hd rest = CHR ''@''
         then Some (length scheme + 3, length info) else None)"

function userinfo_matches :: "string \<Rightarrow> nat" where
  "userinfo_matches s =
     (if s = [] then 0
      else case match_userinfo s of
        Some (p, n) \<Rightarrow> Suc (userinfo_matches (drop (p + n + 1) s))
      | None \<Rightarrow> userinfo_matches (tl s))"
  by pat_completeness auto
termination by (relation "measure length") auto

function mask_userinfo :: "string \<Rightarrow> string" where
  "mask_userinfo s =
     (if s = [] then []
      else case match_userinfo s of
        Some (p, n) \<Rightarrow> take p s @ placeholder @ ''@'' @ mask_userinfo (drop (p + n + 1) s)
      | None \<Rightarrow> hd s # mask_userinfo (tl s))"
  by pat_completeness auto
termination by (relation "measure length") auto

declare userinfo_matches.simps [simp del] mask_userinfo.simps [simp del]

fun replace_endpoints :: "unicode \<Rightarrow> 'u url_lib \<Rightarrow> string list \<Rightarrow> string \<Rightarrow> string" where
  "replace_endpoints U L [] t = t"
| "replace_endpoints U L (e # es) t =
     replace_endpoints U L es (if e = [] \<or> \<not> contains t e then t else replace_all t e (URL U L e))"

definition InText :: "unicode \<Rightarrow> (string \<Rightarrow> string) \<Rightarrow> 'u url_lib \<Rightarrow> string \<Rightarrow> string list \<Rightarrow> string" where
  "InText U H L text0 knownEndpoints =
     (let t = replace_endpoints U L knownEndpoints text0 in
      if count_list t CHR ''@'' \<noteq> userinfo_matches t then redactedWhole
      else if unaccountedCredentialQuery U t then redactedWhole
      else let (views, converged) = decodedViews H t in
        if \<not> converged then redactedWhole
        else if list_ex (\<lambda>d. d \<noteq> t \<and> (count_list d CHR ''@'' \<noteq> count_list t CHR ''@'' \<or> unaccountedCredentialQuery U d)) views
        then redactedWhole
        else mask_userinfo t)"

section \<open>Every at-sign is masked\<close>

definition at_signs_masked :: "string \<Rightarrow> bool" where
  "at_signs_masked s \<longleftrightarrow> list_all (\<lambda>i. s ! i \<noteq> CHR ''@'' \<or> suffix (''://'' @ placeholder) (take i s)) [0..<length s]"

lemma at_signs_masked_iff:
  "at_signs_masked s \<longleftrightarrow> (\<forall>u v. s = u @ ''@'' @ v \<longrightarrow> suffix (''://'' @ placeholder) u)"
proof
  assume m: "at_signs_masked s"
  show "\<forall>u v. s = u @ ''@'' @ v \<longrightarrow> suffix (''://'' @ placeholder) u"
  proof (intro allI impI)
    fix u v assume s: "s = u @ ''@'' @ v"
    then have "length u < length s" "s ! length u = CHR ''@''" "take (length u) s = u" by (simp_all add: nth_append)
    with m show "suffix (''://'' @ placeholder) u" by (auto simp: at_signs_masked_def list_all_iff)
  qed
next
  assume r: "\<forall>u v. s = u @ ''@'' @ v \<longrightarrow> suffix (''://'' @ placeholder) u"
  have "s ! i \<noteq> CHR ''@'' \<or> suffix (''://'' @ placeholder) (take i s)" if "i < length s" for i
    using r[rule_format, of "take i s" "drop (Suc i) s"] id_take_nth_drop[OF that] by auto
  then show "at_signs_masked s" by (simp add: at_signs_masked_def list_all_iff)
qed

lemma at_signs_masked_none: "CHR ''@'' \<notin> set s \<Longrightarrow> at_signs_masked s"
  by (auto simp: at_signs_masked_iff)

lemma at_signs_masked_Cons: "c \<noteq> CHR ''@'' \<Longrightarrow> at_signs_masked s \<Longrightarrow> at_signs_masked (c # s)"
  unfolding at_signs_masked_iff
proof (intro allI impI)
  fix u v
  assume c: "c \<noteq> CHR ''@''" and s: "\<forall>u v. s = u @ ''@'' @ v \<longrightarrow> suffix (''://'' @ placeholder) u" and "c # s = u @ ''@'' @ v"
  then obtain u' where "u = c # u'" "s = u' @ ''@'' @ v" by (cases u) auto
  with s show "suffix (''://'' @ placeholder) u" by (auto intro: suffix_ConsI)
qed

lemma at_signs_masked_append: "CHR ''@'' \<notin> set x \<Longrightarrow> at_signs_masked s \<Longrightarrow> at_signs_masked (x @ s)"
  by (induction x) (auto intro: at_signs_masked_Cons)

lemma at_signs_masked_chunk:
  assumes "CHR ''@'' \<notin> set x" "suffix ''://'' x" "at_signs_masked s"
  shows "at_signs_masked (x @ placeholder @ ''@'' @ s)"
  unfolding at_signs_masked_iff
proof (intro allI impI)
  fix u v assume e: "x @ placeholder @ ''@'' @ s = u @ ''@'' @ v"
  have no: "CHR ''@'' \<notin> set (x @ placeholder)" using assms(1) by (simp add: placeholder_def)
  show "suffix (''://'' @ placeholder) u"
  proof (cases "CHR ''@'' \<in> set u")
    case False
    from append_sep_inj[OF no False, of s v] e have "u = x @ placeholder" by simp
    then show ?thesis using assms(2) by (auto simp: suffix_def)
  next
    case True
    then obtain u1 u2 where u: "u = u1 @ CHR ''@'' # u2" "CHR ''@'' \<notin> set u1" by (metis split_list_first)
    from append_sep_inj[OF no u(2), of s "u2 @ ''@'' @ v"] e u(1) have "s = u2 @ ''@'' @ v" by simp
    then have "suffix (''://'' @ placeholder) u2" using assms(3) by (auto simp: at_signs_masked_iff)
    then show ?thesis using u(1) by (metis suffix_appendI suffix_ConsI)
  qed
qed

text \<open>A match is a scheme with its separator, then userinfo, then the at-sign, and has no other at-sign.\<close>

lemma match_userinfo_Some:
  assumes "match_userinfo s = Some (p, n)"
  shows "\<exists>info. s = take p s @ info @ ''@'' @ drop (p + n + 1) s \<and> length info = n \<and> CHR ''@'' \<notin> set (take p s @ info) \<and>
    suffix ''://'' (take p s)"
proof -
  let ?scheme = "takeWhile scheme_byte s"
  let ?after = "drop (length ?scheme) s"
  let ?info = "takeWhile user_byte (drop 3 ?after)"
  let ?rest = "drop (3 + length ?info) ?after"
  have c: "prefix ''://'' ?after" "?rest \<noteq> []" "hd ?rest = CHR ''@''" "p = length ?scheme + 3" "n = length ?info"
    using assms by (auto simp: match_userinfo_def Let_def split: if_splits)
  have s: "s = ?scheme @ ?after" by (metis takeWhile_dropWhile_id dropWhile_eq_drop)
  obtain r where r: "?after = ''://'' @ r" using c(1) by (auto simp: prefix_def)
  have tp: "take p s = ?scheme @ ''://''"
  proof -
    have "take p s = take p (?scheme @ ''://'' @ r)" using s r by simp
    then show ?thesis using c(4) by simp
  qed
  have dp: "drop p s = r" using c(4) r by (metis add.commute drop_drop append_eq_conv_conj length_Cons list.size(3) numeral_3_eq_3)
  have i: "?info = takeWhile user_byte r" using r by simp
  have "?rest = drop (length ?info) (drop 3 ?after)" by (simp add: add_ac)
  then have rest: "?rest = drop n r" using r c(5) by simp
  have "r = ?info @ ?rest" using i rest c(5) by (metis takeWhile_dropWhile_id dropWhile_eq_drop)
  moreover have "?rest = ''@'' @ drop (p + n + 1) s"
  proof -
    have "?rest = hd ?rest # tl ?rest" using c(2) by simp
    also have "tl ?rest = drop (p + n + 1) s" using rest dp by (metis add.assoc drop_Suc drop_drop plus_1_eq_Suc add.commute tl_drop)
    finally show ?thesis using c(3) by simp
  qed
  ultimately have split: "s = take p s @ ?info @ ''@'' @ drop (p + n + 1) s"
    using dp by (metis append_take_drop_id)
  have "CHR ''@'' \<notin> set ?scheme" by (auto dest: set_takeWhileD simp: scheme_byte_def is_alnum_def is_lower_def is_upper_def is_digit_def)
  moreover have "CHR ''@'' \<notin> set ?info" by (auto dest: set_takeWhileD simp: user_byte_def)
  ultimately show ?thesis using split c(5) tp by (intro exI[of _ ?info]) (auto simp: suffix_def)
qed

lemma userinfo_matches_le: "userinfo_matches s \<le> count_list s CHR ''@''"
proof (induction s rule: userinfo_matches.induct)
  case (1 s)
  show ?case
  proof (cases "s = []")
    case False
    show ?thesis
    proof (cases "match_userinfo s")
      case None
      obtain c r where s: "s = c # r" using False by (cases s) auto
      have "userinfo_matches s = userinfo_matches r" using None s by (subst userinfo_matches.simps) simp
      moreover have "userinfo_matches r \<le> count_list r CHR ''@''" using 1(1)[OF False None] s by simp
      ultimately show ?thesis using s by simp
    next
      case (Some m)
      obtain p n where m: "m = (p, n)" by (cases m)
      obtain info where i: "s = take p s @ info @ ''@'' @ drop (p + n + 1) s" using match_userinfo_Some[of s p n] Some m by blast
      have "count_list s CHR ''@'' \<ge> Suc (count_list (drop (p + n + 1) s) CHR ''@'')"
        by (subst i) (simp add: count_list_append)
      with 1(2)[OF False Some m[symmetric]] False Some m show ?thesis by (subst userinfo_matches.simps) simp
    qed
  qed (simp add: userinfo_matches.simps)
qed

lemma mask_userinfo_masks: "count_list s CHR ''@'' = userinfo_matches s \<Longrightarrow> at_signs_masked (mask_userinfo s)"
proof (induction s rule: mask_userinfo.induct)
  case (1 s)
  show ?case
  proof (cases "s = []")
    case True
    then show ?thesis by (simp add: mask_userinfo.simps at_signs_masked_none)
  next
    case False
    show ?thesis
    proof (cases "match_userinfo s")
      case None
      have m: "userinfo_matches s = userinfo_matches (tl s)" using False None by (subst userinfo_matches.simps) simp
      obtain c r where s: "s = c # r" using False by (cases s) auto
      have "c \<noteq> CHR ''@'' \<and> count_list r CHR ''@'' = userinfo_matches r"
        using 1(3) m userinfo_matches_le[of r] s by (auto split: if_splits)
      with 1(1)[OF False None] s None False show ?thesis
        by (subst mask_userinfo.simps) (simp add: at_signs_masked_Cons)
    next
      case (Some m)
      obtain p n where m: "m = (p, n)" by (cases m)
      obtain info where i: "s = take p s @ info @ ''@'' @ drop (p + n + 1) s" "CHR ''@'' \<notin> set (take p s @ info)" "suffix ''://'' (take p s)"
        using match_userinfo_Some[of s p n] Some m by blast
      have cnt: "count_list s CHR ''@'' = Suc (count_list (drop (p + n + 1) s) CHR ''@'')"
        using i(2) by (subst i(1)) (simp add: count_list_append)
      have "userinfo_matches s = Suc (userinfo_matches (drop (p + n + 1) s))"
        using False Some m by (subst userinfo_matches.simps) simp
      with 1(3) cnt have "at_signs_masked (mask_userinfo (drop (p + n + 1) s))" using 1(2)[OF False Some m[symmetric]] by simp
      from at_signs_masked_chunk[OF _ i(3) this] i(2) show ?thesis
        using False Some m by (subst mask_userinfo.simps) simp
    qed
  qed
qed

text \<open>C4. The closed rule: whatever the text holds and whatever the parser says of the known endpoints, every
  at-sign of the text that is logged stands right behind the masked userinfo the package wrote.\<close>

theorem logged_text_has_no_userinfo: "at_signs_masked (InText U H L t endpoints)"
proof -
  have "at_signs_masked redactedWhole" by (rule at_signs_masked_none) (simp add: redactedWhole_def)
  then show ?thesis using mask_userinfo_masks by (auto simp: InText_def Let_def split: prod.splits)
qed

section \<open>Queries and opaque parts\<close>

lemma split_byte_join:
  "ps \<noteq> [] \<Longrightarrow> list_all (\<lambda>p. c \<notin> set p) ps \<Longrightarrow> split_byte c (join [c] ps) = ps"
proof (induction "[c]" ps rule: join.induct)
  case (2 s)
  then show ?case by (induction s) auto
next
  case (3 s t ss)
  then have IH: "split_byte c (join [c] (t # ss)) = t # ss" by simp
  have "split_byte c (s @ c # join [c] (t # ss)) = s # t # ss" if "c \<notin> set s" using that IH by (induction s) auto
  with 3(3) show ?case by simp
qed simp

lemma split_byte_parts: "list_all (\<lambda>p. c \<notin> set p) (split_byte c s) \<and> split_byte c s \<noteq> []"
  by (induction s) (auto split: list.splits)

definition pair_accounted :: "unicode \<Rightarrow> string \<Rightarrow> bool" where
  "pair_accounted U pair \<longleftrightarrow>
     (let (key, value, hasValue) = cut pair ''='' in
      hasValue \<and> isCredentialQueryKey U key \<longrightarrow> value = escapedOpaquePlaceholder)"

lemma cut_first: "CHR ''='' \<notin> set key \<Longrightarrow> cut (key @ ''='' @ v) ''='' = (key, v, True)"
proof -
  assume "CHR ''='' \<notin> set key"
  then have "index_sub (key @ ''='' @ v) ''='' = Some (length key)" by (induction key) auto
  then show ?thesis by (simp add: cut_def)
qed

lemma cut_key: "cut pair ''='' = (key, v, True) \<Longrightarrow> CHR ''='' \<notin> set key \<and> pair = key @ ''='' @ v"
proof (induction pair arbitrary: key)
  case (Cons c s)
  show ?case
  proof (cases "c = CHR ''=''")
    case True
    then show ?thesis using Cons.prems by (auto simp: cut_def)
  next
    case False
    then obtain i where i: "index_sub s ''='' = Some i" "key = c # take i s" "v = drop (Suc i) s"
      using Cons.prems by (cases "index_sub s ''=''") (auto simp: cut_def)
    then have "cut s ''='' = (take i s, v, True)" by (simp add: cut_def)
    from Cons.IH[OF this] i False show ?thesis by simp
  qed
qed (simp add: cut_def)

lemma escaped_placeholder: "escapedOpaquePlaceholder = ''%5Bredacted%5D''"
  by code_simp

lemma redact_pair_props:
  "pair_accounted U (fst (redact_pair U p))" "fst (redact_pair U (fst (redact_pair U p))) = fst (redact_pair U p)"
  "CHR ''&'' \<notin> set p \<Longrightarrow> CHR ''&'' \<notin> set (fst (redact_pair U p))"
proof -
  obtain key v has where c: "cut p ''='' = (key, v, has)" by (cases "cut p ''=''")
  have keyp: "CHR ''='' \<notin> set key" "set key \<subseteq> set p" if has using cut_key[of p key v] c that by auto
  then show "pair_accounted U (fst (redact_pair U p))" "fst (redact_pair U (fst (redact_pair U p))) = fst (redact_pair U p)"
    using c cut_first[of key] by (auto simp: pair_accounted_def redact_pair_def escapedOpaquePlaceholder_def)
  show "CHR ''&'' \<notin> set (fst (redact_pair U p))" if "CHR ''&'' \<notin> set p"
    using c keyp that escaped_placeholder by (auto simp: redact_pair_def escapedOpaquePlaceholder_def)
qed

lemma redactQuery_pairs:
  "split_byte CHR ''&'' (fst (redactQuery U q)) = map (fst \<circ> redact_pair U) (split_byte CHR ''&'' q)"
proof -
  let ?ps = "map (fst \<circ> redact_pair U) (split_byte CHR ''&'' q)"
  have "list_all (\<lambda>p. CHR ''&'' \<notin> set p) ?ps" "?ps \<noteq> []"
    using split_byte_parts[of "CHR ''&''" q] redact_pair_props(3) by (auto simp: list_all_iff)
  from split_byte_join[OF this(2,1)] show ?thesis by (simp add: redactQuery_def Let_def comp_def)
qed

text \<open>Unescaping a path any number of times.\<close>

fun unescape_iter :: "nat \<Rightarrow> string \<Rightarrow> string option" where
  "unescape_iter 0 s = Some s"
| "unescape_iter (Suc k) s = (case url_unescape False s of None \<Rightarrow> None | Some d \<Rightarrow> unescape_iter k d)"

lemma unescape_iter_fixed: "url_unescape False s = Some s \<Longrightarrow> unescape_iter k s = Some s"
  by (induction k) simp_all

lemma opaque_loop_safe:
  "\<not> opaque_loop n s \<Longrightarrow> CHR '':'' \<notin> set s \<Longrightarrow> CHR ''@'' \<notin> set s \<Longrightarrow>
   \<exists>d. unescape_iter k s = Some d \<and> CHR '':'' \<notin> set d \<and> CHR ''@'' \<notin> set d"
proof (induction n arbitrary: s k)
  case (Suc n)
  obtain d where d: "url_unescape False s = Some d" using Suc.prems(1) by (auto split: option.splits)
  show ?case
  proof (cases "d = s")
    case True
    then show ?thesis using d Suc.prems unescape_iter_fixed[of s k] by simp
  next
    case False
    then have "\<not> opaque_loop n d" "CHR '':'' \<notin> set d" "CHR ''@'' \<notin> set d"
      using Suc.prems(1) d by (auto split: if_splits)
    then show ?thesis using Suc.IH[of d "k - 1"] d Suc.prems by (cases k) auto
  qed
qed simp

lemma opaque_safe:
  assumes "\<not> opaqueMayHoldCredentials s"
  shows "\<exists>d. unescape_iter k s = Some d \<and> CHR '':'' \<notin> set d \<and> CHR ''@'' \<notin> set d"
proof (cases "s = []")
  case True
  then show ?thesis using unescape_iter_fixed[of "[]" k] by simp
next
  case False
  then show ?thesis using assms opaque_loop_safe[of maxDecodePasses s k] by (auto simp: opaqueMayHoldCredentials_def)
qed

lemma query_accounted: "list_all (pair_accounted U) (split_byte CHR ''&'' (if snd (redactQuery U q) then fst (redactQuery U q) else q))"
proof (cases "snd (redactQuery U q)")
  case True
  then show ?thesis by (simp add: redactQuery_pairs list_all_iff redact_pair_props(1))
next
  case False
  have "pair_accounted U p" if "p \<in> set (split_byte CHR ''&'' q)" for p
  proof -
    have "\<not> snd (redact_pair U p)" using False that by (auto simp: redactQuery_def Let_def list_ex_iff)
    then show ?thesis by (cases "cut p ''=''") (auto simp: pair_accounted_def redact_pair_def split: if_splits)
  qed
  then show ?thesis using False by (simp add: list_all_iff)
qed

text \<open>C37. A URL is rendered only with its credentials gone: the userinfo is the placeholder, every credential
  parameter of the query carries the placeholder's escaped form and nothing else, the host has no
  at-sign, and no unescaping of an opaque part, however deep, shows a colon or an at-sign.  In every
  other case the URL is replaced as a whole.\<close>

theorem rendered_url_holds_no_credential:
  "case redacted_url U u of
     None \<Rightarrow> URLAttribute U L (Some u) = redactedWhole
   | Some w \<Rightarrow> URLAttribute U L (Some u) = url_string L w \<and>
       User w = map_option (\<lambda>_. (placeholder, None)) (User u) \<and>
       list_all (pair_accounted U) (split_byte CHR ''&'' (RawQuery w)) \<and>
       CHR ''@'' \<notin> set (Host w) \<and> Host w = Host u \<and> Scheme w = Scheme u \<and> Opaque w = Opaque u \<and>
       (\<forall>k. \<exists>d. unescape_iter k (Opaque w) = Some d \<and> CHR '':'' \<notin> set d \<and> CHR ''@'' \<notin> set d)"
proof (cases "redacted_url U u")
  case None
  then show ?thesis by (simp add: URLAttribute_def)
next
  case (Some w)
  let ?q = "if snd (redactQuery U (RawQuery u)) then fst (redactQuery U (RawQuery u)) else RawQuery u"
  have w: "User w = map_option (\<lambda>_. (placeholder, None)) (User u)" "Host w = Host u" "Scheme w = Scheme u" "Opaque w = Opaque u"
    "\<not> opaqueMayHoldCredentials (Opaque w)" "CHR ''@'' \<notin> set (Host w)"
    using Some by (cases "User u"; auto simp: redacted_url_def Let_def split: if_splits)+
  have "RawQuery w = (if RawQuery u = [] then [] else ?q)"
    using Some by (auto simp: redacted_url_def Let_def split: if_splits)
  moreover have "list_all (pair_accounted U) (split_byte CHR ''&'' [])" by (simp add: pair_accounted_def cut_def)
  ultimately have "list_all (pair_accounted U) (split_byte CHR ''&'' (RawQuery w))"
    using query_accounted[of U "RawQuery u"] by presburger
  then show ?thesis using Some w opaque_safe[OF w(5)] by (simp add: URLAttribute_def)
qed

end
