(* ===== verification/RedactWire.thy ===== *)
theory RedactWire
  imports RedactUrl
begin

text \<open>
  The forms a credential can take on the wire and in a log line (\<^verbatim>\<open>internal/redact/redact.go\<close>): the escaped
  renderings of a value, header names and values, cookies, Basic authorization, and the list of secrets
  of a header set.  \<^verbatim>\<open>strconv.Quote\<close> and \<^verbatim>\<open>json.Marshal\<close> are parameters (both consult Unicode tables).
\<close>

section \<open>Renderings\<close>

record renderers =
  strconv_Quote :: "string \<Rightarrow> string"
  json_Marshal :: "string \<Rightarrow> string option"

definition GoEscaped :: "renderers \<Rightarrow> string \<Rightarrow> string" where
  "GoEscaped R v = (let q = strconv_Quote R v in take (length q - 2) (drop 1 q))"

definition JSONEscaped :: "renderers \<Rightarrow> string \<Rightarrow> string" where
  "JSONEscaped R v = (case json_Marshal R v of None \<Rightarrow> v
     | Some encoded \<Rightarrow> if length encoded < 2 then v else take (length encoded - 2) (drop 1 encoded))"

definition html_escape_byte :: "char \<Rightarrow> string" where
  "html_escape_byte c =
     (if c = CHR ''&'' then ''&amp;'' else if c = CHR 0x27 then ''&#39;'' else if c = CHR ''<'' then ''&lt;''
      else if c = CHR ''>'' then ''&gt;'' else if c = CHR 0x22 then ''&#34;'' else [c])"

definition HTMLEscaped :: "string \<Rightarrow> string" where
  "HTMLEscaped v = concat (map html_escape_byte v)"

definition render_functions :: "renderers \<Rightarrow> (string \<Rightarrow> string) list" where
  "render_functions R = [GoEscaped R, JSONEscaped R, HTMLEscaped]"

definition renderingDepth :: nat where "renderingDepth = 2"

text \<open>The body of the two inner loops: the forms so far and the forms found in this round.\<close>

definition add_form :: "string \<Rightarrow> string list \<times> string list \<Rightarrow> string list \<times> string list" where
  "add_form form st = (let (forms, nxt) = st in if form \<in> set forms then st else (forms @ [form], nxt @ [form]))"

definition render_round :: "renderers \<Rightarrow> string list \<Rightarrow> string list \<Rightarrow> string list \<times> string list" where
  "render_round R frontier forms =
     fold add_form (concat (map (\<lambda>base. map (\<lambda>render. render base) (render_functions R)) frontier)) (forms, [])"

fun renderings_loop :: "renderers \<Rightarrow> nat \<Rightarrow> string list \<Rightarrow> string list \<Rightarrow> string list" where
  "renderings_loop R 0 forms frontier = forms"
| "renderings_loop R (Suc n) forms frontier =
     (let (forms', nxt) = render_round R frontier forms in
      if nxt = [] then forms' else renderings_loop R n forms' nxt)"

definition Renderings :: "renderers \<Rightarrow> string \<Rightarrow> string list" where
  "Renderings R v = renderings_loop R renderingDepth [v] [v]"

section \<open>Headers and cookies\<close>

definition HeaderWireValue :: "string \<Rightarrow> string" where
  "HeaderWireValue v = trim_set v [CHR '' '', CHR 0x09, CHR 0x0D, CHR 0x0A]"

definition header_field_byte :: "char \<Rightarrow> bool" where
  "header_field_byte c \<longleftrightarrow> is_alnum c \<or> c \<in> set ''!#$%&*+-.^_|~'' \<or> c = CHR 0x27 \<or> c = CHR 0x60"

fun canonical_header :: "bool \<Rightarrow> string \<Rightarrow> string" where
  "canonical_header upper [] = []"
| "canonical_header upper (c # s) =
     (if upper \<and> is_lower c then char_of (byte c - 32) else if \<not> upper \<and> is_upper c then char_of (byte c + 32) else c) #
     canonical_header (c = CHR ''-'') s"

text \<open>\<^verbatim>\<open>textproto.CanonicalMIMEHeaderKey\<close>: a name with a byte that is not allowed in one is returned as it is.\<close>

definition HeaderWireName :: "string \<Rightarrow> string" where
  "HeaderWireName name = (if list_all header_field_byte name then canonical_header True name else name)"

definition HeaderWireNameHTTP2 :: "unicode \<Rightarrow> string \<Rightarrow> string" where
  "HeaderWireNameHTTP2 U name = (if list_ex (\<lambda>c. byte c < 32 \<or> byte c > 126) name then name else to_lower U name)"

definition CookieWireValue :: "string \<Rightarrow> string" where
  "CookieWireValue v =
     (if CHR '';'' \<notin> set v then v
      else join ''; '' (map (\<lambda>field. trim_left_set field '' '') (split_byte CHR '';'' v)))"

definition HeaderValueForms :: "renderers \<Rightarrow> string \<Rightarrow> string list" where
  "HeaderValueForms R v =
     (let wire = HeaderWireValue v in concat (map (Renderings R) [v, wire, CookieWireValue wire]))"

definition HeaderNameForms :: "unicode \<Rightarrow> renderers \<Rightarrow> string \<Rightarrow> string list" where
  "HeaderNameForms U R name = concat (map (Renderings R) [name, HeaderWireName name, HeaderWireNameHTTP2 U name])"

definition validCookieValueByte :: "char \<Rightarrow> bool" where
  "validCookieValueByte b \<longleftrightarrow> 32 \<le> byte b \<and> byte b < 127 \<and> b \<noteq> CHR 0x22 \<and> b \<noteq> CHR '';'' \<and> b \<noteq> CHR 0x5C"

definition cookieNameOnTheWire :: "string \<Rightarrow> string" where
  "cookieNameOnTheWire name = map (\<lambda>c. if c = CHR 0x0A \<or> c = CHR 0x0D then CHR ''-'' else c) name"

definition cookieValueOnTheWire :: "string \<Rightarrow> bool \<Rightarrow> string" where
  "cookieValueOnTheWire v quoted =
     (let sanitized = filter validCookieValueByte v in
      if sanitized = [] then []
      else if CHR '' '' \<in> set sanitized \<or> CHR '','' \<in> set sanitized \<or> quoted then [CHR 0x22] @ sanitized @ [CHR 0x22]
      else sanitized)"

definition CookieRequestForms :: "renderers \<Rightarrow> string \<Rightarrow> string \<Rightarrow> bool \<Rightarrow> string list" where
  "CookieRequestForms R name v quoted =
     (let onTheWire = cookieValueOnTheWire v quoted in
      if onTheWire = [] then []
      else HeaderValueForms R onTheWire @ HeaderValueForms R (cookieNameOnTheWire name @ ''='' @ onTheWire))"

definition credentialHeaders :: "string list" where
  "credentialHeaders = [''authorization'', ''proxy-authorization'', ''cookie'', ''set-cookie'']"

definition credentialHeaderMarkers :: "string list" where
  "credentialHeaderMarkers = [''auth'', ''cookie'', ''credential'', ''key'', ''passwd'', ''password'', ''secret'', ''session'',
     ''signature'', ''token'']"

definition CredentialHeaderName :: "unicode \<Rightarrow> string \<Rightarrow> bool" where
  "CredentialHeaderName U name \<longleftrightarrow>
     (let lower = to_lower U (trim_space name) in
      lower \<noteq> [] \<and> (lower \<in> set credentialHeaders \<or> list_ex (contains lower) credentialHeaderMarkers))"

text \<open>A header set is listed in the order the map iteration visits it; the result does not depend on it.\<close>

definition HeaderSecrets :: "unicode \<Rightarrow> renderers \<Rightarrow> (string \<times> string list) list \<Rightarrow> string list \<Rightarrow> string list" where
  "HeaderSecrets U R h alsoNames =
     (let also_names = filter (\<lambda>l. l \<noteq> []) (map (\<lambda>name. to_lower U (trim_space name)) alsoNames);
          named = filter (\<lambda>(name, _). to_lower U name \<in> set also_names \<or> CredentialHeaderName U name) h;
          forms = concat (map (\<lambda>(name, values). HeaderNameForms U R name @ concat (map (HeaderValueForms R) values)) named)
      in sort (firsts (filter (\<lambda>form. form \<noteq> []) forms)))"

section \<open>Basic authorization\<close>

definition b64_char :: "nat \<Rightarrow> char" where
  "b64_char n = (if n < 26 then char_of (65 + n) else if n < 52 then char_of (71 + n) else if n < 62 then char_of (n - 4)
     else if n = 62 then CHR ''+'' else CHR ''/'')"

fun b64_encode :: "string \<Rightarrow> string" where
  "b64_encode [] = []"
| "b64_encode [a] = [b64_char (byte a div 4), b64_char (byte a mod 4 * 16), CHR ''='', CHR ''='']"
| "b64_encode [a, b] =
     [b64_char (byte a div 4), b64_char (byte a mod 4 * 16 + byte b div 16), b64_char (byte b mod 16 * 4), CHR ''='']"
| "b64_encode (a # b # c # s) =
     b64_char (byte a div 4) # b64_char (byte a mod 4 * 16 + byte b div 16) # b64_char (byte b mod 16 * 4 + byte c div 64) #
     b64_char (byte c mod 64) # b64_encode s"

definition BasicAuthValue :: "string \<Rightarrow> string \<Rightarrow> string" where
  "BasicAuthValue username password = ''Basic '' @ b64_encode (username @ '':'' @ password)"

definition BasicAuthHeader :: "'u url_lib \<Rightarrow> string \<Rightarrow> string" where
  "BasicAuthHeader L rawURL =
     (if rawURL = [] \<or> CHR ''@'' \<notin> set rawURL then []
      else case url_parse L rawURL of None \<Rightarrow> []
        | Some u \<Rightarrow> (case User u of None \<Rightarrow> []
            | Some (username, password) \<Rightarrow> BasicAuthValue username (case password of None \<Rightarrow> [] | Some p \<Rightarrow> p)))"

section \<open>All renderings are listed\<close>

definition rendered :: "renderers \<Rightarrow> string \<Rightarrow> string set" where
  "rendered R base = set (map (\<lambda>render. render base) (render_functions R))"

lemma fold_add_form:
  "\<exists>new. fold add_form xs (forms, nxt) = (forms @ new, nxt @ new) \<and> set new = set xs - set forms \<and> distinct new"
proof (induction xs arbitrary: forms nxt)
  case (Cons x xs)
  show ?case
  proof (cases "x \<in> set forms")
    case True
    then have "add_form x (forms, nxt) = (forms, nxt)" by (simp add: add_form_def)
    with Cons.IH[of forms nxt] True show ?thesis by auto
  next
    case False
    then have "add_form x (forms, nxt) = (forms @ [x], nxt @ [x])" by (simp add: add_form_def)
    moreover obtain new where "fold add_form xs (forms @ [x], nxt @ [x]) = ((forms @ [x]) @ new, (nxt @ [x]) @ new)"
      "set new = set xs - set (forms @ [x])" "distinct new" using Cons.IH by blast
    ultimately show ?thesis using False by (intro exI[of _ "x # new"]) auto
  qed
qed simp

lemma render_round_new:
  "\<exists>new. render_round R frontier forms = (forms @ new, new) \<and> distinct new \<and>
     set new = (\<Union>b \<in> set frontier. rendered R b) - set forms"
  using fold_add_form[of "concat (map (\<lambda>base. map (\<lambda>render. render base) (render_functions R)) frontier)" forms "[]"]
  by (auto simp: render_round_def rendered_def)

text \<open>The list of forms of a value is exactly the value, its three escaped forms and their escaped forms,
  each once: what a credential looks like after being quoted, encoded or HTML-escaped up to twice.\<close>

theorem renderings_are_complete:
  "distinct (Renderings R v) \<and>
   set (Renderings R v) = {v} \<union> rendered R v \<union> (\<Union>b \<in> rendered R v. rendered R b)"
proof -
  obtain n1 where n1: "render_round R [v] [v] = ([v] @ n1, n1)" "distinct n1" "set n1 = rendered R v - {v}"
    using render_round_new[of R "[v]" "[v]"] by auto
  obtain n2 where n2: "render_round R n1 ([v] @ n1) = (([v] @ n1) @ n2, n2)" "distinct n2"
    "set n2 = (\<Union>b \<in> set n1. rendered R b) - set ([v] @ n1)"
    using render_round_new[of R n1 "[v] @ n1"] by auto
  have eq: "Renderings R v = v # n1 @ (if n1 = [] then [] else n2)"
    using n1(1) n2(1) by (simp add: Renderings_def renderingDepth_def numeral_2_eq_2)
  have "n1 = [] \<Longrightarrow> rendered R v \<subseteq> {v}" using n1(3) by auto
  then show ?thesis unfolding eq using n1(2,3) n2(2,3) by auto
qed

section \<open>Basic authorization is recognised\<close>

lemma b64_digit_char: "n < 64 \<Longrightarrow> b64_digit (b64_char n) = Some n"
proof -
  assume "n < 64"
  then consider "n < 26" | "26 \<le> n" "n < 52" | "52 \<le> n" "n < 62" | "n = 62" | "n = 63" by linarith
  then show ?thesis
    by cases (auto simp: b64_digit_def b64_char_def is_upper_def is_lower_def is_digit_def)
qed

lemma b64_char_byte: "n < 64 \<Longrightarrow> b64_byte (b64_char n)"
proof -
  assume "n < 64"
  then consider "n < 26" | "26 \<le> n" "n < 52" | "52 \<le> n" "n < 62" | "n = 62" | "n = 63" by linarith
  then show ?thesis
    by cases (auto simp: b64_byte_def b64_char_def is_alnum_def is_upper_def is_lower_def is_digit_def)
qed

lemma six_bits:
  fixes a b c :: nat
  assumes "a < 256" "b < 256" "c < 256"
  shows "a div 4 < 64" "a mod 4 * 16 + b div 16 < 64" "b mod 16 * 4 + c div 64 < 64" "c mod 64 < 64" "a mod 4 * 16 < 64" "b mod 16 * 4 < 64"
    "a div 4 * 4 + (a mod 4 * 16 + b div 16) div 16 = a"
    "(a mod 4 * 16 + b div 16) mod 16 * 16 + (b mod 16 * 4 + c div 64) div 4 = b"
    "(b mod 16 * 4 + c div 64) mod 4 * 64 + c mod 64 = c"
proof -
  have r: "b div 16 < 16" "c div 64 < 4" using assms by simp_all
  have join: "(q * 16 + b div 16) div 16 = q" "(q * 16 + b div 16) mod 16 = b div 16"
    "(q * 4 + c div 64) div 4 = q" "(q * 4 + c div 64) mod 4 = c div 64" for q
    using r by simp_all
  show "a div 4 < 64" "c mod 64 < 64" "a mod 4 * 16 < 64" "b mod 16 * 4 < 64" using assms by simp_all
  have "a mod 4 \<le> 3" "b mod 16 \<le> 15" by simp_all
  with r show "a mod 4 * 16 + b div 16 < 64" "b mod 16 * 4 + c div 64 < 64" by linarith+
  show "a div 4 * 4 + (a mod 4 * 16 + b div 16) div 16 = a"
    "(a mod 4 * 16 + b div 16) mod 16 * 16 + (b mod 16 * 4 + c div 64) div 4 = b"
    "(b mod 16 * 4 + c div 64) mod 4 * 64 + c mod 64 = c"
    unfolding join by simp_all
qed

lemma b64_groups_append:
  assumes "x < 64" "y < 64" "z < 64" "w < 64"
  shows "b64_groups (b64_char x # b64_char y # b64_char z # b64_char w # s) =
    map_option ((@) (map char_of [x * 4 + y div 16, y mod 16 * 16 + z div 4, z mod 4 * 64 + w])) (b64_groups s)"
  using assms by (cases s) (simp_all add: b64_digit_char)

lemma byte_lt: "byte c < 256"
  by (metis mod_less_divisor of_char_mod_256 zero_less_numeral)

lemma b64_digit_pad: "b64_digit CHR ''='' = None"
  by code_simp

lemma b64_groups_encode: "b64_groups (b64_encode s) = Some s"
proof (induction s rule: b64_encode.induct)
  case (2 a)
  then show ?case using six_bits[OF byte_lt[of a], of 0 0] by (simp add: b64_digit_char b64_digit_pad)
next
  case (3 a b)
  then show ?case using six_bits[OF byte_lt[of a] byte_lt[of b], of 0] by (simp add: b64_digit_char b64_digit_pad)
next
  case (4 a b c s)
  then show ?case using six_bits[OF byte_lt[of a] byte_lt[of b] byte_lt[of c]] by (simp add: b64_groups_append)
qed simp

lemma b64_encode_alphabet:
  "\<exists>run pad. b64_encode s = run @ pad \<and> list_all b64_byte run \<and> pad \<in> {[], ''='', ''==''} \<and> 4 * length s \<le> 3 * length run"
proof (induction s rule: b64_encode.induct)
  case (2 a)
  show ?case using six_bits[OF byte_lt[of a], of 0 0]
    by (intro exI[of _ "[b64_char (byte a div 4), b64_char (byte a mod 4 * 16)]"] exI[of _ "''==''"]) (simp add: b64_char_byte)
next
  case (3 a b)
  show ?case using six_bits[OF byte_lt[of a] byte_lt[of b], of 0]
    by (intro exI[of _ "[b64_char (byte a div 4), b64_char (byte a mod 4 * 16 + byte b div 16), b64_char (byte b mod 16 * 4)]"]
        exI[of _ "''=''"]) (simp add: b64_char_byte)
next
  case (4 a b c s)
  then obtain run pad where r: "b64_encode s = run @ pad" "list_all b64_byte run" "pad \<in> {[], ''='', ''==''}" "4 * length s \<le> 3 * length run"
    by blast
  then show ?case using six_bits[OF byte_lt[of a] byte_lt[of b] byte_lt[of c]]
    by (intro exI[of _ "b64_char (byte a div 4) # b64_char (byte a mod 4 * 16 + byte b div 16) #
      b64_char (byte b mod 16 * 4 + byte c div 64) # b64_char (byte c mod 64) # run"] exI[of _ pad]) (simp add: b64_char_byte)
qed simp

lemma b64_decode_encode: "b64_decode (b64_encode s) = Some s"
proof -
  obtain run pad where r: "b64_encode s = run @ pad" "list_all b64_byte run" "pad \<in> {[], ''='', ''==''}"
    using b64_encode_alphabet by blast
  have "c \<noteq> CHR 0x0A \<and> c \<noteq> CHR 0x0D" if "b64_byte c" for c
    using that by (auto simp: b64_byte_def is_alnum_def is_lower_def is_upper_def is_digit_def)
  then have "filter (\<lambda>c. c \<noteq> CHR 0x0A \<and> c \<noteq> CHR 0x0D) (b64_encode s) = b64_encode s"
    using r by (auto simp: filter_id_conv list_all_iff)
  then show ?thesis by (simp add: b64_decode_def b64_groups_encode)
qed

text \<open>A byte that ends a base64 run: outside the alphabet, not padding, and not the first byte of a rune beyond
  ASCII (two of which fold into the class).\<close>

definition ends_run :: "string \<Rightarrow> bool" where
  "ends_run y \<longleftrightarrow> y = [] \<or> (\<not> b64_byte (hd y) \<and> hd y \<noteq> CHR ''='' \<and> byte (hd y) < 128)"

lemma class_run_exact:
  "list_all P run \<Longrightarrow> y = [] \<or> (\<not> P (hd y) \<and> byte (hd y) < 128) \<Longrightarrow> class_run P (run @ y) = (length run, length run)"
proof (induction run)
  case Nil
  then show ?case by (cases y) (auto split: list.splits)
qed simp

lemma match_basic_value:
  assumes "6 \<le> length s" "ends_run y"
  shows "match_basic None (''Basic '' @ b64_encode s @ y) = Some (b64_encode s, y)"
proof -
  obtain run pad where r: "b64_encode s = run @ pad" "list_all b64_byte run" "pad \<in> {[], ''='', ''==''}" "4 * length s \<le> 3 * length run"
    using b64_encode_alphabet by blast
  have len: "8 \<le> length run" using r(4) assms(1) by linarith
  have ny: "takeWhile (\<lambda>c. c = CHR ''='') (pad @ y) = pad" using r(3) assms(2) by (cases y) (auto simp: ends_run_def)
  have eqb: "\<not> b64_byte CHR ''=''" by code_simp
  have stop: "pad @ y = [] \<or> (\<not> b64_byte (hd (pad @ y)) \<and> byte (hd (pad @ y)) < 128)"
    using r(3) assms(2) eqb by (auto simp: ends_run_def)
  have run: "class_run b64_byte (run @ pad @ y) = (length run, length run)" by (rule class_run_exact[OF r(2) stop])
  obtain c run' where c: "run = c # run'" using len by (cases run) auto
  have "\<not> re_space c" using r(2) c by (auto simp: b64_byte_def re_space_def is_alnum_def is_lower_def is_upper_def is_digit_def)
  then have sp: "dropWhile re_space ('' '' @ run @ pad @ y) = run @ pad @ y" using c by (simp add: re_space_def)
  have "strip_word ''basic'' (''Basic '' @ run @ pad @ y) = Some ('' '' @ run @ pad @ y)" by (simp add: is_upper_def)
  moreover have "length pad \<le> 2" using r(3) by auto
  ultimately show ?thesis using len run ny sp r(1) by (simp add: match_basic_def re_space_def)
qed

text \<open>The Basic authorization of any user and password of six bytes or more is recognised where it starts
  a text: it decodes back to the pair, so a message that still holds it is given up.\<close>

theorem basic_credential_is_recognised:
  assumes "6 \<le> length (username @ '':'' @ password)" "ends_run y"
  shows "holdsUnaccountedCredential H (BasicAuthValue username password @ y) \<and>
    b64_decode (drop 6 (BasicAuthValue username password)) = Some (username @ '':'' @ password)"
proof -
  let ?t = "BasicAuthValue username password @ y"
  have ne: "?t \<noteq> []" "length y < length ?t" by (simp_all add: BasicAuthValue_def)
  have "match_basic None ?t = Some (b64_encode (username @ '':'' @ password), y)"
    using match_basic_value[OF assms] by (simp add: BasicAuthValue_def)
  then have "b64_encode (username @ '':'' @ password) \<in> set (basic_matches None ?t)"
    using ne by (subst basic_matches.simps) simp
  then show ?thesis
    using b64_decode_encode[of "username @ '':'' @ password"]
    by (auto simp: holdsUnaccountedCredential_def BasicAuthValue_def list_ex_iff split: prod.splits intro!: bexI)
qed

theorem basic_credential_is_recognised_witness:
  "holdsUnaccountedCredential (\<lambda>t. t) ''Basic YW5uOnM6dA== denied''"
proof -
  have "BasicAuthValue ''ann'' ''s:t'' = ''Basic YW5uOnM6dA==''" "ends_run '' denied''" by code_simp+
  then show ?thesis using basic_credential_is_recognised[of "''ann''" "''s:t''" "'' denied''" "\<lambda>t. t"] by simp
qed

end
