(* ===== verification/RedactError.thy ===== *)
theory RedactError
  imports RedactWire
begin

text \<open>
  Redacting an error (\<^verbatim>\<open>internal/redact/redact.go\<close>): rendering it, walking its chain for the URLs it names,
  and replacing its message.

  Errors are objects on a heap, so a chain may share nodes or run in a circle.  A method that panics is a
  value of the model.  \<open>env_fold\<close> is \<^verbatim>\<open>strings.EqualFold\<close>; \<open>env_sort\<close> is \<^verbatim>\<open>sort.Slice\<close>, of which nothing is assumed.
\<close>

section \<open>Errors as objects\<close>

datatype unwrapping = NoUnwrap | UnwrapOne "nat option" | UnwrapMany "nat option list" | UnwrapPanics

record error_node =
  nil_pointer :: bool
  go_type :: string
  rendering :: "string option"
  url_of :: string
  unwrap :: unwrapping

type_synonym error_heap = "nat \<Rightarrow> error_node"

definition renderError :: "error_node \<Rightarrow> string \<times> bool" where
  "renderError e =
     (if nil_pointer e then (''<nil '' @ go_type e @ ''>'', False)
      else case rendering e of
        None \<Rightarrow> (''[omitted: '' @ go_type e @ '' panicked while rendering]'', False)
      | Some t \<Rightarrow> (t, True))"

definition ErrorText :: "error_node \<Rightarrow> string" where
  "ErrorText e = fst (renderError e)"

definition unwrapped :: "error_node \<Rightarrow> nat option list" where
  "unwrapped e = (case unwrap e of NoUnwrap \<Rightarrow> [] | UnwrapOne c \<Rightarrow> [c] | UnwrapMany cs \<Rightarrow> cs | UnwrapPanics \<Rightarrow> [])"

definition maxErrorChainVisits :: nat where "maxErrorChainVisits = 1024"

text \<open>The recursive walk, with the calls still to make as an explicit stack; the budget is shared by all.\<close>

function walk :: "error_heap \<Rightarrow> nat \<Rightarrow> nat option list \<Rightarrow> string list \<times> nat" where
  "walk heap budget [] = ([], budget)"
| "walk heap budget (None # stack) = walk heap budget stack"
| "walk heap budget (Some e # stack) =
     (if budget = 0 then ([], 0)
      else if nil_pointer (heap e) then walk heap (budget - 1) stack
      else let (urls, left) = walk heap (budget - 1) (unwrapped (heap e) @ stack)
           in (if url_of (heap e) = [] then urls else url_of (heap e) # urls, left))"
  by pat_completeness auto
termination by (relation "measures [\<lambda>(heap, budget, stack). budget, \<lambda>(heap, budget, stack). length stack]") auto

definition errorURLs :: "error_heap \<Rightarrow> nat option \<Rightarrow> string list" where
  "errorURLs heap err = fst (walk heap maxErrorChainVisits [err])"

section \<open>The message\<close>

record 'u redact_env =
  env_unicode :: unicode
  env_html :: "string \<Rightarrow> string"
  env_url :: "'u url_lib"
  env_render :: renderers
  env_fold :: "string \<Rightarrow> string \<Rightarrow> bool"
  env_sort :: "string list \<Rightarrow> string list"

definition maskedPassword :: string where "maskedPassword = ''***''"

definition namedEndpoint :: "'u redact_env \<Rightarrow> 'u url \<Rightarrow> string list \<Rightarrow> bool" where
  "namedEndpoint env u endpoints \<longleftrightarrow>
     list_ex (\<lambda>endpoint. case url_parse (env_url env) endpoint of None \<Rightarrow> False
       | Some known \<Rightarrow> (case User known of None \<Rightarrow> False
           | Some (name, _) \<Rightarrow> env_fold env (Scheme known) (Scheme u) \<and> env_fold env (Host known) (Host u) \<and>
               (case User u of Some (other, _) \<Rightarrow> name = other | None \<Rightarrow> name = []))) endpoints"

definition basicNamed :: "string \<Rightarrow> string list \<Rightarrow> bool" where
  "basicNamed username secrets \<longleftrightarrow>
     list_ex (\<lambda>secret. case b64_decode (trim_space (trim_prefix secret ''Basic '')) of None \<Rightarrow> False
       | Some decoded \<Rightarrow> (let (named, _, ok) = cut decoded '':'' in ok \<and> named = username)) secrets"

definition basicFromUserinfo :: "'u redact_env \<Rightarrow> 'u url \<Rightarrow> string list \<Rightarrow> string list \<Rightarrow> string list \<times> bool" where
  "basicFromUserinfo env u endpoints secrets =
     (let (username, password) = (case User u of Some up \<Rightarrow> up | None \<Rightarrow> ([], None)) in
      if password = Some maskedPassword then ([], namedEndpoint env u endpoints \<and> basicNamed username secrets)
      else let basic = BasicAuthValue username (case password of Some p \<Rightarrow> p | None \<Rightarrow> [])
           in (HeaderValueForms (env_render env) basic @ HeaderValueForms (env_render env) (trim_prefix basic ''Basic ''), True))"

text \<open>The loop over the URLs of the chain: \<^const>\<open>None\<close> stands for the early return of the whole-text placeholder.\<close>

fun replace_urls :: "'u redact_env \<Rightarrow> string list \<Rightarrow> string list \<Rightarrow> string list \<Rightarrow> string \<Rightarrow> string list \<Rightarrow> (string \<times> string list) option" where
  "replace_urls env endpoints secrets [] t derived = Some (t, derived)"
| "replace_urls env endpoints secrets (raw # urls) t derived =
     (case url_parse (env_url env) raw of None \<Rightarrow> None
      | Some parsed \<Rightarrow>
          let (forms, accounted) = (if User parsed \<noteq> None then basicFromUserinfo env parsed endpoints secrets else ([], True)) in
          if \<not> accounted then None
          else let redacted = URLAttribute (env_unicode env) (env_url env) (Some parsed);
                   t1 = replace_all t raw redacted;
                   escaped = GoEscaped (env_render env) raw;
                   t2 = (if escaped \<noteq> raw then replace_all t1 escaped redacted else t1)
               in replace_urls env endpoints secrets urls t2 (derived @ forms))"

definition errorText :: "'u redact_env \<Rightarrow> error_heap \<Rightarrow> string \<Rightarrow> nat \<Rightarrow> string list \<Rightarrow> string list \<Rightarrow> string \<times> string list" where
  "errorText env heap t err endpoints secrets =
     (case replace_urls env endpoints secrets (env_sort env (errorURLs heap (Some err))) t [] of
        None \<Rightarrow> (redactedWhole, [])
      | Some (t', derived) \<Rightarrow> (InText (env_unicode env) (env_html env) (env_url env) t' endpoints, derived))"

text \<open>The error that is returned: none, the one that was given, or a \<^verbatim>\<open>redactedError\<close> wrapping it.\<close>

datatype redaction = NoError | Same nat | RedactedError string nat

definition Error :: "'u redact_env \<Rightarrow> error_heap \<Rightarrow> nat option \<Rightarrow> string list \<Rightarrow> string list \<Rightarrow> redaction" where
  "Error env heap err endpoints secrets =
     (case err of None \<Rightarrow> NoError
      | Some e \<Rightarrow>
          let (original, rendered) = renderError (heap e);
              (t, derived) = errorText env heap original e endpoints secrets;
              msg0 = Secrets (env_unicode env) (env_html env) t (secrets @ derived);
              msg = (if holdsUnaccountedCredential (env_html env) msg0 then redactedMessage else msg0)
          in if rendered \<and> msg = original then Same e else RedactedError msg e)"

text \<open>What a reader of the result sees.\<close>

fun shown :: "error_heap \<Rightarrow> redaction \<Rightarrow> string" where
  "shown heap NoError = []"
| "shown heap (Same e) = ErrorText (heap e)"
| "shown heap (RedactedError msg e) = msg"

section \<open>The walk is bounded and complete\<close>

lemma walk_bound: "length (fst (walk heap budget stack)) + snd (walk heap budget stack) \<le> budget"
proof (induction heap budget stack rule: walk.induct)
  case (3 heap budget e stack)
  then show ?case by (auto simp: split_beta)
qed simp_all

inductive reaches :: "error_heap \<Rightarrow> nat \<Rightarrow> nat \<Rightarrow> bool" for heap where
  self: "\<not> nil_pointer (heap e) \<Longrightarrow> reaches heap e e"
| step: "\<not> nil_pointer (heap e) \<Longrightarrow> Some c \<in> set (unwrapped (heap e)) \<Longrightarrow> reaches heap c d \<Longrightarrow> reaches heap e d"

inductive_cases reaches_cases: "reaches heap e d"

lemma walk_complete:
  "0 < snd (walk heap budget stack) \<Longrightarrow> Some e \<in> set stack \<Longrightarrow> reaches heap e d \<Longrightarrow> url_of (heap d) \<noteq> [] \<Longrightarrow>
   url_of (heap d) \<in> set (fst (walk heap budget stack))"
proof (induction heap budget stack arbitrary: e rule: walk.induct)
  case (3 heap budget f stack)
  have b: "budget \<noteq> 0" using "3.prems"(1) by (cases "budget = 0") simp_all
  show ?case
  proof (cases "nil_pointer (heap f)")
    case True
    then have "e \<noteq> f" using "3.prems"(3) by (auto elim: reaches_cases)
    then show ?thesis using "3.IH"(1)[OF b True, of e] "3.prems" b True by simp
  next
    case False
    let ?rest = "walk heap (budget - 1) (unwrapped (heap f) @ stack)"
    have w: "fst (walk heap budget (Some f # stack)) = (if url_of (heap f) = [] then fst ?rest else url_of (heap f) # fst ?rest)"
      "snd (walk heap budget (Some f # stack)) = snd ?rest"
      using b False by (simp_all add: split_beta)
    have found: "url_of (heap d) \<in> set (fst ?rest)" if "Some c \<in> set (unwrapped (heap f) @ stack)" "reaches heap c d" for c
      using "3.IH"(2)[OF b False _ that "3.prems"(4)] "3.prems"(1) w(2) by simp
    consider "d = f" | c where "Some c \<in> set (unwrapped (heap f) @ stack)" "reaches heap c d"
      using "3.prems"(2,3) by (auto elim: reaches_cases)
    then show ?thesis using found w(1) "3.prems"(4) by cases auto
  qed
qed simp_all

text \<open>C38. The walk over an error chain always ends, on a circular chain too, and yields at most 1024 URLs; when
  it ends before its budget does, it has found the URL of every error reachable by unwrapping.\<close>

theorem error_walk_bounded_and_complete:
  assumes "0 < snd (walk heap maxErrorChainVisits [Some e])" "reaches heap e d" "url_of (heap d) \<noteq> []"
  shows "url_of (heap d) \<in> set (errorURLs heap (Some e)) \<and> length (errorURLs heap (Some e)) < maxErrorChainVisits \<and>
    length (errorURLs circular err) \<le> maxErrorChainVisits"
proof (intro conjI)
  show "url_of (heap d) \<in> set (errorURLs heap (Some e))"
    unfolding errorURLs_def by (rule walk_complete[OF assms(1) _ assms(2,3)]) simp
  show "length (errorURLs heap (Some e)) < maxErrorChainVisits"
    unfolding errorURLs_def using assms(1) walk_bound[of heap maxErrorChainVisits "[Some e]"] by linarith
  show "length (errorURLs circular err) \<le> maxErrorChainVisits"
    unfolding errorURLs_def using walk_bound[of circular maxErrorChainVisits "[err]"] by linarith
qed

definition demo_heap :: error_heap where
  "demo_heap n = \<lparr>nil_pointer = False, go_type = ''*url.Error'', rendering = Some ''boom'', url_of = (if n = 1 then ''http://h'' else []),
     unwrap = (if n = 0 then UnwrapMany [None, Some 1] else NoUnwrap)\<rparr>"

theorem error_walk_bounded_and_complete_witness: "''http://h'' \<in> set (errorURLs demo_heap (Some 0))"
proof -
  have "0 < snd (walk demo_heap maxErrorChainVisits [Some 0])"
    by (simp add: demo_heap_def unwrapped_def maxErrorChainVisits_def)
  moreover have "reaches demo_heap 0 1"
    by (rule reaches.step[of _ _ 1]) (auto simp: demo_heap_def unwrapped_def intro: reaches.self)
  moreover have "url_of (demo_heap 1) = ''http://h''" by (simp add: demo_heap_def)
  ultimately show ?thesis using error_walk_bounded_and_complete[of demo_heap 0 1] by simp
qed

section \<open>The error that is shown\<close>

lemma message_accounted:
  assumes "html_law H"
  shows "\<not> holdsUnaccountedCredential H redactedMessage"
proof -
  have "decodeOnce H redactedMessage = redactedMessage"
    using decode_plain_iter[OF assms, of redactedMessage 1] by (simp add: redactedMessage_def)
  then have "decodedViews H redactedMessage = ([], True)"
    by (simp add: decodedViews_def maxDecodePasses_def eval_nat_numeral)
  moreover have "basic_matches None redactedMessage = []" "\<not> digest_matches None redactedMessage" by code_simp+
  ultimately show ?thesis by (simp add: holdsUnaccountedCredential_def)
qed

lemma shown_Error:
  assumes "err = Some e" "renderError (heap e) = (original, ok)" "errorText env heap original e endpoints secrets = (t, derived)"
  defines "msg0 \<equiv> Secrets (env_unicode env) (env_html env) t (secrets @ derived)"
  shows "shown heap (Error env heap err endpoints secrets) = (if holdsUnaccountedCredential (env_html env) msg0 then redactedMessage else msg0)"
  using assms(1-3) by (auto simp: Error_def ErrorText_def Let_def msg0_def)

lemma shown_error_clear:
  assumes "html_law (env_html env)" "s \<in> set secrets" "shortSecretLen \<le> length s" "clear_of_placeholder s"
  shows "\<not> contains ((decodeOnce (env_html env) ^^ k) (shown heap (Error env heap (Some e) endpoints secrets))) s \<and>
    \<not> holdsUnaccountedCredential (env_html env) (shown heap (Error env heap (Some e) endpoints secrets))"
proof -
  obtain original ok where r: "renderError (heap e) = (original, ok)" by fastforce
  obtain t derived where t: "errorText env heap original e endpoints secrets = (t, derived)" by fastforce
  note sh = shown_Error[OF refl r t]
  have "s \<in> set (secrets @ derived)" using assms(2) by simp
  from secrets_gone[OF assms(1) this assms(3,4)] clear_message[OF assms(4,1)] message_accounted[OF assms(1)]
  show ?thesis unfolding sh by (simp add: contains_iff_sublist)
qed


definition demo_env :: "unit redact_env" where
  "demo_env = \<lparr>env_unicode = ascii_tables, env_html = (\<lambda>t. t),
     env_url = \<lparr>url_parse = (\<lambda>_. None), url_string = (\<lambda>_. [])\<rparr>, env_render = \<lparr>strconv_Quote = (\<lambda>t. t), json_Marshal = (\<lambda>_. None)\<rparr>,
     env_fold = (=), env_sort = (\<lambda>us. us)\<rparr>"


end
