(* ===== verification/Nats.thy ===== *)
theory Nats
  imports RedactError Telemetry Progress
begin

text \<open>
  The NATS integration (\<^verbatim>\<open>nats/options.go\<close>, \<^verbatim>\<open>middleware.go\<close>, \<^verbatim>\<open>conn.go\<close>, \<^verbatim>\<open>jetstream.go\<close>): connecting, subscribing and requesting, the
  header carrier, the restoration of baggage, the JetStream wrappers, and the goroutine that forwards a fetched batch.

  \<^verbatim>\<open>nats.go\<close> and \<^verbatim>\<open>otel-nats\<close> are parameters: a function of the model takes the outcome of the calls it makes.  A context is
  what the package reads and changes of it.
\<close>

section \<open>Contexts, headers and baggage\<close>

type_synonym nats_header = "(string \<times> string list) list"
type_synonym nats_baggage = "(string \<times> string) list"

record nats_ctx =
  nx_span :: nat
  nx_baggage :: nats_baggage
  nx_err :: "string option"
  nx_deadline :: "nanos option"

text \<open>\<^verbatim>\<open>nats.Header\<close> is case-sensitive; a map lookup of an absent key is the zero value.\<close>

definition header_Values :: "nats_header \<Rightarrow> string \<Rightarrow> string list" where
  "header_Values h key = (case map_of h key of Some vs \<Rightarrow> vs | None \<Rightarrow> [])"

definition header_Get :: "nats_header \<Rightarrow> string \<Rightarrow> string" where
  "header_Get h key = (case header_Values h key of v # _ \<Rightarrow> v | [] \<Rightarrow> [])"

definition carrier_Get :: "nats_header \<Rightarrow> string \<Rightarrow> string" where
  "carrier_Get h key = (let v = header_Get h key in if v \<noteq> [] then v else header_Get h (HeaderWireName key))"

definition carrier_Values :: "nats_header \<Rightarrow> string \<Rightarrow> string list" where
  "carrier_Values h key = (let v = header_Values h key in if length v > 0 then v else header_Values h (HeaderWireName key))"

definition carrier_Set :: "string \<Rightarrow> string \<Rightarrow> nats_header \<Rightarrow> nats_header" where
  "carrier_Set key value h = AList.update key [value] h"

definition carrier_Keys :: "nats_header \<Rightarrow> string list" where
  "carrier_Keys h = map fst h"

text \<open>A propagator: the pairs it sets for a context, and the context it derives from what a carrier returns.\<close>

record propagator =
  p_inject :: "nats_ctx \<Rightarrow> (string \<times> string) list"
  p_extract :: "nats_ctx \<Rightarrow> (string \<Rightarrow> string) \<Rightarrow> (string \<Rightarrow> string list) \<Rightarrow> nats_ctx"

definition Inject :: "nats_ctx \<Rightarrow> propagator \<Rightarrow> nats_header option \<Rightarrow> nats_header option" where
  "Inject ctx prop header =
     (let h = (case header of None \<Rightarrow> [] | Some h \<Rightarrow> h) in Some (foldl (\<lambda>h (k, v). carrier_Set k v h) h (p_inject prop ctx)))"

definition Extract :: "nats_ctx \<Rightarrow> propagator \<Rightarrow> nats_header option \<Rightarrow> nats_ctx" where
  "Extract ctx prop header = (case header of None \<Rightarrow> ctx | Some h \<Rightarrow> p_extract prop ctx (carrier_Get h) (carrier_Values h))"

text \<open>The policy of a connection: the baggage the propagator extracts from headers, and the tracing switch, if any.\<close>

record propagationPolicy =
  pol_propagator :: "(nats_header \<Rightarrow> nats_baggage) option"
  pol_tracingEnabled :: "bool option"

definition restoreBaggage :: "propagationPolicy \<Rightarrow> nats_ctx \<Rightarrow> nats_header \<Rightarrow> nats_ctx" where
  "restoreBaggage p ctx headers =
     (case pol_propagator p of None \<Rightarrow> ctx
      | Some extract \<Rightarrow>
        if length headers = 0 then ctx
        else if pol_tracingEnabled p = None \<or> pol_tracingEnabled p = Some False then ctx
        else let bag = extract headers in if length bag = 0 then ctx else ctx\<lparr>nx_baggage := bag\<rparr>)"

section \<open>Connecting\<close>

record 'o connectConfig =
  tracingDefault :: bool
  natsOpts :: "'o list"

definition nats_WithTracingEnabled :: "bool \<Rightarrow> 'o connectConfig \<Rightarrow> 'o connectConfig" where
  "nats_WithTracingEnabled enabled cfg = cfg\<lparr>tracingDefault := enabled\<rparr>"

definition WithNATSOptions :: "'o list \<Rightarrow> 'o connectConfig \<Rightarrow> 'o connectConfig" where
  "WithNATSOptions opts cfg = cfg\<lparr>natsOpts := natsOpts cfg @ opts\<rparr>"

definition newConnectConfig :: "('o connectConfig \<Rightarrow> 'o connectConfig) option list \<Rightarrow> 'o connectConfig" where
  "newConnectConfig opts =
     foldl (\<lambda>cfg opt. case opt of Some f \<Rightarrow> f cfg | None \<Rightarrow> cfg) \<lparr>tracingDefault = True, natsOpts = []\<rparr> opts"

definition redactServerURL :: "'u redact_env \<Rightarrow> string \<Rightarrow> string" where
  "redactServerURL env entry =
     (if contains entry ''://'' then URL (env_unicode env) (env_url env) entry
      else trim_prefix (URL (env_unicode env) (env_url env) (''nats://'' @ entry)) ''nats://'')"

definition redactedURLs :: "'u redact_env \<Rightarrow> string \<Rightarrow> string" where
  "redactedURLs env urls = join '','' (map (\<lambda>part. redactServerURL env (trim_space part)) (split_byte CHR '','' urls))"

text \<open>The dial is given the options and the default of the tracing switch; it fails with an error of the heap or
  yields whether tracing is enabled.\<close>

definition nats_connect ::
  "'u redact_env \<Rightarrow> error_heap \<Rightarrow> (string \<Rightarrow> bool \<Rightarrow> 'o list \<Rightarrow> nat + bool) \<Rightarrow> nats_ctx \<Rightarrow> string \<Rightarrow> bool \<Rightarrow>
     (nats_header \<Rightarrow> nats_baggage) option \<Rightarrow> bool \<Rightarrow> 'o list \<Rightarrow> string + propagationPolicy" where
  "nats_connect env heap dial ctx url tpNil prop tracing opts =
     (case nx_err ctx of Some err \<Rightarrow> Inl (''nats connect: context already canceled: '' @ err)
      | None \<Rightarrow>
        if tpNil then Inl (''nats connect '' @ redactedURLs env url @ '': tracer provider must not be nil (pass obs.TracerProvider())'')
        else if prop = None then Inl (''nats connect '' @ redactedURLs env url @ '': propagator must not be nil (pass obs.Propagator)'')
        else case dial url tracing opts of
            Inl e \<Rightarrow> Inl (''nats connect '' @ redactedURLs env url @ '': '' @ shown heap (Error env heap (Some e) [] []))
          | Inr enabled \<Rightarrow> Inr \<lparr>pol_propagator = prop, pol_tracingEnabled = Some enabled\<rparr>)"

definition Connect ::
  "'u redact_env \<Rightarrow> error_heap \<Rightarrow> (string \<Rightarrow> bool \<Rightarrow> 'o list \<Rightarrow> nat + bool) \<Rightarrow> nats_ctx \<Rightarrow> string \<Rightarrow> bool \<Rightarrow>
     (nats_header \<Rightarrow> nats_baggage) option \<Rightarrow> 'o list \<Rightarrow> string + propagationPolicy" where
  "Connect env heap dial ctx url tpNil prop opts = nats_connect env heap dial ctx url tpNil prop True opts"

definition ConnectWithOptions ::
  "'u redact_env \<Rightarrow> error_heap \<Rightarrow> (string \<Rightarrow> bool \<Rightarrow> 'o list \<Rightarrow> nat + bool) \<Rightarrow> nats_ctx \<Rightarrow> string \<Rightarrow> bool \<Rightarrow>
     (nats_header \<Rightarrow> nats_baggage) option \<Rightarrow> ('o connectConfig \<Rightarrow> 'o connectConfig) option list \<Rightarrow> string + propagationPolicy" where
  "ConnectWithOptions env heap dial ctx url tpNil prop opts =
     (let cfg = newConnectConfig opts in nats_connect env heap dial ctx url tpNil prop (tracingDefault cfg) (natsOpts cfg))"

section \<open>Subscribing and requesting\<close>

text \<open>\<open>quoted\<close> is the verb \<^verbatim>\<open>%q\<close>, and \<open>register\<close> the \<^verbatim>\<open>Subscribe\<close> or \<^verbatim>\<open>QueueSubscribe\<close> of the wrapped connection: it is given the callback, which
  \<open>deliver\<close> makes of the handler.\<close>

definition deliver :: "propagationPolicy \<Rightarrow> (nats_ctx \<Rightarrow> 'm \<Rightarrow> 'r) \<Rightarrow> nats_ctx \<Rightarrow> nats_header \<Rightarrow> 'm \<Rightarrow> 'r" where
  "deliver p handler ctx headers msg = handler (restoreBaggage p ctx headers) msg"

definition Subscribe ::
  "(string \<Rightarrow> string) \<Rightarrow> (string \<Rightarrow> (nats_ctx \<Rightarrow> nats_header \<Rightarrow> 'm \<Rightarrow> 'r) \<Rightarrow> string + 's) \<Rightarrow> propagationPolicy \<Rightarrow> nats_ctx \<Rightarrow> string \<Rightarrow>
     (nats_ctx \<Rightarrow> 'm \<Rightarrow> 'r) option \<Rightarrow> string + 's" where
  "Subscribe quoted register p ctx subject handler =
     (case nx_err ctx of Some err \<Rightarrow> Inl (''nats subscribe '' @ quoted subject @ '': '' @ err)
      | None \<Rightarrow>
        if subject = [] then Inl ''nats subscribe: subject must not be empty''
        else case handler of None \<Rightarrow> Inl (''nats subscribe '' @ quoted subject @ '': handler must not be nil'')
          | Some f \<Rightarrow> register subject (deliver p f))"

definition QueueSubscribe ::
  "(string \<Rightarrow> string) \<Rightarrow> (string \<Rightarrow> string \<Rightarrow> (nats_ctx \<Rightarrow> nats_header \<Rightarrow> 'm \<Rightarrow> 'r) \<Rightarrow> string + 's) \<Rightarrow> propagationPolicy \<Rightarrow> nats_ctx \<Rightarrow> string \<Rightarrow> string \<Rightarrow>
     (nats_ctx \<Rightarrow> 'm \<Rightarrow> 'r) option \<Rightarrow> string + 's" where
  "QueueSubscribe quoted register p ctx subject queue handler =
     (case nx_err ctx of Some err \<Rightarrow> Inl (''nats queue-subscribe '' @ quoted subject @ ''/'' @ quoted queue @ '': '' @ err)
      | None \<Rightarrow>
        if subject = [] then Inl ''nats queue-subscribe: subject must not be empty''
        else if queue = [] then Inl (''nats queue-subscribe '' @ quoted subject @ '': queue must not be empty'')
        else case handler of
            None \<Rightarrow> Inl (''nats queue-subscribe '' @ quoted subject @ ''/'' @ quoted queue @ '': handler must not be nil'')
          | Some f \<Rightarrow> register subject queue (deliver p f))"

record nats_msg =
  Reply :: string
  MsgHeader :: nats_header

definition Respond :: "(string \<Rightarrow> string) \<Rightarrow> (nats_ctx \<Rightarrow> string \<Rightarrow> 'd \<Rightarrow> string option) \<Rightarrow> nats_ctx \<Rightarrow> nats_msg option \<Rightarrow> 'd \<Rightarrow> string option" where
  "Respond quoted publish ctx msg payload = (case msg of None \<Rightarrow> Some ''nats respond: msg must not be nil''
     | Some m \<Rightarrow>
       if Reply m = [] then Some ''nats respond: msg has no reply subject''
       else map_option (\<lambda>err. ''nats respond to '' @ quoted (Reply m) @ '': '' @ err) (publish ctx (Reply m) payload))"

record request_error = go_error +
  is_nats_timeout :: bool

text \<open>The errors of \<^verbatim>\<open>nats.go\<close> the package names, and \<^verbatim>\<open>fmt.Errorf("%w: %w", natsgo.ErrTimeout, err)\<close>: both errors are in the chain.\<close>

record nats_lib =
  ErrInvalidContext :: request_error
  ErrTimeout :: request_error

definition as_timeout :: "nats_lib \<Rightarrow> request_error \<Rightarrow> request_error" where
  "as_timeout N e = e\<lparr>err_text := err_text (ErrTimeout N) @ '': '' @ err_text e, err_type := ''*fmt.wrapErrors'', is_nats_timeout := True\<rparr>"

definition plain_error :: "string \<Rightarrow> request_error" where
  "plain_error t = \<lparr>err_text = t, err_type = ''*errors.errorString'', is_deadline = False, is_canceled = False, is_nats_timeout = False\<rparr>"

text \<open>\<^verbatim>\<open>context.WithDeadline\<close>: the derived context keeps the earlier deadline and is done at once when its parent is done or the deadline is
  not after the current instant.\<close>

definition with_deadline :: "nats_ctx \<Rightarrow> nanos \<Rightarrow> nanos \<Rightarrow> nats_ctx" where
  "with_deadline ctx deadline now =
     (let d = (case nx_deadline ctx of Some p \<Rightarrow> if p < deadline then p else deadline | None \<Rightarrow> deadline)
      in ctx\<lparr>nx_deadline := Some d,
             nx_err := (if nx_err ctx \<noteq> None then nx_err ctx else if d \<le> now then Some ''context deadline exceeded'' else None)\<rparr>)"

definition withRequestTimeout ::
  "nats_lib \<Rightarrow> nats_ctx option \<Rightarrow> int \<Rightarrow> nanos \<Rightarrow> nanos \<Rightarrow> (nats_ctx \<Rightarrow> 'm option \<times> request_error option) \<Rightarrow> 'm option \<times> request_error option" where
  "withRequestTimeout N ctx timeout now later request = (case ctx of None \<Rightarrow> (None, Some (ErrInvalidContext N))
     | Some c \<Rightarrow>
       let deadline = now + timeout;
           deadline = (case nx_deadline c of Some d \<Rightarrow> if d < deadline then d else deadline | None \<Rightarrow> deadline);
           reqCtx = with_deadline c deadline later;
           noTimeLeft = (nx_err reqCtx \<noteq> None);
           (reply, err) = request reqCtx
       in (reply, case err of Some e \<Rightarrow> if \<not> noTimeLeft \<and> is_deadline e then Some (as_timeout N e) else Some e | None \<Rightarrow> None))"

definition Request ::
  "nats_lib \<Rightarrow> (nats_ctx \<Rightarrow> string \<Rightarrow> 'd \<Rightarrow> 'm option \<times> request_error option) \<Rightarrow> nats_ctx option \<Rightarrow> string \<Rightarrow> 'd \<Rightarrow> int \<Rightarrow> nanos \<Rightarrow> nanos \<Rightarrow>
     'm option \<times> request_error option" where
  "Request N requestWithContext ctx subject payload timeout now later =
     withRequestTimeout N ctx timeout now later (\<lambda>reqCtx. requestWithContext reqCtx subject payload)"

definition RequestMsg ::
  "nats_lib \<Rightarrow> (nats_ctx \<Rightarrow> nats_msg \<Rightarrow> 'm option \<times> request_error option) \<Rightarrow> nats_ctx option \<Rightarrow> nats_msg option \<Rightarrow> int \<Rightarrow> nanos \<Rightarrow> nanos \<Rightarrow>
     'm option \<times> request_error option" where
  "RequestMsg N requestMsgWithContext ctx msg timeout now later = (case msg of
     None \<Rightarrow> (None, Some (plain_error ''nats request-msg: msg must not be nil''))
   | Some m \<Rightarrow> withRequestTimeout N ctx timeout now later (\<lambda>reqCtx. requestMsgWithContext reqCtx m))"

section \<open>What a handler and a caller see\<close>

lemma restoreBaggage_only_baggage: "restoreBaggage p ctx h = ctx\<lparr>nx_baggage := nx_baggage (restoreBaggage p ctx h)\<rparr>"
  by (simp add: restoreBaggage_def Let_def split: option.split)

lemma restoreBaggage_untraced: "pol_tracingEnabled p \<noteq> Some True \<Longrightarrow> restoreBaggage p ctx h = ctx"
  by (cases "pol_tracingEnabled p") (auto simp: restoreBaggage_def split: option.split)

lemma carrier_roundtrip: "v \<noteq> [] \<Longrightarrow> carrier_Get (carrier_Set k v h) k = v" "carrier_Values (carrier_Set k v h) k = [v]"
  by (simp_all add: carrier_Get_def carrier_Values_def carrier_Set_def header_Get_def header_Values_def update_conv)

lemma carrier_Set_other: "header_Values (carrier_Set k v h) k' = (if k' = k then [v] else header_Values h k')"
  by (simp add: carrier_Set_def header_Values_def update_conv)

text \<open>A header under the canonical spelling of a key is found under the key, unless the key itself is set.\<close>

lemma carrier_Get_canonical: "header_Get h k = [] \<Longrightarrow> carrier_Get h k = header_Get h (HeaderWireName k)"
  by (simp add: carrier_Get_def)

definition request_ctx :: "nats_ctx \<Rightarrow> int \<Rightarrow> nanos \<Rightarrow> nanos \<Rightarrow> nats_ctx" where
  "request_ctx c timeout now later = with_deadline c (case nx_deadline c of Some d \<Rightarrow> min d (now + timeout) | None \<Rightarrow> now + timeout) later"

lemma request_ctx_unfold:
  "withRequestTimeout N (Some c) timeout now later request = (case request (request_ctx c timeout now later) of
     (reply, err) \<Rightarrow> (reply, map_option (\<lambda>e. if nx_err (request_ctx c timeout now later) = None \<and> is_deadline e then as_timeout N e else e) err))"
proof -
  have "(case nx_deadline c of Some d \<Rightarrow> if d < now + timeout then d else now + timeout | None \<Rightarrow> now + timeout) =
      (case nx_deadline c of Some d \<Rightarrow> min d (now + timeout) | None \<Rightarrow> now + timeout)"
    by (auto split: option.split)
  then show ?thesis by (auto simp: withRequestTimeout_def Let_def request_ctx_def split: option.split prod.split)
qed

lemma request_ctx_deadline:
  "nx_deadline (request_ctx c timeout now later) = Some (case nx_deadline c of Some d \<Rightarrow> min d (now + timeout) | None \<Rightarrow> now + timeout)"
  by (auto simp: request_ctx_def with_deadline_def Let_def split: option.split)

lemma request_ctx_alive:
  "nx_err (request_ctx c timeout now later) = None \<longleftrightarrow>
     nx_err c = None \<and> later < the (nx_deadline (request_ctx c timeout now later))"
  by (auto simp: request_ctx_def with_deadline_def Let_def split: option.split)


definition deadline_error :: request_error where
  "deadline_error = (plain_error ''context deadline exceeded'')\<lparr>is_deadline := True\<rparr>"


section \<open>JetStream\<close>

text \<open>A handle of JetStream, of a stream or of a consumer is the wrapped handle and the policy of the connection.\<close>

record 'h js_handle =
  js_inner :: 'h
  js_policy :: propagationPolicy

definition with_policy :: "propagationPolicy \<Rightarrow> 'e + 'h \<Rightarrow> 'e + 'h js_handle" where
  "with_policy p r = (case r of Inl err \<Rightarrow> Inl err | Inr h \<Rightarrow> Inr \<lparr>js_inner = h, js_policy = p\<rparr>)"

definition JetStream :: "propagationPolicy \<Rightarrow> string + 'h \<Rightarrow> string + 'h js_handle" where
  "JetStream p r = (case r of Inl err \<Rightarrow> Inl (''nats jetstream: '' @ err) | Inr h \<Rightarrow> Inr \<lparr>js_inner = h, js_policy = p\<rparr>)"

definition js_Publish :: "('h \<Rightarrow> string \<Rightarrow> 'd \<Rightarrow> 'e + 'a) \<Rightarrow> 'h js_handle \<Rightarrow> string \<Rightarrow> 'd \<Rightarrow> 'e + 'a" where
  "js_Publish publish j subject payload = publish (js_inner j) subject payload"

definition js_PublishMsg :: "('h \<Rightarrow> nats_msg \<Rightarrow> 'e + 'a) \<Rightarrow> 'h js_handle \<Rightarrow> nats_msg \<Rightarrow> 'e + 'a" where
  "js_PublishMsg publish j msg = publish (js_inner j) msg"

definition js_DeleteStream :: "('h \<Rightarrow> string \<Rightarrow> 'e option) \<Rightarrow> 'h js_handle \<Rightarrow> string \<Rightarrow> 'e option" where
  "js_DeleteStream delete j name = delete (js_inner j) name"

definition js_DeleteConsumer :: "('h \<Rightarrow> string \<Rightarrow> string \<Rightarrow> 'e option) \<Rightarrow> 'h js_handle \<Rightarrow> string \<Rightarrow> string \<Rightarrow> 'e option" where
  "js_DeleteConsumer delete j streamName name = delete (js_inner j) streamName name"

definition stream_DeleteConsumer :: "('h \<Rightarrow> string \<Rightarrow> 'e option) \<Rightarrow> 'h js_handle \<Rightarrow> string \<Rightarrow> 'e option" where
  "stream_DeleteConsumer delete s name = delete (js_inner s) name"

definition js_CreateOrUpdateStream :: "('h \<Rightarrow> 'c \<Rightarrow> 'e + 's) \<Rightarrow> 'h js_handle \<Rightarrow> 'c \<Rightarrow> 'e + 's js_handle" where
  "js_CreateOrUpdateStream create j cfg = with_policy (js_policy j) (create (js_inner j) cfg)"

definition js_Stream :: "('h \<Rightarrow> string \<Rightarrow> 'e + 's) \<Rightarrow> 'h js_handle \<Rightarrow> string \<Rightarrow> 'e + 's js_handle" where
  "js_Stream look_up j name = with_policy (js_policy j) (look_up (js_inner j) name)"

definition js_CreateOrUpdateConsumer :: "('h \<Rightarrow> string \<Rightarrow> 'c \<Rightarrow> 'e + 's) \<Rightarrow> 'h js_handle \<Rightarrow> string \<Rightarrow> 'c \<Rightarrow> 'e + 's js_handle" where
  "js_CreateOrUpdateConsumer create j streamName cfg = with_policy (js_policy j) (create (js_inner j) streamName cfg)"

definition js_Consumer :: "('h \<Rightarrow> string \<Rightarrow> string \<Rightarrow> 'e + 's) \<Rightarrow> 'h js_handle \<Rightarrow> string \<Rightarrow> string \<Rightarrow> 'e + 's js_handle" where
  "js_Consumer look_up j streamName name = with_policy (js_policy j) (look_up (js_inner j) streamName name)"

definition stream_CreateOrUpdateConsumer :: "('h \<Rightarrow> 'c \<Rightarrow> 'e + 's) \<Rightarrow> 'h js_handle \<Rightarrow> 'c \<Rightarrow> 'e + 's js_handle" where
  "stream_CreateOrUpdateConsumer create s cfg = with_policy (js_policy s) (create (js_inner s) cfg)"

definition stream_Consumer :: "('h \<Rightarrow> string \<Rightarrow> 'e + 's) \<Rightarrow> 'h js_handle \<Rightarrow> string \<Rightarrow> 'e + 's js_handle" where
  "stream_Consumer look_up s name = with_policy (js_policy s) (look_up (js_inner s) name)"

definition Consume ::
  "((nats_ctx \<Rightarrow> nats_header \<Rightarrow> 'm \<Rightarrow> 'r) \<Rightarrow> string + 'c) \<Rightarrow> propagationPolicy \<Rightarrow> nats_ctx \<Rightarrow> (nats_ctx \<Rightarrow> 'm \<Rightarrow> 'r) option \<Rightarrow> string + 'c" where
  "Consume consume p ctx handler =
     (case nx_err ctx of Some err \<Rightarrow> Inl (''nats jetstream consume: '' @ err)
      | None \<Rightarrow> (case handler of None \<Rightarrow> Inl ''nats jetstream consume: handler must not be nil''
          | Some f \<Rightarrow> consume (deliver p f)))"

definition Messages :: "string + 'h \<Rightarrow> propagationPolicy \<Rightarrow> nats_ctx \<Rightarrow> string + 'h js_handle" where
  "Messages r p ctx = (case nx_err ctx of Some err \<Rightarrow> Inl (''nats jetstream messages: '' @ err) | None \<Rightarrow> with_policy p r)"

text \<open>The next message with its context, or the context of the call and the error.\<close>

definition consumer_Next ::
  "string + nats_ctx \<times> nats_header \<times> 'm \<Rightarrow> propagationPolicy \<Rightarrow> nats_ctx \<Rightarrow> nats_ctx \<times> 'm option \<times> string option" where
  "consumer_Next r p ctx =
     (case nx_err ctx of Some err \<Rightarrow> (ctx, None, Some (''nats jetstream next: '' @ err))
      | None \<Rightarrow> (case r of Inl err \<Rightarrow> (ctx, None, Some err)
          | Inr (msgCtx, headers, msg) \<Rightarrow> (restoreBaggage p msgCtx headers, Some msg, None)))"

definition messages_Next ::
  "nats_ctx \<times> (nats_header \<times> 'm) option \<times> string option \<Rightarrow> propagationPolicy \<Rightarrow> nats_ctx \<times> 'm option \<times> string option" where
  "messages_Next r p = (case r of
     (ctx, m, Some err) \<Rightarrow> (ctx, map_option snd m, Some err)
   | (ctx, Some (headers, msg), None) \<Rightarrow> (restoreBaggage p ctx headers, Some msg, None)
   | (ctx, None, None) \<Rightarrow> (ctx, None, None))"

section \<open>Fetching\<close>

datatype 'o fetch_opt = FetchContext nats_ctx | CallerOpt 'o

record fetch_error = go_error +
  is_invalid_option :: bool

definition isFetchMaxWaitCollision :: "fetch_error option \<Rightarrow> bool" where
  "isFetchMaxWaitCollision err = (case err of None \<Rightarrow> False
     | Some e \<Rightarrow> is_invalid_option e \<and> contains (err_text e) ''cannot specify both FetchContext and FetchMaxWait'')"

definition fetchOptsWithCtx :: "nats_ctx \<Rightarrow> 'o fetch_opt list \<Rightarrow> 'o fetch_opt list" where
  "fetchOptsWithCtx ctx opts = FetchContext ctx # opts"

definition failure_of :: "'e + 'b \<Rightarrow> 'e option" where
  "failure_of r = (case r of Inl e \<Rightarrow> Some e | Inr _ \<Rightarrow> None)"

definition fetchWithCtxFallback :: "nats_ctx \<Rightarrow> 'o fetch_opt list \<Rightarrow> ('o fetch_opt list \<Rightarrow> fetch_error + 'b) \<Rightarrow> fetch_error + 'b" where
  "fetchWithCtxFallback ctx opts call =
     (let r = call (fetchOptsWithCtx ctx opts) in if isFetchMaxWaitCollision (failure_of r) then call opts else r)"

definition fetchBytesBatchBuf :: nat where "fetchBytesBatchBuf = 256"

text \<open>What a fetch returns: an error and whether the fetch context was cancelled, or the batch and the size of the buffer it is forwarded through.\<close>

definition Fetch ::
  "nats_ctx \<Rightarrow> nat \<Rightarrow> 'o fetch_opt list \<Rightarrow> (nat \<Rightarrow> 'o fetch_opt list \<Rightarrow> fetch_error + 'b) \<Rightarrow> (string \<times> bool) + 'b \<times> nat" where
  "Fetch ctx n opts fetch =
     (case nx_err ctx of Some err \<Rightarrow> Inl (''nats jetstream fetch: '' @ err, False)
      | None \<Rightarrow> (case fetchWithCtxFallback ctx opts (fetch n) of
          Inl e \<Rightarrow> Inl (err_text e, True) | Inr mb \<Rightarrow> Inr (mb, n)))"

definition FetchBytes ::
  "nats_ctx \<Rightarrow> nat \<Rightarrow> 'o fetch_opt list \<Rightarrow> (nat \<Rightarrow> 'o fetch_opt list \<Rightarrow> fetch_error + 'b) \<Rightarrow> (string \<times> bool) + 'b \<times> nat" where
  "FetchBytes ctx maxBytes opts fetch =
     (case nx_err ctx of Some err \<Rightarrow> Inl (''nats jetstream fetch-bytes: '' @ err, False)
      | None \<Rightarrow> (case fetchWithCtxFallback ctx opts (fetch maxBytes) of
          Inl e \<Rightarrow> Inl (err_text e, True) | Inr mb \<Rightarrow> Inr (mb, fetchBytesBatchBuf)))"

definition FetchNoWait :: "nats_ctx \<Rightarrow> nat \<Rightarrow> (nat \<Rightarrow> string + 'b) \<Rightarrow> string + 'b \<times> nat" where
  "FetchNoWait ctx n fetch =
     (case nx_err ctx of Some err \<Rightarrow> Inl (''nats jetstream fetch-no-wait: '' @ err)
      | None \<Rightarrow> (case fetch n of Inl e \<Rightarrow> Inl e | Inr mb \<Rightarrow> Inr (mb, n)))"

section \<open>The forwarding goroutine of a batch\<close>

text \<open>A fetched message is its context, its headers and itself.  The goroutine waits for a message, or offers one to the
  channel; leaving its loop it runs its deferred calls, first the cancellation of the fetch context and then the closing of
  the channel.  \<open>up_sent\<close> and \<open>delivered\<close> record what went into the upstream channel and what the reader has received.\<close>

type_synonym 'm fetched = "nats_ctx \<times> nats_header \<times> 'm"

datatype 'm forwarder = Receiving | Offering "nats_ctx \<times> 'm" | Cancelling | Closing | Returned

record 'm batch_state =
  up_sent :: "'m fetched list"
  up_queue :: "'m fetched list"
  up_closed :: bool
  fw :: "'m forwarder"
  out_buffer :: "(nats_ctx \<times> 'm) list"
  out_size :: nat
  out_closed :: bool
  delivered :: "(nats_ctx \<times> 'm) list"
  done_closed :: bool
  cancel_called :: bool
  upstream_stops :: nat

definition restored :: "propagationPolicy \<Rightarrow> 'm fetched \<Rightarrow> nats_ctx \<times> 'm" where
  "restored p m = (case m of (ctx, headers, msg) \<Rightarrow> (restoreBaggage p ctx headers, msg))"

definition wrapMessageBatch :: "nat \<Rightarrow> 'm batch_state" where
  "wrapMessageBatch bufSize = \<lparr>up_sent = [], up_queue = [], up_closed = False, fw = Receiving, out_buffer = [], out_size = bufSize,
     out_closed = False, delivered = [], done_closed = False, cancel_called = False, upstream_stops = 0\<rparr>"

text \<open>\<^verbatim>\<open>Stop\<close> runs its body once.\<close>

definition batch_Stop :: "'m batch_state \<Rightarrow> 'm batch_state" where
  "batch_Stop s = (if done_closed s then s
     else s\<lparr>done_closed := True, cancel_called := True, upstream_stops := upstream_stops s + 1\<rparr>)"

definition batch_Error :: "'m batch_state \<Rightarrow> go_error option \<Rightarrow> go_error option" where
  "batch_Error s err = (case err of Some e \<Rightarrow> if is_canceled e \<and> done_closed s then None else Some e | None \<Rightarrow> None)"

text \<open>The steps of the goroutine alone, and those of its surroundings: upstream sends and closes, the reader takes from the buffer, or
  directly from the goroutine when it is waiting on an empty channel, and someone stops the batch.\<close>

inductive forward_step :: "propagationPolicy \<Rightarrow> 'm batch_state \<Rightarrow> 'm batch_state \<Rightarrow> bool" for p where
  receive: "fw s = Receiving \<Longrightarrow> up_queue s = m # rest \<Longrightarrow> forward_step p s (s\<lparr>fw := Offering (restored p m), up_queue := rest\<rparr>)"
| drained: "fw s = Receiving \<Longrightarrow> up_queue s = [] \<Longrightarrow> up_closed s \<Longrightarrow> forward_step p s (s\<lparr>fw := Cancelling\<rparr>)"
| buffer: "fw s = Offering f \<Longrightarrow> length (out_buffer s) < out_size s \<Longrightarrow>
    forward_step p s (s\<lparr>fw := Receiving, out_buffer := out_buffer s @ [f]\<rparr>)"
| idle_stopped: "fw s = Receiving \<Longrightarrow> done_closed s \<Longrightarrow> forward_step p s (s\<lparr>fw := Cancelling\<rparr>)"
| send_stopped: "fw s = Offering f \<Longrightarrow> done_closed s \<Longrightarrow> forward_step p s (s\<lparr>fw := Cancelling\<rparr>)"
| defer_cancel: "fw s = Cancelling \<Longrightarrow> forward_step p s (s\<lparr>fw := Closing, cancel_called := True\<rparr>)"
| defer_close: "fw s = Closing \<Longrightarrow> forward_step p s (s\<lparr>fw := Returned, out_closed := True\<rparr>)"

inductive batch_step :: "propagationPolicy \<Rightarrow> 'm batch_state \<Rightarrow> 'm batch_state \<Rightarrow> bool" for p where
  forward: "forward_step p s s' \<Longrightarrow> batch_step p s s'"
| upstream_send: "\<not> up_closed s \<Longrightarrow> batch_step p s (s\<lparr>up_sent := up_sent s @ [m], up_queue := up_queue s @ [m]\<rparr>)"
| upstream_close: "\<not> up_closed s \<Longrightarrow> batch_step p s (s\<lparr>up_closed := True\<rparr>)"
| read: "out_buffer s = f # rest \<Longrightarrow> batch_step p s (s\<lparr>out_buffer := rest, delivered := delivered s @ [f]\<rparr>)"
| handover: "fw s = Offering f \<Longrightarrow> out_buffer s = [] \<Longrightarrow> batch_step p s (s\<lparr>fw := Receiving, delivered := delivered s @ [f]\<rparr>)"
| stop: "batch_step p s (batch_Stop s)"

inductive_cases forward_stepE: "forward_step p s s'"

section \<open>Messages arrive once, in order and with their baggage\<close>

fun in_flight :: "'m forwarder \<Rightarrow> (nats_ctx \<times> 'm) list" where
  "in_flight (Offering f) = [f]"
| "in_flight _ = []"

fun leaving :: "'m forwarder \<Rightarrow> bool" where
  "leaving Receiving = False"
| "leaving (Offering _) = False"
| "leaving _ = True"

text \<open>Every message sent upstream is, in this order, with the reader, in the buffer, in the hands of the goroutine, dropped by a
  stop, or still upstream.\<close>

definition accounted :: "propagationPolicy \<Rightarrow> 'm batch_state \<Rightarrow> (nats_ctx \<times> 'm) list \<Rightarrow> bool" where
  "accounted p s dropped \<longleftrightarrow>
     delivered s @ out_buffer s @ in_flight (fw s) @ dropped @ map (restored p) (up_queue s) = map (restored p) (up_sent s) \<and>
     (dropped \<noteq> [] \<longrightarrow> done_closed s \<and> leaving (fw s))"

definition batch_control :: "'m batch_state \<Rightarrow> bool" where
  "batch_control s \<longleftrightarrow>
     length (out_buffer s) \<le> out_size s \<and>
     (out_closed s \<longleftrightarrow> fw s = Returned) \<and>
     (fw s = Closing \<or> fw s = Returned \<longrightarrow> cancel_called s) \<and>
     (leaving (fw s) \<longrightarrow> done_closed s \<or> up_closed s \<and> up_queue s = []) \<and>
     upstream_stops s = (if done_closed s then 1 else 0)"

definition batch_inv :: "propagationPolicy \<Rightarrow> 'm batch_state \<Rightarrow> bool" where
  "batch_inv p s \<longleftrightarrow> (\<exists>dropped. accounted p s dropped) \<and> batch_control s"

lemma accounted_forward:
  assumes "forward_step p s s'" "accounted p s dropped"
  shows "\<exists>dropped. accounted p s' dropped"
  using assms
proof (induction rule: forward_step.induct)
  case (send_stopped s f)
  then show ?case by (intro exI[of _ "f # dropped"]) (auto simp: accounted_def)
qed (auto simp: accounted_def intro: exI[of _ dropped])

lemma accounted_step:
  assumes "batch_step p s s'" "accounted p s dropped"
  shows "\<exists>dropped. accounted p s' dropped"
  using assms
proof (induction rule: batch_step.induct)
  case (forward s s')
  then show ?case by (rule accounted_forward)
next
  case (upstream_send s m)
  then show ?case by (intro exI[of _ dropped]) (auto simp: accounted_def simp flip: append_assoc)
qed (auto simp: accounted_def batch_Stop_def intro!: exI[of _ dropped])

lemma control_forward: "forward_step p s s' \<Longrightarrow> batch_control s \<Longrightarrow> batch_control s'"
  by (induction rule: forward_step.induct) (simp_all add: batch_control_def)

lemma control_step: "batch_step p s s' \<Longrightarrow> batch_control s \<Longrightarrow> batch_control s'"
proof (induction rule: batch_step.induct)
  case (forward s s')
  then show ?case by (rule control_forward)
qed (auto simp: batch_control_def batch_Stop_def)

lemma batch_step_inv:
  assumes "batch_step p s s'" "batch_inv p s"
  shows "batch_inv p s'"
proof -
  from assms obtain dropped where "accounted p s dropped" unfolding batch_inv_def by blast
  with assms(1) have "\<exists>dropped. accounted p s' dropped" by (rule accounted_step)
  then show ?thesis using assms control_step unfolding batch_inv_def by blast
qed

lemma batch_step_keeps_size: "batch_step p s s' \<Longrightarrow> out_size s' = out_size s"
  by (auto elim!: batch_step.cases forward_stepE simp: batch_Stop_def)

lemma batch_reachable_inv: "(batch_step p)\<^sup>*\<^sup>* (wrapMessageBatch n) s \<Longrightarrow> batch_inv p s \<and> out_size s = n"
proof (induction rule: rtranclp_induct)
  case base
  show ?case by (auto simp: batch_inv_def batch_control_def accounted_def wrapMessageBatch_def intro!: exI[of _ "[]"])
next
  case (step s s')
  then show ?case using batch_step_inv batch_step_keeps_size by metis
qed


text \<open>A batch of one message whose upstream channel is closed.\<close>

definition demo_policy :: propagationPolicy where
  "demo_policy = \<lparr>pol_propagator = Some (\<lambda>_. [(''tenant'', ''a'')]), pol_tracingEnabled = Some True\<rparr>"

definition demo_message :: "nat fetched" where
  "demo_message = (\<lparr>nx_span = 7, nx_baggage = [], nx_err = None, nx_deadline = None\<rparr>, [(''baggage'', [''tenant=a''])], 1)"

definition demo_batch :: "nat batch_state" where
  "demo_batch = (wrapMessageBatch 1)\<lparr>up_sent := [demo_message], up_queue := [demo_message], up_closed := True\<rparr>"

lemma demo_batch_reachable: "(batch_step demo_policy)\<^sup>*\<^sup>* (wrapMessageBatch 1) demo_batch"
proof -
  have 1: "batch_step demo_policy (wrapMessageBatch 1) ((wrapMessageBatch 1)\<lparr>up_sent := [demo_message], up_queue := [demo_message]\<rparr>)"
    using batch_step.upstream_send[of "wrapMessageBatch 1" demo_policy demo_message] by (simp add: wrapMessageBatch_def)
  have 2: "batch_step demo_policy ((wrapMessageBatch 1)\<lparr>up_sent := [demo_message], up_queue := [demo_message]\<rparr>) demo_batch"
    using batch_step.upstream_close[of "(wrapMessageBatch 1)\<lparr>up_sent := [demo_message], up_queue := [demo_message]\<rparr>" demo_policy]
    by (simp add: wrapMessageBatch_def demo_batch_def)
  show ?thesis using r_into_rtranclp[of "batch_step demo_policy", OF 1] 2 by (rule rtranclp.rtrancl_into_rtrancl)
qed


section \<open>The goroutine does not leak\<close>

fun phase_cost :: "'m forwarder \<Rightarrow> nat" where
  "phase_cost (Offering _) = 4"
| "phase_cost Receiving = 3"
| "phase_cost Cancelling = 2"
| "phase_cost Closing = 1"
| "phase_cost Returned = 0"

definition forward_cost :: "'m batch_state \<Rightarrow> nat" where
  "forward_cost s = 2 * length (up_queue s) + phase_cost (fw s)"

lemma forward_step_cost: "forward_step p s s' \<Longrightarrow> forward_cost s' < forward_cost s"
  by (auto elim!: forward_stepE simp: forward_cost_def)

lemma room_for_all:
  assumes "batch_inv p s" "length (up_sent s) \<le> out_size s" "fw s = Offering f"
  shows "length (out_buffer s) < out_size s"
proof -
  from assms obtain dropped where "accounted p s dropped" unfolding batch_inv_def by blast
  then have "length (delivered s @ out_buffer s @ in_flight (fw s) @ dropped @ map (restored p) (up_queue s)) = length (up_sent s)"
    unfolding accounted_def by (metis length_map)
  with assms show ?thesis by simp
qed

definition must_return :: "'m batch_state \<Rightarrow> bool" where
  "must_return s \<longleftrightarrow> done_closed s \<or> up_closed s \<and> length (up_sent s) \<le> out_size s"

lemma forward_progress:
  assumes "batch_inv p s" "must_return s" "fw s \<noteq> Returned"
  shows "\<exists>s'. forward_step p s s'"
proof (cases "fw s")
  case Receiving
  then show ?thesis using assms
    by (cases "up_queue s") (auto simp: must_return_def intro: forward_step.receive forward_step.drained forward_step.idle_stopped)
next
  case (Offering f)
  then show ?thesis using assms room_for_all[of p s f]
    by (auto simp: must_return_def intro: forward_step.buffer forward_step.send_stopped)
qed (use assms in \<open>auto intro: forward_step.defer_cancel forward_step.defer_close\<close>)

lemma forward_keeps:
  assumes "forward_step p s s'"
  shows "must_return s' = must_return s"
  using assms by (auto elim!: forward_stepE simp: must_return_def)

interpretation forwarder: progressing "forward_step p" forward_cost "\<lambda>s. batch_inv p s \<and> must_return s" "\<lambda>s. fw s = Returned" for p
proof unfold_locales
  fix s s' :: "'m batch_state"
  show "batch_inv p s \<and> must_return s \<Longrightarrow> forward_step p s s' \<Longrightarrow> forward_cost s' < forward_cost s"
    by (rule forward_step_cost)
  show "batch_inv p s \<and> must_return s \<Longrightarrow> forward_step p s s' \<Longrightarrow> batch_inv p s' \<and> must_return s'"
    using batch_step_inv[OF batch_step.forward] forward_keeps by blast
  show "batch_inv p s \<and> must_return s \<Longrightarrow> fw s \<noteq> Returned \<Longrightarrow> \<exists>s'. forward_step p s s'"
    using forward_progress by blast
qed

text \<open>C12. Once a batch is stopped, or its upstream channel is closed and the buffer holds as many messages as were sent (which is how
  the fetches with a message count size it), the goroutine returns by itself, nobody reading: it takes a bounded number of
  steps, and the only state in which it cannot take another one is the one in which it has returned, the fetch context is cancelled and the
  channel closed.\<close>

theorem forwarder_never_leaks:
  assumes "(batch_step p)\<^sup>*\<^sup>* (wrapMessageBatch n) s" "done_closed s \<or> up_closed s \<and> length (up_sent s) \<le> n"
  shows "(\<forall>k s'. (forward_step p ^^ k) s s' \<longrightarrow> k \<le> 2 * length (up_queue s) + 4) \<and>
    (\<forall>s'. (forward_step p)\<^sup>*\<^sup>* s s' \<and> (\<nexists>s''. forward_step p s' s'') \<longrightarrow> fw s' = Returned \<and> cancel_called s' \<and> out_closed s') \<and>
    (\<exists>s'. (forward_step p)\<^sup>*\<^sup>* s s' \<and> fw s' = Returned)"
proof (intro conjI)
  have good: "batch_inv p s \<and> must_return s"
    using batch_reachable_inv[OF assms(1)] assms(2) by (auto simp: must_return_def)
  have "forward_cost s \<le> 2 * length (up_queue s) + 4"
    by (cases "fw s") (simp_all add: forward_cost_def)
  then show "\<forall>k s'. (forward_step p ^^ k) s s' \<longrightarrow> k \<le> 2 * length (up_queue s) + 4"
    using forwarder.run_bounded[OF _ good] by fastforce
  show "\<forall>s'. (forward_step p)\<^sup>*\<^sup>* s s' \<and> (\<nexists>s''. forward_step p s' s'') \<longrightarrow> fw s' = Returned \<and> cancel_called s' \<and> out_closed s'"
    using forwarder.run_good[OF _ good] forwarder.stuck_final[OF _ good] by (auto simp: batch_inv_def batch_control_def)
  show "\<exists>s'. (forward_step p)\<^sup>*\<^sup>* s s' \<and> fw s' = Returned" using forwarder.reaches_final[OF good] by blast
qed

theorem forwarder_never_leaks_witness: "\<exists>s'. (forward_step demo_policy)\<^sup>*\<^sup>* demo_batch s' \<and> fw s' = Returned"
  using forwarder_never_leaks[OF demo_batch_reachable] by (simp add: demo_batch_def)

end
