(* ===== verification/Resty.thy ===== *)
theory Resty
  imports RedactError Telemetry
begin

text \<open>
  The HTTP client integration (\<^verbatim>\<open>resty/options.go\<close>, \<^verbatim>\<open>errors.go\<close>, \<^verbatim>\<open>hook.go\<close>, \<^verbatim>\<open>client.go\<close>): classification of errors, the target
  of a request, the credentials a request may put on the wire, and the five callbacks resty calls around each
  attempt, on a heap of requests and of per-attempt states.

  resty and \<^verbatim>\<open>net/http\<close> are parameters: requests, responses and clients are records of what the hook reads of
  them.  A context is what the hook reads of it: the route value, whether it carries a valid span context, and
  the attempt state stored under \<^verbatim>\<open>stateKey\<close>.
\<close>

section \<open>Errors\<close>

text \<open>The chain \<^verbatim>\<open>hasTypeInChain\<close> visits: an error that wraps none, one or several others.\<close>

datatype err_chain = Plain string | Wraps string "err_chain option" | Joins string "err_chain option list"

record resty_error = go_error +
  re_node :: nat
  re_chain :: err_chain
  re_certificate :: bool
  re_hostname :: bool
  re_authority :: bool
  re_recordHeader :: bool
  re_opErr :: "string option option"
  re_unexpectedEOF :: bool
  re_bodyReadAfterClose :: bool
  re_pkgPath :: string
  re_typeName :: string
  re_response :: "(int \<times> nat option) option"

definition resty_errorType :: "resty_error \<Rightarrow> string" where
  "resty_errorType err =
     (if is_deadline err then ''context.DeadlineExceeded''
      else if is_canceled err then ''context.Canceled''
      else if re_certificate err then ''*tls.CertificateVerificationError''
      else if re_hostname err then ''*x509.HostnameError''
      else if re_authority err then ''*x509.UnknownAuthorityError''
      else if re_opErr err \<noteq> None then ''*net.OpError''
      else err_type err)"

definition isTLSError :: "unicode \<Rightarrow> resty_error \<Rightarrow> bool" where
  "isTLSError U err =
     (if re_certificate err then True
      else if re_hostname err then True
      else if re_authority err then True
      else if re_recordHeader err then True
      else if (case re_opErr err of Some (Some t) \<Rightarrow> contains (to_lower U t) ''tls'' | _ \<Rightarrow> False) then True
      else let lower = to_lower U (err_text err) in contains lower ''tls:'' \<or> contains lower ''certificate'')"

definition isTransportError :: "resty_error \<Rightarrow> bool" where
  "isTransportError err \<longleftrightarrow> re_opErr err \<noteq> None"

fun visit :: "string list \<Rightarrow> err_chain \<Rightarrow> bool" and visit_all :: "string list \<Rightarrow> err_chain option list \<Rightarrow> bool" where
  "visit names (Plain t) = (t \<in> set names)"
| "visit names (Wraps t c) = (if t \<in> set names then True else visit_all names [c])"
| "visit names (Joins t cs) = (if t \<in> set names then True else visit_all names cs)"
| "visit_all names [] = False"
| "visit_all names (None # cs) = visit_all names cs"
| "visit_all names (Some c # cs) = (visit names c \<or> visit_all names cs)"

definition hasTypeInChain :: "err_chain option \<Rightarrow> string list \<Rightarrow> bool" where
  "hasTypeInChain err names = (case err of None \<Rightarrow> False | Some e \<Rightarrow> visit names e)"

definition isProtocolError :: "unicode \<Rightarrow> resty_error \<Rightarrow> bool" where
  "isProtocolError U err =
     (if hasTypeInChain (Some (re_chain err)) [''http2.StreamError'', ''*http2.StreamError''] then True
      else if re_unexpectedEOF err then True
      else if re_bodyReadAfterClose err then True
      else let lower = to_lower U (err_text err)
        in contains lower ''malformed http'' \<or> contains lower ''http2:'' \<or>
           contains lower ''server gave http response to https client'')"

definition restyErrorKind :: "unicode \<Rightarrow> resty_error \<Rightarrow> string" where
  "restyErrorKind U err =
     (if is_canceled err \<and> \<not> is_deadline err then ''client_canceled''
      else if is_deadline err then ''client_timeout''
      else if isTLSError U err then ''tls''
      else if isTransportError err then ''transport''
      else if isProtocolError U err then ''protocol''
      else ''unknown'')"

definition exceptionType :: "resty_error \<Rightarrow> string" where
  "exceptionType err =
     (if re_pkgPath err = [] \<and> re_typeName err = [] then err_type err else re_pkgPath err @ ''.'' @ re_typeName err)"

section \<open>Requests\<close>

record go_context =
  cx_route :: "string option"
  cx_span :: bool
  cx_state :: "nat option"

record cookie =
  ck_name :: string
  ck_value :: string
  ck_quoted :: bool

record basic_user =
  Username :: string
  Password :: string

type_synonym header_set = "(string \<times> string list) list"

record 'u raw_request =
  raw_url :: "'u url option"
  raw_header :: "header_set option"

record 'u resty_request =
  rq_context :: go_context
  rq_method :: string
  rq_url :: string
  rq_attempt :: int
  rq_header :: header_set
  rq_authScheme :: string
  rq_token :: string
  rq_userInfo :: "basic_user option"
  rq_cookies :: "cookie option list"
  rq_raw :: "'u raw_request option"

type_synonym 'u cookie_jar = "'u url \<Rightarrow> cookie option list"

record 'u resty_client =
  RetryCount :: int
  BaseURL :: string
  HostURL :: string
  rc_header :: header_set
  HeaderAuthorizationKey :: string
  rc_authScheme :: string
  rc_token :: string
  rc_userInfo :: "basic_user option"
  rc_cookies :: "cookie option list"
  rc_httpClient :: "'u cookie_jar option option"

text \<open>What the hook uses of the libraries: redaction, the methods of \<^verbatim>\<open>url.URL\<close>, and the heap of errors.\<close>

record 'u resty_env =
  re_redact :: "'u redact_env"
  Hostname :: "'u url \<Rightarrow> string"
  Port :: "'u url \<Rightarrow> string"
  ResolveReference :: "'u url \<Rightarrow> 'u url \<Rightarrow> 'u url"
  re_errors :: error_heap
  re_newError :: nat

abbreviation re_unicode :: "'u resty_env \<Rightarrow> unicode" where "re_unicode E \<equiv> env_unicode (re_redact E)"
abbreviation re_lib :: "'u resty_env \<Rightarrow> 'u url_lib" where "re_lib E \<equiv> env_url (re_redact E)"
abbreviation re_renderers :: "'u resty_env \<Rightarrow> renderers" where "re_renderers E \<equiv> env_render (re_redact E)"

section \<open>The target of a request\<close>

record targetAttrs =
  fullURL :: string
  t_host :: string
  t_port :: int

definition no_target :: targetAttrs where
  "no_target = \<lparr>fullURL = [], t_host = [], t_port = 0\<rparr>"

definition targetFromURL :: "'u resty_env \<Rightarrow> 'u url option \<Rightarrow> targetAttrs" where
  "targetFromURL E u = (case u of None \<Rightarrow> no_target
     | Some v \<Rightarrow>
       let host = Hostname E v;
           rawPort = Port E v;
           port = (if rawPort \<noteq> [] then (case atoi rawPort of Some parsed \<Rightarrow> parsed | None \<Rightarrow> 0)
                   else if Scheme v = ''http'' then 80 else if Scheme v = ''https'' then 443 else 0)
       in \<lparr>fullURL = URLAttribute (re_unicode E) (re_lib E) (Some v), t_host = host, t_port = port\<rparr>)"

definition targetFromRawURL :: "'u resty_env \<Rightarrow> string \<Rightarrow> targetAttrs" where
  "targetFromRawURL E rawURL = (case url_parse (re_lib E) rawURL of None \<Rightarrow> no_target
     | Some parsed \<Rightarrow> no_target\<lparr>fullURL := URLAttribute (re_unicode E) (re_lib E) (Some parsed)\<rparr>)"

definition raw_url_of :: "'u resty_request \<Rightarrow> 'u url option" where
  "raw_url_of req = (case rq_raw req of Some raw \<Rightarrow> raw_url raw | None \<Rightarrow> None)"

definition requestTarget :: "'u resty_env \<Rightarrow> 'u resty_client option \<Rightarrow> 'u resty_request option \<Rightarrow> targetAttrs" where
  "requestTarget E c req = (case req of None \<Rightarrow> no_target
     | Some rq \<Rightarrow>
       (case raw_url_of rq of Some u \<Rightarrow> targetFromURL E (Some u)
        | None \<Rightarrow>
          let rawURL = rq_url rq; absolute = (case url_parse (re_lib E) rawURL of Some p \<Rightarrow> Scheme p \<noteq> [] | None \<Rightarrow> False)
          in if absolute then targetFromURL E (url_parse (re_lib E) rawURL)
             else case c of None \<Rightarrow> targetFromRawURL E rawURL
               | Some cl \<Rightarrow>
                 let base = (if BaseURL cl = [] then HostURL cl else BaseURL cl)
                 in if base = [] then targetFromRawURL E rawURL
                    else case url_parse (re_lib E) base of None \<Rightarrow> targetFromRawURL E rawURL
                      | Some baseURL \<Rightarrow>
                        (case url_parse (re_lib E) rawURL of None \<Rightarrow> targetFromURL E (Some baseURL)
                         | Some rel \<Rightarrow> targetFromURL E (Some (ResolveReference E baseURL rel)))))"

definition targetAttributes :: "targetAttrs \<Rightarrow> key_value list" where
  "targetAttributes target =
     when_set (t_host target \<noteq> []) ''server.address'' (StrV (t_host target)) @
     when_set (t_port target > 0) ''server.port'' (IntV (t_port target)) @
     when_set (fullURL target \<noteq> []) ''url.full'' (StrV (fullURL target))"

section \<open>The credentials of a request\<close>

definition resolvedRawURL :: "'u resty_env \<Rightarrow> 'u resty_request option \<Rightarrow> string" where
  "resolvedRawURL E req = (case req of None \<Rightarrow> []
     | Some rq \<Rightarrow> (case raw_url_of rq of Some u \<Rightarrow> url_string (re_lib E) u | None \<Rightarrow> rq_url rq))"

definition requestURLs :: "'u resty_env \<Rightarrow> 'u resty_request option \<Rightarrow> string list" where
  "requestURLs E req = (let raw = resolvedRawURL E req in if raw = [] then [] else [raw])"

definition urlDerivedSecrets :: "'u resty_env \<Rightarrow> 'u resty_request option \<Rightarrow> string list" where
  "urlDerivedSecrets E req = (case req of None \<Rightarrow> []
     | Some rq \<Rightarrow> let basic = BasicAuthHeader (re_lib E) (resolvedRawURL E req)
        in if basic = [] then [] else [basic, trim_prefix basic ''Basic ''])"

definition clientJar :: "'u resty_client option \<Rightarrow> 'u cookie_jar option" where
  "clientJar c = (case c of None \<Rightarrow> None
     | Some cl \<Rightarrow> (case rc_httpClient cl of Some jar \<Rightarrow> jar | None \<Rightarrow> None))"

definition cookie_secrets :: "renderers \<Rightarrow> cookie option \<Rightarrow> string list" where
  "cookie_secrets R cookie = (case cookie of None \<Rightarrow> []
     | Some ck \<Rightarrow> if ck_value ck = [] then []
        else HeaderValueForms R (ck_value ck) @ HeaderValueForms R (ck_name ck @ ''='' @ ck_value ck) @
             CookieRequestForms R (ck_name ck) (ck_value ck) (ck_quoted ck))"

definition jarSecrets :: "'u resty_env \<Rightarrow> 'u cookie_jar option \<Rightarrow> string list \<Rightarrow> string list" where
  "jarSecrets E jar rawURLs = (case jar of None \<Rightarrow> []
     | Some cookies \<Rightarrow> concat (map (\<lambda>raw. case url_parse (re_lib E) raw of None \<Rightarrow> []
          | Some parsed \<Rightarrow> if Host parsed = [] then [] else concat (map (cookie_secrets (re_renderers E)) (cookies parsed))) rawURLs))"

definition value_forms :: "renderers \<Rightarrow> string \<Rightarrow> string list" where
  "value_forms R v = (if v \<noteq> [] then HeaderValueForms R v else [])"

definition configuredSecrets :: "renderers \<Rightarrow> string \<Rightarrow> string \<Rightarrow> basic_user option \<Rightarrow> cookie option list \<Rightarrow> string list" where
  "configuredSecrets R scheme token user cookies =
     (if token \<noteq> [] then value_forms R token @ value_forms R (trim_space (scheme @ '' '' @ token)) else []) @
     (case user of None \<Rightarrow> []
      | Some u \<Rightarrow> let basic = BasicAuthValue (Username u) (Password u)
         in value_forms R basic @ value_forms R (trim_prefix basic ''Basic '') @ value_forms R (Password u)) @
     concat (map (\<lambda>cookie. case cookie of None \<Rightarrow> []
       | Some ck \<Rightarrow> value_forms R (ck_value ck) @ CookieRequestForms R (ck_name ck) (ck_value ck) (ck_quoted ck)) cookies)"

definition clientSecrets :: "'u resty_env \<Rightarrow> 'u resty_client option \<Rightarrow> string list" where
  "clientSecrets E c = (case c of None \<Rightarrow> []
     | Some cl \<Rightarrow> HeaderSecrets (re_unicode E) (re_renderers E) (rc_header cl) [HeaderAuthorizationKey cl] @
         configuredSecrets (re_renderers E) (rc_authScheme cl) (rc_token cl) (rc_userInfo cl) (rc_cookies cl))"

section \<open>The state of an attempt\<close>

record 'u requestState =
  parentCtx :: go_context
  st_ctx :: go_context
  st_title :: string
  st_startAttrs :: "key_value list"
  st_start :: nanos
  st_method :: string
  st_route :: string
  st_target :: targetAttrs
  st_attempt :: int
  st_retryCount :: int
  st_finished :: bool
  st_secrets :: "string list"
  st_authHeaderKey :: string
  st_jar :: "'u cookie_jar option"

definition requestSecrets :: "'u resty_env \<Rightarrow> 'u resty_request option \<Rightarrow> 'u requestState option \<Rightarrow> resty_error \<Rightarrow> string list" where
  "requestSecrets E req state err =
     (let (secrets, authKey) = (case state of Some st \<Rightarrow> (st_secrets st, st_authHeaderKey st) | None \<Rightarrow> ([], []))
      in case req of None \<Rightarrow> secrets
         | Some rq \<Rightarrow>
           let header = (case rq_raw rq of Some raw \<Rightarrow> (case raw_header raw of Some h \<Rightarrow> h | None \<Rightarrow> rq_header rq) | None \<Rightarrow> rq_header rq)
           in secrets @ urlDerivedSecrets E req @
              HeaderSecrets (re_unicode E) (re_renderers E) header [authKey] @
              configuredSecrets (re_renderers E) (rq_authScheme rq) (rq_token rq) (rq_userInfo rq) (rq_cookies rq) @
              (case state of None \<Rightarrow> []
               | Some st \<Rightarrow> jarSecrets E (st_jar st) (requestURLs E req @ errorURLs (re_errors E) (Some (re_node err)))))"

text \<open>\<^verbatim>\<open>redact.Error(err, requestURLs(req), requestSecrets(req, state, err)).Error()\<close>.\<close>

definition redacted_message :: "'u resty_env \<Rightarrow> 'u resty_request option \<Rightarrow> 'u requestState \<Rightarrow> resty_error \<Rightarrow> string" where
  "redacted_message E req st err =
     shown (re_errors E) (Error (re_redact E) (re_errors E) (Some (re_node err)) (requestURLs E req) (requestSecrets E req (Some st) err))"

section \<open>The hook\<close>

record 'u resty_config =
  routeEnabled :: bool
  metricRouteEnabled :: bool
  spanNameFormatter :: "('u resty_request \<Rightarrow> string) option"

text \<open>A key that is nil is no key; a context holds the value under the one key that was set.\<close>

definition WithRouteFromContext :: "bool \<Rightarrow> 'u resty_config \<Rightarrow> 'u resty_config" where
  "WithRouteFromContext keyNil cfg = (if keyNil then cfg else cfg\<lparr>routeEnabled := True\<rparr>)"

definition WithMetricRouteEnabled :: "bool \<Rightarrow> 'u resty_config \<Rightarrow> 'u resty_config" where
  "WithMetricRouteEnabled enabled cfg = cfg\<lparr>metricRouteEnabled := enabled\<rparr>"

definition WithSpanNameFormatter :: "('u resty_request \<Rightarrow> string) option \<Rightarrow> 'u resty_config \<Rightarrow> 'u resty_config" where
  "WithSpanNameFormatter f cfg = cfg\<lparr>spanNameFormatter := f\<rparr>"

definition resty_newConfig :: "('u resty_config \<Rightarrow> 'u resty_config) option list \<Rightarrow> 'u resty_config" where
  "resty_newConfig opts =
     foldl (\<lambda>cfg opt. case opt of Some f \<Rightarrow> f cfg | None \<Rightarrow> cfg)
       \<lparr>routeEnabled = False, metricRouteEnabled = False, spanNameFormatter = None\<rparr> opts"

text \<open>\<open>tracer_ctx\<close> is the context \<^verbatim>\<open>tracer.Start\<close> derives, \<open>inject\<close> the propagator.\<close>

record 'u resty_hook =
  rh_cfg :: "'u resty_config"
  tracer_ctx :: "go_context \<Rightarrow> go_context"
  inject :: "go_context \<Rightarrow> header_set \<Rightarrow> header_set"

definition resty_route :: "'u resty_hook \<Rightarrow> go_context \<Rightarrow> string" where
  "resty_route h ctx = (if \<not> routeEnabled (rh_cfg h) then [] else case cx_route ctx of Some r \<Rightarrow> r | None \<Rightarrow> [])"

definition spanName_of :: "'u resty_hook \<Rightarrow> 'u resty_request \<Rightarrow> string \<Rightarrow> string \<Rightarrow> string" where
  "spanName_of h req method route =
     (let formatted = (case spanNameFormatter (rh_cfg h) of Some f \<Rightarrow> f req | None \<Rightarrow> [])
      in if formatted \<noteq> [] then formatted else if route \<noteq> [] then method @ '' '' @ route else method)"

definition resty_metricAttrs :: "'u resty_hook \<Rightarrow> 'u requestState \<Rightarrow> key_value list" where
  "resty_metricAttrs h st =
     (''http.request.method'', StrV (st_method st)) #
     when_set (t_host (st_target st) \<noteq> []) ''server.address'' (StrV (t_host (st_target st))) @
     when_set (t_port (st_target st) > 0) ''server.port'' (IntV (t_port (st_target st))) @
     when_set (metricRouteEnabled (rh_cfg h) \<and> st_route st \<noteq> []) ''http.route'' (StrV (st_route st))"

definition isErrorStatusCode :: "int \<Rightarrow> bool" where
  "isErrorStatusCode code \<longleftrightarrow> code \<ge> 400 \<and> code < 600"

definition isLastAttempt :: "'u requestState \<Rightarrow> bool" where
  "isLastAttempt st \<longleftrightarrow> st_retryCount st > 0 \<and> st_attempt st \<ge> st_retryCount st + 1"

definition resolvedTarget :: "'u resty_env \<Rightarrow> 'u resty_client option \<Rightarrow> 'u resty_request option \<Rightarrow> 'u requestState \<Rightarrow> targetAttrs" where
  "resolvedTarget E c req st =
     (case req of Some rq \<Rightarrow> if raw_url_of rq \<noteq> None then requestTarget E c req else st_target st | None \<Rightarrow> st_target st)"

text \<open>What the hook emits, each with the attempt it belongs to: the end of a span with its exception events, a
  measurement, and the event on the span of the caller.\<close>

datatype resty_emission =
    SpanEnded nat span "(string \<times> string) list"
  | DurationRecorded nat int "key_value list"
  | RetryExhausted nat

text \<open>Requests and attempt states are objects; a pointer is a position in its heap.\<close>

record 'u resty_world =
  requests :: "'u resty_request list"
  states :: "'u requestState list"
  emitted :: "resty_emission list"

definition stateFromContext :: "go_context \<Rightarrow> nat option" where
  "stateFromContext ctx = cx_state ctx"

definition set_context :: "nat \<Rightarrow> go_context \<Rightarrow> 'u resty_world \<Rightarrow> 'u resty_world" where
  "set_context req ctx w = w\<lparr>requests := (requests w)[req := (requests w ! req)\<lparr>rq_context := ctx\<rparr>]\<rparr>"

definition set_state :: "nat \<Rightarrow> 'u requestState \<Rightarrow> 'u resty_world \<Rightarrow> 'u resty_world" where
  "set_state i st w = w\<lparr>states := (states w)[i := st]\<rparr>"

definition beforeRequest :: "'u resty_env \<Rightarrow> 'u resty_hook \<Rightarrow> 'u resty_client \<Rightarrow> nat \<Rightarrow> nanos \<Rightarrow> 'u resty_world \<Rightarrow> 'u resty_world" where
  "beforeRequest E h c req now w =
     (let rq = requests w ! req;
          parent = (case stateFromContext (rq_context rq) of Some prev \<Rightarrow> parentCtx (states w ! prev) | None \<Rightarrow> rq_context rq);
          upper = to_upper (re_unicode E) (rq_method rq);
          method = (if upper = [] then ''GET'' else upper);
          route = resty_route h parent;
          as = (''http.request.method'', StrV method) #
               when_set (rq_attempt rq \<ge> 2) ''http.request.resend_count'' (IntV (rq_attempt rq - 1)) @
               when_set (route \<noteq> []) ''http.route'' (StrV route);
          i = length (states w);
          ctx = (tracer_ctx h parent)\<lparr>cx_state := Some i\<rparr>;
          st = \<lparr>parentCtx = parent, st_ctx = ctx, st_title = spanName_of h rq method route, st_startAttrs = as, st_start = now,
                st_method = method, st_route = route, st_target = requestTarget E (Some c) (Some rq),
                st_attempt = rq_attempt rq, st_retryCount = RetryCount c, st_finished = False,
                st_secrets = clientSecrets E (Some c), st_authHeaderKey = HeaderAuthorizationKey c, st_jar = clientJar (Some c)\<rparr>
      in w\<lparr>states := states w @ [st],
           requests := (requests w)[req := rq\<lparr>rq_context := ctx, rq_header := inject h ctx (rq_header rq)\<rparr>]\<rparr>)"

definition resty_finish ::
  "'u resty_env \<Rightarrow> nat \<Rightarrow> nat \<Rightarrow> span_status \<Rightarrow> resty_error option \<Rightarrow> key_value list \<Rightarrow> key_value list \<Rightarrow> nanos \<Rightarrow>
     'u resty_world \<Rightarrow> 'u resty_world" where
  "resty_finish E req i status err as mattrs now w =
     (let st = states w ! i in
      if st_finished st then w
      else
        let exceptions = (case err of None \<Rightarrow> []
              | Some e \<Rightarrow> [(exceptionType e, redacted_message E (Some (requests w ! req)) st e)]);
            sp = \<lparr>span_title = st_title st, span_role = KindClient, span_start = st_start st, span_end = now,
                  span_attrs = st_startAttrs st @ as, span_state = status, span_errors = map (\<lambda>x. (now, snd x)) exceptions\<rparr>
        in set_context req (parentCtx st)
             (set_state i (st\<lparr>st_finished := True\<rparr>) w)
             \<lparr>emitted := emitted w @ [DurationRecorded i (time_sub now (st_start st)) mattrs, SpanEnded i sp exceptions]\<rparr>)"

definition addRetryExhaustedEvent :: "nat \<Rightarrow> go_context \<Rightarrow> resty_emission list" where
  "addRetryExhaustedEvent i ctx = (if cx_span ctx then [RetryExhausted i] else [])"

definition emit :: "resty_emission list \<Rightarrow> 'u resty_world \<Rightarrow> 'u resty_world" where
  "emit es w = w\<lparr>emitted := emitted w @ es\<rparr>"

record resty_response =
  rs_request :: "nat option"
  rs_statusCode :: int
  rs_status :: string

definition finishResponse ::
  "'u resty_env \<Rightarrow> 'u resty_hook \<Rightarrow> 'u resty_client option \<Rightarrow> resty_response \<Rightarrow> nat \<Rightarrow> nat \<Rightarrow> bool \<Rightarrow> nanos \<Rightarrow>
     'u resty_world \<Rightarrow> 'u resty_world" where
  "finishResponse E h c resp req i retryable now w =
     (let st = (states w ! i)\<lparr>st_target := resolvedTarget E c (Some (requests w ! req)) (states w ! i)\<rparr>;
          w = set_state i st w;
          code = rs_statusCode resp;
          errType = (if isErrorStatusCode code then itoa code else []);
          exhausted = (isLastAttempt st \<and> retryable);
          as = targetAttributes (st_target st) @ [(''http.response.status_code'', IntV code)] @
               when_set (code = 408 \<or> code = 504) ''resty.error.kind'' (StrV ''server_timeout'') @
               when_set (isErrorStatusCode code) ''error.type'' (StrV errType) @
               when_set exhausted ''resty.retry.exhausted'' (BoolV True);
          w = (if exhausted then emit (addRetryExhaustedEvent i (parentCtx st)) w else w);
          mattrs = resty_metricAttrs h st @
               when_set (code > 0) ''http.response.status_code'' (IntV code) @
               when_set (errType \<noteq> []) ''error.type'' (StrV errType);
          status = (if code \<ge> 400 then Failed (rs_status resp) else Unset)
      in resty_finish E req i status None as mattrs now w)"

definition finishError ::
  "'u resty_env \<Rightarrow> 'u resty_hook \<Rightarrow> nat \<Rightarrow> nat \<Rightarrow> resty_error \<Rightarrow> bool \<Rightarrow> nanos \<Rightarrow> 'u resty_world \<Rightarrow> 'u resty_world" where
  "finishError E h req i err retryExhausted now w =
     (let errType = resty_errorType err;
          (code, req) = (case re_response err of None \<Rightarrow> (0, req)
             | Some (code, other) \<Rightarrow> (code, case other of Some r \<Rightarrow> r | None \<Rightarrow> req));
          rq = Some (requests w ! req);
          st = (states w ! i)\<lparr>st_target := resolvedTarget E None rq (states w ! i)\<rparr>;
          w = set_state i st w;
          exhausted = (retryExhausted \<and> \<not> is_canceled err \<and> \<not> is_deadline err);
          as = targetAttributes (st_target st) @
               [(''error.type'', StrV errType), (''resty.error.kind'', StrV (restyErrorKind (re_unicode E) err))] @
               when_set (code > 0) ''http.response.status_code'' (IntV code) @
               when_set exhausted ''resty.retry.exhausted'' (BoolV True);
          w = (if exhausted then emit (addRetryExhaustedEvent i (parentCtx st)) w else w);
          mattrs = resty_metricAttrs h st @ [(''error.type'', StrV errType)] @
               when_set (code > 0) ''http.response.status_code'' (IntV code)
      in resty_finish E req i (Failed (redacted_message E rq st err)) (Some err) as mattrs now w)"

text \<open>The attempt of a request that is still open.\<close>

definition open_attempt :: "'u resty_world \<Rightarrow> nat \<Rightarrow> nat option" where
  "open_attempt w req = (case stateFromContext (rq_context (requests w ! req)) of None \<Rightarrow> None
     | Some i \<Rightarrow> if st_finished (states w ! i) then None else Some i)"

definition success ::
  "'u resty_env \<Rightarrow> 'u resty_hook \<Rightarrow> 'u resty_client option \<Rightarrow> resty_response option \<Rightarrow> nanos \<Rightarrow> 'u resty_world \<Rightarrow> 'u resty_world" where
  "success E h c resp now w = (case resp of None \<Rightarrow> w
     | Some r \<Rightarrow> (case rs_request r of None \<Rightarrow> w
        | Some req \<Rightarrow> (case open_attempt w req of None \<Rightarrow> w
           | Some i \<Rightarrow> finishResponse E h c r req i False now w)))"

definition retry_hook ::
  "'u resty_env \<Rightarrow> 'u resty_hook \<Rightarrow> resty_response option \<Rightarrow> resty_error option \<Rightarrow> nanos \<Rightarrow> 'u resty_world \<Rightarrow> 'u resty_world" where
  "retry_hook E h resp err now w = (case resp of None \<Rightarrow> w
     | Some r \<Rightarrow> (case rs_request r of None \<Rightarrow> w
        | Some req \<Rightarrow> (case open_attempt w req of None \<Rightarrow> w
           | Some i \<Rightarrow> (case err of
               None \<Rightarrow> finishResponse E h None r req i True now w
             | Some e \<Rightarrow> finishError E h req i e (isLastAttempt (states w ! i)) now w))))"

definition panic_error :: "nat \<Rightarrow> resty_error" where
  "panic_error node = \<lparr>err_text = ''resty: panic during request'', err_type = ''*errors.errorString'', is_deadline = False,
     is_canceled = False, re_node = node, re_chain = Plain ''*errors.errorString'', re_certificate = False, re_hostname = False,
     re_authority = False, re_recordHeader = False, re_opErr = None, re_unexpectedEOF = False, re_bodyReadAfterClose = False,
     re_pkgPath = [], re_typeName = [], re_response = None\<rparr>"

definition panicked ::
  "'u resty_env \<Rightarrow> 'u resty_hook \<Rightarrow> nat option \<Rightarrow> resty_error option \<Rightarrow> nanos \<Rightarrow> 'u resty_world \<Rightarrow> 'u resty_world" where
  "panicked E h req err now w = (case req of None \<Rightarrow> w
     | Some r \<Rightarrow> (case open_attempt w r of None \<Rightarrow> w
        | Some i \<Rightarrow> finishError E h r i (case err of Some e \<Rightarrow> e | None \<Rightarrow> panic_error (re_newError E)) False now w))"

definition error_hook ::
  "'u resty_env \<Rightarrow> 'u resty_hook \<Rightarrow> nat option \<Rightarrow> resty_error option \<Rightarrow> nanos \<Rightarrow> 'u resty_world \<Rightarrow> 'u resty_world" where
  "error_hook E h req err now w = (case req of None \<Rightarrow> w
     | Some r \<Rightarrow> (case err of None \<Rightarrow> w
        | Some e \<Rightarrow> (case open_attempt w r of None \<Rightarrow> w
           | Some i \<Rightarrow> finishError E h r i e (isLastAttempt (states w ! i)) now w)))"

section \<open>Callbacks in any order\<close>

text \<open>resty and its users: a request is created with a context of the caller, resty fills its \<^verbatim>\<open>RawRequest\<close> and counts
  attempts, and the callbacks run in any order, on any request, any number of times.\<close>

definition context_ok :: "'u resty_world \<Rightarrow> go_context \<Rightarrow> bool" where
  "context_ok w ctx = (case cx_state ctx of None \<Rightarrow> True | Some i \<Rightarrow> i < length (states w))"

definition request_ok :: "'u resty_world \<Rightarrow> nat option \<Rightarrow> bool" where
  "request_ok w req = (case req of None \<Rightarrow> True | Some r \<Rightarrow> r < length (requests w))"

definition response_ok :: "'u resty_world \<Rightarrow> resty_response option \<Rightarrow> bool" where
  "response_ok w resp = (case resp of None \<Rightarrow> True | Some r \<Rightarrow> request_ok w (rs_request r))"

definition error_ok :: "'u resty_world \<Rightarrow> resty_error option \<Rightarrow> bool" where
  "error_ok w err = (case err of None \<Rightarrow> True | Some e \<Rightarrow> (case re_response e of None \<Rightarrow> True | Some (_, req) \<Rightarrow> request_ok w req))"

inductive resty_step :: "'u resty_env \<Rightarrow> 'u resty_hook \<Rightarrow> 'u resty_world \<Rightarrow> 'u resty_world \<Rightarrow> bool" for E h where
  new_request: "context_ok w (rq_context rq) \<Longrightarrow> resty_step E h w (w\<lparr>requests := requests w @ [rq]\<rparr>)"
| progress: "req < length (requests w) \<Longrightarrow> rq_context rq = rq_context (requests w ! req) \<Longrightarrow>
    resty_step E h w (w\<lparr>requests := (requests w)[req := rq]\<rparr>)"
| before: "req < length (requests w) \<Longrightarrow> resty_step E h w (beforeRequest E h c req now w)"
| on_success: "response_ok w resp \<Longrightarrow> resty_step E h w (success E h c resp now w)"
| on_retry: "response_ok w resp \<Longrightarrow> error_ok w err \<Longrightarrow> resty_step E h w (retry_hook E h resp err now w)"
| on_panic: "request_ok w req \<Longrightarrow> error_ok w err \<Longrightarrow> resty_step E h w (panicked E h req err now w)"
| on_error: "request_ok w req \<Longrightarrow> error_ok w err \<Longrightarrow> resty_step E h w (error_hook E h req err now w)"

section \<open>Every attempt ends exactly once\<close>

fun ends :: "nat \<Rightarrow> resty_emission \<Rightarrow> bool" where
  "ends i (SpanEnded j sp exs) = (j = i)"
| "ends i _ = False"

fun measures_attempt :: "nat \<Rightarrow> resty_emission \<Rightarrow> bool" where
  "measures_attempt i (DurationRecorded j d as) = (j = i)"
| "measures_attempt i _ = False"

definition finished_count :: "'u resty_world \<Rightarrow> nat \<Rightarrow> nat" where
  "finished_count w i = (if i < length (states w) \<and> st_finished (states w ! i) then 1 else 0)"

definition clear_text :: "'u resty_env \<Rightarrow> string \<Rightarrow> string \<Rightarrow> bool" where
  "clear_text E s t \<longleftrightarrow> (\<forall>k. \<not> contains ((decodeOnce (env_html (re_redact E)) ^^ k) t) s)"

text \<open>The texts of an error on a span hide the credentials of the client that made the attempt.\<close>

fun hides_secrets :: "'u resty_env \<Rightarrow> 'u resty_world \<Rightarrow> resty_emission \<Rightarrow> bool" where
  "hides_secrets E w (SpanEnded i sp exs) \<longleftrightarrow>
     i < length (states w) \<and>
     (exs \<noteq> [] \<longrightarrow> span_state sp = Failed (snd (hd exs))) \<and>
     (html_law (env_html (re_redact E)) \<longrightarrow>
        (\<forall>s \<in> set (st_secrets (states w ! i)). shortSecretLen \<le> length s \<longrightarrow> clear_of_placeholder s \<longrightarrow>
           (\<forall>x \<in> set exs. clear_text E s (snd x))))"
| "hides_secrets E w _ \<longleftrightarrow> True"

definition world_ok :: "'u resty_env \<Rightarrow> 'u resty_world \<Rightarrow> bool" where
  "world_ok E w \<longleftrightarrow>
     (\<forall>rq \<in> set (requests w). context_ok w (rq_context rq)) \<and>
     (\<forall>st \<in> set (states w). cx_state (parentCtx st) = None) \<and>
     (\<forall>i. length (filter (ends i) (emitted w)) = finished_count w i \<and>
          length (filter (measures_attempt i) (emitted w)) = finished_count w i) \<and>
     (\<forall>e \<in> set (emitted w). hides_secrets E w e)"

lemma world_okD:
  assumes "world_ok E w"
  shows "rq \<in> set (requests w) \<Longrightarrow> context_ok w (rq_context rq)"
    "st \<in> set (states w) \<Longrightarrow> cx_state (parentCtx st) = None"
    "length (filter (ends i) (emitted w)) = finished_count w i"
    "length (filter (measures_attempt i) (emitted w)) = finished_count w i"
    "e \<in> set (emitted w) \<Longrightarrow> hides_secrets E w e"
  using assms by (simp_all add: world_ok_def)

lemma redacted_message_clear:
  assumes "html_law (env_html (re_redact E))" "s \<in> set (requestSecrets E req (Some st) err)" "shortSecretLen \<le> length s"
    "clear_of_placeholder s"
  shows "clear_text E s (redacted_message E req st err)"
  using shown_error_clear[OF assms] by (simp add: clear_text_def redacted_message_def)

lemma client_secrets_named: "set (st_secrets st) \<subseteq> set (requestSecrets E req (Some st) err)"
  by (cases req) (auto simp: requestSecrets_def Let_def)

text \<open>Ending attempt \<open>i\<close>, with the target of its state changed first.\<close>

lemma hides_secrets_grow:
  assumes "hides_secrets E w e" "length (states w) \<le> length (states w')"
    "\<And>i. i < length (states w) \<Longrightarrow> st_secrets (states w' ! i) = st_secrets (states w ! i)"
  shows "hides_secrets E w' e"
  using assms by (cases e) auto

lemma world_ok_step:
  assumes "world_ok E w"
    and "\<And>rq. rq \<in> set (requests w') \<Longrightarrow> context_ok w' (rq_context rq)"
    and "\<And>st. st \<in> set (states w') \<Longrightarrow> cx_state (parentCtx st) = None"
    and "length (states w) \<le> length (states w')"
    and "\<And>i. i < length (states w) \<Longrightarrow> st_secrets (states w' ! i) = st_secrets (states w ! i)"
    and "emitted w' = emitted w @ es"
    and "\<And>i. finished_count w' i = finished_count w i + length (filter (ends i) es)"
    and "\<And>i. length (filter (measures_attempt i) es) = length (filter (ends i) es)"
    and "\<And>e. e \<in> set es \<Longrightarrow> hides_secrets E w' e"
  shows "world_ok E w'"
proof -
  have "hides_secrets E w' e" if "e \<in> set (emitted w)" for e
    by (rule hides_secrets_grow[OF world_okD(5)[OF assms(1) that] assms(4,5)])
  then show ?thesis using assms by (auto simp: world_ok_def)
qed

lemma context_ok_grow: "context_ok w ctx \<Longrightarrow> length (states w) \<le> length (states w') \<Longrightarrow> context_ok w' ctx"
  by (auto simp: context_ok_def split: option.splits)

lemma world_update_simps [simp]:
  "context_ok (w\<lparr>requests := rs\<rparr>) ctx = context_ok w ctx" "finished_count (w\<lparr>requests := rs\<rparr>) i = finished_count w i"
  "context_ok (w\<lparr>emitted := es\<rparr>) ctx = context_ok w ctx" "finished_count (w\<lparr>emitted := es\<rparr>) i = finished_count w i"
  by (simp_all add: context_ok_def finished_count_def split: option.splits)

lemma set_updateD: "x \<in> set (xs[i := y]) \<Longrightarrow> x = y \<or> x \<in> set xs"
  using set_update_subset_insert[of xs i y] by auto

lemma new_request_ok:
  assumes "world_ok E w" "context_ok w (rq_context rq)"
  shows "world_ok E (w\<lparr>requests := requests w @ [rq]\<rparr>)"
  by (rule world_ok_step[OF assms(1), where es = "[]"])
    (use assms world_okD[OF assms(1)] in auto)

lemma request_update_ok:
  assumes "world_ok E w" "context_ok w (rq_context rq)"
  shows "world_ok E (w\<lparr>requests := (requests w)[req := rq]\<rparr>)"
  by (rule world_ok_step[OF assms(1), where es = "[]"])
    (use assms world_okD[OF assms(1)] in \<open>auto dest!: set_updateD\<close>)

lemma state_update_ok:
  assumes "world_ok E w" "i < length (states w)" "parentCtx st = parentCtx (states w ! i)"
    "st_secrets st = st_secrets (states w ! i)" "st_finished st = st_finished (states w ! i)"
  shows "world_ok E (set_state i st w)"
proof (rule world_ok_step[OF assms(1), where es = "[]"])
  fix st' assume "st' \<in> set (states (set_state i st w))"
  then have "st' = st \<or> st' \<in> set (states w)" by (auto simp: set_state_def dest!: set_updateD)
  then show "cx_state (parentCtx st') = None" using world_okD(2)[OF assms(1)] assms(2,3) by auto
next
  fix rq assume "rq \<in> set (requests (set_state i st w))"
  then show "context_ok (set_state i st w) (rq_context rq)"
    using world_okD(1)[OF assms(1), of rq] by (auto simp: set_state_def context_ok_def split: option.splits)
qed (use assms in \<open>auto simp: set_state_def finished_count_def nth_list_update\<close>)

lemma emit_retry_ok:
  assumes "world_ok E w"
  shows "world_ok E (emit (addRetryExhaustedEvent i ctx) w)"
  by (rule world_ok_step[OF assms, where es = "addRetryExhaustedEvent i ctx"])
    (use world_okD[OF assms] in \<open>auto simp: emit_def addRetryExhaustedEvent_def\<close>)

text \<open>The failure an ended span shows is the message of its exception event.\<close>

lemma resty_finish_ok:
  assumes ok: "world_ok E w" and i: "i < length (states w)"
    and status: "\<And>e. err = Some e \<Longrightarrow> status = Failed (redacted_message E (Some (requests w ! req)) (states w ! i) e)"
  shows "world_ok E (resty_finish E req i status err as mattrs now w)"
proof (cases "st_finished (states w ! i)")
  case True
  then show ?thesis using ok by (simp add: resty_finish_def)
next
  case False
  let ?st = "states w ! i"
  define exs where "exs = (case err of None \<Rightarrow> [] | Some e \<Rightarrow> [(exceptionType e, redacted_message E (Some (requests w ! req)) ?st e)])"
  define es where "es = [DurationRecorded i (time_sub now (st_start ?st)) mattrs,
    SpanEnded i \<lparr>span_title = st_title ?st, span_role = KindClient, span_start = st_start ?st, span_end = now,
      span_attrs = st_startAttrs ?st @ as, span_state = status, span_errors = map (\<lambda>x. (now, snd x)) exs\<rparr> exs]"
  let ?w = "resty_finish E req i status err as mattrs now w"
  have w: "?w = set_context req (parentCtx ?st) (set_state i (?st\<lparr>st_finished := True\<rparr>) w)\<lparr>emitted := emitted w @ es\<rparr>"
    using False by (simp add: resty_finish_def Let_def es_def exs_def)
  have st: "states ?w = (states w)[i := ?st\<lparr>st_finished := True\<rparr>]" and em: "emitted ?w = emitted w @ es"
    and rq: "requests ?w = (requests w)[req := (requests w ! req)\<lparr>rq_context := parentCtx ?st\<rparr>]"
    by (simp_all add: w set_context_def set_state_def)
  have parent: "cx_state (parentCtx ?st) = None" using world_okD(2)[OF ok] i by simp
  have sec: "st_secrets (states ?w ! j) = st_secrets (states w ! j)" if "j < length (states w)" for j
    using that i by (simp add: st nth_list_update)
  show ?thesis
  proof (rule world_ok_step[OF ok _ _ _ sec em])
    fix r assume "r \<in> set (requests ?w)"
    then consider "r = (requests w ! req)\<lparr>rq_context := parentCtx ?st\<rparr>" | "r \<in> set (requests w)" by (auto simp: rq dest!: set_updateD)
    then show "context_ok ?w (rq_context r)"
    proof cases
      case 1
      then show ?thesis using parent by (simp add: context_ok_def)
    next
      case 2
      then show ?thesis by (intro context_ok_grow[OF world_okD(1)[OF ok 2]]) (simp add: st)
    qed
  next
    fix st' assume "st' \<in> set (states ?w)"
    then show "cx_state (parentCtx st') = None"
      using parent world_okD(2)[OF ok] by (auto simp: st dest!: set_updateD)
  next
    fix j show "finished_count ?w j = finished_count w j + length (filter (ends j) es)"
      using i False by (auto simp: finished_count_def st es_def nth_list_update)
    show "length (filter (measures_attempt j) es) = length (filter (ends j) es)" by (simp add: es_def)
  next
    fix e assume e: "e \<in> set es"
    have named: "s \<in> set (requestSecrets E (Some (requests w ! req)) (Some ?st) e)" if "s \<in> set (st_secrets ?st)" for s e
      using that client_secrets_named by blast
    have "clear_text E s (snd x)"
      if "html_law (env_html (re_redact E))" "s \<in> set (st_secrets ?st)" "shortSecretLen \<le> length s" "clear_of_placeholder s" "x \<in> set exs"
      for s x
      using that redacted_message_clear[OF that(1) named[OF that(2)] that(3,4)] by (auto simp: exs_def split: option.splits)
    moreover have "exs \<noteq> [] \<Longrightarrow> status = Failed (snd (hd exs))" using status by (auto simp: exs_def split: option.splits)
    ultimately show "hides_secrets E ?w e" using e i sec[OF i] by (auto simp: es_def st)
  qed (simp_all add: st)
qed

lemma beforeRequest_ok:
  assumes ok: "world_ok E w" and req: "req < length (requests w)"
  shows "world_ok E (beforeRequest E h c req now w)"
proof -
  let ?w = "beforeRequest E h c req now w"
  let ?rq = "requests w ! req"
  define parent where "parent = (case stateFromContext (rq_context ?rq) of Some prev \<Rightarrow> parentCtx (states w ! prev) | None \<Rightarrow> rq_context ?rq)"
  have "context_ok w (rq_context ?rq)" using world_okD(1)[OF ok] req by simp
  then have parent: "cx_state parent = None"
    using world_okD(2)[OF ok] by (auto simp: parent_def stateFromContext_def context_ok_def split: option.splits)
  obtain st rq' where w: "?w = w\<lparr>states := states w @ [st], requests := (requests w)[req := rq']\<rparr>"
    and st: "parentCtx st = parent" "\<not> st_finished st" and rq': "cx_state (rq_context rq') = Some (length (states w))"
    by (simp add: beforeRequest_def Let_def parent_def)
  show ?thesis
  proof (rule world_ok_step[OF ok, where es = "[]"])
    fix r assume "r \<in> set (requests ?w)"
    then have "r = rq' \<or> r \<in> set (requests w)" by (auto simp: w dest!: set_updateD)
    then show "context_ok ?w (rq_context r)"
      using rq' world_okD(1)[OF ok, of r] by (auto simp: w context_ok_def split: option.splits)
  next
    fix st' assume "st' \<in> set (states ?w)"
    then show "cx_state (parentCtx st') = None" using parent st world_okD(2)[OF ok] by (auto simp: w)
  next
    fix j show "finished_count ?w j = finished_count w j + length (filter (ends j) [])"
      using st by (auto simp: w finished_count_def nth_append)
  qed (simp_all add: w nth_append)
qed

lemma finish_targeted_ok:
  assumes "world_ok E w" "i < length (states w)"
    and "\<And>e. err = Some e \<Longrightarrow> status = Failed (redacted_message E (Some (requests w ! req)) ((states w ! i)\<lparr>st_target := t\<rparr>) e)"
  defines "w1 \<equiv> set_state i ((states w ! i)\<lparr>st_target := t\<rparr>) w"
  shows "world_ok E (resty_finish E req i status err as mattrs now (if b then emit (addRetryExhaustedEvent i ctx) w1 else w1))"
proof (rule resty_finish_ok)
  have "world_ok E w1" unfolding w1_def using assms(1,2) by (intro state_update_ok) auto
  then show "world_ok E (if b then emit (addRetryExhaustedEvent i ctx) w1 else w1)" by (simp add: emit_retry_ok)
qed (use assms(2,3) in \<open>auto simp: w1_def set_state_def emit_def\<close>)

lemma finishResponse_ok:
  assumes "world_ok E w" "i < length (states w)"
  shows "world_ok E (finishResponse E h c resp req i retryable now w)"
  unfolding finishResponse_def Let_def by (rule finish_targeted_ok[OF assms]) simp

lemma finishError_ok:
  assumes "world_ok E w" "i < length (states w)"
  shows "world_ok E (finishError E h req i err retryExhausted now w)"
  unfolding finishError_def Let_def split_beta
  by (rule finish_targeted_ok[OF assms]) simp

lemma open_attempt_valid:
  assumes "world_ok E w" "req < length (requests w)" "open_attempt w req = Some i"
  shows "i < length (states w)"
  using world_okD(1)[OF assms(1) nth_mem[OF assms(2)]] assms(3)
  by (auto simp: open_attempt_def stateFromContext_def context_ok_def split: option.splits if_splits)

lemma resty_step_ok:
  assumes "resty_step E h w w'" "world_ok E w"
  shows "world_ok E w'"
  using assms
proof (induction rule: resty_step.induct)
  case (new_request w rq)
  then show ?case by (intro new_request_ok)
next
  case (progress req w rq)
  then show ?case using world_okD(1)[OF progress(3) nth_mem[OF progress(1)]] by (intro request_update_ok) simp_all
next
  case (before req w c now)
  then show ?case by (intro beforeRequest_ok)
next
  case (on_success w resp c now)
  then show ?case
    by (auto simp: success_def response_ok_def request_ok_def split: option.splits
        intro!: finishResponse_ok dest: open_attempt_valid)
next
  case (on_retry w resp err now)
  then show ?case
    by (auto simp: retry_hook_def response_ok_def request_ok_def split: option.splits
        intro!: finishResponse_ok finishError_ok dest: open_attempt_valid)
next
  case (on_panic w req err now)
  then show ?case
    by (auto simp: panicked_def request_ok_def split: option.splits
        intro!: finishError_ok dest: open_attempt_valid)
next
  case (on_error w req err now)
  then show ?case
    by (auto simp: error_hook_def request_ok_def split: option.splits
        intro!: finishError_ok dest: open_attempt_valid)
qed

definition resty_init :: "'u resty_world" where
  "resty_init = \<lparr>requests = [], states = [], emitted = []\<rparr>"

lemma resty_reachable_ok:
  assumes "(resty_step E h)\<^sup>*\<^sup>* resty_init w"
  shows "world_ok E w"
  using assms
proof (induction rule: rtranclp_induct)
  case base
  then show ?case by (simp add: world_ok_def resty_init_def finished_count_def)
qed (rule resty_step_ok)

text \<open>C9. Each attempt ends exactly once: whatever callbacks resty runs, in whatever order, on whatever requests, an attempt has one span end and
  one measurement if it is finished and none before.\<close>

theorem resty_attempt_ends_once:
  assumes "(resty_step E h)\<^sup>*\<^sup>* resty_init w"
  shows "length (filter (ends i) (emitted w)) = (if i < length (states w) \<and> st_finished (states w ! i) then 1 else 0) \<and>
    length (filter (measures_attempt i) (emitted w)) = length (filter (ends i) (emitted w))"
  using world_okD(3,4)[OF resty_reachable_ok[OF assms]] by (simp add: finished_count_def)

text \<open>No exception event of a span, and no failure it shows for an error, holds a credential of the client that made the attempt.\<close>

theorem resty_errors_hide_client_secrets:
  assumes "html_law (env_html (re_redact E))" "(resty_step E h)\<^sup>*\<^sup>* resty_init w" "SpanEnded i sp exs \<in> set (emitted w)"
    and "s \<in> set (st_secrets (states w ! i))" "shortSecretLen \<le> length s" "clear_of_placeholder s" "x \<in> set exs"
  shows "\<not> contains ((decodeOnce (env_html (re_redact E)) ^^ k) (snd x)) s \<and> span_state sp = Failed (snd (hd exs))"
  using world_okD(5)[OF resty_reachable_ok[OF assms(2)] assms(3)] assms(1,4-7) by (auto simp: clear_text_def)

section \<open>Every configured credential is hidden\<close>

text \<open>The credentials a request is configured with: its token, its password, its cookies, and the values of the
  headers that carry credentials, of the built request when there is one.\<close>

definition effective_header :: "'u resty_request \<Rightarrow> header_set" where
  "effective_header rq = (case rq_raw rq of Some raw \<Rightarrow> (case raw_header raw of Some h \<Rightarrow> h | None \<Rightarrow> rq_header rq) | None \<Rightarrow> rq_header rq)"

definition request_credentials :: "unicode \<Rightarrow> 'u resty_request \<Rightarrow> string \<Rightarrow> string list" where
  "request_credentials U rq authKey =
     [rq_token rq] @
     (case rq_userInfo rq of Some u \<Rightarrow> [Password u, BasicAuthValue (Username u) (Password u)] | None \<Rightarrow> []) @
     concat (map (\<lambda>c. case c of Some ck \<Rightarrow> [ck_value ck] | None \<Rightarrow> []) (rq_cookies rq)) @
     concat (map snd (filter (\<lambda>(name, _). CredentialHeaderName U name \<or>
        to_lower U (trim_space authKey) \<noteq> [] \<and> to_lower U name = to_lower U (trim_space authKey)) (effective_header rq)))"

lemma renderings_self: "v \<in> set (Renderings R v)"
proof -
  have "set forms \<subseteq> set (renderings_loop R n forms frontier)" for n forms frontier
  proof (induction n arbitrary: forms frontier)
    case (Suc n)
    obtain new where "render_round R frontier forms = (forms @ new, new)" using render_round_new by blast
    then show ?case using Suc.IH[of "forms @ new" new] by auto
  qed simp
  then show ?thesis unfolding Renderings_def by (meson list.set_intros(1) subsetD)
qed

lemma header_forms_self: "v \<in> set (HeaderValueForms R v)"
  using renderings_self by (auto simp: HeaderValueForms_def Let_def)

lemma value_forms_self: "v \<noteq> [] \<Longrightarrow> v \<in> set (value_forms R v)"
  using header_forms_self by (simp add: value_forms_def)

lemma header_secrets_value:
  assumes "(name, vs) \<in> set hs" "v \<in> set vs" "v \<noteq> []"
    "CredentialHeaderName U name \<or> to_lower U (trim_space key) \<noteq> [] \<and> to_lower U name = to_lower U (trim_space key)"
  shows "v \<in> set (HeaderSecrets U R hs [key])"
proof -
  let ?named = "filter (\<lambda>(name, _). to_lower U name \<in> set (filter (\<lambda>l. l \<noteq> []) (map (\<lambda>name. to_lower U (trim_space name)) [key])) \<or>
    CredentialHeaderName U name) hs"
  have "(name, vs) \<in> set ?named" using assms(1,4) by auto
  moreover have "v \<in> set (HeaderNameForms U R name @ concat (map (HeaderValueForms R) vs))"
    using assms(2) header_forms_self by fastforce
  ultimately have "v \<in> set (concat (map (\<lambda>(name, values). HeaderNameForms U R name @ concat (map (HeaderValueForms R) values)) ?named))"
    by (fastforce simp del: filter.simps)
  then show ?thesis using assms(3) unfolding HeaderSecrets_def Let_def by (simp only: set_sort set_firsts set_filter mem_Collect_eq) simp
qed

lemma request_credentials_named:
  assumes "s \<in> set (request_credentials (re_unicode E) rq (st_authHeaderKey st))" "s \<noteq> []"
  shows "s \<in> set (requestSecrets E (Some rq) (Some st) err)"
proof -
  let ?R = "re_renderers E"
  let ?conf = "configuredSecrets ?R (rq_authScheme rq) (rq_token rq) (rq_userInfo rq) (rq_cookies rq)"
  consider "s = rq_token rq" | u where "rq_userInfo rq = Some u" "s = Password u \<or> s = BasicAuthValue (Username u) (Password u)"
    | ck where "Some ck \<in> set (rq_cookies rq)" "s = ck_value ck"
    | name vs where "(name, vs) \<in> set (effective_header rq)" "s \<in> set vs"
        "CredentialHeaderName (re_unicode E) name \<or> to_lower (re_unicode E) (trim_space (st_authHeaderKey st)) \<noteq> [] \<and>
           to_lower (re_unicode E) name = to_lower (re_unicode E) (trim_space (st_authHeaderKey st))"
    using assms(1) by (cases "rq_userInfo rq") (auto simp: request_credentials_def split: option.splits)
  then have "s \<in> set ?conf \<or> s \<in> set (HeaderSecrets (re_unicode E) ?R (effective_header rq) [st_authHeaderKey st])"
  proof cases
    case 4
    then show ?thesis using header_secrets_value assms(2) by blast
  next
    case 1
    then show ?thesis using value_forms_self[of s ?R] assms(2) by (simp add: configuredSecrets_def)
  next
    case (2 u)
    then show ?thesis using value_forms_self[of s ?R] assms(2) by (auto simp: configuredSecrets_def Let_def)
  next
    case (3 ck)
    then show ?thesis using value_forms_self[of s ?R] assms(2)
      by (auto simp: configuredSecrets_def intro!: bexI[of _ "Some ck"])
  qed
  then show ?thesis by (auto simp: requestSecrets_def Let_def effective_header_def)
qed


section \<open>Wrapping a client\<close>

text \<open>The registry of \<^verbatim>\<open>resty/client.go\<close>, as in the Redis integration: \<open>addr\<close> is the address of a client object, an address may be
  used again when its object is gone, and \<open>hooked_clients\<close> lists the clients the hooks were added to, once per call.
  Providers that are nil are replaced by no-op ones, so \<^verbatim>\<open>Wrap\<close> has no error.\<close>

record resty_entry =
  re_ref :: nat
  re_done :: bool

record resty_registry =
  wrappedClients :: "nat \<Rightarrow> nat option"
  wrapEntries :: "resty_entry list"
  liveClients :: "nat set"
  hooked_clients :: "nat list"

definition resty_load_or_store :: "(nat \<Rightarrow> nat) \<Rightarrow> nat \<Rightarrow> resty_registry \<Rightarrow> nat \<times> resty_registry" where
  "resty_load_or_store addr rc s = (case wrappedClients s (addr rc) of
     Some e \<Rightarrow> (e, s)
   | None \<Rightarrow> (length (wrapEntries s),
       s\<lparr>wrappedClients := (wrappedClients s)(addr rc \<mapsto> length (wrapEntries s)),
         wrapEntries := wrapEntries s @ [\<lparr>re_ref = rc, re_done = False\<rparr>]\<rparr>))"

definition resty_compare_and_delete :: "nat \<Rightarrow> nat \<Rightarrow> resty_registry \<Rightarrow> resty_registry" where
  "resty_compare_and_delete key e s =
     (if wrappedClients s key = Some e then s\<lparr>wrappedClients := (wrappedClients s)(key := None)\<rparr> else s)"

text \<open>The body of the loop under the mutex of the entry: whether the loop goes on, and the registry after it.\<close>

definition resty_wrap_locked :: "(nat \<Rightarrow> nat) \<Rightarrow> nat \<Rightarrow> nat \<Rightarrow> resty_registry \<Rightarrow> bool \<times> resty_registry" where
  "resty_wrap_locked addr rc e s =
     (if wrappedClients s (addr rc) \<noteq> Some e then (True, s)
      else if \<not> (re_ref (wrapEntries s ! e) = rc \<and> rc \<in> liveClients s) then (True, resty_compare_and_delete (addr rc) e s)
      else if re_done (wrapEntries s ! e) then (False, s)
      else (False, s\<lparr>hooked_clients := hooked_clients s @ [rc],
                     wrapEntries := (wrapEntries s)[e := (wrapEntries s ! e)\<lparr>re_done := True\<rparr>]\<rparr>))"

definition resty_cleanup_locked :: "nat \<Rightarrow> nat \<Rightarrow> nat \<Rightarrow> resty_registry \<Rightarrow> resty_registry" where
  "resty_cleanup_locked key ref e s =
     (if re_ref (wrapEntries s ! e) = ref \<and> ref \<notin> liveClients s then resty_compare_and_delete key e s else s)"

datatype resty_pending = RWrap nat nat | RCleanup nat nat nat

inductive wrap_step :: "(nat \<Rightarrow> nat) \<Rightarrow> resty_registry \<times> resty_pending set \<Rightarrow> resty_registry \<times> resty_pending set \<Rightarrow> bool" for addr where
  w_new: "rc \<notin> liveClients s \<Longrightarrow> rc \<notin> set (hooked_clients s) \<Longrightarrow> rc \<notin> re_ref ` set (wrapEntries s) \<Longrightarrow> addr rc \<notin> addr ` liveClients s \<Longrightarrow>
    wrap_step addr (s, ps) (s\<lparr>liveClients := insert rc (liveClients s)\<rparr>, ps)"
| w_collect: "\<forall>e. RWrap rc e \<notin> ps \<Longrightarrow> wrap_step addr (s, ps) (s\<lparr>liveClients := liveClients s - {rc}\<rparr>, ps)"
| w_load: "rc \<in> liveClients s \<Longrightarrow> resty_load_or_store addr rc s = (e, s') \<Longrightarrow> wrap_step addr (s, ps) (s', insert (RWrap rc e) ps)"
| w_locked: "RWrap rc e \<in> ps \<Longrightarrow> resty_wrap_locked addr rc e s = (again, s') \<Longrightarrow> wrap_step addr (s, ps) (s', ps - {RWrap rc e})"
| w_cleanup_load: "ref \<notin> liveClients s \<Longrightarrow> wrappedClients s (addr ref) = Some e \<Longrightarrow>
    wrap_step addr (s, ps) (s, insert (RCleanup (addr ref) ref e) ps)"
| w_cleanup: "RCleanup key ref e \<in> ps \<Longrightarrow> wrap_step addr (s, ps) (resty_cleanup_locked key ref e s, ps - {RCleanup key ref e})"

text \<open>While a client lives, the entry that says it was hooked stays in the registry.\<close>

definition resty_registry_ok :: "(nat \<Rightarrow> nat) \<Rightarrow> resty_registry \<Rightarrow> bool" where
  "resty_registry_ok addr s \<longleftrightarrow>
     inj_on addr (liveClients s) \<and> distinct (hooked_clients s) \<and>
     (\<forall>k e. wrappedClients s k = Some e \<longrightarrow> e < length (wrapEntries s) \<and> addr (re_ref (wrapEntries s ! e)) = k) \<and>
     (\<forall>e < length (wrapEntries s). re_done (wrapEntries s ! e) \<longrightarrow> re_ref (wrapEntries s ! e) \<in> set (hooked_clients s)) \<and>
     (\<forall>rc \<in> set (hooked_clients s). rc \<in> liveClients s \<longrightarrow>
        (\<exists>e. wrappedClients s (addr rc) = Some e \<and> re_ref (wrapEntries s ! e) = rc \<and> re_done (wrapEntries s ! e)))"

lemma resty_registry_okD:
  assumes "resty_registry_ok addr s"
  shows "inj_on addr (liveClients s)" "distinct (hooked_clients s)"
    "wrappedClients s k = Some e \<Longrightarrow> e < length (wrapEntries s) \<and> addr (re_ref (wrapEntries s ! e)) = k"
    "e < length (wrapEntries s) \<Longrightarrow> re_done (wrapEntries s ! e) \<Longrightarrow> re_ref (wrapEntries s ! e) \<in> set (hooked_clients s)"
    "rc \<in> set (hooked_clients s) \<Longrightarrow> rc \<in> liveClients s \<Longrightarrow>
       \<exists>e. wrappedClients s (addr rc) = Some e \<and> re_ref (wrapEntries s ! e) = rc \<and> re_done (wrapEntries s ! e)"
  using assms unfolding resty_registry_ok_def by blast+

lemma resty_registry_okI:
  assumes "inj_on addr (liveClients s)" "distinct (hooked_clients s)"
    and "\<And>k e. wrappedClients s k = Some e \<Longrightarrow> e < length (wrapEntries s) \<and> addr (re_ref (wrapEntries s ! e)) = k"
    and "\<And>e. e < length (wrapEntries s) \<Longrightarrow> re_done (wrapEntries s ! e) \<Longrightarrow> re_ref (wrapEntries s ! e) \<in> set (hooked_clients s)"
    and "\<And>rc. rc \<in> set (hooked_clients s) \<Longrightarrow> rc \<in> liveClients s \<Longrightarrow>
       \<exists>e. wrappedClients s (addr rc) = Some e \<and> re_ref (wrapEntries s ! e) = rc \<and> re_done (wrapEntries s ! e)"
  shows "resty_registry_ok addr s"
  using assms unfolding resty_registry_ok_def by blast

text \<open>An entry of a client that is gone can be removed: no live client was hooked through it.\<close>

lemma resty_drop_ok:
  assumes ok: "resty_registry_ok addr s" and gone: "wrappedClients s key = Some e \<Longrightarrow> re_ref (wrapEntries s ! e) \<notin> liveClients s"
  shows "resty_registry_ok addr (resty_compare_and_delete key e s)"
proof (cases "wrappedClients s key = Some e")
  case True
  let ?t = "s\<lparr>wrappedClients := (wrappedClients s)(key := None)\<rparr>"
  have "\<exists>e'. wrappedClients ?t (addr rc) = Some e' \<and> re_ref (wrapEntries s ! e') = rc \<and> re_done (wrapEntries s ! e')"
    if rc: "rc \<in> set (hooked_clients s)" "rc \<in> liveClients s" for rc
  proof -
    obtain e' where e': "wrappedClients s (addr rc) = Some e'" "re_ref (wrapEntries s ! e') = rc" "re_done (wrapEntries s ! e')"
      using resty_registry_okD(5)[OF ok rc] by blast
    then have "addr rc \<noteq> key" using gone[OF True] True rc(2) by auto
    then show ?thesis using e' by auto
  qed
  then have "resty_registry_ok addr ?t"
    using ok unfolding resty_registry_ok_def by auto
  then show ?thesis using True by (simp add: resty_compare_and_delete_def)
qed (simp add: resty_compare_and_delete_def ok)

lemma resty_load_ok:
  assumes ok: "resty_registry_ok addr s" and load: "resty_load_or_store addr rc s = (e, s')"
  shows "resty_registry_ok addr s'"
proof (cases "wrappedClients s (addr rc)")
  case None
  let ?n = "length (wrapEntries s)" and ?en = "\<lparr>re_ref = rc, re_done = False\<rparr>"
  have s': "s' = s\<lparr>wrappedClients := (wrappedClients s)(addr rc \<mapsto> ?n), wrapEntries := wrapEntries s @ [?en]\<rparr>"
    using load None by (auto simp: resty_load_or_store_def)
  have "\<exists>e. wrappedClients s' (addr c) = Some e \<and> re_ref (wrapEntries s' ! e) = c \<and> re_done (wrapEntries s' ! e)"
    if c: "c \<in> set (hooked_clients s)" "c \<in> liveClients s" for c
  proof -
    obtain e where e: "wrappedClients s (addr c) = Some e" "re_ref (wrapEntries s ! e) = c" "re_done (wrapEntries s ! e)"
      using resty_registry_okD(5)[OF ok c] by blast
    then have "addr c \<noteq> addr rc" "e < ?n" using None resty_registry_okD(3)[OF ok e(1)] by auto
    then show ?thesis using e by (auto simp: s' nth_append)
  qed
  moreover have "e < length (wrapEntries s') \<and> addr (re_ref (wrapEntries s' ! e)) = k" if "wrappedClients s' k = Some e" for k e
    using that resty_registry_okD(3)[OF ok, of k e] by (auto simp: s' nth_append split: if_splits)
  moreover have "re_ref (wrapEntries s' ! i) \<in> set (hooked_clients s)" if "i < length (wrapEntries s')" "re_done (wrapEntries s' ! i)" for i
    using that resty_registry_okD(4)[OF ok, of i] by (auto simp: s' nth_append split: if_splits)
  ultimately show ?thesis using resty_registry_okD(1,2)[OF ok] unfolding resty_registry_ok_def by (simp add: s')
qed (use ok load in \<open>auto simp: resty_load_or_store_def\<close>)

lemma resty_wrap_locked_ok:
  assumes ok: "resty_registry_ok addr s" and live: "rc \<in> liveClients s"
  shows "resty_registry_ok addr (snd (resty_wrap_locked addr rc e s))"
proof -
  consider "wrappedClients s (addr rc) \<noteq> Some e" | "wrappedClients s (addr rc) = Some e" "re_ref (wrapEntries s ! e) \<noteq> rc"
    | "wrappedClients s (addr rc) = Some e" "re_ref (wrapEntries s ! e) = rc" "re_done (wrapEntries s ! e)"
    | "wrappedClients s (addr rc) = Some e" "re_ref (wrapEntries s ! e) = rc" "\<not> re_done (wrapEntries s ! e)" by blast
  then show ?thesis
  proof cases
    case 2
    have "re_ref (wrapEntries s ! e) \<notin> liveClients s"
      using 2 resty_registry_okD(1)[OF ok] resty_registry_okD(3)[OF ok 2(1)] live by (auto dest: inj_onD)
    then have "resty_registry_ok addr (resty_compare_and_delete (addr rc) e s)" by (intro resty_drop_ok[OF ok])
    then show ?thesis using 2 by (simp add: resty_wrap_locked_def)
  next
    case 4
    let ?t = "s\<lparr>hooked_clients := hooked_clients s @ [rc], wrapEntries := (wrapEntries s)[e := (wrapEntries s ! e)\<lparr>re_done := True\<rparr>]\<rparr>"
    have e: "e < length (wrapEntries s)" using resty_registry_okD(3)[OF ok 4(1)] by simp
    have refs: "re_ref (wrapEntries ?t ! i) = re_ref (wrapEntries s ! i)" for i
      by (cases "i = e"; cases "e < length (wrapEntries s)") (auto simp: list_update_beyond)
    have dones: "re_done (wrapEntries ?t ! i) \<longleftrightarrow> i = e \<or> re_done (wrapEntries s ! i)" for i
      using e by (cases "i = e") auto
    have new: "rc \<notin> set (hooked_clients s)" using resty_registry_okD(5)[OF ok _ live] 4 by auto
    have "resty_registry_ok addr ?t"
    proof (rule resty_registry_okI)
      fix k i assume "wrappedClients ?t k = Some i"
      then show "i < length (wrapEntries ?t) \<and> addr (re_ref (wrapEntries ?t ! i)) = k"
        unfolding refs using resty_registry_okD(3)[OF ok, of k i] by simp
    next
      fix i assume "i < length (wrapEntries ?t)" "re_done (wrapEntries ?t ! i)"
      then show "re_ref (wrapEntries ?t ! i) \<in> set (hooked_clients ?t)"
        unfolding refs dones using resty_registry_okD(4)[OF ok, of i] 4(2) by auto
    next
      fix c assume "c \<in> set (hooked_clients ?t)" "c \<in> liveClients ?t"
      then show "\<exists>i. wrappedClients ?t (addr c) = Some i \<and> re_ref (wrapEntries ?t ! i) = c \<and> re_done (wrapEntries ?t ! i)"
        unfolding refs dones using resty_registry_okD(5)[OF ok, of c] 4(1,2) by auto
    qed (use resty_registry_okD(1,2)[OF ok] new in auto)
    then show ?thesis using 4 live by (simp add: resty_wrap_locked_def)
  qed (use ok live in \<open>auto simp: resty_wrap_locked_def\<close>)
qed

lemma wrap_step_ok:
  assumes "wrap_step addr sp sp'" "resty_registry_ok addr (fst sp)" "\<forall>rc e. RWrap rc e \<in> snd sp \<longrightarrow> rc \<in> liveClients (fst sp)"
  shows "resty_registry_ok addr (fst sp') \<and> (\<forall>rc e. RWrap rc e \<in> snd sp' \<longrightarrow> rc \<in> liveClients (fst sp'))"
  using assms
proof (induction rule: wrap_step.induct)
  case (w_new rc s ps)
  then have "resty_registry_ok addr (s\<lparr>liveClients := insert rc (liveClients s)\<rparr>)"
    unfolding resty_registry_ok_def by (auto simp: inj_on_insert)
  then show ?case using w_new by auto
next
  case (w_collect rc ps s)
  then have "resty_registry_ok addr (s\<lparr>liveClients := liveClients s - {rc}\<rparr>)"
    unfolding resty_registry_ok_def by (auto intro: inj_on_subset)
  then show ?case using w_collect by auto
next
  case (w_load rc s e s' ps)
  have "liveClients s' = liveClients s" using w_load(2) by (auto simp: resty_load_or_store_def split: option.splits)
  then show ?case using w_load resty_load_ok[OF _ w_load(2)] by auto
next
  case (w_locked rc e ps s again s')
  have "liveClients s' = liveClients s"
    using w_locked(2) by (auto simp: resty_wrap_locked_def resty_compare_and_delete_def split: if_splits)
  moreover have "rc \<in> liveClients s" using w_locked by auto
  ultimately show ?case using w_locked resty_wrap_locked_ok[of addr s rc e] by auto
next
  case (w_cleanup_load ref s e ps)
  then show ?case by auto
next
  case (w_cleanup key ref e ps s)
  have "resty_registry_ok addr (resty_cleanup_locked key ref e s)"
    using w_cleanup by (auto simp: resty_cleanup_locked_def intro: resty_drop_ok)
  moreover have "liveClients (resty_cleanup_locked key ref e s) = liveClients s"
    by (simp add: resty_cleanup_locked_def resty_compare_and_delete_def)
  ultimately show ?case using w_cleanup by auto
qed

definition resty_registry_init :: resty_registry where
  "resty_registry_init = \<lparr>wrappedClients = (\<lambda>_. None), wrapEntries = [], liveClients = {}, hooked_clients = []\<rparr>"

lemma wrap_reachable_ok:
  assumes "(wrap_step addr)\<^sup>*\<^sup>* (resty_registry_init, {}) sp"
  shows "resty_registry_ok addr (fst sp) \<and> (\<forall>rc e. RWrap rc e \<in> snd sp \<longrightarrow> rc \<in> liveClients (fst sp))"
  using assms
proof (induction rule: rtranclp_induct)
  case base
  then show ?case by (simp add: resty_registry_ok_def resty_registry_init_def)
next
  case (step sp sp')
  then show ?case using wrap_step_ok by blast
qed

text \<open>The hooks are added to a client at most once, however calls of \<^verbatim>\<open>Wrap\<close>, collections and cleanups interleave.\<close>

theorem resty_client_hooked_once:
  assumes "(wrap_step addr)\<^sup>*\<^sup>* (resty_registry_init, {}) (s, ps)"
  shows "distinct (hooked_clients s)"
  using wrap_reachable_ok[OF assms] by (auto dest: resty_registry_okD(2))

text \<open>\<^verbatim>\<open>Wrap\<close> without interference; the loop has returned after at most two rounds.\<close>

fun resty_wrap_loop :: "nat \<Rightarrow> (nat \<Rightarrow> nat) \<Rightarrow> nat \<Rightarrow> resty_registry \<Rightarrow> resty_registry option" where
  "resty_wrap_loop 0 addr rc s = None"
| "resty_wrap_loop (Suc fuel) addr rc s =
     (let (e, s) = resty_load_or_store addr rc s; (again, s) = resty_wrap_locked addr rc e s
      in if again then resty_wrap_loop fuel addr rc s else Some s)"

lemma resty_wrap_fresh:
  assumes "wrappedClients s (addr rc) = None" "rc \<in> liveClients s"
  shows "\<exists>s'. resty_wrap_loop (Suc n) addr rc s = Some s' \<and> rc \<in> set (hooked_clients s')"
  using assms by (simp add: resty_load_or_store_def resty_wrap_locked_def)

theorem resty_wrap_returns:
  assumes "(wrap_step addr)\<^sup>*\<^sup>* (resty_registry_init, {}) (s, ps)" "rc \<in> liveClients s"
  shows "\<exists>s'. resty_wrap_loop 2 addr rc s = Some s' \<and> rc \<in> set (hooked_clients s')"
proof (cases "wrappedClients s (addr rc)")
  case None
  then show ?thesis using resty_wrap_fresh[of s addr rc 1] assms(2) by (simp add: numeral_2_eq_2)
next
  case (Some e)
  have ok: "resty_registry_ok addr s" using wrap_reachable_ok[OF assms(1)] by simp
  have l: "resty_load_or_store addr rc s = (e, s)" using Some by (simp add: resty_load_or_store_def)
  show ?thesis
  proof (cases "re_ref (wrapEntries s ! e) = rc")
    case True
    then show ?thesis
      using Some assms(2) resty_registry_okD(3,4)[OF ok] by (auto simp: numeral_2_eq_2 l resty_wrap_locked_def)
  next
    case False
    let ?t = "resty_compare_and_delete (addr rc) e s"
    have "resty_wrap_locked addr rc e s = (True, ?t)" using Some False by (simp add: resty_wrap_locked_def)
    then have "resty_wrap_loop 2 addr rc s = resty_wrap_loop (Suc 0) addr rc ?t" by (simp add: numeral_2_eq_2 l)
    then show ?thesis
      using resty_wrap_fresh[of ?t addr rc 0] Some assms(2) by (simp add: resty_compare_and_delete_def)
  qed
qed

section \<open>Concrete runs\<close>

definition demo_resty :: "unit resty_env" where
  "demo_resty = \<lparr>re_redact = demo_env, Hostname = (\<lambda>_. []), Port = (\<lambda>_. []), ResolveReference = (\<lambda>_ u. u),
     re_errors = (\<lambda>_. \<lparr>nil_pointer = False, go_type = ''E'', rendering = Some ''token hunter22 refused'', url_of = [], unwrap = NoUnwrap\<rparr>),
     re_newError = 0\<rparr>"

definition demo_hook :: "unit resty_hook" where
  "demo_hook = \<lparr>rh_cfg = resty_newConfig [], tracer_ctx = (\<lambda>c. c), inject = (\<lambda>_ hs. hs)\<rparr>"

definition demo_request :: "unit resty_request" where
  "demo_request = \<lparr>rq_context = \<lparr>cx_route = None, cx_span = False, cx_state = None\<rparr>, rq_method = ''get'', rq_url = ''/p'', rq_attempt = 1,
     rq_header = [], rq_authScheme = ''Bearer'', rq_token = ''hunter22'', rq_userInfo = None, rq_cookies = [], rq_raw = None\<rparr>"

definition demo_client :: "unit resty_client" where
  "demo_client = \<lparr>RetryCount = 0, BaseURL = [], HostURL = [], rc_header = [], HeaderAuthorizationKey = [], rc_authScheme = [],
     rc_token = [], rc_userInfo = None, rc_cookies = [], rc_httpClient = None\<rparr>"

definition demo_open :: "unit resty_world" where
  "demo_open = beforeRequest demo_resty demo_hook demo_client 0 5 (resty_init\<lparr>requests := requests resty_init @ [demo_request]\<rparr>)"

definition demo_closed :: "unit resty_world" where
  "demo_closed = success demo_resty demo_hook None (Some \<lparr>rs_request = Some 0, rs_statusCode = 200, rs_status = ''200 OK''\<rparr>) 9 demo_open"

theorem resty_attempt_ends_once_witness:
  "length (filter (ends 0) (emitted demo_closed)) = 1 \<and> length (filter (measures_attempt 0) (emitted demo_closed)) = 1"
proof -
  have a: "resty_step demo_resty demo_hook resty_init (resty_init\<lparr>requests := requests resty_init @ [demo_request]\<rparr>)"
    by (rule resty_step.new_request) (simp add: context_ok_def demo_request_def)
  have b: "resty_step demo_resty demo_hook (resty_init\<lparr>requests := requests resty_init @ [demo_request]\<rparr>) demo_open"
    unfolding demo_open_def by (rule resty_step.before) (simp add: resty_init_def)
  have c: "resty_step demo_resty demo_hook demo_open demo_closed"
    unfolding demo_closed_def by (rule resty_step.on_success) (simp add: response_ok_def request_ok_def demo_open_def beforeRequest_def resty_init_def Let_def)
  have r: "(resty_step demo_resty demo_hook)\<^sup>*\<^sup>* resty_init demo_closed"
    using a b c by (meson rtranclp.rtrancl_into_rtrancl rtranclp.rtrancl_refl)
  have "0 < length (states demo_closed) \<and> st_finished (states demo_closed ! 0)" by code_simp
  then show ?thesis using resty_attempt_ends_once[OF r, of 0] by simp
qed


end
