(* ===== verification/Web.thy ===== *)
theory Web
  imports GoStd RedactUrl "HOL-Library.Word"
begin

text \<open>
  The HTTP side (\<^verbatim>\<open>gin/errors.go\<close>, \<^verbatim>\<open>middleware.go\<close>, \<^verbatim>\<open>options.go\<close>, \<^verbatim>\<open>http/server.go\<close>, \<^verbatim>\<open>transport.go\<close>, \<^verbatim>\<open>options.go\<close>) and \<^verbatim>\<open>obsctx/obsctx.go\<close>: the gin middleware chain with its
  filters and the recording of gin's errors, the server and transport facades, and contexts that outlive a request.

  gin, \<^verbatim>\<open>otelgin\<close> and \<^verbatim>\<open>otelhttp\<close> are parameters; what the chain relies on of \<^verbatim>\<open>otelgin\<close> is the hypothesis \<open>otelgin_contract\<close>.
\<close>

unbundle bit_operations_syntax

section \<open>Error types of gin\<close>

record gin_types =
  ErrorTypeBind :: "64 word"
  ErrorTypeRender :: "64 word"
  ErrorTypePrivate :: "64 word"
  ErrorTypePublic :: "64 word"
  ErrorTypeAny :: "64 word"

definition known_types :: "gin_types \<Rightarrow> (64 word \<times> string) list" where
  "known_types G = [(ErrorTypeBind G, ''bind''), (ErrorTypeRender G, ''render''), (ErrorTypePrivate G, ''private''), (ErrorTypePublic G, ''public'')]"

fun name_bits :: "(64 word \<times> string) list \<Rightarrow> 64 word \<Rightarrow> string list \<times> 64 word" where
  "name_bits [] t = ([], t)"
| "name_bits ((k, n) # rest) t =
     (if t AND k \<noteq> 0 then (case name_bits rest (t AND NOT k) of (names, r) \<Rightarrow> (n # names, r)) else name_bits rest t)"

definition ginErrorTypeString :: "gin_types \<Rightarrow> 64 word \<Rightarrow> string" where
  "ginErrorTypeString G t =
     (if t = ErrorTypeAny G then ''any''
      else case name_bits (known_types G) t of (names, r) \<Rightarrow>
        let all = names @ (if r \<noteq> 0 then [''unknown:'' @ dec_digits (unat r)] else [])
        in if all = [] then ''unknown:0'' else join ''|'' all)"

section \<open>The chain\<close>

record gin_error =
  ge_err :: "string option"
  ge_type :: "64 word"

text \<open>A gin context: the keys set on it, the request path, the span of the request's context, which spans record, the errors and the status the
  handlers left, and what was recorded: exception events and failed spans.  \<open>gc_world\<close> is what filters may depend on and change.\<close>

record 'w gin_ctx =
  gc_keys :: "nat list"
  gc_path :: string
  gc_span :: nat
  gc_recording :: "nat \<Rightarrow> bool"
  gc_errors :: "gin_error list"
  gc_status :: int
  gc_events :: "(nat \<times> string \<times> string) list"
  gc_failed :: "(nat \<times> string) list"
  gc_world :: 'w

type_synonym 'w gin_next = "'w gin_ctx \<Rightarrow> 'w gin_ctx"
type_synonym 'w gin_filter = "string \<Rightarrow> 'w \<Rightarrow> bool \<times> 'w"

definition typed_events :: "gin_types \<Rightarrow> nat \<Rightarrow> gin_error list \<Rightarrow> (nat \<times> string \<times> string) list" where
  "typed_events G sp errs = concat (map (\<lambda>ge. case ge_err ge of Some t \<Rightarrow> [(sp, t, ginErrorTypeString G (ge_type ge))] | None \<Rightarrow> []) errs)"

definition recordTypedExceptions :: "gin_types \<Rightarrow> nat \<Rightarrow> gin_error list \<Rightarrow> 'w gin_ctx \<Rightarrow> 'w gin_ctx" where
  "recordTypedExceptions G sp errs c = c\<lparr>gc_events := gc_events c @ typed_events G sp errs\<rparr>"

definition lastError :: "gin_error list \<Rightarrow> string option" where
  "lastError errs = (case find (\<lambda>ge. ge_err ge \<noteq> None) (rev errs) of Some ge \<Rightarrow> ge_err ge | None \<Rightarrow> None)"

definition ErrorRecorder :: "gin_types \<Rightarrow> 'w gin_next \<Rightarrow> 'w gin_next" where
  "ErrorRecorder G handlers c0 =
     (let c = handlers c0 in
      if length (gc_errors c) = 0 then c
      else if \<not> gc_recording c (gc_span c) then c
      else let c1 = recordTypedExceptions G (gc_span c) (gc_errors c) c
        in case lastError (gc_errors c) of
             Some t \<Rightarrow> if gc_status c \<ge> 500 then c1\<lparr>gc_failed := gc_failed c1 @ [(gc_span c, t)]\<rparr> else c1
           | None \<Rightarrow> c1)"

definition after_handlers :: "gin_types \<Rightarrow> nat \<Rightarrow> 'w gin_ctx \<Rightarrow> 'w gin_ctx" where
  "after_handlers G sp c = (if length (gc_errors c) > 0 \<and> gc_recording c sp then recordTypedExceptions G sp (gc_errors c) c else c)"

definition chainErrors :: "gin_types \<Rightarrow> nat option \<Rightarrow> 'w gin_next \<Rightarrow> 'w gin_next" where
  "chainErrors G tracedKey handlers c = (case tracedKey of
     None \<Rightarrow> after_handlers G (gc_span c) (handlers c)
   | Some k \<Rightarrow>
     let traced = k \<in> set (gc_keys c);
         c1 = c\<lparr>gc_keys := removeAll k (gc_keys c)\<rparr>
     in if \<not> traced then handlers c1 else after_handlers G (gc_span c1) (handlers c1))"

fun run_filters :: "'w gin_filter list \<Rightarrow> 'w gin_ctx \<Rightarrow> bool \<times> 'w gin_ctx" where
  "run_filters [] c = (True, c)"
| "run_filters (f # fs) c = (case f (gc_path c) (gc_world c) of (ok, w) \<Rightarrow>
     if ok then run_filters fs (c\<lparr>gc_world := w\<rparr>) else (False, c\<lparr>gc_world := w\<rparr>))"

definition chain_filter :: "nat \<Rightarrow> 'w gin_filter list \<Rightarrow> 'w gin_ctx \<Rightarrow> bool \<times> 'w gin_ctx" where
  "chain_filter k fs c = (case run_filters fs c of (ok, c1) \<Rightarrow>
     if ok then (True, c1\<lparr>gc_keys := List.insert k (gc_keys c1)\<rparr>) else (False, c1))"

record ('o, 'w) ginOptions =
  gin_otel :: "'o list"
  gin_filters :: "'w gin_filter list"

text \<open>\<open>fresh\<close> is the key the chain allocates; \<open>otelgin\<close> is given the options, the chain's gin filter, if any, and the rest of the handlers.\<close>

definition Middleware ::
  "gin_types \<Rightarrow> ('o list \<Rightarrow> ('w gin_ctx \<Rightarrow> bool \<times> 'w gin_ctx) option \<Rightarrow> 'w gin_next \<Rightarrow> 'w gin_next) \<Rightarrow> 'o list \<Rightarrow> nat \<Rightarrow> ('o, 'w) ginOptions \<Rightarrow>
     'w gin_next \<Rightarrow> 'w gin_next" where
  "Middleware G otelgin providers fresh options handlers =
     (let base = providers @ gin_otel options
      in if length (gin_filters options) > 0
         then otelgin base (Some (chain_filter fresh (gin_filters options))) (chainErrors G (Some fresh) handlers)
         else otelgin base None (chainErrors G None handlers))"

section \<open>Options of the chain\<close>

definition gin_WithFilter :: "'w gin_filter list \<Rightarrow> ('o, 'w) ginOptions \<Rightarrow> ('o, 'w) ginOptions" where
  "gin_WithFilter fs opts = opts\<lparr>gin_filters := gin_filters opts @ fs\<rparr>"

text \<open>\<^verbatim>\<open>WithSpanNameFormatter\<close> and \<^verbatim>\<open>WithMetricAttributesFn\<close> append an option of \<^verbatim>\<open>otelgin\<close>.\<close>

definition with_otel_option :: "'o \<Rightarrow> ('o, 'w) ginOptions \<Rightarrow> ('o, 'w) ginOptions" where
  "with_otel_option opt opts = opts\<lparr>gin_otel := gin_otel opts @ [opt]\<rparr>"

definition applyOptions :: "(('o, 'w) ginOptions \<Rightarrow> ('o, 'w) ginOptions) option list \<Rightarrow> ('o, 'w) ginOptions" where
  "applyOptions options = foldl (\<lambda>opts opt. case opt of Some f \<Rightarrow> f opts | None \<Rightarrow> opts) \<lparr>gin_otel = [], gin_filters = []\<rparr> options"

definition DefaultSkipPaths :: "string list" where
  "DefaultSkipPaths = [''/health'', ''/healthz'', ''/livez'', ''/readyz'', ''/metrics'', ''/ping'', ''/ready'', ''/live'']"

definition WithSkipPathPrefixes :: "string list \<Rightarrow> string list \<Rightarrow> string list" where
  "WithSkipPathPrefixes pres cfg = cfg @ pres"

definition skip_filter :: "(string list \<Rightarrow> string list) option list \<Rightarrow> 'w gin_filter" where
  "skip_filter opts path w =
     (let cfg = foldl (\<lambda>cfg opt. case opt of Some f \<Rightarrow> f cfg | None \<Rightarrow> cfg) [] opts;
          pres = filter (\<lambda>p. p \<noteq> []) cfg
      in (\<not> (path \<in> set DefaultSkipPaths \<or> list_ex (\<lambda>p. prefix p path) pres), w))"

definition WithSkipPaths :: "(string list \<Rightarrow> string list) option list \<Rightarrow> ('o, 'w) ginOptions \<Rightarrow> ('o, 'w) ginOptions" where
  "WithSkipPaths opts = gin_WithFilter [skip_filter opts]"

section \<open>Servers and transports\<close>

definition defaultServerSpanName :: "string \<Rightarrow> string \<Rightarrow> string" where
  "defaultServerSpanName http_method pattern =
     (if pattern = [] then http_method else if contains pattern '' '' then pattern else http_method @ '' '' @ pattern)"

datatype 'o http_option = ServerDefault "string \<Rightarrow> string \<Rightarrow> string" | GivenOption 'o

definition NewServerHandler :: "(string \<Rightarrow> 'o http_option list \<Rightarrow> 'h) \<Rightarrow> 'o list \<Rightarrow> 'o list \<Rightarrow> 'h" where
  "NewServerHandler newHandler providers opts =
     newHandler ''http.server'' (map GivenOption providers @ [ServerDefault defaultServerSpanName] @ map GivenOption opts)"

definition http_NewTransport :: "('t \<Rightarrow> 'o list \<Rightarrow> 't) \<Rightarrow> 't \<Rightarrow> 't option \<Rightarrow> 'o list \<Rightarrow> 'o list \<Rightarrow> 't" where
  "http_NewTransport newTransport defaultTransport base providers opts =
     newTransport (case base of Some b \<Rightarrow> b | None \<Rightarrow> defaultTransport) (providers @ opts)"

section \<open>Contexts that outlive a request\<close>

record 'v go_ctx =
  cx_values :: 'v
  cx_err :: "string option"
  cx_deadline :: "nanos option"

definition Detach :: "'v go_ctx \<Rightarrow> 'v go_ctx" where
  "Detach c = c\<lparr>cx_err := None, cx_deadline := None\<rparr>"

text \<open>\<^verbatim>\<open>context.WithTimeout\<close> on a context that has no deadline and is not done.\<close>

definition DetachWithTimeout :: "'v go_ctx \<Rightarrow> int \<Rightarrow> nanos \<Rightarrow> 'v go_ctx" where
  "DetachWithTimeout c timeout now =
     (Detach c)\<lparr>cx_deadline := Some (now + timeout), cx_err := (if timeout \<le> 0 then Some ''context deadline exceeded'' else None)\<rparr>"

text \<open>The function panics with a value or not.  The outcome of the goroutine: the state it left, the panic that was logged, and whether the context was cancelled.\<close>

definition Go :: "'v go_ctx \<Rightarrow> int \<Rightarrow> nanos \<Rightarrow> ('v go_ctx \<Rightarrow> 'w \<Rightarrow> string option \<times> 'w) option \<Rightarrow> 'w \<Rightarrow> 'w \<times> string list \<times> bool" where
  "Go reqCtx timeout now fn w = (case fn of None \<Rightarrow> (w, [], False)
     | Some f \<Rightarrow> (case f (DetachWithTimeout reqCtx timeout now) w of (panic, w') \<Rightarrow>
         (w', case panic of Some p \<Rightarrow> [''obsctx: recovered panic in background work panic='' @ p] | None \<Rightarrow> [], True)))"

section \<open>The type of an error can be read back\<close>

definition one_bit :: "64 word \<Rightarrow> bool" where
  "one_bit k \<longleftrightarrow> (\<exists>i < 64. k = push_bit i 1)"

definition type_value :: "(64 word \<times> string) list \<Rightarrow> string \<Rightarrow> 64 word" where
  "type_value table part = (case find (\<lambda>e. snd e = part) table of Some (k, _) \<Rightarrow> k
     | None \<Rightarrow> (case dec_value 0 (drop (length ''unknown:'') part) of Some n \<Rightarrow> word_of_int n | None \<Rightarrow> 0))"

definition read_type :: "gin_types \<Rightarrow> string \<Rightarrow> 64 word" where
  "read_type G s = (if s = ''any'' then ErrorTypeAny G
     else foldr (\<lambda>part t. type_value (known_types G) part OR t) (split_byte CHR ''|'' s) 0)"

lemma one_bit_part:
  assumes "one_bit k" "t AND k \<noteq> 0"
  shows "k OR (t AND NOT k) = t"
proof -
  from assms(1) obtain i where i: "k = push_bit i 1" "i < 64" by (auto simp: one_bit_def)
  have k: "bit k j \<longleftrightarrow> j = i" for j using i by (auto simp: bit_push_bit_iff bit_1_iff simp del: push_bit_of_1)
  from assms(2) obtain j where "bit (t AND k) j" by (auto simp: bit_eq_iff)
  then have "bit t i" using k by (auto simp: bit_and_iff)
  then show ?thesis by (intro bit_word_eqI) (auto simp: bit_or_iff bit_and_iff bit_not_iff k)
qed

lemma name_bits_recovers:
  assumes "list_all (\<lambda>e. one_bit (fst e)) table" "name_bits table t = (names, r)" "\<And>k n. (k, n) \<in> set table \<Longrightarrow> val n = k"
  shows "foldr (\<lambda>n t. val n OR t) names r = t"
  using assms
proof (induction table t arbitrary: names r rule: name_bits.induct)
  case (2 k n rest t)
  show ?case
  proof (cases "t AND k \<noteq> 0")
    case True
    then obtain names' where n: "name_bits rest (t AND NOT k) = (names', r)" "names = n # names'"
      using 2(4) by (auto split: prod.splits)
    have "foldr (\<lambda>n t. val n OR t) names' r = t AND NOT k" using 2(1)[OF True _ n(1)] 2(3,5) by auto
    moreover have "val n = k" using 2(5) by simp
    ultimately show ?thesis using one_bit_part[OF _ True] 2(3) by (simp add: n(2))
  next
    case False
    then show ?thesis using 2(2)[OF False] 2(3-5) by auto
  qed
qed simp

lemma name_bits_names: "name_bits table t = (names, r) \<Longrightarrow> set names \<subseteq> snd ` set table"
proof (induction table t arbitrary: names r rule: name_bits.induct)
  case (2 k n rest t)
  then show ?case by (force split: if_splits prod.splits)
qed simp

lemma type_value_known: "(k, n) \<in> set (known_types G) \<Longrightarrow> type_value (known_types G) n = k"
  by (auto simp: known_types_def type_value_def)

lemma type_value_unknown: "type_value (known_types G) (''unknown:'' @ dec_digits n) = word_of_nat n"
  by (simp add: type_value_def known_types_def dec_digits_value)

definition gin_bits :: "gin_types \<Rightarrow> bool" where
  "gin_bits G \<longleftrightarrow> one_bit (ErrorTypeBind G) \<and> one_bit (ErrorTypeRender G) \<and> one_bit (ErrorTypePrivate G) \<and> one_bit (ErrorTypePublic G)"

lemma known_no_bar: "n \<in> snd ` set (known_types G) \<Longrightarrow> CHR ''|'' \<notin> set n \<and> n \<noteq> ''any''"
  by (auto simp: known_types_def)

lemma digits_no_bar: "CHR ''|'' \<notin> set (dec_digits n)"
  using dec_digits_digit by (fastforce simp: is_digit_def)

definition type_parts :: "gin_types \<Rightarrow> 64 word \<Rightarrow> string list" where
  "type_parts G t = (case name_bits (known_types G) t of (names, r) \<Rightarrow> names @ (if r \<noteq> 0 then [''unknown:'' @ dec_digits (unat r)] else []))"

lemma type_parts_value:
  assumes "gin_bits G"
  shows "foldr (\<lambda>n t. type_value (known_types G) n OR t) (type_parts G t) 0 = t"
proof -
  obtain names r where nr: "name_bits (known_types G) t = (names, r)" by fastforce
  have "list_all (\<lambda>e. one_bit (fst e)) (known_types G)" using assms by (simp add: known_types_def gin_bits_def)
  from name_bits_recovers[OF this nr] have names: "foldr (\<lambda>n t. type_value (known_types G) n OR t) names r = t"
    using type_value_known by blast
  show ?thesis
  proof (cases "r = 0")
    case True
    then show ?thesis using names by (simp add: type_parts_def nr)
  next
    case False
    then show ?thesis using names type_value_unknown[of G "unat r"] by (simp add: type_parts_def nr)
  qed
qed

lemma type_parts_plain: "p \<in> set (type_parts G t) \<Longrightarrow> CHR ''|'' \<notin> set p \<and> p \<noteq> ''any''"
proof -
  assume p: "p \<in> set (type_parts G t)"
  obtain names r where nr: "name_bits (known_types G) t = (names, r)" by fastforce
  from p have "p \<in> set names \<or> p = ''unknown:'' @ dec_digits (unat r)" by (auto simp: type_parts_def nr split: if_splits)
  then show ?thesis
  proof
    assume "p \<in> set names"
    then show ?thesis using known_no_bar name_bits_names[OF nr] by blast
  qed (use digits_no_bar in auto)
qed

text \<open>C19. The classification of a gin error loses nothing: from the text that is recorded the bit mask can be read back, whatever
  combination of known and unknown bits it holds, provided the four known types are single bits.\<close>

theorem gin_error_type_roundtrip:
  assumes "gin_bits G"
  shows "read_type G (ginErrorTypeString G t) = t"
proof (cases "t = ErrorTypeAny G")
  case True
  then show ?thesis by (simp add: ginErrorTypeString_def read_type_def)
next
  case False
  let ?parts = "type_parts G t"
  have str: "ginErrorTypeString G t = (if ?parts = [] then ''unknown:0'' else join ''|'' ?parts)"
    using False by (simp add: ginErrorTypeString_def type_parts_def Let_def split: prod.split)
  note val = type_parts_value[OF assms, of t]
  show ?thesis
  proof (cases "?parts = []")
    case True
    have "dec_digits 0 = ''0''" by code_simp
    then have "type_value (known_types G) ''unknown:0'' = 0" using type_value_unknown[of G 0] by simp
    then show ?thesis using str True val by (simp add: read_type_def)
  next
    case ne: False
    have split: "split_byte CHR ''|'' (join ''|'' ?parts) = ?parts"
      using type_parts_plain by (intro split_byte_join[OF ne]) (auto simp: list_all_iff)
    have "join ''|'' ?parts \<noteq> ''any''"
    proof
      assume "join ''|'' ?parts = ''any''"
      then have "?parts = [''any'']" using split by simp
      then show False using type_parts_plain by (metis list.set_intros(1))
    qed
    then show ?thesis using str ne by (simp add: read_type_def split val)
  qed
qed

text \<open>The constants of gin: private and public are the two lowest bits, render and bind the two highest.\<close>

definition gin_constants :: gin_types where
  "gin_constants = \<lparr>ErrorTypeBind = push_bit 63 1, ErrorTypeRender = push_bit 62 1, ErrorTypePrivate = push_bit 0 1, ErrorTypePublic = push_bit 1 1,
     ErrorTypeAny = - 1\<rparr>"

theorem gin_error_type_roundtrip_witness: "read_type gin_constants (ginErrorTypeString gin_constants 6) = 6"
proof (rule gin_error_type_roundtrip)
  have b: "one_bit (push_bit i 1)" if "i < 64" for i using that by (auto simp: one_bit_def)
  show "gin_bits gin_constants" unfolding gin_bits_def gin_constants_def gin_types.select_convs by (intro conjI b) simp_all
qed

section \<open>One answer per request\<close>

text \<open>\<^verbatim>\<open>otelgin\<close> asks its filter once; a request it excludes goes on without a span, any other one goes on with the new span in its context, and afterwards
  \<^verbatim>\<open>otelgin\<close> closes the span, which records no exception event.\<close>

definition otelgin_contract :: "('o list \<Rightarrow> ('w gin_ctx \<Rightarrow> bool \<times> 'w gin_ctx) option \<Rightarrow> 'w gin_next \<Rightarrow> 'w gin_next) \<Rightarrow> nat \<Rightarrow> ('o list \<Rightarrow> 'w gin_next) \<Rightarrow> bool" where
  "otelgin_contract otelgin sp close \<longleftrightarrow>
     (\<forall>base filt handlers c. otelgin base filt handlers c =
        (case (case filt of Some f \<Rightarrow> f c | None \<Rightarrow> (True, c)) of (ok, c1) \<Rightarrow>
           if ok then close base (handlers (c1\<lparr>gc_span := sp\<rparr>)) else handlers c1)) \<and>
     (\<forall>base c. gc_events (close base c) = gc_events c)"

lemma run_filters_only_world: "snd (run_filters fs c) = c\<lparr>gc_world := gc_world (snd (run_filters fs c))\<rparr>"
  by (induction fs c rule: run_filters.induct) (auto split: prod.split)

lemma run_filters_keeps: "gc_keys (snd (run_filters fs c)) = gc_keys c" "gc_path (snd (run_filters fs c)) = gc_path c"
  by (subst run_filters_only_world; simp)+

lemma removeAll_insert_fresh: "k \<notin> set xs \<Longrightarrow> removeAll k (List.insert k xs) = xs"
  by (simp add: List.insert_def removeAll_id)

text \<open>C18. A request through the chain runs each filter at most once, in order and until one excludes it.  If one does, the handlers run without a span
  of the chain and the chain records nothing; otherwise they run under the chain's span and every error they leave that has a
  cause becomes exactly one exception event of that span, with its classification, even if a handler has replaced the request's context.  In both cases the handlers
  see the context the caller gave, without the mark the chain passes to itself.\<close>

theorem gin_chain_answers_once:
  assumes "otelgin_contract otelgin sp close" "fresh \<notin> set (gc_keys c)"
  shows "Middleware G otelgin providers fresh options handlers c =
      (case run_filters (gin_filters options) c of (ok, c1) \<Rightarrow>
         if ok then close (providers @ gin_otel options) (after_handlers G sp (handlers (c1\<lparr>gc_span := sp\<rparr>))) else handlers c1) \<and>
    (fst (run_filters (gin_filters options) c) \<longrightarrow>
       (let c2 = handlers ((snd (run_filters (gin_filters options) c))\<lparr>gc_span := sp\<rparr>) in
        gc_events (Middleware G otelgin providers fresh options handlers c) =
          gc_events c2 @ (if gc_recording c2 sp then typed_events G sp (gc_errors c2) else []))) \<and>
    snd (run_filters (gin_filters options) c) = c\<lparr>gc_world := gc_world (snd (run_filters (gin_filters options) c))\<rparr>"
proof -
  obtain ok c1 where r: "run_filters (gin_filters options) c = (ok, c1)" by fastforce
  have keys: "gc_keys c1 = gc_keys c" using run_filters_keeps(1)[of "gin_filters options" c] by (simp add: r)
  have gone: "removeAll fresh (gc_keys c) = gc_keys c" using assms(2) by (rule removeAll_id)
  have same: "c1\<lparr>gc_keys := gc_keys c\<rparr> = c1" using keys by (metis gin_ctx.surjective gin_ctx.update_convs(1))
  have run: "Middleware G otelgin providers fresh options handlers c =
      (if ok then close (providers @ gin_otel options) (after_handlers G sp (handlers (c1\<lparr>gc_span := sp\<rparr>))) else handlers c1)"
  proof (cases "gin_filters options")
    case Nil
    then show ?thesis using assms(1) r by (auto simp: Middleware_def otelgin_contract_def chainErrors_def)
  next
    case (Cons f fs)
    have mark: "(c1\<lparr>gc_keys := List.insert fresh (gc_keys c), gc_span := sp\<rparr>)\<lparr>gc_keys := gc_keys c\<rparr> = c1\<lparr>gc_span := sp\<rparr>"
      using keys by (cases c1) simp
    show ?thesis using assms Cons r
      by (auto simp: Middleware_def otelgin_contract_def chainErrors_def chain_filter_def Let_def keys gone same removeAll_insert_fresh
          mark[simplified])
  qed
  have events: "gc_events (close b (after_handlers G sp c2)) = gc_events c2 @ (if gc_recording c2 sp then typed_events G sp (gc_errors c2) else [])" for b c2
    using assms(1) by (auto simp: otelgin_contract_def after_handlers_def recordTypedExceptions_def typed_events_def)
  show ?thesis using run_filters_only_world[of "gin_filters options" c] run events r by (auto simp: Let_def)
qed

text \<open>An \<^verbatim>\<open>otelgin\<close> that does what the contract says, a filter that excludes probes, and a handler that leaves one error.\<close>

definition demo_otelgin :: "nat list \<Rightarrow> (nat gin_ctx \<Rightarrow> bool \<times> nat gin_ctx) option \<Rightarrow> nat gin_next \<Rightarrow> nat gin_next" where
  "demo_otelgin base filt handlers c =
     (case (case filt of Some f \<Rightarrow> f c | None \<Rightarrow> (True, c)) of (ok, c1) \<Rightarrow> if ok then handlers (c1\<lparr>gc_span := 7\<rparr>) else handlers c1)"

definition demo_gin :: "nat gin_ctx" where
  "demo_gin = \<lparr>gc_keys = [], gc_path = ''/orders'', gc_span = 0, gc_recording = (\<lambda>_. True), gc_errors = [], gc_status = 200, gc_events = [],
     gc_failed = [], gc_world = 0\<rparr>"

definition demo_handler :: "nat gin_next" where
  "demo_handler c = c\<lparr>gc_errors := [\<lparr>ge_err = Some ''boom'', ge_type = 1\<rparr>], gc_span := 0\<rparr>"

theorem gin_chain_answers_once_witness:
  "gc_events (Middleware gin_constants demo_otelgin [] 3 (applyOptions [Some (WithSkipPaths [])]) demo_handler demo_gin) =
     [(7, ''boom'', ginErrorTypeString gin_constants 1)]"
proof -
  let ?opts = "applyOptions [Some (WithSkipPaths [])] :: (nat, nat) ginOptions"
  have c: "otelgin_contract demo_otelgin 7 (\<lambda>_ c. c)" by (simp add: otelgin_contract_def demo_otelgin_def)
  have r: "run_filters (gin_filters ?opts) demo_gin = (True, demo_gin)"
    by (simp add: applyOptions_def WithSkipPaths_def gin_WithFilter_def skip_filter_def DefaultSkipPaths_def demo_gin_def)
  have "3 \<notin> set (gc_keys demo_gin)" by (simp add: demo_gin_def)
  from gin_chain_answers_once[OF c this, of gin_constants "[]" ?opts demo_handler]
  have "Middleware gin_constants demo_otelgin [] 3 ?opts demo_handler demo_gin = after_handlers gin_constants 7 (demo_handler (demo_gin\<lparr>gc_span := 7\<rparr>))"
    unfolding r by simp
  then show ?thesis by (simp add: after_handlers_def recordTypedExceptions_def demo_handler_def demo_gin_def typed_events_def)
qed

section \<open>Detached work\<close>

text \<open>Detached work keeps the values of the request's context, whatever became of it, and has until its own timeout; a panic in it is logged and
  goes no further, and its context is released in every case.\<close>

theorem detached_work_is_contained:
  assumes "0 < timeout"
  shows "cx_values (DetachWithTimeout c timeout now) = cx_values c \<and> cx_err (DetachWithTimeout c timeout now) = None \<and>
    cx_deadline (DetachWithTimeout c timeout now) = Some (now + timeout) \<and>
    (\<exists>logged. Go c timeout now (Some f) w = (snd (f (DetachWithTimeout c timeout now) w), logged, True) \<and> length logged \<le> 1)"
  using assms by (auto simp: Go_def DetachWithTimeout_def Detach_def split: prod.split option.split)

end
