(* ===== verification/LogrSink.thy ===== *)
theory LogrSink
  imports RedactError Repeat
begin

text \<open>
  The logger the OpenTelemetry SDK writes its own diagnostics to (\<^verbatim>\<open>internal/log/logr.go\<close>): a logr sink that redacts every
  text, resolves every value before the handler can render it, and drops repeated lines.

  Go values are objects on a heap, so they may be shared or cyclic; a node says which case of the type switch or which
  reflect kind applies, and what the methods the sink calls return, \<^const>\<open>None\<close> when they panic.  A \<^verbatim>\<open>slog.Value\<close> stands for
  what its method \<^verbatim>\<open>Resolve\<close> returns.
\<close>

section \<open>Values\<close>

datatype map_key = StringKey string | OtherKey nat

datatype slog_value = StringKind string | GroupKind "slog_attr list" | AnyKind nat
  and slog_attr = Attr string slog_value

text \<open>In the order of the cases: a nil pointer; a \<^verbatim>\<open>logr.Marshaler\<close>; an \<^verbatim>\<open>error\<close>; \<^verbatim>\<open>slog.Attr\<close>, \<^verbatim>\<open>slog.Value\<close> and
  \<^verbatim>\<open>slog.LogValuer\<close>; a time or duration; a URL with its \<^verbatim>\<open>String()\<close>; \<^verbatim>\<open>url.Userinfo\<close>; a \<^verbatim>\<open>fmt.Stringer\<close>; then the kinds: a
  string, a struct with its type and for each field its name and whether it is exported, a map (none when nil), a
  slice or array of bytes, any other (none when a nil slice), a pointer that is followed or one that is not, and what is left alone.\<close>

datatype go_node =
    NilPointerNode
  | MarshalerNode string "nat option"
  | ErrorNode string "string option"
  | AttrNode slog_attr
  | ValueNode slog_value
  | LogValuerNode string "slog_value option"
  | TimeNode
  | UrlNode string
  | UserinfoNode
  | StringerNode string "string option"
  | StringNode string
  | StructNode string "(string \<times> bool \<times> nat) list"
  | MapNode "(map_key \<times> nat) list option"
  | BytesNode
  | SliceNode "nat list option"
  | PointerNode nat
  | ScalarNode

text \<open>What a value is resolved to: a text, the value itself, a map, a slice, or an attribute.  The name of a struct field is no text
  of the caller; a key that is not a string is rendered by \<^verbatim>\<open>fmt.Sprint\<close> from its resolved form.  A map lists its
  assignments in order: a later one to an equal key replaces the earlier.\<close>

datatype out_key = TextKey string | FieldKey string | SprintKey out_value
  and out_value = OText string | OSame nat | OMap "(out_key \<times> out_value) list" | OList "out_value list" | OAttr string out_value
    | OGroup string "out_value list"

section \<open>Redaction\<close>

record redaction_config =
  Endpoints :: "string list"
  SecretsOf :: "string list"

definition redaction_Text :: "'u redact_env \<Rightarrow> redaction_config \<Rightarrow> string \<Rightarrow> string" where
  "redaction_Text env r s =
     Secrets (env_unicode env) (env_html env) (InText (env_unicode env) (env_html env) (env_url env) s (Endpoints r)) (SecretsOf r)"

definition maxResolveDepth :: nat where "maxResolveDepth = 32"
definition tooDeep :: string where "tooDeep = ''[omitted: nested deeper than the SDK redacts]''"
definition redactedUserinfo :: string where "redactedUserinfo = ''redacted''"

definition panic_text :: "string \<Rightarrow> string" where
  "panic_text typ = ''[omitted: '' @ typ @ '' panicked while rendering]''"

definition opaque_text :: "string \<Rightarrow> string" where
  "opaque_text typ = ''[omitted: opaque '' @ typ @ '']''"

text \<open>The depth counts down: \<open>d\<close> is \<^verbatim>\<open>maxResolveDepth + 1 - depth\<close>, so \<open>0\<close> is the case \<^verbatim>\<open>depth > maxResolveDepth\<close>.  The helper
  \<open>resolve_any\<close> is \<^verbatim>\<open>resolveDepth(v.Any(), depth)\<close> for a \<^verbatim>\<open>slog.Value\<close>: of a string it is that string, of a group the slice of its
  attributes.\<close>

function (sequential) resolveDepth :: "(string \<Rightarrow> string) \<Rightarrow> (string \<Rightarrow> string) \<Rightarrow> (nat \<Rightarrow> go_node) \<Rightarrow> nat \<Rightarrow> nat \<Rightarrow> out_value"
  and resolve_any :: "(string \<Rightarrow> string) \<Rightarrow> (string \<Rightarrow> string) \<Rightarrow> (nat \<Rightarrow> go_node) \<Rightarrow> nat \<Rightarrow> slog_value \<Rightarrow> out_value"
  and logr_resolveAttr :: "(string \<Rightarrow> string) \<Rightarrow> (string \<Rightarrow> string) \<Rightarrow> (nat \<Rightarrow> go_node) \<Rightarrow> nat \<Rightarrow> slog_attr \<Rightarrow> out_value" where
  "resolveDepth T V heap 0 v = OText tooDeep"
| "resolveDepth T V heap (Suc d) v = (case heap v of
     NilPointerNode \<Rightarrow> OSame v
   | MarshalerNode typ (Some m) \<Rightarrow> resolveDepth T V heap d m
   | MarshalerNode typ None \<Rightarrow> OText (panic_text typ)
   | ErrorNode typ (Some t) \<Rightarrow> OText (T t)
   | ErrorNode typ None \<Rightarrow> OText (panic_text typ)
   | AttrNode a \<Rightarrow> logr_resolveAttr T V heap (Suc d) a
   | ValueNode x \<Rightarrow> resolve_any T V heap d x
   | LogValuerNode typ (Some x) \<Rightarrow> resolve_any T V heap d x
   | LogValuerNode typ None \<Rightarrow> OText (panic_text typ)
   | TimeNode \<Rightarrow> OSame v
   | UrlNode t \<Rightarrow> OText (T (V t))
   | UserinfoNode \<Rightarrow> OText redactedUserinfo
   | StringerNode typ (Some t) \<Rightarrow> OText (T t)
   | StringerNode typ None \<Rightarrow> OText (panic_text typ)
   | StringNode t \<Rightarrow> OText (T t)
   | StructNode typ fs \<Rightarrow>
       let out = map (\<lambda>(name, _, f). (FieldKey name, resolveDepth T V heap d f)) (filter (\<lambda>(_, exported, _). exported) fs)
       in if out = [] then OText (opaque_text typ) else OMap out
   | MapNode None \<Rightarrow> OSame v
   | MapNode (Some m) \<Rightarrow> OMap (map (\<lambda>(k, x).
       (case k of StringKey t \<Rightarrow> TextKey (T t) | OtherKey n \<Rightarrow> SprintKey (resolveDepth T V heap d n), resolveDepth T V heap d x)) m)
   | BytesNode \<Rightarrow> OSame v
   | SliceNode None \<Rightarrow> OSame v
   | SliceNode (Some xs) \<Rightarrow> OList (map (resolveDepth T V heap d) xs)
   | PointerNode x \<Rightarrow> resolveDepth T V heap d x
   | ScalarNode \<Rightarrow> OSame v)"
| "resolve_any T V heap 0 x = OText tooDeep"
| "resolve_any T V heap (Suc d) (StringKind t) = OText (T t)"
| "resolve_any T V heap (Suc d) (GroupKind as) =
     OList (map (\<lambda>a. if d = 0 then OText tooDeep else logr_resolveAttr T V heap d a) as)"
| "resolve_any T V heap (Suc d) (AnyKind n) = resolveDepth T V heap (Suc d) n"
| "logr_resolveAttr T V heap 0 (Attr key x) = OAttr (T key) (OText tooDeep)"
| "logr_resolveAttr T V heap (Suc d) (Attr key (StringKind t)) = OAttr (T key) (OText (T t))"
| "logr_resolveAttr T V heap (Suc d) (Attr key (GroupKind ms)) = OGroup (T key) (map (logr_resolveAttr T V heap d) ms)"
| "logr_resolveAttr T V heap (Suc d) (Attr key (AnyKind n)) = OAttr (T key) (resolveDepth T V heap d n)"
  by pat_completeness auto
termination
  by (relation "measures [\<lambda>x. case x of Inl (_, _, _, d, _) \<Rightarrow> d | Inr (Inl (_, _, _, d, _)) \<Rightarrow> d | Inr (Inr (_, _, _, d, _)) \<Rightarrow> d,
       \<lambda>x. case x of Inl _ \<Rightarrow> 1 | Inr (Inl _) \<Rightarrow> 2 | Inr (Inr _) \<Rightarrow> 0]") auto

section \<open>The sink\<close>

datatype slog_level = LevelDebug | LevelInfo | LevelWarn | LevelError

definition slogLevel :: "int \<Rightarrow> slog_level" where
  "slogLevel v = (if v = 1 then LevelWarn else if v \<le> 4 then LevelInfo else LevelDebug)"

datatype logr_arg = ValueArg nat | AttrArg slog_attr

record logrSink =
  sk_redaction :: redaction_config
  sk_name :: string
  sk_values :: "logr_arg list"

definition resolve_arg :: "'u redact_env \<Rightarrow> redaction_config \<Rightarrow> (nat \<Rightarrow> go_node) \<Rightarrow> logr_arg \<Rightarrow> out_value" where
  "resolve_arg env r heap a =
     (let T = redaction_Text env r; V = URL (env_unicode env) (env_url env)
      in case a of ValueArg v \<Rightarrow> resolveDepth T V heap (maxResolveDepth + 1) v
         | AttrArg x \<Rightarrow> logr_resolveAttr T V heap (maxResolveDepth + 1) x)"

record log_record =
  lr_level :: slog_level
  lr_msg :: string
  lr_args :: "out_value list"

text \<open>The suppressor is shared by all clones of a sink; \<open>lg_lines\<close> are the records written, each with the instant of the call and
  the key it was filtered by.\<close>

record logr_log =
  lg_suppress :: "suppressor option"
  lg_lines :: "(nanos \<times> string \<times> log_record) list"

text \<open>\<open>durationString\<close> is \<^verbatim>\<open>time.Duration.String\<close>.\<close>

definition sink_write ::
  "(int \<Rightarrow> string) \<Rightarrow> 'u redact_env \<Rightarrow> (nat \<Rightarrow> go_node) \<Rightarrow> logrSink \<Rightarrow> slog_level \<Rightarrow> string \<Rightarrow> string \<Rightarrow> logr_arg list \<Rightarrow> nanos \<Rightarrow>
     logr_log \<Rightarrow> logr_log" where
  "sink_write durationString env heap s level key msg kvs now lg =
     (let (quiet, sup) = (case lg_suppress lg of None \<Rightarrow> (False, None)
            | Some p \<Rightarrow> (let (b, p') = SuppressedAt p key now in (b, Some p')))
      in if quiet then lg\<lparr>lg_suppress := sup\<rparr>
         else
           let named = (if sk_name s \<noteq> [] then [OAttr ''logger'' (OText (redaction_Text env (sk_redaction s) (sk_name s)))] else []);
               args = named @ map (resolve_arg env (sk_redaction s) heap) (sk_values s) @ map (resolve_arg env (sk_redaction s) heap) kvs @
                 (case sup of Some p \<Rightarrow> [OAttr ''repeat_suppressed_for'' (OText (durationString (Window p)))] | None \<Rightarrow> [])
           in lg\<lparr>lg_suppress := sup, lg_lines := lg_lines lg @ [(now, key, \<lparr>lr_level = level, lr_msg = msg, lr_args = args\<rparr>)]\<rparr>)"

definition sink_Info ::
  "(int \<Rightarrow> string) \<Rightarrow> 'u redact_env \<Rightarrow> (nat \<Rightarrow> go_node) \<Rightarrow> logrSink \<Rightarrow> int \<Rightarrow> string \<Rightarrow> logr_arg list \<Rightarrow> nanos \<Rightarrow> logr_log \<Rightarrow> logr_log" where
  "sink_Info D env heap s level msg kvs now lg =
     (let msg = redaction_Text env (sk_redaction s) msg in sink_write D env heap s (slogLevel level) msg msg kvs now lg)"

definition sink_Error ::
  "(int \<Rightarrow> string) \<Rightarrow> 'u redact_env \<Rightarrow> (nat \<Rightarrow> go_node) \<Rightarrow> logrSink \<Rightarrow> error_node option \<Rightarrow> string \<Rightarrow> logr_arg list \<Rightarrow> nanos \<Rightarrow>
     logr_log \<Rightarrow> logr_log" where
  "sink_Error D env heap s err msg kvs now lg =
     (let msg = redaction_Text env (sk_redaction s) msg
      in case err of None \<Rightarrow> sink_write D env heap s LevelError msg msg kvs now lg
         | Some e \<Rightarrow> let t = redaction_Text env (sk_redaction s) (ErrorText e)
             in sink_write D env heap s LevelError (msg @ '': '' @ t) msg (AttrArg (Attr ''error'' (StringKind t)) # kvs) now lg)"

definition sink_WithValues :: "logr_arg list \<Rightarrow> logrSink \<Rightarrow> logrSink" where
  "sink_WithValues kvs s = s\<lparr>sk_values := sk_values s @ kvs\<rparr>"

definition sink_WithName :: "string \<Rightarrow> logrSink \<Rightarrow> logrSink" where
  "sink_WithName name s = s\<lparr>sk_name := trim_prefix (sk_name s @ ''/'' @ name) ''/''\<rparr>"

definition sink_Enabled :: "(slog_level \<Rightarrow> bool) \<Rightarrow> int \<Rightarrow> bool" where
  "sink_Enabled enabled level = enabled (slogLevel level)"

section \<open>Every text is redacted\<close>

primrec texts :: "out_value \<Rightarrow> string list" and key_texts :: "out_key \<Rightarrow> string list" where
  "texts (OText t) = [t]"
| "texts (OSame v) = []"
| "texts (OMap kvs) = concat (map (\<lambda>(k, v). k @ v) (map (map_prod key_texts texts) kvs))"
| "texts (OList xs) = concat (map texts xs)"
| "texts (OAttr k v) = k # texts v"
| "texts (OGroup k xs) = k # concat (map texts xs)"
| "key_texts (TextKey t) = [t]"
| "key_texts (FieldKey t) = []"
| "key_texts (SprintKey v) = texts v"

text \<open>A text of the record is the output of the redaction or one of the sink's own placeholders.\<close>

definition redacted_or_own :: "(string \<Rightarrow> string) \<Rightarrow> string \<Rightarrow> bool" where
  "redacted_or_own T t \<longleftrightarrow> t \<in> range T \<or> t = tooDeep \<or> t = redactedUserinfo \<or> t \<in> range panic_text \<or> t \<in> range opaque_text"

definition ok_out :: "(string \<Rightarrow> string) \<Rightarrow> out_value \<Rightarrow> bool" where
  "ok_out T v \<longleftrightarrow> (\<forall>t \<in> set (texts v). redacted_or_own T t)"

lemma redacted_or_own_simps [simp]:
  "redacted_or_own T (T t)" "redacted_or_own T tooDeep" "redacted_or_own T redactedUserinfo" "redacted_or_own T (panic_text typ)"
  "redacted_or_own T (opaque_text typ)"
  by (simp_all add: redacted_or_own_def)

lemma ok_out_simps [simp]:
  "ok_out T (OText t) \<longleftrightarrow> redacted_or_own T t" "ok_out T (OSame n)"
  "ok_out T (OList xs) \<longleftrightarrow> (\<forall>x \<in> set xs. ok_out T x)" "ok_out T (OAttr k v) \<longleftrightarrow> redacted_or_own T k \<and> ok_out T v"
  "ok_out T (OGroup k xs) \<longleftrightarrow> redacted_or_own T k \<and> (\<forall>x \<in> set xs. ok_out T x)"
  "ok_out T (OMap kvs) \<longleftrightarrow> (\<forall>(k, v) \<in> set kvs. (\<forall>t \<in> set (key_texts k). redacted_or_own T t) \<and> ok_out T v)"
  by (auto simp: ok_out_def)

lemma resolve_ok:
  "(\<forall>v. ok_out T (resolveDepth T V heap d v)) \<and> (\<forall>x. ok_out T (resolve_any T V heap d x)) \<and>
   (\<forall>a. ok_out T (logr_resolveAttr T V heap d a))"
proof (induction d)
  case 0
  have "ok_out T (logr_resolveAttr T V heap 0 a)" for a by (cases a) simp
  then show ?case by simp
next
  case (Suc d)
  then have IH: "ok_out T (resolveDepth T V heap d v)" "ok_out T (resolve_any T V heap d x)" "ok_out T (logr_resolveAttr T V heap d a)"
    for v x a by blast+
  have A: "ok_out T (logr_resolveAttr T V heap (Suc d) a)" for a
  proof (cases a)
    case (Attr k x)
    then show ?thesis using IH by (cases x) auto
  qed
  have key: "\<forall>t \<in> set (key_texts (case k of StringKey t \<Rightarrow> TextKey (T t) | OtherKey n \<Rightarrow> SprintKey (resolveDepth T V heap d n))).
      redacted_or_own T t" for k
    using IH(1) by (cases k) (auto simp: ok_out_def)
  have D: "ok_out T (resolveDepth T V heap (Suc d) v)" for v
    using IH A key by (cases "heap v") (auto simp: Let_def split: option.splits)
  have "ok_out T (resolve_any T V heap (Suc d) x)" for x
    using IH D by (cases x) auto
  with A D show ?case by blast
qed

lemma resolve_arg_ok: "ok_out (redaction_Text env r) (resolve_arg env r heap a)"
  using resolve_ok by (cases a) (simp_all only: resolve_arg_def Let_def logr_arg.case)

lemma redaction_Text_clear:
  assumes "html_law (env_html env)" "s \<in> set (SecretsOf r)" "shortSecretLen \<le> length s" "clear_of_placeholder s"
  shows "\<not> contains ((decodeOnce (env_html env) ^^ k) (redaction_Text env r t)) s"
  unfolding redaction_Text_def by (rule secrets_gone[OF assms])

section \<open>Runs of the sink\<close>

text \<open>A call of the SDK on a sink, and what it is keyed by.\<close>

datatype logr_call = InfoCall int string "logr_arg list" | ErrorCall "error_node option" string "logr_arg list"

fun sink_call :: "(int \<Rightarrow> string) \<Rightarrow> 'u redact_env \<Rightarrow> (nat \<Rightarrow> go_node) \<Rightarrow> logr_log \<Rightarrow> logrSink \<times> logr_call \<Rightarrow> nanos \<Rightarrow> logr_log" where
  "sink_call D env heap lg (s, InfoCall level msg kvs) now = sink_Info D env heap s level msg kvs now lg"
| "sink_call D env heap lg (s, ErrorCall err msg kvs) now = sink_Error D env heap s err msg kvs now lg"

fun call_key :: "'u redact_env \<Rightarrow> logrSink \<times> logr_call \<Rightarrow> string" where
  "call_key env (s, InfoCall level msg kvs) = redaction_Text env (sk_redaction s) msg"
| "call_key env (s, ErrorCall None msg kvs) = redaction_Text env (sk_redaction s) msg"
| "call_key env (s, ErrorCall (Some e) msg kvs) =
     redaction_Text env (sk_redaction s) msg @ '': '' @ redaction_Text env (sk_redaction s) (ErrorText e)"

text \<open>The same log without the option, for the contract of a logger behind a suppressor.\<close>

record limited_log =
  ll_suppress :: suppressor
  ll_lines :: "(nanos \<times> string \<times> log_record) list"

definition as_log :: "limited_log \<Rightarrow> logr_log" where
  "as_log l = \<lparr>lg_suppress = Some (ll_suppress l), lg_lines = ll_lines l\<rparr>"

definition limited_call :: "(int \<Rightarrow> string) \<Rightarrow> 'u redact_env \<Rightarrow> (nat \<Rightarrow> go_node) \<Rightarrow> limited_log \<Rightarrow> logrSink \<times> logr_call \<Rightarrow> nanos \<Rightarrow> limited_log" where
  "limited_call D env heap l c now =
     (let lg = sink_call D env heap (as_log l) c now in \<lparr>ll_suppress = the (lg_suppress lg), ll_lines = lg_lines lg\<rparr>)"

lemma sink_write_limited:
  assumes "SuppressedAt (ll_suppress l) key now = (b, p)"
  shows "lg_suppress (sink_write D env heap s level key msg kvs now (as_log l)) = Some p \<and>
    map (\<lambda>(t, k, _). (t, k)) (lg_lines (sink_write D env heap s level key msg kvs now (as_log l))) =
      map (\<lambda>(t, k, _). (t, k)) (ll_lines l) @ (if b then [] else [(now, key)])"
  using assms by (simp add: sink_write_def as_log_def Let_def)

lemma sink_call_write:
  "\<exists>s level msg kvs. sink_call D env heap lg c now = sink_write D env heap s level (call_key env c) msg kvs now lg"
  by (induction env c rule: call_key.induct) (auto simp: sink_Info_def sink_Error_def Let_def)

interpretation logr_lines: limited_logger "limited_call D env heap" ll_suppress "\<lambda>l. map (\<lambda>(t, k, _). (t, k)) (ll_lines l)"
  "\<lambda>_. call_key env" for D env heap
proof unfold_locales
  fix l :: limited_log and c t b s
  assume "SuppressedAt (ll_suppress l) (call_key env c) t = (b, s)"
  moreover obtain sk level msg kvs where "sink_call D env heap (as_log l) c t = sink_write D env heap sk level (call_key env c) msg kvs t (as_log l)"
    using sink_call_write by blast
  ultimately show "ll_suppress (limited_call D env heap l c t) = s \<and>
      map (\<lambda>(t, k, _). (t, k)) (ll_lines (limited_call D env heap l c t)) =
        (if b then map (\<lambda>(t, k, _). (t, k)) (ll_lines l) else map (\<lambda>(t, k, _). (t, k)) (ll_lines l) @ [(t, call_key env c)])"
    using sink_write_limited[of l "call_key env c" t b s D env heap sk level msg kvs] by (auto simp: limited_call_def Let_def)
qed simp

text \<open>Two records with the same key are at least the window apart, if the clock does not run backwards and no key is evicted.\<close>

theorem logr_lines_rate_limited:
  assumes "ll_suppress l = NewSuppressor w n" "ll_lines l = []" "sorted (map snd calls)" "int (card (fst ` set calls)) \<le> max 1 n"
    and "map (\<lambda>(t, k, _). (t, k)) (ll_lines (foldl (\<lambda>l (c, t). limited_call D env heap l c t) l calls)) = xs @ (u, m) # ys @ (t, m) # zs"
  shows "w \<le> time_sub t u"
  using logr_lines.lines_apart[of l w n calls D env heap xs u m ys t zs] assms by simp

section \<open>No secret is written\<close>

text \<open>The texts of a record: its message and those of its arguments.  The two attribute names the sink adds and the window
  it prints are its own.\<close>

definition record_texts :: "log_record \<Rightarrow> string list" where
  "record_texts r = lr_msg r # concat (map texts (lr_args r))"

definition sink_text :: "(int \<Rightarrow> string) \<Rightarrow> (string \<Rightarrow> string) \<Rightarrow> string \<Rightarrow> bool" where
  "sink_text D T t \<longleftrightarrow> redacted_or_own T t \<or> t = ''logger'' \<or> t = ''repeat_suppressed_for'' \<or> t \<in> range D"

lemma sink_write_texts:
  assumes "line \<in> set (lg_lines (sink_write D env heap s level key msg kvs now lg))" "line \<notin> set (lg_lines lg)"
    "redacted_or_own (redaction_Text env (sk_redaction s)) msg"
  shows "\<forall>t \<in> set (record_texts (snd (snd line))). sink_text D (redaction_Text env (sk_redaction s)) t"
proof -
  let ?T = "redaction_Text env (sk_redaction s)"
  have args: "\<forall>t \<in> set (texts (resolve_arg env (sk_redaction s) heap a)). redacted_or_own ?T t" for a
    using resolve_arg_ok[of env "sk_redaction s" heap a] by (simp add: ok_out_def)
  show ?thesis using assms(1,2,3) args
    by (auto simp: sink_write_def Let_def record_texts_def sink_text_def split: option.splits prod.splits if_splits)
qed

lemma sink_call_shape:
  "\<exists>level key msg kvs. sink_call D env heap lg (s, c) now =
     sink_write D env heap s level key (redaction_Text env (sk_redaction s) msg) kvs now lg"
proof (cases c)
  case (InfoCall level msg kvs)
  then show ?thesis by (auto simp: sink_Info_def Let_def)
next
  case (ErrorCall err msg kvs)
  then show ?thesis by (cases err) (auto simp: sink_Error_def Let_def)
qed

lemma sink_call_texts:
  assumes "line \<in> set (lg_lines (sink_call D env heap lg (s, c) now))" "line \<notin> set (lg_lines lg)" "t \<in> set (record_texts (snd (snd line)))"
  shows "sink_text D (redaction_Text env (sk_redaction s)) t"
proof -
  let ?T = "redaction_Text env (sk_redaction s)"
  obtain level key msg kvs where w: "sink_call D env heap lg (s, c) now = sink_write D env heap s level key (?T msg) kvs now lg"
    using sink_call_shape by blast
  from sink_write_texts[OF assms(1)[unfolded w] assms(2)] assms(3) show ?thesis by simp
qed


definition demo_sink :: logrSink where
  "demo_sink = \<lparr>sk_redaction = \<lparr>Endpoints = [], SecretsOf = [''hunter22'']\<rparr>, sk_name = [], sk_values = []\<rparr>"


end
