(* ===== verification/Options.thy ===== *)
theory Options
  imports Complex_Main Labels Baggage
begin

text \<open>
  The SDK's configuration (\<^verbatim>\<open>options.go\<close>): the record \<^verbatim>\<open>Config\<close>, one definition per \<^verbatim>\<open>With...\<close> option,
  the defaults and the boolean environment toggles.

  \<^verbatim>\<open>os.Getenv\<close> is an argument of type \<^typ>\<open>string \<Rightarrow> string\<close> (an unset variable reads as the empty string).  A
  \<^verbatim>\<open>float64\<close> is NaN, an infinity or a finite binary fraction; the code only compares them.  A Go map is an
  association list with distinct keys.  The warnings collected for the logger are a datatype that carries
  what the message is formatted from.
\<close>

section \<open>Floats\<close>

datatype float64 = NaN | PosInf | NegInf | Finite rat

definition IsNaN :: "float64 \<Rightarrow> bool" where "IsNaN f \<longleftrightarrow> f = NaN"

definition IsInf :: "float64 \<Rightarrow> bool" where "IsInf f \<longleftrightarrow> f = PosInf \<or> f = NegInf"

fun float_less :: "float64 \<Rightarrow> float64 \<Rightarrow> bool" where
  "float_less NaN _ = False"
| "float_less _ NaN = False"
| "float_less PosInf _ = False"
| "float_less NegInf b = (b \<noteq> NegInf)"
| "float_less (Finite a) NegInf = False"
| "float_less (Finite a) PosInf = True"
| "float_less (Finite a) (Finite b) = (a < b)"

definition float_le :: "float64 \<Rightarrow> float64 \<Rightarrow> bool" where
  "float_le a b \<longleftrightarrow> a \<noteq> NaN \<and> b \<noteq> NaN \<and> \<not> float_less b a"

section \<open>The configuration\<close>

definition DefaultMetricsAddr :: string where "DefaultMetricsAddr = '':2112''"
definition DefaultMaxUniqueRoutes :: int where "DefaultMaxUniqueRoutes = 1000"
definition MaxBaggageAttributeKeys :: nat where "MaxBaggageAttributeKeys = 8"
definition DefaultMaxUniqueCollections :: int where "DefaultMaxUniqueCollections = 200"
definition defaultOTLPEndpoint :: string where "defaultOTLPEndpoint = ''http://localhost:4318''"

text \<open>The doubles nearest to .005, .01, .025, .05, .1, .25, .5, 1, 2.5, 5 and 10.\<close>

definition defaultLatencyBuckets :: "float64 list" where
  "defaultLatencyBuckets = map Finite
     [5764607523034235 / 1152921504606846976, 5764607523034235 / 576460752303423488, 3602879701896397 / 144115188075855872,
      3602879701896397 / 72057594037927936, 3602879701896397 / 36028797018963968, 1 / 4, 1 / 2, 1, 5 / 2, 5, 10]"

definition cloneFloat64s :: "float64 list \<Rightarrow> float64 list" where
  "cloneFloat64s xs = (if length xs = 0 then [] else map (\<lambda>i. xs ! i) [0..<length xs])"

lemma cloneFloat64s_id [simp]: "cloneFloat64s xs = xs"
  by (simp add: cloneFloat64s_def map_nth)

definition DefaultLatencyBuckets :: "float64 list" where
  "DefaultLatencyBuckets = cloneFloat64s defaultLatencyBuckets"

datatype init_warning =
    EmptyResourceKey | CollidesWithIdentity string string | CollidesWithDetected string string
  | TelemetrySDKKey string | ProcessKey string | ReservedLabelKey string string | SameLabelAs string string
  | InvalidBaggageKey string baggage_error | DroppedBaggageKeys "string list" | BaggageWithoutTrace
  | InvalidLabelKey string | LabelCollision string string string
  | NotABool string string bool | EnvironmentWarning env_warning

datatype 's sampler = CustomSampler 's | ParentBasedRatio float64

record signalEndpoint =
  endpoint_url :: string
  source :: string
  raw :: string
  problem :: string
  grpcVar :: string

record otlpEndpoints =
  trace_endpoint :: signalEndpoint
  log_endpoint :: signalEndpoint

definition no_endpoint :: signalEndpoint where
  "no_endpoint = \<lparr>endpoint_url = [], source = [], raw = [], problem = [], grpcVar = []\<rparr>"

record 's sdk_config =
  serviceName :: string
  serviceVersion :: string
  environment :: string
  otlpEndpoint :: string
  otlpEndpointSet :: bool
  resolvedOTLP :: otlpEndpoints
  otlpHeaders :: "(string \<times> string) list"
  logLevel :: int
  resourceAttrs :: "key_value list"
  sampler :: "'s sampler option"
  samplingRatio :: float64
  samplingRatioSet :: bool
  userBaggage :: bool
  baggageKeys :: "string list"
  profilingEndpoint :: string
  profilingAuthHeaders :: "(string \<times> string) list"
  metricsAddr :: string
  metricsOTLPEndpoint :: string
  runtimeMetrics :: bool
  histogramBuckets :: "float64 list"
  namespace :: string
  disableDefaultViews :: bool
  maxUniqueRoutes :: int
  maxUniqueCollections :: int
  cardinalityLimit :: int
  extraHTTPServerAttrKeys :: "string list"
  exemplars :: bool
  histogramBucketOverrides :: "(string \<times> float64 list) list"
  traceEnabled :: bool
  metricsEnabled :: bool
  logEnabled :: bool
  profilingEnabled :: bool
  initWarnings :: "init_warning list"

definition warn :: "init_warning \<Rightarrow> 's sdk_config \<Rightarrow> 's sdk_config" where
  "warn w c = c\<lparr>initWarnings := initWarnings c @ [w]\<rparr>"

section \<open>Plain options\<close>

definition WithServiceName :: "string \<Rightarrow> 's sdk_config \<Rightarrow> 's sdk_config" where
  "WithServiceName n c = c\<lparr>serviceName := n\<rparr>"

definition WithServiceVersion :: "string \<Rightarrow> 's sdk_config \<Rightarrow> 's sdk_config" where
  "WithServiceVersion v c = c\<lparr>serviceVersion := v\<rparr>"

definition WithEnvironment :: "string \<Rightarrow> 's sdk_config \<Rightarrow> 's sdk_config" where
  "WithEnvironment env c = c\<lparr>environment := env\<rparr>"

definition WithServiceNamespace :: "string \<Rightarrow> 's sdk_config \<Rightarrow> 's sdk_config" where
  "WithServiceNamespace ns c = c\<lparr>namespace := ns\<rparr>"

definition WithOTLPEndpoint :: "string \<Rightarrow> 's sdk_config \<Rightarrow> 's sdk_config" where
  "WithOTLPEndpoint endpoint c =
     (let e = trim_space endpoint in
      if e = [] then c\<lparr>otlpEndpoint := defaultOTLPEndpoint, otlpEndpointSet := False\<rparr>
      else c\<lparr>otlpEndpoint := e, otlpEndpointSet := True\<rparr>)"

definition WithSamplingRatio :: "float64 \<Rightarrow> 's sdk_config \<Rightarrow> 's sdk_config" where
  "WithSamplingRatio r c = c\<lparr>samplingRatio := r, samplingRatioSet := True, sampler := None\<rparr>"

definition WithTraceSampler :: "'s option \<Rightarrow> 's sdk_config \<Rightarrow> 's sdk_config" where
  "WithTraceSampler s c = (case s of None \<Rightarrow> c
     | Some s' \<Rightarrow> c\<lparr>sampler := Some (CustomSampler s'), samplingRatioSet := False, samplingRatio := Finite 0\<rparr>)"

definition WithUserBaggage :: "'s sdk_config \<Rightarrow> 's sdk_config" where
  "WithUserBaggage c = c\<lparr>userBaggage := True\<rparr>"

definition merge_headers :: "(string \<times> string) list \<Rightarrow> (string \<times> string) list \<Rightarrow> (string \<times> string) list" where
  "merge_headers hs new = foldl (\<lambda>m (k, v). AList.update k v m) hs new"

definition WithOTLPHeaders :: "(string \<times> string) list \<Rightarrow> 's sdk_config \<Rightarrow> 's sdk_config" where
  "WithOTLPHeaders hs c = (if hs = [] then c else c\<lparr>otlpHeaders := merge_headers (otlpHeaders c) hs\<rparr>)"

definition WithProfilingEndpoint :: "string \<Rightarrow> 's sdk_config \<Rightarrow> 's sdk_config" where
  "WithProfilingEndpoint e c = c\<lparr>profilingEndpoint := e\<rparr>"

definition WithProfilingAuthHeaders :: "(string \<times> string) list \<Rightarrow> 's sdk_config \<Rightarrow> 's sdk_config" where
  "WithProfilingAuthHeaders hs c =
     (if hs = [] then c else c\<lparr>profilingAuthHeaders := merge_headers (profilingAuthHeaders c) hs\<rparr>)"

definition WithLogLevel :: "int \<Rightarrow> 's sdk_config \<Rightarrow> 's sdk_config" where
  "WithLogLevel l c = c\<lparr>logLevel := l\<rparr>"

definition WithMetricsOTLPEndpoint :: "string \<Rightarrow> 's sdk_config \<Rightarrow> 's sdk_config" where
  "WithMetricsOTLPEndpoint endpoint c = c\<lparr>metricsOTLPEndpoint := trim_space endpoint\<rparr>"

definition WithMetricsAddr :: "string \<Rightarrow> 's sdk_config \<Rightarrow> 's sdk_config" where
  "WithMetricsAddr addr c = c\<lparr>metricsAddr := addr\<rparr>"

definition WithRuntimeMetrics :: "bool \<Rightarrow> 's sdk_config \<Rightarrow> 's sdk_config" where
  "WithRuntimeMetrics b c = c\<lparr>runtimeMetrics := b\<rparr>"

definition WithHistogramBuckets :: "float64 list \<Rightarrow> 's sdk_config \<Rightarrow> 's sdk_config" where
  "WithHistogramBuckets bs c = c\<lparr>histogramBuckets := cloneFloat64s bs\<rparr>"

definition WithInstrumentHistogramBuckets :: "string \<Rightarrow> float64 list \<Rightarrow> 's sdk_config \<Rightarrow> 's sdk_config" where
  "WithInstrumentHistogramBuckets instrument bs c =
     c\<lparr>histogramBucketOverrides := AList.update instrument (cloneFloat64s (cloneFloat64s bs)) (histogramBucketOverrides c)\<rparr>"

definition WithTraceEnabled :: "bool \<Rightarrow> 's sdk_config \<Rightarrow> 's sdk_config" where
  "WithTraceEnabled b c = c\<lparr>traceEnabled := b\<rparr>"

definition WithMetricsEnabled :: "bool \<Rightarrow> 's sdk_config \<Rightarrow> 's sdk_config" where
  "WithMetricsEnabled b c = c\<lparr>metricsEnabled := b\<rparr>"

definition WithLogEnabled :: "bool \<Rightarrow> 's sdk_config \<Rightarrow> 's sdk_config" where
  "WithLogEnabled b c = c\<lparr>logEnabled := b\<rparr>"

definition WithProfilingEnabled :: "bool \<Rightarrow> 's sdk_config \<Rightarrow> 's sdk_config" where
  "WithProfilingEnabled b c = c\<lparr>profilingEnabled := b\<rparr>"

definition WithExemplars :: "bool \<Rightarrow> 's sdk_config \<Rightarrow> 's sdk_config" where
  "WithExemplars b c = c\<lparr>exemplars := b\<rparr>"

definition WithDisableDefaultViews :: "'s sdk_config \<Rightarrow> 's sdk_config" where
  "WithDisableDefaultViews c = c\<lparr>disableDefaultViews := True\<rparr>"

definition WithMaxUniqueRoutes :: "int \<Rightarrow> 's sdk_config \<Rightarrow> 's sdk_config" where
  "WithMaxUniqueRoutes n c = c\<lparr>maxUniqueRoutes := (if n \<le> 0 then DefaultMaxUniqueRoutes else n)\<rparr>"

definition WithCardinalityLimit :: "int \<Rightarrow> 's sdk_config \<Rightarrow> 's sdk_config" where
  "WithCardinalityLimit n c = c\<lparr>cardinalityLimit := (if n \<le> 0 then 0 else n)\<rparr>"

definition WithMaxUniqueCollections :: "int \<Rightarrow> 's sdk_config \<Rightarrow> 's sdk_config" where
  "WithMaxUniqueCollections n c = c\<lparr>maxUniqueCollections := (if n \<le> 0 then DefaultMaxUniqueCollections else n)\<rparr>"

section \<open>Options that filter their arguments\<close>

definition baggage_step :: "('b, 'm) baggage_api \<Rightarrow> string list \<times> 's sdk_config \<Rightarrow> string \<Rightarrow> string list \<times> 's sdk_config" where
  "baggage_step api st key =
     (let (seen, c) = st in
      if key \<in> set seen then st
      else case ValidBaggageKey api key of
        Some err \<Rightarrow> (key # seen, warn (InvalidBaggageKey key err) c)
      | None \<Rightarrow> (key # seen, c\<lparr>baggageKeys := baggageKeys c @ [key]\<rparr>))"

definition WithBaggageAttributes :: "('b, 'm) baggage_api \<Rightarrow> string list \<Rightarrow> 's sdk_config \<Rightarrow> 's sdk_config" where
  "WithBaggageAttributes api ks c = snd (foldl (baggage_step api) (baggageKeys c, c) ks)"

fun append_loop :: "key_value list \<Rightarrow> key_value list \<Rightarrow> key_value \<Rightarrow> key_value list \<times> init_warning list" where
  "append_loop before [] kv = (rev before @ [kv], [])"
| "append_loop before (prev # rest) kv =
     (if fst prev = fst kv then (rev before @ kv # rest, [])
      else if SameLabel (fst prev) (fst kv) then (rev before @ prev # rest, [SameLabelAs (fst kv) (fst prev)])
      else append_loop (prev # before) rest kv)"

definition appendResourceAttribute :: "'s sdk_config \<Rightarrow> key_value \<Rightarrow> 's sdk_config" where
  "appendResourceAttribute c kv =
     (let (attrs, ws) = append_loop [] (resourceAttrs c) kv
      in c\<lparr>resourceAttrs := attrs, initWarnings := initWarnings c @ ws\<rparr>)"

definition resource_step :: "'s sdk_config \<Rightarrow> key_value \<Rightarrow> 's sdk_config" where
  "resource_step c kv =
     (let k = fst kv; (own, identity) = ResourceKeyOwner k in
      if k = [] then warn EmptyResourceKey c
      else if own \<noteq> [] \<and> identity then warn (CollidesWithIdentity k own) c
      else if own \<noteq> [] then warn (CollidesWithDetected k own) c
      else if IsTelemetrySDKKey k then warn (TelemetrySDKKey k) c
      else if IsProcessKey k then warn (ProcessKey k) c
      else if IsReservedAttributeKey k then warn (ReservedLabelKey k (NormalizePrometheusLabelName k)) c
      else appendResourceAttribute c kv)"

definition WithResourceAttributes :: "key_value list \<Rightarrow> 's sdk_config \<Rightarrow> 's sdk_config" where
  "WithResourceAttributes attrs c = foldl resource_step c attrs"

definition reservedHTTPServerPromLabels :: "string list" where
  "reservedHTTPServerPromLabels = [''http_request_method'', ''http_route'', ''http_response_status_code'']"

definition normalizePrometheusLabelName :: "string \<Rightarrow> string" where
  "normalizePrometheusLabelName key = NormalizePrometheusLabelName key"

text \<open>The strings the \<^verbatim>\<open>seen\<close> map holds are only shown in a warning; \<open>quoted\<close> is the verb \<^verbatim>\<open>%q\<close>.\<close>

definition extra_seen :: "'s sdk_config \<Rightarrow> (string \<times> string) list" where
  "extra_seen c =
     foldl (\<lambda>m prev. AList.update (normalizePrometheusLabelName prev) prev m)
       (foldl (\<lambda>m builtin. AList.update builtin ''<built-in SDK label>'' m) [] reservedHTTPServerPromLabels)
       (extraHTTPServerAttrKeys c)"

definition extra_step ::
  "(string \<Rightarrow> string) \<Rightarrow> (string \<times> string) list \<times> 's sdk_config \<Rightarrow> string \<Rightarrow> (string \<times> string) list \<times> 's sdk_config" where
  "extra_step quoted st k =
     (let (seen, c) = st in
      if k = [] then st
      else let norm = normalizePrometheusLabelName k in
        if norm = [] \<or> norm = ''_'' then (seen, warn (InvalidLabelKey k) c)
        else let seen1 = (if IsReservedAttributeKey k then AList.update norm ''<built-in SDK label>'' seen else seen) in
          case map_of seen1 norm of
            Some existing \<Rightarrow> (seen1, warn (LabelCollision k existing norm) c)
          | None \<Rightarrow> (AList.update norm (quoted k) seen1, c\<lparr>extraHTTPServerAttrKeys := extraHTTPServerAttrKeys c @ [k]\<rparr>))"

definition WithExtraHTTPServerAttributeKeys :: "(string \<Rightarrow> string) \<Rightarrow> string list \<Rightarrow> 's sdk_config \<Rightarrow> 's sdk_config" where
  "WithExtraHTTPServerAttributeKeys quoted ks c = snd (foldl (extra_step quoted) (extra_seen c, c) ks)"

section \<open>Defaults\<close>

text \<open>\<^verbatim>\<open>strconv.ParseBool\<close>.\<close>

definition parse_bool :: "string \<Rightarrow> bool option" where
  "parse_bool v = (if v \<in> set [''1'', ''t'', ''T'', ''true'', ''TRUE'', ''True''] then Some True
     else if v \<in> set [''0'', ''f'', ''F'', ''false'', ''FALSE'', ''False''] then Some False else None)"

definition parseBoolEnv :: "(string \<Rightarrow> string) \<Rightarrow> string \<Rightarrow> bool \<Rightarrow> bool \<times> init_warning option" where
  "parseBoolEnv getenv key def =
     (let v = getenv key in
      if v = [] then (def, None)
      else case parse_bool v of None \<Rightarrow> (def, Some (NotABool key v def)) | Some b \<Rightarrow> (b, None))"

definition warn_opt :: "init_warning option \<Rightarrow> 's sdk_config \<Rightarrow> 's sdk_config" where
  "warn_opt w c = (case w of None \<Rightarrow> c | Some w' \<Rightarrow> warn w' c)"

text \<open>The configuration before the toggles are read, every field not named in the source at its zero value.\<close>

definition base_config :: "'s sdk_config" where
  "base_config =
     \<lparr>serviceName = [], serviceVersion = [], environment = [], otlpEndpoint = defaultOTLPEndpoint, otlpEndpointSet = False,
      resolvedOTLP = \<lparr>trace_endpoint = no_endpoint, log_endpoint = no_endpoint\<rparr>, otlpHeaders = [], logLevel = 0,
      resourceAttrs = [], sampler = None, samplingRatio = Finite 0, samplingRatioSet = False, userBaggage = False,
      baggageKeys = [], profilingEndpoint = [], profilingAuthHeaders = [], metricsAddr = DefaultMetricsAddr,
      metricsOTLPEndpoint = [], runtimeMetrics = True, histogramBuckets = cloneFloat64s defaultLatencyBuckets,
      namespace = [], disableDefaultViews = False, maxUniqueRoutes = DefaultMaxUniqueRoutes,
      maxUniqueCollections = DefaultMaxUniqueCollections, cardinalityLimit = 0, extraHTTPServerAttrKeys = [],
      exemplars = True, histogramBucketOverrides = [], traceEnabled = False, metricsEnabled = False, logEnabled = False,
      profilingEnabled = False, initWarnings = []\<rparr>"

definition defaultConfig :: "(string \<Rightarrow> string) \<Rightarrow> 's sdk_config" where
  "defaultConfig getenv =
     (let (t, tw) = parseBoolEnv getenv ''O11Y_TRACE_ENABLED'' True;
          c1 = warn_opt tw (base_config\<lparr>traceEnabled := t\<rparr>);
          (m, mw) = parseBoolEnv getenv ''O11Y_METRICS_ENABLED'' True;
          c2 = warn_opt mw (c1\<lparr>metricsEnabled := m\<rparr>);
          (l, lw) = parseBoolEnv getenv ''O11Y_LOG_ENABLED'' True;
          c3 = warn_opt lw (c2\<lparr>logEnabled := l\<rparr>);
          (p, pw) = parseBoolEnv getenv ''O11Y_PROFILING_ENABLED'' False
      in warn_opt pw (c3\<lparr>profilingEnabled := p\<rparr>))"

text \<open>\<^verbatim>\<open>for _, opt := range opts\<close> of \<^verbatim>\<open>Init\<close>: nil options are skipped.\<close>

definition apply_options :: "('s sdk_config \<Rightarrow> 's sdk_config) option list \<Rightarrow> 's sdk_config \<Rightarrow> 's sdk_config" where
  "apply_options opts c = foldl (\<lambda>c opt. case opt of None \<Rightarrow> c | Some f \<Rightarrow> f c) c opts"

section \<open>What the options promise\<close>

definition extra_admit :: "string \<Rightarrow> bool" where
  "extra_admit k \<longleftrightarrow> (let l = NormalizePrometheusLabelName k in
     l \<noteq> ''_'' \<and> \<not> IsReservedAttributeKey k \<and> l \<notin> set reservedHTTPServerPromLabels)"

definition resource_admit :: "string \<Rightarrow> bool" where
  "resource_admit k \<longleftrightarrow> fst (ResourceKeyOwner k) = [] \<and> \<not> IsTelemetrySDKKey k \<and> \<not> IsProcessKey k \<and> \<not> IsReservedAttributeKey k"

definition extra_ok :: "'s sdk_config \<Rightarrow> bool" where
  "extra_ok c \<longleftrightarrow> distinct (map NormalizePrometheusLabelName (extraHTTPServerAttrKeys c)) \<and> list_all extra_admit (extraHTTPServerAttrKeys c)"

definition resource_ok :: "'s sdk_config \<Rightarrow> bool" where
  "resource_ok c \<longleftrightarrow>
     distinct (map (NormalizePrometheusLabelName \<circ> fst) (resourceAttrs c)) \<and> list_all (resource_admit \<circ> fst) (resourceAttrs c)"

definition scalars_ok :: "'s sdk_config \<Rightarrow> bool" where
  "scalars_ok c \<longleftrightarrow>
     0 < maxUniqueRoutes c \<and> 0 < maxUniqueCollections c \<and> 0 \<le> cardinalityLimit c \<and>
     (sampler c = None \<or> (samplingRatioSet c, samplingRatio c) = (False, Finite 0)) \<and>
     otlpEndpoint c \<noteq> [] \<and> (otlpEndpointSet c \<or> otlpEndpoint c = defaultOTLPEndpoint)"

definition maps_ok :: "'s sdk_config \<Rightarrow> bool" where
  "maps_ok c \<longleftrightarrow> distinct (keys (otlpHeaders c)) \<and> distinct (keys (profilingAuthHeaders c)) \<and>
     distinct (keys (histogramBucketOverrides c))"

definition baggage_ok :: "('b, 'm) baggage_api \<Rightarrow> 's sdk_config \<Rightarrow> bool" where
  "baggage_ok api c \<longleftrightarrow> distinct (baggageKeys c) \<and> list_all (\<lambda>k. ValidBaggageKey api k = None) (baggageKeys c)"

definition config_ok :: "('b, 'm) baggage_api \<Rightarrow> 's sdk_config \<Rightarrow> bool" where
  "config_ok api c \<longleftrightarrow> extra_ok c \<and> resource_ok c \<and> baggage_ok api c \<and> scalars_ok c \<and> maps_ok c"

text \<open>The values an \<^verbatim>\<open>Option\<close> can have: what the constructors of the package return.\<close>

inductive sdk_option :: "('b, 'm) baggage_api \<Rightarrow> (string \<Rightarrow> string) \<Rightarrow> ('s sdk_config \<Rightarrow> 's sdk_config) \<Rightarrow> bool"
  for api :: "('b, 'm) baggage_api" and quoted :: "string \<Rightarrow> string" where
  "sdk_option api quoted (WithServiceName n)"
| "sdk_option api quoted (WithServiceVersion v)"
| "sdk_option api quoted (WithEnvironment e)"
| "sdk_option api quoted (WithServiceNamespace ns)"
| "sdk_option api quoted (WithOTLPEndpoint e)"
| "sdk_option api quoted (WithSamplingRatio r)"
| "sdk_option api quoted (WithTraceSampler s)"
| "sdk_option api quoted WithUserBaggage"
| "sdk_option api quoted (WithBaggageAttributes api ks)"
| "sdk_option api quoted (WithOTLPHeaders hs)"
| "sdk_option api quoted (WithProfilingEndpoint e)"
| "sdk_option api quoted (WithProfilingAuthHeaders hs)"
| "sdk_option api quoted (WithLogLevel l)"
| "sdk_option api quoted (WithResourceAttributes attrs)"
| "sdk_option api quoted (WithMetricsOTLPEndpoint e)"
| "sdk_option api quoted (WithMetricsAddr e)"
| "sdk_option api quoted (WithRuntimeMetrics b)"
| "sdk_option api quoted (WithHistogramBuckets bs)"
| "sdk_option api quoted (WithInstrumentHistogramBuckets e bs)"
| "sdk_option api quoted (WithTraceEnabled b)"
| "sdk_option api quoted (WithMetricsEnabled b)"
| "sdk_option api quoted (WithLogEnabled b)"
| "sdk_option api quoted (WithProfilingEnabled b)"
| "sdk_option api quoted (WithExemplars b)"
| "sdk_option api quoted WithDisableDefaultViews"
| "sdk_option api quoted (WithExtraHTTPServerAttributeKeys quoted ks)"
| "sdk_option api quoted (WithMaxUniqueRoutes i)"
| "sdk_option api quoted (WithCardinalityLimit i)"
| "sdk_option api quoted (WithMaxUniqueCollections i)"

lemmas plain_option_defs =
  WithServiceName_def WithServiceVersion_def WithEnvironment_def WithServiceNamespace_def WithOTLPEndpoint_def
  WithSamplingRatio_def WithTraceSampler_def WithUserBaggage_def WithOTLPHeaders_def WithProfilingEndpoint_def
  WithProfilingAuthHeaders_def WithLogLevel_def WithMetricsOTLPEndpoint_def WithMetricsAddr_def WithRuntimeMetrics_def
  WithHistogramBuckets_def WithInstrumentHistogramBuckets_def WithTraceEnabled_def WithMetricsEnabled_def
  WithLogEnabled_def WithProfilingEnabled_def WithExemplars_def WithDisableDefaultViews_def WithMaxUniqueRoutes_def
  WithCardinalityLimit_def WithMaxUniqueCollections_def

lemmas config_ok_defs = config_ok_def extra_ok_def resource_ok_def baggage_ok_def scalars_ok_def maps_ok_def

subsection \<open>Keys that share a label\<close>

lemma label_of_shape: "k \<noteq> [] \<Longrightarrow> isTranslatorReservedShape k \<longleftrightarrow> prefix ''__'' (NormalizePrometheusLabelName k)"
  using normalized_valid[of k] NormalizePrometheusLabelName_shape[of k] by (auto simp: valid_label_def)

lemma label_without_alphanumeric:
  assumes "k \<noteq> []" "\<not> isTranslatorReservedShape k"
  shows "hasAlphanumeric k \<longleftrightarrow> NormalizePrometheusLabelName k \<noteq> ''_''"
proof -
  let ?n = "norm_loop False (runes k)"
  have alnum: "hasAlphanumeric k \<longleftrightarrow> (\<exists>c \<in> set ?n. is_alnum c)" by (simp add: hasAlphanumeric_runes norm_loop_alnum)
  have ne: "?n \<noteq> []" using assms(1) by (simp add: norm_loop_Nil)
  have "?n = ''_''" if "\<not> hasAlphanumeric k"
  proof -
    have "set ?n \<subseteq> {CHR ''_''}" using that norm_loop_chars alnum by blast
    moreover have "no_double ?n" using norm_loop_no_double[of False "runes k"] by simp
    ultimately show ?thesis using ne by (cases ?n rule: no_double.cases) auto
  qed
  moreover have "\<not> hasAlphanumeric k" if "?n = ''_''" using that alnum not_digit_underscore(2) by simp
  ultimately show ?thesis
    using NormalizePrometheusLabelName_plain[OF assms] not_digit_underscore(1) by (cases "hasAlphanumeric k") (auto simp: Let_def)
qed

text \<open>Whether a key is reserved depends on its label only, once the label is more than an underscore.\<close>

lemma reserved_by_label:
  assumes "NormalizePrometheusLabelName k = NormalizePrometheusLabelName k'" "NormalizePrometheusLabelName k \<notin> {[], ''_''}"
  shows "IsReservedAttributeKey k = IsReservedAttributeKey k'"
proof -
  have "k \<noteq> []" "k' \<noteq> []" using assms by (metis NormalizePrometheusLabelName_Nil(2) insertI1)+
  then show ?thesis
    using assms label_of_shape label_without_alphanumeric unfolding reserved_iff by (metis insertCI)
qed

lemma extra_admit_by_label:
  assumes "NormalizePrometheusLabelName k = NormalizePrometheusLabelName k'" "k \<noteq> []"
  shows "extra_admit k = extra_admit k'"
  using assms reserved_by_label[of k k'] NormalizePrometheusLabelName_Nil(2)[of k]
  by (simp add: extra_admit_def Let_def) metis

subsection \<open>The filtering options\<close>

definition baggage_inv :: "('b, 'm) baggage_api \<Rightarrow> string list \<times> 's sdk_config \<Rightarrow> bool" where
  "baggage_inv api st \<longleftrightarrow> (\<forall>k. ValidBaggageKey api k = None \<longrightarrow> k \<in> set (fst st) \<longleftrightarrow> k \<in> set (baggageKeys (snd st)))"

lemma warn_keeps [simp]:
  "baggageKeys (warn w c) = baggageKeys c" "extraHTTPServerAttrKeys (warn w c) = extraHTTPServerAttrKeys c"
  "resourceAttrs (warn w c) = resourceAttrs c"
  by (simp_all add: warn_def)

interpretation baggage_keys: first_wins "baggage_step api" "\<lambda>st. baggageKeys (snd st)" "\<lambda>k. k" "\<lambda>k. k"
  "\<lambda>k. ValidBaggageKey api k = None" "baggage_inv api" for api
  by unfold_locales (auto simp: baggage_step_def baggage_inv_def case_prod_unfold split: option.splits)

definition extra_inv :: "(string \<times> string) list \<times> 's sdk_config \<Rightarrow> bool" where
  "extra_inv st \<longleftrightarrow> (\<forall>k. k \<noteq> [] \<and> extra_admit k \<longrightarrow>
     NormalizePrometheusLabelName k \<in> fst ` set (fst st) \<longleftrightarrow>
     NormalizePrometheusLabelName k \<in> NormalizePrometheusLabelName ` set (extraHTTPServerAttrKeys (snd st))) \<and>
     set reservedHTTPServerPromLabels \<subseteq> fst ` set (fst st)"

lemma extra_admit_nonempty: "extra_admit k \<Longrightarrow> k \<noteq> []"
  by (auto simp: extra_admit_def IsReservedAttributeKey_def)

lemma keys_update: "fst ` set (AList.update k v m) = insert k (fst ` set m)"
  by (induction m) auto

lemma extra_step_cases:
  fixes k :: string
  assumes "extra_inv st"
  defines "l \<equiv> NormalizePrometheusLabelName k"
  shows "extra_inv (extra_step quoted st k)"
    and "extra_admit k \<Longrightarrow> l \<notin> NormalizePrometheusLabelName ` set (extraHTTPServerAttrKeys (snd st)) \<Longrightarrow>
      extraHTTPServerAttrKeys (snd (extra_step quoted st k)) = extraHTTPServerAttrKeys (snd st) @ [k]"
    and "\<not> extra_admit k \<or> l \<in> NormalizePrometheusLabelName ` set (extraHTTPServerAttrKeys (snd st)) \<Longrightarrow>
      extraHTTPServerAttrKeys (snd (extra_step quoted st k)) = extraHTTPServerAttrKeys (snd st)"
proof -
  obtain seen c where st: "st = (seen, c)" by (cases st)
  let ?res = "extra_step quoted st k"
  have inv: "l' \<in> fst ` set seen \<longleftrightarrow> l' \<in> NormalizePrometheusLabelName ` set (extraHTTPServerAttrKeys c)"
    if "extra_admit k'" "l' = NormalizePrometheusLabelName k'" for k' l'
    using assms(1) that extra_admit_nonempty[of k'] by (auto simp: extra_inv_def st)
  have ne: "l \<noteq> []" if "k \<noteq> []" using that by (simp add: l_def)
  have builtin: "set reservedHTTPServerPromLabels \<subseteq> fst ` set seen" using assms(1) by (simp add: extra_inv_def st)
  consider "k = [] \<or> l = ''_''" | "k \<noteq> []" "l \<noteq> ''_''" "IsReservedAttributeKey k"
    | "k \<noteq> []" "l \<noteq> ''_''" "\<not> IsReservedAttributeKey k" "l \<in> fst ` set seen"
    | "k \<noteq> []" "l \<noteq> ''_''" "\<not> IsReservedAttributeKey k" "l \<notin> fst ` set seen" by blast
  then have "extra_inv ?res \<and>
      (extra_admit k \<and> l \<notin> NormalizePrometheusLabelName ` set (extraHTTPServerAttrKeys c) \<longrightarrow>
        extraHTTPServerAttrKeys (snd ?res) = extraHTTPServerAttrKeys c @ [k]) \<and>
      (\<not> extra_admit k \<or> l \<in> NormalizePrometheusLabelName ` set (extraHTTPServerAttrKeys c) \<longrightarrow>
        extraHTTPServerAttrKeys (snd ?res) = extraHTTPServerAttrKeys c)"
  proof cases
    case 1
    then have "extraHTTPServerAttrKeys (snd ?res) = extraHTTPServerAttrKeys c" "fst ?res = seen" "\<not> extra_admit k"
      using extra_admit_nonempty[of k]
      by (auto simp: extra_step_def st normalizePrometheusLabelName_def l_def extra_admit_def)
    then show ?thesis using assms(1) by (simp add: extra_inv_def st)
  next
    case 2
    then have na: "\<not> extra_admit k" by (simp add: extra_admit_def Let_def)
    have res: "extraHTTPServerAttrKeys (snd ?res) = extraHTTPServerAttrKeys c" "fst ` set (fst ?res) = insert l (fst ` set seen)"
      using 2 ne by (simp_all add: extra_step_def st normalizePrometheusLabelName_def l_def[symmetric] Let_def update_conv' keys_update)
    have "l \<noteq> NormalizePrometheusLabelName k'" if "extra_admit k'" for k'
      using extra_admit_by_label[of k k'] that na 2(1) by (auto simp: l_def)
    then show ?thesis using res na inv builtin by (auto simp: extra_inv_def)
  next
    case 3
    then have "extraHTTPServerAttrKeys (snd ?res) = extraHTTPServerAttrKeys c" "fst ?res = seen"
      using ne by (auto simp: extra_step_def st normalizePrometheusLabelName_def l_def[symmetric] Let_def map_of_eq_None_iff split: option.splits)
    then show ?thesis using assms(1) inv[of k l] 3 by (auto simp: extra_inv_def st l_def)
  next
    case 4
    then have admit: "extra_admit k" using builtin by (auto simp: extra_admit_def Let_def l_def)
    have res: "extraHTTPServerAttrKeys (snd ?res) = extraHTTPServerAttrKeys c @ [k]" "fst ` set (fst ?res) = insert l (fst ` set seen)"
      using 4 ne map_of_eq_None_iff[of seen l]
      by (simp_all add: extra_step_def st normalizePrometheusLabelName_def l_def[symmetric] Let_def keys_update)
    then show ?thesis using admit inv[OF admit] builtin 4 inv by (auto simp: extra_inv_def l_def)
  qed
  then show "extra_inv ?res" 
    and "extra_admit k \<Longrightarrow> l \<notin> NormalizePrometheusLabelName ` set (extraHTTPServerAttrKeys (snd st)) \<Longrightarrow>
      extraHTTPServerAttrKeys (snd ?res) = extraHTTPServerAttrKeys (snd st) @ [k]"
    and "\<not> extra_admit k \<or> l \<in> NormalizePrometheusLabelName ` set (extraHTTPServerAttrKeys (snd st)) \<Longrightarrow>
      extraHTTPServerAttrKeys (snd ?res) = extraHTTPServerAttrKeys (snd st)"
    by (simp_all add: st)
qed

interpretation extra_keys: first_wins "extra_step quoted" "\<lambda>st. extraHTTPServerAttrKeys (snd st)" "\<lambda>k. k"
  NormalizePrometheusLabelName extra_admit extra_inv for quoted
  by unfold_locales (use extra_step_cases in blast)+

lemma warn_ok [simp]:
  "extra_ok (warn w c) = extra_ok c" "resource_ok (warn w c) = resource_ok c" "baggage_ok api (warn w c) = baggage_ok api c"
  "scalars_ok (warn w c) = scalars_ok c" "maps_ok (warn w c) = maps_ok c"
  by (simp_all add: config_ok_defs warn_def)

lemma baggage_step_frame:
  "extra_ok (snd (baggage_step api st k)) = extra_ok (snd st) \<and> resource_ok (snd (baggage_step api st k)) = resource_ok (snd st) \<and>
   scalars_ok (snd (baggage_step api st k)) = scalars_ok (snd st) \<and> maps_ok (snd (baggage_step api st k)) = maps_ok (snd st)"
proof (cases st)
  case (Pair seen c)
  have "extra_ok (c\<lparr>baggageKeys := ks\<rparr>) = extra_ok c \<and> resource_ok (c\<lparr>baggageKeys := ks\<rparr>) = resource_ok c \<and>
    scalars_ok (c\<lparr>baggageKeys := ks\<rparr>) = scalars_ok c \<and> maps_ok (c\<lparr>baggageKeys := ks\<rparr>) = maps_ok c" for ks
    by (simp add: config_ok_defs)
  then show ?thesis by (cases "ValidBaggageKey api k") (simp_all add: baggage_step_def Pair)
qed

lemma WithBaggageAttributes_ok: "config_ok api c \<Longrightarrow> config_ok api (WithBaggageAttributes api ks c)"
proof -
  assume ok: "config_ok api c"
  let ?st = "foldl (baggage_step api) (baggageKeys c, c) ks"
  have frame: "extra_ok (snd (foldl (baggage_step api) st ks)) = extra_ok (snd st) \<and>
    resource_ok (snd (foldl (baggage_step api) st ks)) = resource_ok (snd st) \<and>
    scalars_ok (snd (foldl (baggage_step api) st ks)) = scalars_ok (snd st) \<and>
    maps_ok (snd (foldl (baggage_step api) st ks)) = maps_ok (snd st)" for st :: "string list \<times> 's sdk_config"
    by (induction ks arbitrary: st) (simp_all add: baggage_step_frame)
  have inv: "baggage_inv api (baggageKeys c, c)" by (simp add: baggage_inv_def)
  have "baggage_ok api (snd ?st)"
    using ok baggage_keys.kept_distinct[OF inv, of ks] baggage_keys.kept_admitted[OF inv, of _ ks]
    by (fastforce simp: config_ok_def baggage_ok_def list_all_iff)
  then show ?thesis using ok frame[of "(baggageKeys c, c)"] by (simp add: config_ok_def WithBaggageAttributes_def)
qed

lemma extra_step_frame:
  "baggage_ok api (snd (extra_step quoted st k)) = baggage_ok api (snd st) \<and>
   resource_ok (snd (extra_step quoted st k)) = resource_ok (snd st) \<and>
   scalars_ok (snd (extra_step quoted st k)) = scalars_ok (snd st) \<and> maps_ok (snd (extra_step quoted st k)) = maps_ok (snd st)"
proof (cases st)
  case (Pair seen c)
  have "baggage_ok api (c\<lparr>extraHTTPServerAttrKeys := ks\<rparr>) = baggage_ok api c \<and>
    resource_ok (c\<lparr>extraHTTPServerAttrKeys := ks\<rparr>) = resource_ok c \<and>
    scalars_ok (c\<lparr>extraHTTPServerAttrKeys := ks\<rparr>) = scalars_ok c \<and> maps_ok (c\<lparr>extraHTTPServerAttrKeys := ks\<rparr>) = maps_ok c" for ks
    by (simp add: config_ok_defs)
  then show ?thesis by (simp add: extra_step_def Pair Let_def split: option.splits)
qed

lemma extra_seen_inv: "extra_inv (extra_seen c, c)"
proof -
  have upd: "fst ` set (foldl (\<lambda>m x. AList.update (f x) (g x) m) m xs) = fst ` set m \<union> f ` set xs"
    for f :: "string \<Rightarrow> string" and g :: "string \<Rightarrow> string" and m xs
    by (induction xs arbitrary: m) (auto simp: keys_update)
  have "fst ` set (extra_seen c) = set reservedHTTPServerPromLabels \<union> NormalizePrometheusLabelName ` set (extraHTTPServerAttrKeys c)"
    unfolding extra_seen_def upd[where g = "\<lambda>prev. prev"] upd[where g = "\<lambda>_. ''<built-in SDK label>''" and f = "\<lambda>b. b"]
    by (simp add: normalizePrometheusLabelName_def)
  then show ?thesis by (auto simp: extra_inv_def extra_admit_def Let_def)
qed

lemma WithExtraHTTPServerAttributeKeys_ok:
  "config_ok api c \<Longrightarrow> config_ok api (WithExtraHTTPServerAttributeKeys quoted ks c)"
proof -
  assume ok: "config_ok api c"
  let ?st = "foldl (extra_step quoted) (extra_seen c, c) ks"
  have frame: "baggage_ok api (snd (foldl (extra_step quoted) st ks)) = baggage_ok api (snd st) \<and>
    resource_ok (snd (foldl (extra_step quoted) st ks)) = resource_ok (snd st) \<and>
    scalars_ok (snd (foldl (extra_step quoted) st ks)) = scalars_ok (snd st) \<and>
    maps_ok (snd (foldl (extra_step quoted) st ks)) = maps_ok (snd st)" for st :: "(string \<times> string) list \<times> 's sdk_config"
    by (induction ks arbitrary: st) (simp_all add: extra_step_frame)
  have "extra_ok (snd ?st)"
    using ok extra_keys.kept_distinct[OF extra_seen_inv, of c quoted ks] extra_keys.kept_admitted[OF extra_seen_inv, of _ quoted c ks]
    by (fastforce simp: config_ok_def extra_ok_def list_all_iff)
  then show ?thesis using ok frame[of "(extra_seen c, c)"] by (simp add: config_ok_def WithExtraHTTPServerAttributeKeys_def)
qed

subsection \<open>Resource attributes\<close>

lemma append_loop_names:
  assumes "append_loop before attrs kv = (out, ws)"
  shows "map (NormalizePrometheusLabelName \<circ> fst) out =
      map (NormalizePrometheusLabelName \<circ> fst) (rev before @ attrs) @
      (if list_ex (\<lambda>prev. SameLabel (fst prev) (fst kv)) attrs then [] else [NormalizePrometheusLabelName (fst kv)]) \<and>
    set out \<subseteq> set before \<union> set attrs \<union> {kv}"
  using assms by (induction before attrs kv rule: append_loop.induct) (auto simp: SameLabel_def split: if_splits)

lemma append_loop_ok:
  assumes "append_loop [] attrs kv = (out, ws)" "distinct (map (NormalizePrometheusLabelName \<circ> fst) attrs)"
    "list_all (resource_admit \<circ> fst) attrs" "resource_admit (fst kv)"
  shows "distinct (map (NormalizePrometheusLabelName \<circ> fst) out) \<and> list_all (resource_admit \<circ> fst) out"
proof -
  note n = append_loop_names[OF assms(1)]
  have "list_all (resource_admit \<circ> fst) out" using n assms(3,4) by (auto simp: list_all_iff)
  moreover have "distinct (map (NormalizePrometheusLabelName \<circ> fst) out)"
    using n assms(2) by (auto simp: list_ex_iff SameLabel_def)
  ultimately show ?thesis by simp
qed

lemma resource_step_ok: "config_ok api c \<Longrightarrow> config_ok api (resource_step c kv)"
proof -
  assume ok: "config_ok api c"
  show ?thesis
  proof (cases "resource_admit (fst kv)")
    case True
    obtain out ws where a: "append_loop [] (resourceAttrs c) kv = (out, ws)" by fastforce
    have "fst kv \<noteq> []" using True by (auto simp: resource_admit_def IsReservedAttributeKey_def)
    then have "resource_step c kv = c\<lparr>resourceAttrs := out, initWarnings := initWarnings c @ ws\<rparr>"
      using True a by (simp add: resource_step_def resource_admit_def appendResourceAttribute_def case_prod_unfold)
    then show ?thesis using ok append_loop_ok[OF a] True by (simp add: config_ok_defs)
  next
    case False
    then have "\<exists>w. resource_step c kv = warn w c" by (auto simp: resource_step_def resource_admit_def case_prod_unfold Let_def)
    then show ?thesis using ok by (auto simp: config_ok_def)
  qed
qed

lemma WithResourceAttributes_ok: "config_ok api c \<Longrightarrow> config_ok api (WithResourceAttributes attrs c)"
  by (induction attrs arbitrary: c) (simp_all add: WithResourceAttributes_def resource_step_ok)

subsection \<open>Every option\<close>

lemma merge_headers_distinct: "distinct (keys hs) \<Longrightarrow> distinct (keys (merge_headers hs new))"
  by (induction new arbitrary: hs) (auto simp: merge_headers_def distinct_update)

lemma scalars_maps_options_ok:
  assumes "config_ok api c"
  shows "config_ok api (WithOTLPEndpoint e c)" "config_ok api (WithSamplingRatio r c)" "config_ok api (WithTraceSampler s c)"
    "config_ok api (WithOTLPHeaders hs c)" "config_ok api (WithProfilingAuthHeaders hs c)"
    "config_ok api (WithInstrumentHistogramBuckets e bs c)" "config_ok api (WithMaxUniqueRoutes i c)"
    "config_ok api (WithCardinalityLimit i c)" "config_ok api (WithMaxUniqueCollections i c)"
  using assms by (simp_all add: config_ok_defs plain_option_defs Let_def defaultOTLPEndpoint_def DefaultMaxUniqueRoutes_def
      DefaultMaxUniqueCollections_def merge_headers_distinct distinct_update split: option.splits)

lemma sdk_option_ok: "sdk_option api quoted f \<Longrightarrow> config_ok api c \<Longrightarrow> config_ok api (f c)"
proof (induction rule: sdk_option.induct)
qed (simp_all add: WithBaggageAttributes_ok WithResourceAttributes_ok WithExtraHTTPServerAttributeKeys_ok scalars_maps_options_ok,
     simp_all add: config_ok_defs plain_option_defs)

lemma defaultConfig_ok: "config_ok api (defaultConfig getenv)"
proof -
  have toggles: "config_ok api (warn_opt w c) = config_ok api c" "config_ok api (c\<lparr>traceEnabled := b\<rparr>) = config_ok api c"
    "config_ok api (c\<lparr>metricsEnabled := b\<rparr>) = config_ok api c" "config_ok api (c\<lparr>logEnabled := b\<rparr>) = config_ok api c"
    "config_ok api (c\<lparr>profilingEnabled := b\<rparr>) = config_ok api c" for w b and c :: "'s sdk_config"
    by (simp_all add: config_ok_defs warn_opt_def warn_def split: option.splits)
  have "config_ok api base_config"
    by (simp add: config_ok_defs base_config_def DefaultMaxUniqueRoutes_def DefaultMaxUniqueCollections_def defaultOTLPEndpoint_def)
  then show ?thesis by (simp add: defaultConfig_def Let_def case_prod_unfold toggles)
qed

lemma options_ok:
  assumes "list_all (\<lambda>opt. case opt of None \<Rightarrow> True | Some f \<Rightarrow> sdk_option api quoted f) opts"
  shows "config_ok api (apply_options opts (defaultConfig getenv))"
proof -
  have "config_ok api (apply_options opts c)" if "config_ok api c" for c
    using assms that unfolding apply_options_def
    by (induction opts arbitrary: c) (auto simp: sdk_option_ok split: option.splits)
  then show ?thesis by (simp add: defaultConfig_ok)
qed

text \<open>C27. Whatever options are given, in whatever order and with whatever arguments, the configuration the
  SDK starts from is consistent: the extra HTTP keys and the resource attributes render as pairwise different labels
  that no built-in, exporter or detected label has; the baggage keys are distinct and valid; the caps are positive;
  at most one of a sampler and a sampling ratio is in force; the OTLP endpoint is never empty.\<close>

theorem options_keep_config_consistent:
  assumes "list_all (\<lambda>opt. case opt of None \<Rightarrow> True | Some f \<Rightarrow> sdk_option api quoted f) opts"
  shows "config_ok api (apply_options opts (defaultConfig getenv))"
  using assms by (rule options_ok)

definition demo_options :: "(unit sdk_config \<Rightarrow> unit sdk_config) option list" where
  "demo_options = [Some (WithExtraHTTPServerAttributeKeys (\<lambda>k. k) [''tenant.id'', ''tenant_id'', ''http.route'', ''service.name'']), None,
     Some (WithSamplingRatio (Finite (1 / 2))), Some (WithTraceSampler (Some ())), Some (WithMaxUniqueRoutes (- 3))]"

theorem options_keep_config_consistent_witness:
  "extraHTTPServerAttrKeys (apply_options demo_options (defaultConfig (\<lambda>_. []))) = [''tenant.id''] \<and>
   length (initWarnings (apply_options demo_options (defaultConfig (\<lambda>_. [])))) = 3 \<and>
   config_ok demo_api (apply_options demo_options (defaultConfig (\<lambda>_. [])))"
proof (intro conjI)
  show "extraHTTPServerAttrKeys (apply_options demo_options (defaultConfig (\<lambda>_. []))) = [''tenant.id'']" by code_simp
  show "length (initWarnings (apply_options demo_options (defaultConfig (\<lambda>_. [])))) = 3" by code_simp
  have "list_all (\<lambda>opt. case opt of None \<Rightarrow> True | Some f \<Rightarrow> sdk_option demo_api (\<lambda>k. k) f) demo_options"
    unfolding demo_options_def by (simp add: sdk_option.intros)
  then show "config_ok demo_api (apply_options demo_options (defaultConfig (\<lambda>_. [])))"
    by (rule options_keep_config_consistent)
qed

end
