(* ===== verification/Endpoint.thy ===== *)
theory Endpoint
  imports Options RedactUrl
begin

text \<open>
  Resolving and validating the OTLP endpoints (\<^verbatim>\<open>endpoint.go\<close> and the endpoint half of \<^verbatim>\<open>diagnostics.go\<close>).

  \<^verbatim>\<open>net/url\<close> is the parameter \<open>L\<close> of the redaction theories; here the rest of a URL has its two path fields.
  Errors are the text of their messages, which are built from constants with the verb \<^verbatim>\<open>%s\<close>.
\<close>

section \<open>Signals and environment variables\<close>

record 'v url_path =
  Path :: string
  RawPath :: string
  url_more :: 'v

definition envOTLPEndpoint :: string where "envOTLPEndpoint = ''OTEL_EXPORTER_OTLP_ENDPOINT''"
definition envOTLPTracesEndpoint :: string where "envOTLPTracesEndpoint = ''OTEL_EXPORTER_OTLP_TRACES_ENDPOINT''"
definition envOTLPLogsEndpoint :: string where "envOTLPLogsEndpoint = ''OTEL_EXPORTER_OTLP_LOGS_ENDPOINT''"
definition envOTLPProtocol :: string where "envOTLPProtocol = ''OTEL_EXPORTER_OTLP_PROTOCOL''"

record otlpSignal =
  signal_name :: string
  envVar :: string
  protocolVar :: string
  urlPath :: string

definition traceSignal :: otlpSignal where
  "traceSignal = \<lparr>signal_name = ''trace'', envVar = envOTLPTracesEndpoint,
     protocolVar = ''OTEL_EXPORTER_OTLP_TRACES_PROTOCOL'', urlPath = ''/v1/traces''\<rparr>"

definition logSignal :: otlpSignal where
  "logSignal = \<lparr>signal_name = ''log'', envVar = envOTLPLogsEndpoint,
     protocolVar = ''OTEL_EXPORTER_OTLP_LOGS_PROTOCOL'', urlPath = ''/v1/logs''\<rparr>"

definition envValue :: "(string \<Rightarrow> string) \<Rightarrow> string \<Rightarrow> bool \<Rightarrow> string" where
  "envValue getenv n verbatim = (let v = getenv n in if verbatim then v else trim_space v)"

definition fromEnv :: "signalEndpoint \<Rightarrow> bool" where
  "fromEnv e \<longleftrightarrow> source e \<noteq> [] \<and> source e \<noteq> ''WithOTLPEndpoint''"

section \<open>Parsing\<close>

definition problemNoScheme :: string where "problemNoScheme = ''it has no http:// or https:// scheme''"
definition problemInvalidURL :: string where "problemInvalidURL = ''it is not a valid URL''"
definition problemNoHost :: string where "problemNoHost = ''it has no host''"

definition parseEndpoint :: "unicode \<Rightarrow> 'u url_lib \<Rightarrow> string \<Rightarrow> 'u url option \<times> string" where
  "parseEndpoint U L v =
     (case url_parse L v of
        None \<Rightarrow> (None, if \<not> contains v ''://'' then problemNoScheme else problemInvalidURL)
      | Some u \<Rightarrow>
          let scheme = to_lower U (Scheme u) in
          if scheme \<noteq> ''http'' \<and> scheme \<noteq> ''https'' then (None, problemNoScheme)
          else if Host u = [] then (None, problemNoHost)
          else (Some u, []))"

definition endpointProblem :: "unicode \<Rightarrow> 'u url_lib \<Rightarrow> string \<Rightarrow> string" where
  "endpointProblem U L v = snd (parseEndpoint U L v)"

definition newSignalEndpoint :: "unicode \<Rightarrow> 'u url_lib \<Rightarrow> string \<Rightarrow> string \<Rightarrow> signalEndpoint" where
  "newSignalEndpoint U L v src =
     \<lparr>endpoint_url = v, source = src, raw = v, problem = snd (parseEndpoint U L v), grpcVar = []\<rparr>"

definition set_path :: "string \<Rightarrow> 'v url_path url \<Rightarrow> 'v url_path url" where
  "set_path p u = u\<lparr>url_rest := (url_rest u)\<lparr>Path := p, RawPath := []\<rparr>\<rparr>"

definition newEnvSignalEndpoint ::
  "unicode \<Rightarrow> 'v url_path url_lib \<Rightarrow> string \<Rightarrow> string \<Rightarrow> string \<Rightarrow> bool \<Rightarrow> signalEndpoint" where
  "newEnvSignalEndpoint U L v src path base =
     (let e = \<lparr>endpoint_url = v, source = src, raw = v, problem = [], grpcVar = []\<rparr> in
      case parseEndpoint U L v of
        (Some u, prob) \<Rightarrow>
          if prob \<noteq> [] then e\<lparr>problem := prob\<rparr>
          else let p = trim_right_set (Path (url_rest u)) ''/'';
                   p' = (if base \<or> p = [] then p @ path else p)
               in e\<lparr>endpoint_url := url_string L (set_path p' u)\<rparr>
      | (None, prob) \<Rightarrow> e\<lparr>problem := prob\<rparr>)"

text \<open>\<^verbatim>\<open>strings.EqualFold(v, "grpc")\<close>: no rune beyond ASCII folds to one of these four letters.\<close>

definition ascii_lower :: "char \<Rightarrow> char" where
  "ascii_lower c = (if is_upper c then char_of (byte c + 32) else c)"

definition is_grpc :: "string \<Rightarrow> bool" where
  "is_grpc v \<longleftrightarrow> map ascii_lower v = ''grpc''"

definition resolveEndpoint ::
  "(string \<Rightarrow> string) \<Rightarrow> unicode \<Rightarrow> 'v url_path url_lib \<Rightarrow> 's sdk_config \<Rightarrow> otlpSignal \<Rightarrow> signalEndpoint" where
  "resolveEndpoint getenv U L cfg s =
     (if otlpEndpointSet cfg then newSignalEndpoint U L (otlpEndpoint cfg) ''WithOTLPEndpoint''
      else if envValue getenv (envVar s) False = [] \<and> envValue getenv envOTLPEndpoint False = []
      then newSignalEndpoint U L (otlpEndpoint cfg) []
      else let own = envValue getenv (envVar s) False;
               e = (if own \<noteq> [] then newEnvSignalEndpoint U L own (envVar s) (urlPath s) False
                    else newEnvSignalEndpoint U L (envValue getenv envOTLPEndpoint False) envOTLPEndpoint (urlPath s) True);
               pv = (if envValue getenv (protocolVar s) False = [] then envOTLPProtocol else protocolVar s)
           in if is_grpc (envValue getenv pv False) then e\<lparr>grpcVar := pv\<rparr> else e)"

definition resolveOTLPEndpoints :: "(string \<Rightarrow> string) \<Rightarrow> unicode \<Rightarrow> 'v url_path url_lib \<Rightarrow> 's sdk_config \<Rightarrow> 's sdk_config" where
  "resolveOTLPEndpoints getenv U L cfg =
     cfg\<lparr>resolvedOTLP := \<lparr>trace_endpoint = resolveEndpoint getenv U L cfg traceSignal,
                          log_endpoint = resolveEndpoint getenv U L cfg logSignal\<rparr>\<rparr>"

section \<open>Errors\<close>

definition endpointRule :: string where
  "endpointRule = ''(an OTLP/HTTP endpoint is an http:// or https:// URL with a host, such as http://collector:4318); the value is not repeated here''"

definition endpointError :: "string \<Rightarrow> string \<Rightarrow> string" where
  "endpointError src prob = ''o11y: the endpoint given to '' @ src @ '' cannot be used: '' @ prob @ '' '' @ endpointRule"

definition grpcEndpointError :: "string \<Rightarrow> string \<Rightarrow> string \<Rightarrow> string" where
  "grpcEndpointError variable pv signal =
     ''o11y: '' @ variable @ '' cannot be used as the '' @ signal @ '' endpoint: '' @ pv @
     '' asks for grpc, and this SDK sends OTLP over HTTP only, so the endpoint would refuse every export; point the variable at the collector's OTLP/HTTP port (usually 4318) with the protocol unset or http/protobuf, or pass WithOTLPEndpoint''"

definition envEndpointError :: "string \<Rightarrow> string \<Rightarrow> string \<Rightarrow> string" where
  "envEndpointError variable signal prob =
     ''o11y: '' @ variable @ '' cannot be used as the '' @ signal @ '' endpoint: '' @ prob @ '' '' @ endpointRule"

definition configuredEndpointError :: "string \<Rightarrow> string \<Rightarrow> string" where
  "configuredEndpointError option prob =
     (if prob = problemInvalidURL
      then ''o11y: the endpoint given to '' @ option @ '' is not a valid URL; the OTLP exporters would report its raw text through OTel's global logger while Init builds them, so the option is rejected instead, and neither the value nor the parser's message, which quotes part of it, is repeated here''
      else endpointError option prob)"

definition check_signal :: "bool \<Rightarrow> string \<Rightarrow> signalEndpoint \<Rightarrow> string option" where
  "check_signal enabled signal e =
     (if \<not> enabled then None
      else if problem e \<noteq> [] \<and> fromEnv e then Some (envEndpointError (source e) signal (problem e))
      else if problem e \<noteq> [] then Some (configuredEndpointError ''WithOTLPEndpoint'' (problem e))
      else if grpcVar e \<noteq> [] then Some (grpcEndpointError (source e) (grpcVar e) signal)
      else None)"

definition validateConfiguredEndpoints :: "unicode \<Rightarrow> 'v url_path url_lib \<Rightarrow> 's sdk_config \<Rightarrow> string option" where
  "validateConfiguredEndpoints U L cfg =
     (case check_signal (traceEnabled cfg) (signal_name traceSignal) (trace_endpoint (resolvedOTLP cfg)) of
        Some e \<Rightarrow> Some e
      | None \<Rightarrow>
          (case check_signal (logEnabled cfg) (signal_name logSignal) (log_endpoint (resolvedOTLP cfg)) of
             Some e \<Rightarrow> Some e
           | None \<Rightarrow>
               if metricsEnabled cfg \<and> metricsOTLPEndpoint cfg \<noteq> [] then
                 let prob = endpointProblem U L (metricsOTLPEndpoint cfg) in
                 if prob \<noteq> [] then Some (configuredEndpointError ''WithMetricsOTLPEndpoint'' prob) else None
               else None))"

text \<open>The endpoints whose raw text the diagnostics redact.\<close>

definition diagnosticEndpoints :: "'s sdk_config \<Rightarrow> string list" where
  "diagnosticEndpoints cfg =
     [metricsOTLPEndpoint cfg, profilingEndpoint cfg] @
     concat (map (\<lambda>(enabled, e). if enabled \<and> problem e = [] then [raw e, endpoint_url e] else [])
       [(traceEnabled cfg, trace_endpoint (resolvedOTLP cfg)), (logEnabled cfg, log_endpoint (resolvedOTLP cfg))])"

section \<open>What is exported to\<close>

text \<open>Reading off the precedence: the option, the signal's variable, the generic variable, the default.\<close>

definition effective_value :: "(string \<Rightarrow> string) \<Rightarrow> 's sdk_config \<Rightarrow> otlpSignal \<Rightarrow> string" where
  "effective_value getenv cfg s =
     (if otlpEndpointSet cfg then otlpEndpoint cfg
      else case dropWhile (\<lambda>v. v = []) (map (\<lambda>n. trim_space (getenv n)) [envVar s, envOTLPEndpoint]) of
        v # _ \<Rightarrow> v | [] \<Rightarrow> otlpEndpoint cfg)"

text \<open>The address the exporter is given: a value of the environment has the signal's path added when it is the
  generic one or has no path of its own; everything else is used as it was written.\<close>

definition effective_url ::
  "(string \<Rightarrow> string) \<Rightarrow> 'v url_path url_lib \<Rightarrow> 's sdk_config \<Rightarrow> otlpSignal \<Rightarrow> 'v url_path url \<Rightarrow> string" where
  "effective_url getenv L cfg s u =
     (if otlpEndpointSet cfg \<or> (trim_space (getenv (envVar s)) = [] \<and> trim_space (getenv envOTLPEndpoint) = [])
      then effective_value getenv cfg s
      else let p = trim_right_set (Path (url_rest u)) ''/''
           in url_string L (set_path (if p = [] \<or> trim_space (getenv (envVar s)) = [] then p @ urlPath s else p) u))"

definition signal_enabled :: "'s sdk_config \<Rightarrow> otlpSignal \<Rightarrow> bool" where
  "signal_enabled cfg s \<longleftrightarrow> (s = traceSignal \<and> traceEnabled cfg) \<or> (s = logSignal \<and> logEnabled cfg)"

lemma problem_texts: "problemNoScheme \<noteq> []" "problemInvalidURL \<noteq> []" "problemNoHost \<noteq> []"
  by (simp_all add: problemNoScheme_def problemInvalidURL_def problemNoHost_def)

lemma parseEndpoint_ok:
  "snd (parseEndpoint U L v) = [] \<longleftrightarrow>
     (\<exists>u. url_parse L v = Some u \<and> to_lower U (Scheme u) \<in> {''http'', ''https''} \<and> Host u \<noteq> [])"
  by (auto simp: parseEndpoint_def problem_texts Let_def split: option.splits)

lemma parseEndpoint_value: "snd (parseEndpoint U L v) = [] \<Longrightarrow> fst (parseEndpoint U L v) = url_parse L v"
  by (auto simp: parseEndpoint_def problem_texts Let_def split: option.splits)

lemma newEnvSignalEndpoint_fields:
  "raw (newEnvSignalEndpoint U L v src path base) = v" "source (newEnvSignalEndpoint U L v src path base) = src"
  "problem (newEnvSignalEndpoint U L v src path base) = snd (parseEndpoint U L v)"
  by (auto simp: newEnvSignalEndpoint_def Let_def split: prod.splits option.splits)

lemma newEnvSignalEndpoint_url:
  assumes "url_parse L v = Some u" "problem (newEnvSignalEndpoint U L v src path base) = []"
  shows "endpoint_url (newEnvSignalEndpoint U L v src path base) =
    url_string L (set_path (let p = trim_right_set (Path (url_rest u)) ''/'' in if base \<or> p = [] then p @ path else p) u)"
proof -
  have "parseEndpoint U L v = (Some u, [])"
    using assms parseEndpoint_value[of U L v] by (metis newEnvSignalEndpoint_fields(3) prod.collapse)
  then show ?thesis by (simp add: newEnvSignalEndpoint_def Let_def)
qed

lemma resolveEndpoint_raw: "raw (resolveEndpoint getenv U L cfg s) = effective_value getenv cfg s"
  by (simp add: resolveEndpoint_def effective_value_def envValue_def newSignalEndpoint_def newEnvSignalEndpoint_fields Let_def)

lemma resolveEndpoint_problem:
  "problem (resolveEndpoint getenv U L cfg s) = snd (parseEndpoint U L (effective_value getenv cfg s))"
  by (simp add: resolveEndpoint_def effective_value_def envValue_def newSignalEndpoint_def newEnvSignalEndpoint_fields Let_def)

lemma resolveEndpoint_url:
  assumes "url_parse L (effective_value getenv cfg s) = Some u" "problem (resolveEndpoint getenv U L cfg s) = []"
  shows "endpoint_url (resolveEndpoint getenv U L cfg s) = effective_url getenv L cfg s u"
proof -
  have p: "snd (parseEndpoint U L (effective_value getenv cfg s)) = []" using assms(2) by (simp add: resolveEndpoint_problem)
  show ?thesis
  proof (cases "otlpEndpointSet cfg \<or> (trim_space (getenv (envVar s)) = [] \<and> trim_space (getenv envOTLPEndpoint) = [])")
    case True
    then show ?thesis by (auto simp: resolveEndpoint_def effective_url_def effective_value_def newSignalEndpoint_def envValue_def)
  next
    case False
    define v where "v = effective_value getenv cfg s"
    have u: "url_parse L v = Some u" using assms(1) by (simp add: v_def)
    have e: "endpoint_url (newEnvSignalEndpoint U L v src path base) =
      url_string L (set_path (let p = trim_right_set (Path (url_rest u)) ''/'' in if base \<or> p = [] then p @ path else p) u)" for src path base
      by (rule newEnvSignalEndpoint_url[OF u]) (use p in \<open>simp add: v_def newEnvSignalEndpoint_fields\<close>)
    show ?thesis
    proof (cases "trim_space (getenv (envVar s)) = []")
      case True
      with False e have "v = trim_space (getenv envOTLPEndpoint)" by (simp add: v_def effective_value_def)
      with True False e show ?thesis by (simp add: resolveEndpoint_def effective_url_def envValue_def Let_def)
    next
      case own: False
      with False have "v = trim_space (getenv (envVar s))" by (simp add: v_def effective_value_def)
      with own False e show ?thesis by (simp add: resolveEndpoint_def effective_url_def envValue_def Let_def)
    qed
  qed
qed

text \<open>Endpoint resolution, for a configuration that passed validation: every enabled signal exports to a URL
  that parses, whose scheme is http or https and which has a host; the value is taken from the option, else
  from the signal's own variable, else from the generic one, else the default; only a value of the environment
  is given the signal's path, and an environment that asks for gRPC is never accepted.\<close>

theorem validated_signals_export_over_http:
  assumes "validateConfiguredEndpoints U L (resolveOTLPEndpoints getenv U L cfg) = None" "signal_enabled cfg s"
  defines "e \<equiv> resolveEndpoint getenv U L cfg s"
  shows "raw e = effective_value getenv cfg s \<and> grpcVar e = [] \<and>
    (\<exists>u. url_parse L (raw e) = Some u \<and> to_lower U (Scheme u) \<in> {''http'', ''https''} \<and> Host u \<noteq> [] \<and>
       endpoint_url e = effective_url getenv L cfg s u)"
proof -
  have "check_signal True (signal_name s) e = None"
    using assms by (auto simp: validateConfiguredEndpoints_def resolveOTLPEndpoints_def signal_enabled_def e_def split: option.splits)
  then have e: "problem e = []" "grpcVar e = []" by (auto simp: check_signal_def split: if_splits)
  then obtain u where "url_parse L (effective_value getenv cfg s) = Some u" "to_lower U (Scheme u) \<in> {''http'', ''https''}" "Host u \<noteq> []"
    by (auto simp: e_def resolveEndpoint_problem parseEndpoint_ok)
  with e resolveEndpoint_url[of L getenv cfg s u U] show ?thesis by (auto simp: e_def resolveEndpoint_raw)
qed

text \<open>The only messages the validation can return: no text of a configured value is part of any of them.\<close>

definition endpoint_messages :: "string list" where
  "endpoint_messages =
     [configuredEndpointError opt prob. opt \<leftarrow> [''WithOTLPEndpoint'', ''WithMetricsOTLPEndpoint''],
        prob \<leftarrow> [problemNoScheme, problemInvalidURL, problemNoHost]] @
     [envEndpointError var (signal_name s) prob. s \<leftarrow> [traceSignal, logSignal], var \<leftarrow> [envVar s, envOTLPEndpoint],
        prob \<leftarrow> [problemNoScheme, problemInvalidURL, problemNoHost]] @
     [grpcEndpointError var pv (signal_name s). s \<leftarrow> [traceSignal, logSignal], var \<leftarrow> [envVar s, envOTLPEndpoint],
        pv \<leftarrow> [protocolVar s, envOTLPProtocol]]"

lemma parseEndpoint_problem:
  "snd (parseEndpoint U L v) \<in> set [[], problemNoScheme, problemInvalidURL, problemNoHost]"
  by (auto simp: parseEndpoint_def Let_def split: option.splits)

lemma resolveEndpoint_source:
  "(source (resolveEndpoint getenv U L cfg s) = ''WithOTLPEndpoint'' \<or> source (resolveEndpoint getenv U L cfg s) = []) \<and>
     grpcVar (resolveEndpoint getenv U L cfg s) = [] \<or>
   source (resolveEndpoint getenv U L cfg s) \<in> set [envVar s, envOTLPEndpoint] \<and>
     grpcVar (resolveEndpoint getenv U L cfg s) \<in> set [[], protocolVar s, envOTLPProtocol]"
proof -
  have "grpcVar (newEnvSignalEndpoint U L v src path base) = []" for v src path base
    by (auto simp: newEnvSignalEndpoint_def Let_def split: prod.splits option.splits)
  then show ?thesis
    by (simp add: resolveEndpoint_def newSignalEndpoint_def newEnvSignalEndpoint_fields Let_def)
qed

lemma check_signal_message:
  assumes "check_signal en (signal_name s) (resolveEndpoint getenv U L cfg s) = Some msg" "s \<in> {traceSignal, logSignal}"
  shows "msg \<in> set endpoint_messages"
proof -
  define e where "e = resolveEndpoint getenv U L cfg s"
  have prob: "problem e \<in> set [[], problemNoScheme, problemInvalidURL, problemNoHost]"
    unfolding e_def resolveEndpoint_problem by (rule parseEndpoint_problem)
  note src = resolveEndpoint_source[of getenv U L cfg s, folded e_def]
  from assms(1)[folded e_def] consider "problem e \<noteq> []" "fromEnv e" "msg = envEndpointError (source e) (signal_name s) (problem e)"
    | "problem e \<noteq> []" "msg = configuredEndpointError ''WithOTLPEndpoint'' (problem e)"
    | "grpcVar e \<noteq> []" "msg = grpcEndpointError (source e) (grpcVar e) (signal_name s)"
    by (auto simp: check_signal_def split: if_splits)
  then show ?thesis
  proof cases
    case 1
    with src have "source e \<in> set [envVar s, envOTLPEndpoint]" by (auto simp: fromEnv_def)
    with 1 prob assms(2) show ?thesis by (auto simp: endpoint_messages_def)
  next
    case 2
    with prob show ?thesis by (auto simp: endpoint_messages_def)
  next
    case 3
    with src have "source e \<in> set [envVar s, envOTLPEndpoint]" "grpcVar e \<in> set [protocolVar s, envOTLPProtocol]" by auto
    with 3 assms(2) show ?thesis by (auto simp: endpoint_messages_def)
  qed
qed

text \<open>C28. A rejected endpoint is reported without its value: whatever the options and the environment hold, the error is
  one of a fixed list of messages.\<close>

theorem endpoint_error_never_quotes_value:
  assumes "validateConfiguredEndpoints U L (resolveOTLPEndpoints getenv U L cfg) = Some msg"
  shows "msg \<in> set endpoint_messages"
proof -
  let ?en = "metricsEnabled cfg \<and> metricsOTLPEndpoint cfg \<noteq> []"
  from assms consider (trace) "check_signal (traceEnabled cfg) (signal_name traceSignal) (resolveEndpoint getenv U L cfg traceSignal) = Some msg"
    | (log) "check_signal (logEnabled cfg) (signal_name logSignal) (resolveEndpoint getenv U L cfg logSignal) = Some msg"
    | (metrics) "endpointProblem U L (metricsOTLPEndpoint cfg) \<noteq> []"
        "msg = configuredEndpointError ''WithMetricsOTLPEndpoint'' (endpointProblem U L (metricsOTLPEndpoint cfg))"
    by (auto simp: validateConfiguredEndpoints_def resolveOTLPEndpoints_def Let_def split: option.splits if_splits)
  then show ?thesis
  proof cases
    case metrics
    then show ?thesis using parseEndpoint_problem[of U L "metricsOTLPEndpoint cfg"]
      by (auto simp: endpoint_messages_def endpointProblem_def)
  qed (auto intro: check_signal_message)
qed

text \<open>A parser of plain http URLs without userinfo and query, for evaluation.\<close>

definition demo_url_lib :: "unit url_path url_lib" where
  "demo_url_lib =
     \<lparr>url_parse = (\<lambda>v. if prefix ''http://'' v
        then Some \<lparr>Scheme = ''http'', Opaque = [], User = None, Host = takeWhile (\<lambda>c. c \<noteq> CHR ''/'') (drop 7 v), RawQuery = [],
          url_rest = \<lparr>Path = dropWhile (\<lambda>c. c \<noteq> CHR ''/'') (drop 7 v), RawPath = [], url_more = ()\<rparr>\<rparr> else None),
      url_string = (\<lambda>u. Scheme u @ ''://'' @ Host u @ Path (url_rest u))\<rparr>"

definition demo_getenv :: "string \<Rightarrow> string" where
  "demo_getenv n = (if n = envOTLPEndpoint then '' http://c:4318/ '' else [])"

theorem validated_signals_export_over_http_witness:
  "endpoint_url (resolveEndpoint demo_getenv ascii_tables demo_url_lib (defaultConfig demo_getenv :: unit sdk_config) traceSignal) =
     ''http://c:4318/v1/traces'' \<and>
   raw (resolveEndpoint demo_getenv ascii_tables demo_url_lib (defaultConfig demo_getenv :: unit sdk_config) traceSignal) =
     effective_value demo_getenv (defaultConfig demo_getenv :: unit sdk_config) traceSignal"
proof -
  let ?cfg = "defaultConfig demo_getenv :: unit sdk_config"
  have "validateConfiguredEndpoints ascii_tables demo_url_lib (resolveOTLPEndpoints demo_getenv ascii_tables demo_url_lib ?cfg) = None"
    by code_simp
  moreover have "signal_enabled ?cfg traceSignal" by code_simp
  moreover have "endpoint_url (resolveEndpoint demo_getenv ascii_tables demo_url_lib ?cfg traceSignal) = ''http://c:4318/v1/traces''"
    by code_simp
  ultimately show ?thesis using validated_signals_export_over_http by blast
qed

theorem endpoint_error_never_quotes_value_witness:
  "validateConfiguredEndpoints ascii_tables demo_url_lib
     (resolveOTLPEndpoints (\<lambda>_. []) ascii_tables demo_url_lib (WithOTLPEndpoint ''c:4318'' (defaultConfig (\<lambda>_. []) :: unit sdk_config))) =
     Some (endpointError ''WithOTLPEndpoint'' problemNoScheme) \<and>
   endpointError ''WithOTLPEndpoint'' problemNoScheme \<in> set endpoint_messages"
proof -
  have "validateConfiguredEndpoints ascii_tables demo_url_lib
     (resolveOTLPEndpoints (\<lambda>_. []) ascii_tables demo_url_lib (WithOTLPEndpoint ''c:4318'' (defaultConfig (\<lambda>_. []) :: unit sdk_config))) =
     Some (endpointError ''WithOTLPEndpoint'' problemNoScheme)" by code_simp
  then show ?thesis using endpoint_error_never_quotes_value by blast
qed

end
