(* ===== verification/Diagnostics.thy ===== *)
theory Diagnostics
  imports Endpoint RedactError Repeat
begin

text \<open>
  The SDK's own diagnostics (\<^verbatim>\<open>diagnostics.go\<close>): the checks of the environment variables the OTel SDK would
  otherwise report raw, the checks of the configured headers, the list of secrets to redact and the OTel error handler.

  The file system, \<^verbatim>\<open>crypto/x509\<close>, \<^verbatim>\<open>crypto/tls\<close> and \<^verbatim>\<open>strconv.ParseFloat\<close> are the fields of the record \<open>host\<close>.
\<close>

section \<open>Checks of one value\<close>

record host =
  Getenv :: "string \<Rightarrow> string"
  ReadFile :: "string \<Rightarrow> string option"
  AppendCertsFromPEM :: "string \<Rightarrow> bool"
  X509KeyPair :: "string \<Rightarrow> string \<Rightarrow> bool"
  ParseFloat :: "string \<Rightarrow> bool"

definition checkURL :: "'u url_lib \<Rightarrow> string \<Rightarrow> string \<times> bool" where
  "checkURL L v = (if url_parse L v = None then (problemInvalidURL, True) else ([], False))"

definition checkInteger :: "string \<Rightarrow> string \<times> bool" where
  "checkInteger v = (if atoi v = None then (''it is not an integer'', True) else ([], False))"

definition checkPositiveInteger :: "string \<Rightarrow> string \<times> bool" where
  "checkPositiveInteger v = (case atoi v of
     Some n \<Rightarrow> if n \<le> 0 then (''it is not a positive integer count of milliseconds'', True) else ([], False)
   | None \<Rightarrow> (''it is not a positive integer count of milliseconds'', True))"

definition checkSamplerName :: "unicode \<Rightarrow> string \<Rightarrow> string \<times> bool" where
  "checkSamplerName U v =
     (if to_lower U v \<in> set [''always_on'', ''always_off'', ''traceidratio'', ''parentbased_always_on'', ''parentbased_always_off'',
        ''parentbased_traceidratio''] then ([], False)
      else (''it is not one of the sampler names the SDK knows'', True))"

definition checkSamplerRatio :: "host \<Rightarrow> string \<Rightarrow> string \<times> bool" where
  "checkSamplerRatio H v = (if \<not> ParseFloat H v then (''it is not a number'', True) else ([], False))"

definition checkMilliseconds :: "string \<Rightarrow> string \<times> bool" where
  "checkMilliseconds v = (if atoi v = None then (''it is not an integer count of milliseconds'', True) else ([], False))"

definition dquoted :: "string \<Rightarrow> string" where
  "dquoted s = [CHR 0x22] @ s @ [CHR 0x22]"

definition checkCompression :: "string \<Rightarrow> string \<times> bool" where
  "checkCompression v =
     (if v \<in> set [''gzip'', ''none''] then ([], False)
      else (''it is neither '' @ dquoted ''gzip'' @ '' nor '' @ dquoted ''none'', True))"

definition checkTemporalityPreference :: "unicode \<Rightarrow> string \<Rightarrow> string \<times> bool" where
  "checkTemporalityPreference U v =
     (if to_lower U v \<in> set [''cumulative'', ''delta'', ''lowmemory''] then ([], False)
      else (''it is none of '' @ dquoted ''cumulative'' @ '', '' @ dquoted ''delta'' @ '' and '' @ dquoted ''lowmemory'', True))"

definition checkHistogramAggregation :: "unicode \<Rightarrow> string \<Rightarrow> string \<times> bool" where
  "checkHistogramAggregation U v =
     (if to_lower U v \<in> set [''explicit_bucket_histogram'', ''base2_exponential_bucket_histogram''] then ([], False)
      else (''it is neither '' @ dquoted ''explicit_bucket_histogram'' @ '' nor '' @ dquoted ''base2_exponential_bucket_histogram'', True))"

definition checkCertificateFile :: "host \<Rightarrow> string \<Rightarrow> string \<times> bool" where
  "checkCertificateFile H path =
     (case ReadFile H path of
        None \<Rightarrow> (''the file it names cannot be read'', True)
      | Some pem \<Rightarrow> if \<not> AppendCertsFromPEM H pem then (''the file it names holds no PEM certificate'', True) else ([], False))"

definition checkClientKeyPair :: "host \<Rightarrow> string \<Rightarrow> bool \<Rightarrow> string \<Rightarrow> string \<times> bool" where
  "checkClientKeyPair H keyVar verbatim certPath =
     (case ReadFile H certPath of
        None \<Rightarrow> (''the file it names cannot be read'', True)
      | Some cert \<Rightarrow> (case ReadFile H (envValue (Getenv H) keyVar verbatim) of
          None \<Rightarrow> (''the file named by '' @ keyVar @ '' cannot be read'', True)
        | Some key \<Rightarrow> if \<not> X509KeyPair H cert key
            then (''it and '' @ keyVar @ '' do not name a valid certificate and key pair'', True) else ([], False)))"

definition isHTTPToken :: "unicode \<Rightarrow> string \<Rightarrow> bool" where
  "isHTTPToken U s \<longleftrightarrow> s \<noteq> [] \<and>
     list_all (\<lambda>c. c \<le> 127 \<and> (letter_rune U c \<or> digit_rune U c \<or>
       c \<in> set (map of_char (''!#$%&'' @ [CHR 0x27] @ ''*+-.^_`|~'')))) (runes s)"

definition pair_problem :: "unicode \<Rightarrow> nat \<Rightarrow> string \<Rightarrow> string option" where
  "pair_problem U i pair =
     (let (k, v, found) = cut pair ''='' in
      if \<not> found then Some (''pair '' @ itoa (int i + 1) @ '' is missing '' @ [CHR 0x27, CHR ''='', CHR 0x27])
      else if \<not> isHTTPToken U (trim_space k)
      then Some (''the name of pair '' @ itoa (int i + 1) @ '' is not a valid HTTP header name'')
      else if url_unescape False v = None then Some (''the value of pair '' @ itoa (int i + 1) @ '' is not valid percent-encoding'')
      else None)"

fun header_loop :: "unicode \<Rightarrow> nat \<Rightarrow> string list \<Rightarrow> string \<times> bool" where
  "header_loop U i [] = ([], False)"
| "header_loop U i (pair # pairs) =
     (case pair_problem U i pair of Some reason \<Rightarrow> (reason, True) | None \<Rightarrow> header_loop U (Suc i) pairs)"

definition malformedHeaderList :: "unicode \<Rightarrow> string \<Rightarrow> string \<times> bool" where
  "malformedHeaderList U raw0 = header_loop U 0 (split_byte CHR '','' raw0)"

section \<open>Checks of the environment\<close>

datatype otlpEnvCheck = EnvCheck (check_name: string) (check_fn: "string \<Rightarrow> string \<times> bool") (check_verbatim: bool)
  (check_pair: string) (check_fallback: "otlpEnvCheck option")

definition check_set :: "host \<Rightarrow> otlpEnvCheck \<Rightarrow> bool" where
  "check_set H c \<longleftrightarrow> envValue (Getenv H) (check_name c) (check_verbatim c) \<noteq> [] \<and>
     (check_pair c = [] \<or> envValue (Getenv H) (check_pair c) (check_verbatim c) \<noteq> [])"

definition plain_check :: "string \<Rightarrow> (string \<Rightarrow> string \<times> bool) \<Rightarrow> otlpEnvCheck" where
  "plain_check n f = EnvCheck n f False [] None"

definition clientCertCheck :: "host \<Rightarrow> string \<Rightarrow> bool \<Rightarrow> otlpEnvCheck option \<Rightarrow> otlpEnvCheck" where
  "clientCertCheck H pre verbatim fallback =
     (let key = pre @ ''CLIENT_KEY''
      in EnvCheck (pre @ ''CLIENT_CERTIFICATE'') (checkClientKeyPair H key verbatim) verbatim key fallback)"

definition env_first_prefix :: "host \<Rightarrow> unicode \<Rightarrow> 'u url_lib \<Rightarrow> string \<Rightarrow> otlpEnvCheck list" where
  "env_first_prefix H U L pre =
     [plain_check (pre @ ''ENDPOINT'') (checkURL L), plain_check (pre @ ''TIMEOUT'') checkMilliseconds,
      plain_check (pre @ ''HEADERS'') (malformedHeaderList U), plain_check (pre @ ''CERTIFICATE'') (checkCertificateFile H),
      clientCertCheck H pre False None]"

definition env_first :: "host \<Rightarrow> unicode \<Rightarrow> 'u url_lib \<Rightarrow> string \<Rightarrow> otlpEnvCheck list" where
  "env_first H U L signal =
     concat (map (env_first_prefix H U L) [''OTEL_EXPORTER_OTLP_'', ''OTEL_EXPORTER_OTLP_'' @ signal @ ''_''])"

definition signal_first :: "string \<Rightarrow> (string \<Rightarrow> string \<times> bool) \<Rightarrow> otlpEnvCheck" where
  "signal_first setting f =
     EnvCheck (''OTEL_EXPORTER_OTLP_LOGS_'' @ setting) f True [] (Some (EnvCheck (''OTEL_EXPORTER_OTLP_'' @ setting) f True [] None))"

definition otlpExporterEnvChecks :: "host \<Rightarrow> unicode \<Rightarrow> 'u url_lib \<Rightarrow> 's sdk_config \<Rightarrow> otlpEnvCheck list" where
  "otlpExporterEnvChecks H U L cfg =
     (if traceEnabled cfg then env_first H U L ''TRACES'' else []) @
     (if metricsEnabled cfg \<and> metricsOTLPEndpoint cfg \<noteq> []
      then env_first H U L ''METRICS'' @
        [plain_check ''OTEL_EXPORTER_OTLP_METRICS_TEMPORALITY_PREFERENCE'' (checkTemporalityPreference U),
         plain_check ''OTEL_EXPORTER_OTLP_METRICS_DEFAULT_HISTOGRAM_AGGREGATION'' (checkHistogramAggregation U)] else []) @
     (if logEnabled cfg
      then [signal_first ''TIMEOUT'' checkMilliseconds, signal_first ''COMPRESSION'' checkCompression,
            signal_first ''CERTIFICATE'' (checkCertificateFile H),
            clientCertCheck H ''OTEL_EXPORTER_OTLP_LOGS_'' True (Some (clientCertCheck H ''OTEL_EXPORTER_OTLP_'' True None))] @
           (if otlpHeaders cfg = [] then [signal_first ''HEADERS'' (malformedHeaderList U)] else [])
      else [])"

definition integer_check :: "string \<Rightarrow> otlpEnvCheck option \<Rightarrow> otlpEnvCheck" where
  "integer_check n fallback = EnvCheck n checkInteger True [] fallback"

definition sdkEnvChecks :: "host \<Rightarrow> unicode \<Rightarrow> 's sdk_config \<Rightarrow> otlpEnvCheck list" where
  "sdkEnvChecks H U cfg =
     (if traceEnabled cfg
      then map (\<lambda>n. integer_check n None)
             [''OTEL_BSP_SCHEDULE_DELAY'', ''OTEL_BSP_EXPORT_TIMEOUT'', ''OTEL_BSP_MAX_QUEUE_SIZE'', ''OTEL_BSP_MAX_EXPORT_BATCH_SIZE'',
              ''OTEL_SPAN_EVENT_COUNT_LIMIT'', ''OTEL_SPAN_LINK_COUNT_LIMIT'', ''OTEL_EVENT_ATTRIBUTE_COUNT_LIMIT'', ''OTEL_LINK_ATTRIBUTE_COUNT_LIMIT''] @
           map (\<lambda>limit. integer_check (''OTEL_SPAN_'' @ limit) (Some (integer_check (''OTEL_'' @ limit) None)))
             [''ATTRIBUTE_VALUE_LENGTH_LIMIT'', ''ATTRIBUTE_COUNT_LIMIT''] @
           [plain_check ''OTEL_TRACES_SAMPLER'' (checkSamplerName U)] @
           (if to_lower U (trim_space (Getenv H ''OTEL_TRACES_SAMPLER'')) \<in> set [''traceidratio'', ''parentbased_traceidratio'']
            then [plain_check ''OTEL_TRACES_SAMPLER_ARG'' (checkSamplerRatio H)] else [])
      else []) @
     (if logEnabled cfg
      then map (\<lambda>n. integer_check n None)
             [''OTEL_BLRP_SCHEDULE_DELAY'', ''OTEL_BLRP_EXPORT_TIMEOUT'', ''OTEL_BLRP_MAX_QUEUE_SIZE'', ''OTEL_BLRP_MAX_EXPORT_BATCH_SIZE'',
              ''OTEL_LOGRECORD_ATTRIBUTE_COUNT_LIMIT'', ''OTEL_LOGRECORD_ATTRIBUTE_VALUE_LENGTH_LIMIT'']
      else []) @
     (if metricsEnabled cfg then [plain_check ''OTEL_GO_X_CARDINALITY_LIMIT'' checkInteger] else []) @
     (if metricsEnabled cfg \<and> metricsOTLPEndpoint cfg \<noteq> []
      then map (\<lambda>n. EnvCheck n checkPositiveInteger True [] None) [''OTEL_METRIC_EXPORT_INTERVAL'', ''OTEL_METRIC_EXPORT_TIMEOUT'']
      else [])"

definition validateOTLPEnvVar :: "string \<Rightarrow> string \<Rightarrow> (string \<Rightarrow> string \<times> bool) \<Rightarrow> string option" where
  "validateOTLPEnvVar n v check =
     (if v = [] then None
      else let (reason, bad) = check v in
        if bad then Some (''o11y: '' @ n @ '' cannot be used ('' @ reason @
          ''); the OTel SDK and its OTLP exporters would report its raw text through OTel's global logger or error handler while Init builds them, before Logr() and ErrorHandler() can be installed, so the variable is rejected instead'')
        else None)"

text \<open>\<^verbatim>\<open>for c.fallback != nil && !c.set()\<close>.\<close>

fun effective_check :: "host \<Rightarrow> otlpEnvCheck \<Rightarrow> otlpEnvCheck" where
  "effective_check H (EnvCheck n f v p (Some c)) =
     (if \<not> check_set H (EnvCheck n f v p (Some c)) then effective_check H c else EnvCheck n f v p (Some c))"
| "effective_check H (EnvCheck n f v p None) = EnvCheck n f v p None"

fun run_checks :: "host \<Rightarrow> otlpEnvCheck list \<Rightarrow> string option" where
  "run_checks H [] = None"
| "run_checks H (c0 # cs) =
     (let c = effective_check H c0 in
      if \<not> check_set H c then run_checks H cs
      else case validateOTLPEnvVar (check_name c) (envValue (Getenv H) (check_name c) (check_verbatim c)) (check_fn c) of
        Some err \<Rightarrow> Some err
      | None \<Rightarrow> run_checks H cs)"

definition validateOTLPExporterEnv :: "host \<Rightarrow> unicode \<Rightarrow> 'u url_lib \<Rightarrow> 's sdk_config \<Rightarrow> string option" where
  "validateOTLPExporterEnv H U L cfg = run_checks H (otlpExporterEnvChecks H U L cfg @ sdkEnvChecks H U cfg)"

definition headerNameError :: "string \<Rightarrow> string" where
  "headerNameError option =
     ''o11y: a header name given to '' @ option @ '' is not a valid HTTP header name (an RFC 7230 token); net/http would reject every request carrying it and quote the name, escaped, in the export error, so the option is rejected instead and the name is not repeated here''"

definition validateConfiguredHeaders :: "unicode \<Rightarrow> 's sdk_config \<Rightarrow> string option" where
  "validateConfiguredHeaders U cfg =
     (let otlpClient = traceEnabled cfg \<or> logEnabled cfg \<or> (metricsEnabled cfg \<and> metricsOTLPEndpoint cfg \<noteq> []);
          profiler = profilingEnabled cfg \<and> profilingEndpoint cfg \<noteq> []
      in map_option (\<lambda>(opt, hs, used). headerNameError opt)
           (find (\<lambda>(opt, hs, used). used \<and> list_ex (\<lambda>(k, v). \<not> isHTTPToken U k) hs)
              [(''WithOTLPHeaders'', otlpHeaders cfg, otlpClient), (''WithProfilingAuthHeaders'', profilingAuthHeaders cfg, profiler)]))"

section \<open>Secrets\<close>

definition otlpHeaderEnvVars :: "string list" where
  "otlpHeaderEnvVars = [''OTEL_EXPORTER_OTLP_HEADERS'', ''OTEL_EXPORTER_OTLP_TRACES_HEADERS'',
     ''OTEL_EXPORTER_OTLP_METRICS_HEADERS'', ''OTEL_EXPORTER_OTLP_LOGS_HEADERS'']"

definition headerEnvForms :: "string \<Rightarrow> string list" where
  "headerEnvForms part =
     [part, trim_space part] @
     concat (map (\<lambda>candidate. case url_unescape False candidate of None \<Rightarrow> []
       | Some unescaped \<Rightarrow> [unescaped, trim_space unescaped]) [part, trim_space part])"

definition add_secret :: "string list \<Rightarrow> string \<Rightarrow> string list" where
  "add_secret out s = (if s = [] then out else if s \<in> set out then out else out @ [s])"

text \<open>The arguments of the calls of \<^verbatim>\<open>addForms\<close>, in their order.\<close>

definition header_secrets :: "unicode \<Rightarrow> renderers \<Rightarrow> (string \<times> string) list \<Rightarrow> string list" where
  "header_secrets U R hs = concat (map (\<lambda>(k, v). HeaderNameForms U R k @ HeaderValueForms R v) hs)"

definition endpoint_secrets :: "renderers \<Rightarrow> 'u url_lib \<Rightarrow> string list \<Rightarrow> string list" where
  "endpoint_secrets R L endpoints =
     concat (map (\<lambda>endpoint. let basic = BasicAuthHeader L endpoint in
       if basic = [] then [] else HeaderValueForms R basic @ HeaderValueForms R (trim_prefix basic ''Basic '')) endpoints)"

definition pair_secrets :: "unicode \<Rightarrow> renderers \<Rightarrow> string \<Rightarrow> string list" where
  "pair_secrets U R pair = HeaderValueForms R pair @
     (let (k, v, ok) = cut pair ''='' in
      if \<not> ok then []
      else concat (map (\<lambda>part. concat (map (\<lambda>form. HeaderValueForms R form @ HeaderNameForms U R form) (headerEnvForms part))) [k, v]))"

definition var_secrets :: "unicode \<Rightarrow> renderers \<Rightarrow> string \<Rightarrow> string list" where
  "var_secrets U R raw0 =
     (if raw0 = [] then []
      else HeaderValueForms R raw0 @ concat (map (pair_secrets U R) (split_byte CHR '','' raw0)))"

definition env_secrets :: "unicode \<Rightarrow> renderers \<Rightarrow> (string \<Rightarrow> string) \<Rightarrow> string list" where
  "env_secrets U R getenv = concat (map (\<lambda>n. var_secrets U R (getenv n)) otlpHeaderEnvVars)"

definition diagnosticSecrets :: "host \<Rightarrow> 'u redact_env \<Rightarrow> 's sdk_config \<Rightarrow> string list" where
  "diagnosticSecrets H env cfg =
     foldl add_secret []
       (header_secrets (env_unicode env) (env_render env) (otlpHeaders cfg) @
        header_secrets (env_unicode env) (env_render env) (profilingAuthHeaders cfg) @
        endpoint_secrets (env_render env) (env_url env) (diagnosticEndpoints cfg) @
        env_secrets (env_unicode env) (env_render env) (Getenv H))"

section \<open>The error handler\<close>

definition otelDiagnosticRepeatWindow :: int where "otelDiagnosticRepeatWindow = 60 * 1000000000"
definition maxTrackedOTelDiagnostics :: int where "maxTrackedOTelDiagnostics = 32"

text \<open>\<open>handler_lines\<close> collects what reaches the logger: the clock reading and the text of the attribute \<^verbatim>\<open>error\<close>.\<close>

record otelErrorHandler =
  handler_suppress :: suppressor
  handler_endpoints :: "string list"
  handler_secrets :: "string list"
  handler_lines :: "(nanos \<times> string) list"

definition newOTelErrorHandler :: "string list \<Rightarrow> otelErrorHandler" where
  "newOTelErrorHandler endpoints =
     \<lparr>handler_suppress = NewSuppressor otelDiagnosticRepeatWindow maxTrackedOTelDiagnostics, handler_endpoints = endpoints,
      handler_secrets = [], handler_lines = []\<rparr>"

definition diagnostic_text :: "'u redact_env \<Rightarrow> string list \<Rightarrow> string list \<Rightarrow> string \<Rightarrow> string" where
  "diagnostic_text env endpoints secrets t =
     Secrets (env_unicode env) (env_html env) (InText (env_unicode env) (env_html env) (env_url env) t endpoints) secrets"

definition Handle :: "'u redact_env \<Rightarrow> otelErrorHandler \<Rightarrow> error_node option \<Rightarrow> nanos \<Rightarrow> otelErrorHandler" where
  "Handle env h err now =
     (case err of None \<Rightarrow> h
      | Some e \<Rightarrow>
          let msg = diagnostic_text env (handler_endpoints h) (handler_secrets h) (ErrorText e);
              (quiet, s) = SuppressedAt (handler_suppress h) msg now
          in if quiet then h\<lparr>handler_suppress := s\<rparr>
             else h\<lparr>handler_suppress := s, handler_lines := handler_lines h @ [(now, msg)]\<rparr>)"

text \<open>The handler \<^verbatim>\<open>Init\<close> installs.\<close>

definition sdk_error_handler :: "host \<Rightarrow> 'u redact_env \<Rightarrow> 's sdk_config \<Rightarrow> otelErrorHandler" where
  "sdk_error_handler H env cfg = (newOTelErrorHandler (diagnosticEndpoints cfg))\<lparr>handler_secrets := diagnosticSecrets H env cfg\<rparr>"

section \<open>Accepted environments\<close>

lemma run_checks_None:
  "run_checks H cs = None \<longleftrightarrow>
     (\<forall>c0 \<in> set cs. let c = effective_check H c0 in
        check_set H c \<longrightarrow> \<not> snd (check_fn c (envValue (Getenv H) (check_name c) (check_verbatim c))))"
proof (induction cs)
  case (Cons c0 cs)
  then show ?case
    by (auto simp: Let_def validateOTLPEnvVar_def check_set_def split: option.splits if_splits prod.splits)
qed simp

lemma accepted_plain:
  assumes "validateOTLPExporterEnv H U L cfg = None" "plain_check n f \<in> set (otlpExporterEnvChecks H U L cfg @ sdkEnvChecks H U cfg)"
  shows "trim_space (Getenv H n) = [] \<or> \<not> snd (f (trim_space (Getenv H n)))"
  using assms unfolding validateOTLPExporterEnv_def run_checks_None
  by (fastforce simp: plain_check_def check_set_def envValue_def Let_def)

lemma accepted_signal_first:
  assumes "validateOTLPExporterEnv H U L cfg = None" "signal_first n f \<in> set (otlpExporterEnvChecks H U L cfg @ sdkEnvChecks H U cfg)"
  defines "own \<equiv> Getenv H (''OTEL_EXPORTER_OTLP_LOGS_'' @ n)" and "generic \<equiv> Getenv H (''OTEL_EXPORTER_OTLP_'' @ n)"
  shows "(if own \<noteq> [] then own else generic) = [] \<or> \<not> snd (f (if own \<noteq> [] then own else generic))"
proof -
  let ?c = "effective_check H (signal_first n f)"
  have "check_set H ?c \<longrightarrow> \<not> snd (check_fn ?c (envValue (Getenv H) (check_name ?c) (check_verbatim ?c)))"
    using assms(1,2) unfolding validateOTLPExporterEnv_def run_checks_None by (meson Let_def)
  then show ?thesis by (auto simp: signal_first_def check_set_def envValue_def own_def generic_def split: if_splits)
qed

lemma trace_checks_listed:
  assumes "traceEnabled cfg" "pre \<in> set [''OTEL_EXPORTER_OTLP_'', ''OTEL_EXPORTER_OTLP_TRACES_'']" "c \<in> set (env_first_prefix H U L pre)"
  shows "c \<in> set (otlpExporterEnvChecks H U L cfg @ sdkEnvChecks H U cfg)"
proof -
  have "pre \<in> set [''OTEL_EXPORTER_OTLP_'', ''OTEL_EXPORTER_OTLP_'' @ ''TRACES'' @ ''_'']" using assms(2) by simp
  then have "c \<in> set (env_first H U L ''TRACES'')"
    using assms(3) unfolding env_first_def by (simp only: set_concat set_map) blast
  then show ?thesis using assms(1) by (simp only: otlpExporterEnvChecks_def if_True set_append Un_iff simp_thms)
qed

lemma log_checks_listed:
  assumes "logEnabled cfg"
  shows "signal_first ''TIMEOUT'' checkMilliseconds \<in> set (otlpExporterEnvChecks H U L cfg @ sdkEnvChecks H U cfg)"
    and "signal_first ''COMPRESSION'' checkCompression \<in> set (otlpExporterEnvChecks H U L cfg @ sdkEnvChecks H U cfg)"
  using assms by (simp_all only: otlpExporterEnvChecks_def if_True set_append Un_iff list.set insert_iff simp_thms)

lemma header_loop_ok: "\<not> snd (header_loop U i pairs) \<longleftrightarrow> (\<forall>j < length pairs. pair_problem U (i + j) (pairs ! j) = None)"
proof (induction pairs arbitrary: i)
  case (Cons p pairs)
  have "(\<forall>j < length (p # pairs). pair_problem U (i + j) ((p # pairs) ! j) = None) \<longleftrightarrow>
    pair_problem U i p = None \<and> (\<forall>j < length pairs. pair_problem U (Suc i + j) (pairs ! j) = None)"
    by (auto simp: less_Suc_eq_0_disj)
  then show ?case using Cons.IH[of "Suc i"] by (auto split: option.splits)
qed simp

text \<open>A header list as the OTLP exporters read it: comma-separated pairs of a name that is a token and a value that is
  valid percent-encoding.\<close>

definition readable_headers :: "unicode \<Rightarrow> string \<Rightarrow> bool" where
  "readable_headers U v \<longleftrightarrow> list_all (\<lambda>pair. let (k, x, found) = cut pair ''='' in
     found \<and> isHTTPToken U (trim_space k) \<and> url_unescape False x \<noteq> None) (split_byte CHR '','' v)"

lemma headers_accepted: "\<not> snd (malformedHeaderList U v) \<longleftrightarrow> readable_headers U v"
proof -
  have "pair_problem U i p = None \<longleftrightarrow> (let (k, x, found) = cut p ''='' in
     found \<and> isHTTPToken U (trim_space k) \<and> url_unescape False x \<noteq> None)" for i p
    by (auto simp: pair_problem_def Let_def split: prod.splits)
  then show ?thesis
    by (auto simp: malformedHeaderList_def header_loop_ok readable_headers_def list_all_length)
qed

text \<open>The environment is accepted only if every exporter can read it: with the trace pillar on, the generic and
  the trace variables each hold a usable timeout, header list and URL, or nothing; with the log pillar on,
  the same holds of the value the log exporter falls back to, its own variable first.\<close>

theorem accepted_environment_is_readable:
  assumes "validateOTLPExporterEnv H U L cfg = None"
  shows "(traceEnabled cfg \<and> pre \<in> set [''OTEL_EXPORTER_OTLP_'', ''OTEL_EXPORTER_OTLP_TRACES_''] \<longrightarrow>
      (let v = trim_space (Getenv H (pre @ ''TIMEOUT'')) in v = [] \<or> atoi v \<noteq> None) \<and>
      (let v = trim_space (Getenv H (pre @ ''HEADERS'')) in v = [] \<or> readable_headers U v) \<and>
      (let v = trim_space (Getenv H (pre @ ''ENDPOINT'')) in v = [] \<or> url_parse L v \<noteq> None)) \<and>
    (logEnabled cfg \<longrightarrow>
      (let own = Getenv H ''OTEL_EXPORTER_OTLP_LOGS_TIMEOUT'';
           v = (if own \<noteq> [] then own else Getenv H ''OTEL_EXPORTER_OTLP_TIMEOUT'') in v = [] \<or> atoi v \<noteq> None) \<and>
      (let own = Getenv H ''OTEL_EXPORTER_OTLP_LOGS_COMPRESSION'';
           v = (if own \<noteq> [] then own else Getenv H ''OTEL_EXPORTER_OTLP_COMPRESSION'') in v \<in> set [[], ''gzip'', ''none'']))"
    (is "(?trace \<longrightarrow> ?T) \<and> (?log \<longrightarrow> ?L)")
proof (intro conjI[of "?trace \<longrightarrow> ?T"] impI)
  assume tr: ?trace
  have "plain_check (pre @ ''TIMEOUT'') checkMilliseconds \<in> set (env_first_prefix H U L pre)"
    "plain_check (pre @ ''HEADERS'') (malformedHeaderList U) \<in> set (env_first_prefix H U L pre)"
    "plain_check (pre @ ''ENDPOINT'') (checkURL L) \<in> set (env_first_prefix H U L pre)"
    by (simp_all only: env_first_prefix_def list.set insert_iff simp_thms)
  from this[THEN trace_checks_listed[OF conjunct1[OF tr] conjunct2[OF tr]], THEN accepted_plain[OF assms]] show ?T
    using headers_accepted[of U] by (auto simp: checkMilliseconds_def checkURL_def Let_def split: if_splits)
next
  assume ?log
  from log_checks_listed[OF this, THEN accepted_signal_first[OF assms]] show ?L
    by (simp add: checkMilliseconds_def checkCompression_def Let_def split: if_splits)
qed

definition demo_host :: host where
  "demo_host = \<lparr>Getenv = (\<lambda>n. if n = ''OTEL_EXPORTER_OTLP_TIMEOUT'' then ''10'' else []), ReadFile = (\<lambda>_. None),
     AppendCertsFromPEM = (\<lambda>_. False), X509KeyPair = (\<lambda>_ _. False), ParseFloat = (\<lambda>_. False)\<rparr>"

definition demo_config :: "unit sdk_config" where
  "demo_config = WithOTLPHeaders [(''k'', ''hunter22'')] (defaultConfig (\<lambda>_. []))"

theorem accepted_environment_is_readable_witness:
  "validateOTLPExporterEnv demo_host ascii_tables demo_url_lib demo_config = None \<and>
   (let own = Getenv demo_host ''OTEL_EXPORTER_OTLP_LOGS_TIMEOUT'';
        v = (if own \<noteq> [] then own else Getenv demo_host ''OTEL_EXPORTER_OTLP_TIMEOUT'') in v = [] \<or> atoi v \<noteq> None)"
proof -
  have "validateOTLPExporterEnv demo_host ascii_tables demo_url_lib demo_config = None" "logEnabled demo_config" by code_simp+
  then show ?thesis using accepted_environment_is_readable[of demo_host ascii_tables demo_url_lib demo_config "[]"] by blast
qed

section \<open>Nothing configured leaks\<close>

lemma set_add_secrets: "set (foldl add_secret out xs) = set out \<union> (set xs - {[]})"
  by (induction xs arbitrary: out) (auto simp: add_secret_def)

text \<open>A text is a credential of the configuration when it is a form of a configured header's name or value, the
  Basic authorization an endpoint's userinfo turns into, or a part of a header variable.\<close>

definition configured_credential :: "host \<Rightarrow> 'u redact_env \<Rightarrow> 's sdk_config \<Rightarrow> string \<Rightarrow> bool" where
  "configured_credential H env cfg s \<longleftrightarrow>
     (\<exists>k v. (k, v) \<in> set (otlpHeaders cfg) \<union> set (profilingAuthHeaders cfg) \<and>
        s \<in> set (HeaderNameForms (env_unicode env) (env_render env) k) \<union> set (HeaderValueForms (env_render env) v)) \<or>
     (\<exists>endpoint \<in> set (diagnosticEndpoints cfg). BasicAuthHeader (env_url env) endpoint \<noteq> [] \<and>
        s \<in> set (HeaderValueForms (env_render env) (BasicAuthHeader (env_url env) endpoint))) \<or>
     (\<exists>n \<in> set otlpHeaderEnvVars. \<exists>pair \<in> set (split_byte CHR '','' (Getenv H n)). Getenv H n \<noteq> [] \<and>
        (s \<in> set (HeaderValueForms (env_render env) pair) \<or>
         (\<exists>k v. cut pair ''='' = (k, v, True) \<and>
            (\<exists>form \<in> set (headerEnvForms k) \<union> set (headerEnvForms v). s \<in> set (HeaderValueForms (env_render env) form)))))"

lemma pair_secrets_listed:
  shows "s \<in> set (HeaderValueForms R pair) \<Longrightarrow> s \<in> set (pair_secrets U R pair)"
    and "cut pair ''='' = (k, v, True) \<Longrightarrow> form \<in> set (headerEnvForms k) \<union> set (headerEnvForms v) \<Longrightarrow>
      s \<in> set (HeaderValueForms R form) \<Longrightarrow> s \<in> set (pair_secrets U R pair)"
proof -
  let ?f = "\<lambda>part. concat (map (\<lambda>form. HeaderValueForms R form @ HeaderNameForms U R form) (headerEnvForms part))"
  show "s \<in> set (HeaderValueForms R pair) \<Longrightarrow> s \<in> set (pair_secrets U R pair)" by (simp add: pair_secrets_def)
  assume c: "cut pair ''='' = (k, v, True)" and f: "form \<in> set (headerEnvForms k) \<union> set (headerEnvForms v)" "s \<in> set (HeaderValueForms R form)"
  have "s \<in> set (?f part)" if "form \<in> set (headerEnvForms part)" for part
    using that f(2) by fastforce
  then have "s \<in> set (?f k) \<union> set (?f v)" using f(1) by blast
  then show "s \<in> set (pair_secrets U R pair)" using c by (simp add: pair_secrets_def)
qed

lemma configured_credential_listed:
  assumes "configured_credential H env cfg s" "s \<noteq> []"
  shows "s \<in> set (diagnosticSecrets H env cfg)"
proof -
  let ?U = "env_unicode env" and ?R = "env_render env"
  have hs: "s \<in> set (header_secrets ?U ?R hs)" if "(k, v) \<in> set hs" "s \<in> set (HeaderNameForms ?U ?R k) \<union> set (HeaderValueForms ?R v)" for k v hs
    using that unfolding header_secrets_def by fastforce
  have es: "s \<in> set (endpoint_secrets ?R (env_url env) (diagnosticEndpoints cfg))"
    if "endpoint \<in> set (diagnosticEndpoints cfg)" "BasicAuthHeader (env_url env) endpoint \<noteq> []"
      "s \<in> set (HeaderValueForms ?R (BasicAuthHeader (env_url env) endpoint))" for endpoint
    using that unfolding endpoint_secrets_def by (fastforce simp: Let_def)
  have vs: "s \<in> set (env_secrets ?U ?R (Getenv H))"
    if "n \<in> set otlpHeaderEnvVars" "pair \<in> set (split_byte CHR '','' (Getenv H n))" "Getenv H n \<noteq> []"
      "s \<in> set (pair_secrets ?U ?R pair)" for n pair
  proof -
    have "s \<in> set (var_secrets ?U ?R (Getenv H n))" using that(2-4) unfolding var_secrets_def by fastforce
    then show ?thesis using that(1) unfolding env_secrets_def by fastforce
  qed
  from assms(1) have "s \<in> set (header_secrets ?U ?R (otlpHeaders cfg)) \<or> s \<in> set (header_secrets ?U ?R (profilingAuthHeaders cfg)) \<or>
    s \<in> set (endpoint_secrets ?R (env_url env) (diagnosticEndpoints cfg)) \<or> s \<in> set (env_secrets ?U ?R (Getenv H))"
    unfolding configured_credential_def
  proof (elim disjE exE bexE conjE)
    fix k v assume "(k, v) \<in> set (otlpHeaders cfg) \<union> set (profilingAuthHeaders cfg)"
      "s \<in> set (HeaderNameForms ?U ?R k) \<union> set (HeaderValueForms ?R v)"
    then show ?thesis using hs by blast
  next
    fix endpoint assume "endpoint \<in> set (diagnosticEndpoints cfg)" "BasicAuthHeader (env_url env) endpoint \<noteq> []"
      "s \<in> set (HeaderValueForms ?R (BasicAuthHeader (env_url env) endpoint))"
    then show ?thesis using es by blast
  next
    fix n pair assume "n \<in> set otlpHeaderEnvVars" "pair \<in> set (split_byte CHR '','' (Getenv H n))" "Getenv H n \<noteq> []"
      "s \<in> set (HeaderValueForms ?R pair)"
    then show ?thesis using vs[OF _ _ _ pair_secrets_listed(1)] by simp
  next
    fix n pair k v form assume "n \<in> set otlpHeaderEnvVars" "pair \<in> set (split_byte CHR '','' (Getenv H n))" "Getenv H n \<noteq> []"
      "cut pair ''='' = (k, v, True)" "form \<in> set (headerEnvForms k) \<union> set (headerEnvForms v)" "s \<in> set (HeaderValueForms ?R form)"
    then show ?thesis using vs[OF _ _ _ pair_secrets_listed(2)] by simp
  qed
  then show ?thesis using assms(2) by (simp add: diagnosticSecrets_def set_add_secrets)
qed

interpretation otel_errors: limited_logger "\<lambda>h e t. Handle env h (Some e) t" handler_suppress handler_lines
  "\<lambda>h e. diagnostic_text env (handler_endpoints h) (handler_secrets h) (ErrorText e)" for env
  by unfold_locales (auto simp: Handle_def Let_def fun_eq_iff split: prod.splits if_splits)

lemma diagnostic_text_safe:
  assumes "html_law (env_html env)" "s \<in> set secrets" "shortSecretLen \<le> length s" "clear_of_placeholder s"
  shows "\<not> contains ((decodeOnce (env_html env) ^^ d) (diagnostic_text env endpoints secrets t)) s"
  unfolding diagnostic_text_def by (rule secrets_gone[OF assms])


text \<open>The handler cannot flood the log: if the clock does not run backwards and no more distinct errors occur than it
  tracks, two lines with the same text are at least one window apart.\<close>

theorem sdk_diagnostics_rate_limited:
  assumes "sorted (map snd calls)" "card (fst ` set calls) \<le> 32"
    and "handler_lines (foldl (\<lambda>h (e, t). Handle env h (Some e) t) (sdk_error_handler H env cfg) calls) = xs @ (u, m) # ys @ (t, m) # zs"
  shows "otelDiagnosticRepeatWindow \<le> time_sub t u"
proof (rule otel_errors.lines_apart[where l = "sdk_error_handler H env cfg" and calls = calls and env = env])
  show "handler_suppress (sdk_error_handler H env cfg) = NewSuppressor otelDiagnosticRepeatWindow maxTrackedOTelDiagnostics"
    "handler_lines (sdk_error_handler H env cfg) = []"
    by (simp_all add: sdk_error_handler_def newOTelErrorHandler_def)
  show "handler_lines (foldl (\<lambda>h (e, t). Handle env h (Some e) t) (sdk_error_handler H env cfg) calls) = xs @ (u, m) # ys @ (t, m) # zs"
    by (rule assms(3))
qed (use assms(1,2) in \<open>simp_all add: maxTrackedOTelDiagnostics_def\<close>)

definition demo_errors :: "(error_node \<times> nanos) list" where
  "demo_errors = map (\<lambda>t. (\<lparr>nil_pointer = False, go_type = ''E'', rendering = Some ''x hunter22'', url_of = [], unwrap = NoUnwrap\<rparr>, t))
     [0, 60000000000]"

lemma demo_lines:
  "handler_lines (foldl (\<lambda>h (e, t). Handle demo_env h (Some e) t) (sdk_error_handler demo_host demo_env demo_config) demo_errors) =
     [(0, ''x [redacted]''), (60000000000, ''x [redacted]'')]"
  by code_simp


theorem sdk_diagnostics_rate_limited_witness:
  "length (handler_lines (foldl (\<lambda>h (e, t). Handle demo_env h (Some e) t) (sdk_error_handler demo_host demo_env demo_config) demo_errors)) = 2 \<and>
   otelDiagnosticRepeatWindow \<le> time_sub 60000000000 0"
proof -
  have "sorted (map snd demo_errors)" by (simp add: demo_errors_def)
  moreover have "card (fst ` set demo_errors) \<le> 32" by (simp add: demo_errors_def)
  ultimately show ?thesis
    using sdk_diagnostics_rate_limited[of demo_errors demo_env demo_host demo_config "[]" 0 "''x [redacted]''" "[]" 60000000000 "[]"] demo_lines
    by simp
qed

end
