(* ===== verification/Lifecycle.thy ===== *)
theory Lifecycle
  imports RedactError "HOL-Library.Signed_Division"
begin

text \<open>
  Flushing and shutting the SDK down (\<^verbatim>\<open>o11y.go\<close>: \<^verbatim>\<open>Shutdown\<close>, \<^verbatim>\<open>ForceFlush\<close> and their helpers).

  A context is the deadline it carries, if any.  A closer or flusher is a function from the instant it is called and the
  context it is given to the instant it returns and the error it returns, an index into the heap of
  \<^verbatim>\<open>RedactError\<close>.  The two methods are first modelled as sequential bodies, then as an interleaving of the atomic
  sections their mutex, wait group and once delimit.
\<close>

section \<open>Budgets\<close>

type_synonym ctx = "nanos option"

text \<open>\<^verbatim>\<open>context.WithTimeout\<close>: the earlier of the parent's deadline and now plus the timeout.\<close>

definition with_timeout :: "ctx \<Rightarrow> nanos \<Rightarrow> int \<Rightarrow> ctx" where
  "with_timeout c now timeout = Some (case c of None \<Rightarrow> now + timeout | Some d \<Rightarrow> min d (now + timeout))"

definition shutdownBudget :: "ctx \<Rightarrow> nanos \<Rightarrow> int \<Rightarrow> ctx" where
  "shutdownBudget c now remaining =
     (case c of None \<Rightarrow> c
      | Some deadline \<Rightarrow>
          if remaining \<le> 1 then c
          else let share = time_sub deadline now sdiv remaining in
            if share \<le> 0 then c else with_timeout c now share)"

section \<open>Shutdown, sequentially\<close>

type_synonym closer = "nanos \<Rightarrow> ctx \<Rightarrow> nanos \<times> nat option"

record closer_run =
  run_start :: nanos
  run_ctx :: ctx
  run_end :: nanos
  run_error :: "nat option"

text \<open>The loop over \<^verbatim>\<open>s.shutdowns\<close>.\<close>

fun close_loop :: "ctx \<Rightarrow> nanos \<Rightarrow> closer list \<Rightarrow> closer_run list" where
  "close_loop c now [] = []"
| "close_loop c now (fn # fns) =
     (let closerCtx = shutdownBudget c now (int (length (fn # fns)));
          (t, err) = fn now closerCtx
      in \<lparr>run_start = now, run_ctx = closerCtx, run_end = t, run_error = err\<rparr> # close_loop c t fns)"

text \<open>\<^verbatim>\<open>waitFlushes\<close>: it returns when the wait group is released (\<open>released\<close>, if ever) or when the context is done.\<close>

definition waitFlushes :: "ctx \<Rightarrow> nanos \<Rightarrow> nanos option \<Rightarrow> nanos option" where
  "waitFlushes c now released =
     (case (c, released) of
        (None, None) \<Rightarrow> None
      | (Some d, None) \<Rightarrow> Some (max now d)
      | (None, Some r) \<Rightarrow> Some (max now r)
      | (Some d, Some r) \<Rightarrow> Some (max now (min d r)))"

definition redactError :: "'u redact_env \<Rightarrow> error_heap \<Rightarrow> string list \<Rightarrow> string list \<Rightarrow> nat \<Rightarrow> redaction" where
  "redactError env heap endpoints secrets e = Error env heap (Some e) endpoints secrets"

text \<open>The instant the closers start, the runs of the closers, and the errors that are logged and joined; the wait is
  bounded because it is only entered under a deadline.\<close>

definition Shutdown ::
  "'u redact_env \<Rightarrow> error_heap \<Rightarrow> string list \<Rightarrow> string list \<Rightarrow> closer list \<Rightarrow> int \<Rightarrow> nanos option \<Rightarrow> ctx \<Rightarrow> nanos \<Rightarrow>
   closer_run list \<times> redaction list" where
  "Shutdown env heap endpoints secrets shutdowns running released c now =
     (let t = (if c \<noteq> None \<and> running > 0
               then (case waitFlushes (shutdownBudget c now (int (length shutdowns) + 1)) now released of Some t \<Rightarrow> t | None \<Rightarrow> now)
               else now);
          runs = close_loop c t shutdowns
      in (runs, map (redactError env heap endpoints secrets) (List.map_filter run_error runs)))"

section \<open>ForceFlush, sequentially\<close>

text \<open>\<^verbatim>\<open>flushConcurrently\<close>: the flushers run side by side; the errors come back in the order of the flushers.\<close>

definition flushConcurrently :: "ctx \<Rightarrow> nanos \<Rightarrow> closer list \<Rightarrow> nanos \<times> nat list" where
  "flushConcurrently c now flushers =
     (let results = map (\<lambda>fn. fn now c) flushers
      in (fold max (map fst results) now, List.map_filter snd results))"

definition ForceFlush ::
  "'u redact_env \<Rightarrow> error_heap \<Rightarrow> string list \<Rightarrow> string list \<Rightarrow> closer list \<Rightarrow> closer option \<Rightarrow> ctx \<Rightarrow> nanos \<Rightarrow> nanos \<times> redaction list" where
  "ForceFlush env heap endpoints secrets flushSignals flushMetrics c now =
     (let (t1, errs1) = (if length flushSignals > 0
            then flushConcurrently (shutdownBudget c now (if flushMetrics \<noteq> None then 2 else 1)) now flushSignals
            else (now, []));
          (t2, errs2) = (case flushMetrics of None \<Rightarrow> (t1, [])
            | Some fn \<Rightarrow> (case fn t1 c of (t, None) \<Rightarrow> (t, []) | (t, Some e) \<Rightarrow> (t, [e])))
      in (t2, map (redactError env heap endpoints secrets) (errs1 @ errs2)))"

definition nonNil :: "'a option list \<Rightarrow> 'a list" where
  "nonNil fns = foldl (\<lambda>out fn. case fn of None \<Rightarrow> out | Some f \<Rightarrow> out @ [f]) [] fns"

definition shutdownSequence :: "'a option \<Rightarrow> 'a option \<Rightarrow> 'a option \<Rightarrow> 'a option \<Rightarrow> 'a option \<Rightarrow> 'a list" where
  "shutdownSequence profiler traces logs metricsServer meter = nonNil [profiler, traces, logs, metricsServer, meter]"

definition closeAll :: "'a option list \<Rightarrow> 'a list" where
  "closeAll closers = foldl (\<lambda>ran fn. case fn of None \<Rightarrow> ran | Some f \<Rightarrow> ran @ [f]) [] closers"

section \<open>The budget is fair\<close>

text \<open>A closer is cooperative when it returns no later than its context's deadline, or at once if that has passed, and
  never before it was called.\<close>

definition cooperative :: "closer \<Rightarrow> bool" where
  "cooperative fn \<longleftrightarrow> (\<forall>now c. now \<le> fst (fn now c) \<and> (\<forall>d. c = Some d \<longrightarrow> fst (fn now c) \<le> max now d))"

lemma budget_window:
  assumes "now \<le> d" "d - now \<le> max_int64" "0 < m" "q \<le> (d - now) div m"
  shows "\<exists>d'. shutdownBudget (Some d) now m = Some d' \<and> d' \<le> d \<and> now + q \<le> d' \<and>
    (1 < m \<and> 0 < (d - now) div m \<longrightarrow> d' = now + (d - now) div m)"
proof -
  have sub: "time_sub d now = d - now" using assms(1,2) by (simp add: time_sub_def min_int64_def)
  have sd: "time_sub d now sdiv m = (d - now) div m" unfolding sub using assms(1,3) by (simp add: signed_divide_int_def sgn_if)
  have le: "(d - now) div m \<le> d - now" using assms(1,3) zdiv_mono2[of "d - now" 1 m] by simp
  have one: "m = 1 \<Longrightarrow> (d - now) div m = d - now" by simp
  show ?thesis
    using assms le one by (auto simp: shutdownBudget_def with_timeout_def sd Let_def)
qed

lemma next_share:
  assumes "1 < m" "q \<le> (D :: int) div m"
  shows "q \<le> (D - D div m) div (m - 1)"
proof -
  have "D div m * m \<le> D" using div_mult_mod_eq[of D m] pos_mod_sign[of m D] assms(1) by linarith
  then have "D div m * (m - 1) \<le> D - D div m" by (simp add: algebra_simps)
  then have "(D div m * (m - 1)) div (m - 1) \<le> (D - D div m) div (m - 1)" using assms(1) by (intro zdiv_mono1) simp_all
  then show ?thesis using assms by simp
qed

text \<open>The loop, from an instant with the deadline ahead and a share of at least \<open>q\<close> for each closer left.\<close>

lemma close_loop_fair:
  assumes "list_all cooperative fns" "now \<le> d" "d - now \<le> max_int64" "0 \<le> q" "fns \<noteq> [] \<Longrightarrow> q \<le> (d - now) div int (length fns)"
    and "r \<in> set (close_loop (Some d) now fns)"
  shows "\<exists>d'. run_ctx r = Some d' \<and> run_start r + q \<le> d' \<and> run_end r \<le> d' \<and> d' \<le> d \<and> now \<le> run_start r"
  using assms
proof (induction fns arbitrary: now)
  case (Cons fn fns)
  let ?m = "int (length (fn # fns))"
  obtain d' where d': "shutdownBudget (Some d) now ?m = Some d'" "d' \<le> d" "now + q \<le> d'"
    "1 < ?m \<and> 0 < (d - now) div ?m \<longrightarrow> d' = now + (d - now) div ?m"
    using budget_window[of now d ?m q] Cons.prems by auto
  obtain t err where fn: "fn now (Some d') = (t, err)" by fastforce
  have t: "now \<le> t" "t \<le> d'"
  proof -
    have "cooperative fn" using Cons.prems(1) by simp
    then have "now \<le> t \<and> t \<le> max now d'" using fn unfolding cooperative_def by (metis fst_conv)
    then show "now \<le> t" "t \<le> d'" using d'(3) Cons.prems(4) by auto
  qed
  have share: "q \<le> (d - t) div int (length fns)" if "fns \<noteq> []"
  proof -
    have m: "1 < ?m" using that by (cases fns) auto
    show ?thesis
    proof (cases "0 < (d - now) div ?m")
      case True
      then have "(d - now) - (d - now) div ?m \<le> d - t" using d'(4) m t by linarith
      then have "((d - now) - (d - now) div ?m) div (?m - 1) \<le> (d - t) div (?m - 1)" using m by (intro zdiv_mono1) simp_all
      moreover have "q \<le> ((d - now) - (d - now) div ?m) div (?m - 1)" using m Cons.prems(5) by (intro next_share) simp_all
      ultimately show ?thesis by simp
    next
      case False
      then have "q = 0" using Cons.prems(4,5) by simp
      moreover have "t \<le> d" using t d' by simp
      ultimately show ?thesis using that by (simp add: pos_imp_zdiv_nonneg_iff)
    qed
  qed
  show ?case
  proof (cases "r = \<lparr>run_start = now, run_ctx = Some d', run_end = t, run_error = err\<rparr>")
    case True
    then show ?thesis using d' t by auto
  next
    case False
    then have "r \<in> set (close_loop (Some d) t fns)" using Cons.prems(6) d'(1) fn by auto
    moreover have "list_all cooperative fns" "t \<le> d" "d - t \<le> max_int64" using Cons.prems(1,3) t d'(2) by simp_all
    ultimately have "\<exists>d'. run_ctx r = Some d' \<and> run_start r + q \<le> d' \<and> run_end r \<le> d' \<and> d' \<le> d \<and> t \<le> run_start r"
      using Cons.IH[of t] share Cons.prems(4) by blast
    then show ?thesis using t by fastforce
  qed
qed simp

lemma close_loop_length [simp]: "length (close_loop c now fns) = length fns"
  by (induction fns arbitrary: now) (auto simp: Let_def split: prod.splits)

lemma waitFlushes_bounds:
  assumes "now \<le> d"
  shows "\<exists>t. waitFlushes (Some d) now released = Some t \<and> now \<le> t \<and> t \<le> d"
  using assms by (auto simp: waitFlushes_def split: option.splits)

text \<open>C26. Shutdown under a deadline: as long as each closer returns by the deadline of the context it is given, every
  closer is run, each gets at least an equal share of the time there was at the start (one more share being set aside
  for running flushes), and all of them have returned by the caller's deadline.\<close>

theorem every_closer_gets_its_share:
  assumes "list_all cooperative closers" "now \<le> d" "d - now \<le> max_int64"
    and "Shutdown env heap endpoints secrets closers running released (Some d) now = (runs, errs)"
  shows "length runs = length closers \<and>
    (\<forall>r \<in> set runs. \<exists>d'. run_ctx r = Some d' \<and> (d - now) div (int (length closers) + 1) \<le> d' - run_start r \<and>
       run_end r \<le> d' \<and> d' \<le> d \<and> now \<le> run_start r)"
proof -
  let ?n = "int (length closers)" and ?q = "(d - now) div (int (length closers) + 1)"
  have q: "0 \<le> ?q" using assms(2) by (simp add: pos_imp_zdiv_nonneg_iff)
  have fair: "?q \<le> (d - now) div ?n" if "closers \<noteq> []"
    using that assms(2) by (intro zdiv_mono2) simp_all
  obtain b where b: "shutdownBudget (Some d) now (?n + 1) = Some b" "b \<le> d" "now + ?q \<le> b"
    "1 < ?n + 1 \<and> 0 < (d - now) div (?n + 1) \<longrightarrow> b = now + (d - now) div (?n + 1)"
    using budget_window[of now d "?n + 1" ?q] assms(2,3) by auto
  obtain w where w: "waitFlushes (Some b) now released = Some w" "now \<le> w" "w \<le> b"
    using waitFlushes_bounds[of now b released] b(3) q by auto
  define t where "t = (if running > 0 then w else now)"
  have runs: "runs = close_loop (Some d) t closers"
    using assms(4) b(1) w(1) by (auto simp: Shutdown_def t_def Let_def split: if_splits)
  have t: "now \<le> t" "t \<le> d" using w b(2) assms(2) by (auto simp: t_def)
  have "?q \<le> (d - t) div ?n" if ne: "closers \<noteq> []"
  proof (cases "running > 0 \<and> 0 < ?q")
    case True
    have "(d - now) - ?q \<le> d - t" using True b(4) w(3) ne by (auto simp: t_def)
    then have "((d - now) - ?q) div ?n \<le> (d - t) div ?n" using ne by (intro zdiv_mono1) simp_all
    moreover have "?q \<le> ((d - now) - ?q) div ?n" using ne next_share[of "?n + 1" ?q "d - now"] by simp
    ultimately show ?thesis by linarith
  next
    case False
    then show ?thesis using fair[OF ne] q t(2) ne by (auto simp: t_def pos_imp_zdiv_nonneg_iff)
  qed
  then have "\<forall>r \<in> set runs. \<exists>d'. run_ctx r = Some d' \<and> run_start r + ?q \<le> d' \<and> run_end r \<le> d' \<and> d' \<le> d \<and> t \<le> run_start r"
    unfolding runs using close_loop_fair[OF assms(1) t(2) _ q] t(1) assms(3) by auto
  then show ?thesis using t(1) by (fastforce simp: runs algebra_simps)
qed

text \<open>A closer that takes the given time, or as much of it as its context allows.\<close>

definition demo_closer :: "nanos \<Rightarrow> closer" where
  "demo_closer work now c = ((case c of None \<Rightarrow> now + work | Some d \<Rightarrow> max now (min d (now + work))), None)"

lemma demo_closer_cooperative: "0 \<le> work \<Longrightarrow> cooperative (demo_closer work)"
  by (auto simp: cooperative_def demo_closer_def split: option.splits)

theorem every_closer_gets_its_share_witness:
  "map run_end (fst (Shutdown demo_env demo_heap [] [] [demo_closer 90, demo_closer 1, demo_closer 90] 1 None (Some 100) 0)) = [50, 51, 100] \<and>
   list_all (\<lambda>r. \<exists>d'. run_ctx r = Some d' \<and> 25 \<le> d' - run_start r \<and> run_end r \<le> d' \<and> d' \<le> 100)
     (fst (Shutdown demo_env demo_heap [] [] [demo_closer 90, demo_closer 1, demo_closer 90] 1 None (Some 100) 0))"
proof -
  let ?cs = "[demo_closer 90, demo_closer 1, demo_closer 90]"
  have all: "list_all cooperative ?cs" by (simp add: demo_closer_cooperative)
  obtain runs errs where r: "Shutdown demo_env demo_heap [] [] ?cs 1 None (Some 100) 0 = (runs, errs)" by fastforce
  have "map run_end (fst (Shutdown demo_env demo_heap [] [] ?cs 1 None (Some 100) 0)) = [50, 51, 100]" by code_simp
  moreover have "(100 :: int) div 4 = 25" by simp
  ultimately show ?thesis using every_closer_gets_its_share[OF all _ _ r] r by (simp add: max_int64_def list_all_iff) blast
qed

section \<open>Interleaving flushes with a shutdown\<close>

text \<open>The atomic sections.  A call of \<^verbatim>\<open>ForceFlush\<close> takes the mutex, and either returns at once or counts itself in; when its
  work is over it counts itself out under the mutex, then releases the wait group.  The first call of
  \<^verbatim>\<open>Shutdown\<close> marks the SDK under the mutex and reads the count; under a deadline it waits for the wait group or its
  context; then it runs the closers one after the other.  \<open>calls\<close> lists the calls of \<^verbatim>\<open>ForceFlush\<close> so far.\<close>

datatype flush_phase = Refused | Flushing | Leaving | Left

datatype once_phase = Fresh | Waiting | Closing nat | Closed

record sdk_state =
  shutdownStarted :: bool
  flushesRunning :: int
  flushing :: int
  calls :: "flush_phase list"
  once :: once_phase
  closed :: "nat list"

definition new_sdk :: sdk_state where
  "new_sdk = \<lparr>shutdownStarted = False, flushesRunning = 0, flushing = 0, calls = [], once = Fresh, closed = []\<rparr>"

inductive sdk_step :: "bool \<Rightarrow> nat \<Rightarrow> sdk_state \<Rightarrow> sdk_state \<Rightarrow> bool" for deadline :: bool and n :: nat where
  flush_refused: "shutdownStarted s \<Longrightarrow> sdk_step deadline n s (s\<lparr>calls := calls s @ [Refused]\<rparr>)"
| flush_enter: "\<not> shutdownStarted s \<Longrightarrow>
    sdk_step deadline n s (s\<lparr>flushesRunning := flushesRunning s + 1, flushing := flushing s + 1, calls := calls s @ [Flushing]\<rparr>)"
| flush_leave: "i < length (calls s) \<Longrightarrow> calls s ! i = Flushing \<Longrightarrow>
    sdk_step deadline n s (s\<lparr>flushesRunning := flushesRunning s - 1, calls := (calls s)[i := Leaving]\<rparr>)"
| flush_done: "i < length (calls s) \<Longrightarrow> calls s ! i = Leaving \<Longrightarrow>
    sdk_step deadline n s (s\<lparr>flushing := flushing s - 1, calls := (calls s)[i := Left]\<rparr>)"
| shutdown_mark: "once s = Fresh \<Longrightarrow>
    sdk_step deadline n s (s\<lparr>shutdownStarted := True, once := (if deadline \<and> flushesRunning s > 0 then Waiting else Closing 0)\<rparr>)"
| wait_released: "once s = Waiting \<Longrightarrow> flushing s = 0 \<Longrightarrow> sdk_step deadline n s (s\<lparr>once := Closing 0\<rparr>)"
| wait_timeout: "once s = Waiting \<Longrightarrow> sdk_step deadline n s (s\<lparr>once := Closing 0\<rparr>)"
| close_next: "once s = Closing i \<Longrightarrow> i < n \<Longrightarrow> sdk_step deadline n s (s\<lparr>once := Closing (Suc i), closed := closed s @ [i]\<rparr>)"
| close_end: "once s = Closing n \<Longrightarrow> sdk_step deadline n s (s\<lparr>once := Closed\<rparr>)"

inductive_cases sdk_stepE: "sdk_step deadline n s s'"

abbreviation sdk_steps :: "bool \<Rightarrow> nat \<Rightarrow> sdk_state \<Rightarrow> sdk_state \<Rightarrow> bool" where
  "sdk_steps deadline n \<equiv> (sdk_step deadline n)\<^sup>*\<^sup>*"

definition counted :: "sdk_state \<Rightarrow> bool" where
  "counted s \<longleftrightarrow> flushesRunning s = int (count_list (calls s) Flushing) \<and>
     flushing s = int (count_list (calls s) Flushing) + int (count_list (calls s) Leaving)"

fun closers_done :: "nat \<Rightarrow> once_phase \<Rightarrow> nat list" where
  "closers_done n (Closing i) = [0..<i]"
| "closers_done n Closed = [0..<n]"
| "closers_done n _ = []"

definition sdk_inv :: "nat \<Rightarrow> sdk_state \<Rightarrow> bool" where
  "sdk_inv n s \<longleftrightarrow> counted s \<and> shutdownStarted s = (once s \<noteq> Fresh) \<and> closed s = closers_done n (once s) \<and>
     (case once s of Closing i \<Rightarrow> i \<le> n | _ \<Rightarrow> True)"

lemma counted_move:
  assumes "counted s" "i < length (calls s)"
  shows "calls s ! i = Flushing \<Longrightarrow> counted (s\<lparr>flushesRunning := flushesRunning s - 1, calls := (calls s)[i := Leaving]\<rparr>)"
    and "calls s ! i = Leaving \<Longrightarrow> counted (s\<lparr>flushing := flushing s - 1, calls := (calls s)[i := Left]\<rparr>)"
  using assms(1) count_list_update[OF assms(2), of Leaving Flushing] count_list_update[OF assms(2), of Leaving Leaving]
    count_list_update[OF assms(2), of Left Flushing] count_list_update[OF assms(2), of Left Leaving]
  by (simp_all add: counted_def)

lemma counted_frame [simp]:
  "counted (s\<lparr>shutdownStarted := b\<rparr>) = counted s" "counted (s\<lparr>once := x\<rparr>) = counted s" "counted (s\<lparr>closed := ks\<rparr>) = counted s"
  by (simp_all add: counted_def)

lemma sdk_step_inv: "sdk_step deadline n s s' \<Longrightarrow> sdk_inv n s \<Longrightarrow> sdk_inv n s'"
proof (induction rule: sdk_step.induct)
  case (flush_leave i s)
  then show ?case using counted_move(1)[of s i] by (simp add: sdk_inv_def)
next
  case (flush_done i s)
  then show ?case using counted_move(2)[of s i] by (simp add: sdk_inv_def)
qed (auto simp: sdk_inv_def counted_def count_list_append)

lemma sdk_reachable_inv: "sdk_steps deadline n new_sdk s \<Longrightarrow> sdk_inv n s"
proof (induction rule: rtranclp_induct)
  case base
  show ?case by (simp add: sdk_inv_def counted_def new_sdk_def)
qed (rule sdk_step_inv)

text \<open>C24. In every interleaving of flushes with a shutdown the counters are exact, so that the wait group is never
  driven below zero and is free exactly when no flush is inside; the closers run one after the other, each once,
  and only after the SDK has been marked.\<close>

theorem flush_shutdown_interleaving_safe:
  assumes "sdk_steps deadline n new_sdk s"
  shows "flushesRunning s = int (count_list (calls s) Flushing) \<and>
    (flushing s = 0 \<longleftrightarrow> Flushing \<notin> set (calls s) \<and> Leaving \<notin> set (calls s)) \<and> 0 \<le> flushing s \<and>
    prefix (closed s) [0..<n] \<and> (closed s = [] \<or> shutdownStarted s)"
proof -
  have inv: "sdk_inv n s" using sdk_reachable_inv[OF assms] .
  have "prefix [0..<i] [0..<n]" if "i \<le> n" for i
    using that by (metis le_add_diff_inverse prefixI upt_add_eq_append zero_le)
  then have "prefix (closed s) [0..<n]" using inv by (cases "once s") (auto simp: sdk_inv_def)
  moreover have "closed s = [] \<or> shutdownStarted s" using inv by (cases "once s") (auto simp: sdk_inv_def)
  moreover have "counted s" using inv by (simp add: sdk_inv_def)
  moreover have "flushing s = 0 \<longleftrightarrow> count_list (calls s) Flushing = 0 \<and> count_list (calls s) Leaving = 0"
    using \<open>counted s\<close> by (simp add: counted_def) presburger
  ultimately show ?thesis by (simp add: counted_def count_list_0_iff)
qed

lemma no_entry_after_mark:
  assumes "sdk_step deadline n s s'" "shutdownStarted s"
  shows "shutdownStarted s' \<and> flushing s' \<le> flushing s \<and> length (calls s) \<le> length (calls s') \<and>
    (\<forall>i < length (calls s'). calls s' ! i = Flushing \<longrightarrow> i < length (calls s) \<and> calls s ! i = Flushing)"
  using assms by (cases rule: sdk_step.cases) (auto simp: nth_append nth_list_update split: if_splits)

text \<open>Once a shutdown has begun no flush begins any more: in whatever state the run ends, a flush that is still
  working was already working when the mark was set, and the wait group that the shutdown waits for is never raised
  again, so waiting for it cannot be overtaken.\<close>

theorem no_flush_begins_after_shutdown:
  assumes "sdk_steps deadline n s s'" "shutdownStarted s"
  shows "flushing s' \<le> flushing s \<and>
    (\<forall>i < length (calls s'). calls s' ! i = Flushing \<longrightarrow> i < length (calls s) \<and> calls s ! i = Flushing)"
proof -
  have "shutdownStarted s' \<and> flushing s' \<le> flushing s \<and>
    (\<forall>i < length (calls s'). calls s' ! i = Flushing \<longrightarrow> i < length (calls s) \<and> calls s ! i = Flushing)"
    using assms
  proof (induction rule: rtranclp_induct)
    case (step t u)
    then show ?case using no_entry_after_mark[of deadline n t u] by (meson order_trans)
  qed simp
  then show ?thesis by simp
qed

lemma closing_completes:
  "once s = Closing i \<Longrightarrow> i \<le> n \<Longrightarrow>
   \<exists>s'. sdk_steps deadline n s s' \<and> once s' = Closed \<and> closed s' = closed s @ [i..<n] \<and> calls s' = calls s"
proof (induction "n - i" arbitrary: s i)
  case 0
  then have "sdk_step deadline n s (s\<lparr>once := Closed\<rparr>)" by (intro close_end) simp
  then show ?case using 0 by (intro exI[of _ "s\<lparr>once := Closed\<rparr>"]) auto
next
  case (Suc k)
  let ?t = "s\<lparr>once := Closing (Suc i), closed := closed s @ [i]\<rparr>"
  have i: "i < n" using Suc.hyps(2) by simp
  have step: "sdk_step deadline n s ?t" using Suc.prems(1) i by (rule close_next)
  have "k = n - Suc i" "once ?t = Closing (Suc i)" "Suc i \<le> n" using Suc.hyps(2) by simp_all
  from Suc.hyps(1)[OF this] obtain s' where
    "sdk_steps deadline n ?t s'" "once s' = Closed" "closed s' = closed ?t @ [Suc i..<n]" "calls s' = calls ?t" by blast
  then show ?case using step i by (intro exI[of _ s']) (auto simp: upt_conv_Cons intro: converse_rtranclp_into_rtranclp)
qed


definition demo_state :: sdk_state where
  "demo_state = \<lparr>shutdownStarted = True, flushesRunning = 1, flushing = 1, calls = [Flushing, Refused], once = Waiting, closed = []\<rparr>"

lemma demo_run: "sdk_steps True 2 new_sdk demo_state"
proof -
  let ?a = "\<lparr>shutdownStarted = False, flushesRunning = 1, flushing = 1, calls = [Flushing], once = Fresh, closed = []\<rparr>"
  let ?b = "?a\<lparr>shutdownStarted := True, once := Waiting\<rparr>"
  have "sdk_step True 2 new_sdk ?a" using flush_enter[of new_sdk True 2] by (simp add: new_sdk_def)
  moreover have "sdk_step True 2 ?a ?b" using shutdown_mark[of ?a True 2] by simp
  moreover have "sdk_step True 2 ?b demo_state" using flush_refused[of ?b True 2] by (simp add: demo_state_def)
  ultimately show ?thesis by (meson converse_rtranclp_into_rtranclp rtranclp.rtrancl_refl)
qed

lemma demo_fields [simp]: "flushesRunning demo_state = 1" "calls demo_state = [Flushing, Refused]" "once demo_state = Waiting"
  "shutdownStarted demo_state"
  by (simp_all add: demo_state_def)

theorem flush_shutdown_interleaving_safe_witness:
  "\<exists>s. sdk_steps True 2 new_sdk s \<and> flushesRunning s = 1 \<and> prefix (closed s) [0..<2] \<and> calls s = [Flushing, Refused]"
  using flush_shutdown_interleaving_safe[OF demo_run] demo_run by (intro exI[of _ demo_state]) simp

theorem no_flush_begins_after_shutdown_witness:
  "\<exists>s s'. sdk_steps True 2 s s' \<and> shutdownStarted s \<and> flushing s' \<le> flushing s \<and> once s = Waiting \<and> once s' = Closing 0"
proof -
  have steps: "sdk_steps True 2 demo_state (demo_state\<lparr>once := Closing 0\<rparr>)" using wait_timeout[of demo_state True 2] by auto
  then show ?thesis using no_flush_begins_after_shutdown[OF steps]
    by (intro exI[of _ demo_state] exI[of _ "demo_state\<lparr>once := Closing 0\<rparr>"]) simp
qed


end
