(* ===== verification/Profiling.thy ===== *)
theory Profiling
  imports RedactWire
begin

text \<open>
  The continuous profiler (\<^verbatim>\<open>internal/profiling/profiling.go\<close>): the tags taken from the resource and their truncation, the
  process-wide guard that at most one profiler runs, and the adapter that scrubs Pyroscope's own log lines.

  \<^verbatim>\<open>pyroscope.Start\<close> and \<^verbatim>\<open>Stop\<close> are parameters: an error text or success.  \<^verbatim>\<open>fmt.Sprintf\<close> has been applied to the
  lines the adapter receives.
\<close>

section \<open>Tags\<close>

definition maxPyroscopeTagValueBytes :: nat where "maxPyroscopeTagValueBytes = 1024"

text \<open>The offsets \<^verbatim>\<open>for i := range value\<close> visits: the first byte of every rune.\<close>

fun rune_starts :: "nat \<Rightarrow> (nat \<times> string) list \<Rightarrow> nat list" where
  "rune_starts i [] = []"
| "rune_starts i ((r, b) # cs) = i # rune_starts (i + length b) cs"

fun boundary_loop :: "nat \<Rightarrow> nat list \<Rightarrow> nat" where
  "boundary_loop lastBoundary [] = lastBoundary"
| "boundary_loop lastBoundary (i # is) = (if i > maxPyroscopeTagValueBytes then lastBoundary else boundary_loop i is)"

text \<open>The value, and whether the truncation is to be reported (the once-only warning is the caller's state).\<close>

definition truncatePyroscopeTagValue :: "string \<Rightarrow> string \<times> bool" where
  "truncatePyroscopeTagValue v =
     (if length v \<le> maxPyroscopeTagValueBytes then (v, False)
      else (take (boundary_loop 0 (rune_starts 0 (rune_chunks v))) v, True))"

definition tag_mapping :: "(string \<times> string) list" where
  "tag_mapping = [(''service.name'', ''service_name''), (''service.namespace'', ''service_namespace''),
     (''service.version'', ''service_version''), (''deployment.environment.name'', ''service_env''), (''host.name'', ''hostname''),
     (''k8s.pod.name'', ''pod''), (''k8s.namespace.name'', ''k8s_namespace'')]"

definition tag_step :: "key_value list \<Rightarrow> (string \<times> string) list \<Rightarrow> string \<times> string \<Rightarrow> (string \<times> string) list" where
  "tag_step attrs tags m =
     (case map_of attrs (fst m) of
        Some (StrV value) \<Rightarrow>
          let tagValue = trim_space value in
          if tagValue = [] then tags else AList.update (snd m) (fst (truncatePyroscopeTagValue tagValue)) tags
      | _ \<Rightarrow> tags)"

definition profileTagsFromResource :: "key_value list option \<Rightarrow> (string \<times> string) list" where
  "profileTagsFromResource res = (case res of None \<Rightarrow> [] | Some attrs \<Rightarrow> foldl (tag_step attrs) [] tag_mapping)"

definition cloneStringMap :: "(string \<times> string) list \<Rightarrow> (string \<times> string) list" where
  "cloneStringMap m = (if length m = 0 then [] else foldl (\<lambda>out (k, v). AList.update k v out) [] m)"

section \<open>One profiler per process\<close>

datatype start_error = ContextDone string | ErrAlreadyStarted | PyroscopeFailed string

record profiling_config =
  ServiceName :: string
  Endpoint :: string
  AuthHeaders :: "(string \<times> string) list"
  Resource :: "key_value list option"

record pyroscope_config =
  ApplicationName :: string
  ServerAddress :: string
  HTTPHeaders :: "(string \<times> string) list"
  Tags :: "(string \<times> string) list"

text \<open>\<^verbatim>\<open>Start\<close>: \<open>before\<close> and \<open>after\<close> are \<^verbatim>\<open>ctx.Err()\<close> ahead of the lock and under it; the first component is
  \<^verbatim>\<open>profilerStarted\<close> afterwards.\<close>

definition Start ::
  "(pyroscope_config \<Rightarrow> string option) \<Rightarrow> string option \<Rightarrow> string option \<Rightarrow> bool \<Rightarrow> profiling_config \<Rightarrow> bool \<times> start_error option" where
  "Start pyroscopeStart before after profilerStarted cfg =
     (case before of Some e \<Rightarrow> (profilerStarted, Some (ContextDone e))
      | None \<Rightarrow> (case after of Some e \<Rightarrow> (profilerStarted, Some (ContextDone e))
          | None \<Rightarrow>
              if profilerStarted then (profilerStarted, Some ErrAlreadyStarted)
              else (case pyroscopeStart \<lparr>ApplicationName = ServiceName cfg, ServerAddress = Endpoint cfg,
                       HTTPHeaders = cloneStringMap (AuthHeaders cfg), Tags = profileTagsFromResource (Resource cfg)\<rparr> of
                      Some e \<Rightarrow> (profilerStarted, Some (PyroscopeFailed e))
                    | None \<Rightarrow> (True, None))))"

text \<open>What the closer returns: \<open>stopped\<close> is the result of \<^verbatim>\<open>profiler.Stop()\<close> if it arrived before the context was done, and
  \<open>ctxErr\<close> is \<^verbatim>\<open>ctx.Err()\<close> at that moment.\<close>

definition closer_result :: "string option option \<Rightarrow> string option \<Rightarrow> string option" where
  "closer_result stopped ctxErr =
     (case stopped of
        Some err \<Rightarrow> (case ctxErr of Some c \<Rightarrow> Some c | None \<Rightarrow> err)
      | None \<Rightarrow> ctxErr)"

section \<open>The log adapter\<close>

definition adhocServerAddressEnv :: string where "adhocServerAddressEnv = ''PYROSCOPE_ADHOC_SERVER_ADDRESS''"

definition adhocServerAddress :: "(string \<Rightarrow> string) \<Rightarrow> string" where
  "adhocServerAddress getenv = getenv adhocServerAddressEnv"

definition profilingEndpoints :: "(string \<Rightarrow> string) \<Rightarrow> string \<Rightarrow> string list" where
  "profilingEndpoints getenv configured =
     (let override = adhocServerAddress getenv in
      if override \<noteq> [] \<and> override \<noteq> configured then [configured, override] else [configured])"

definition add_forms :: "string list \<Rightarrow> string list \<Rightarrow> string list" where
  "add_forms secrets forms =
     foldl (\<lambda>out form. if form = [] then out else if form \<in> set out then out else out @ [form]) secrets forms"

definition add_header :: "unicode \<Rightarrow> renderers \<Rightarrow> string list \<Rightarrow> string \<times> string \<Rightarrow> string list" where
  "add_header U R out h = add_forms (add_forms out (HeaderNameForms U R (fst h))) (HeaderValueForms R (snd h))"

definition add_basic :: "renderers \<Rightarrow> 'u url_lib \<Rightarrow> string list \<Rightarrow> string \<Rightarrow> string list" where
  "add_basic R L out addr =
     (let basic = BasicAuthHeader L addr in
      if basic = [] then out
      else add_forms (add_forms out (HeaderValueForms R basic)) (HeaderValueForms R (trim_prefix basic ''Basic '')))"

definition authHeaderSecrets ::
  "unicode \<Rightarrow> renderers \<Rightarrow> 'u url_lib \<Rightarrow> (string \<Rightarrow> string) \<Rightarrow> string \<Rightarrow> (string \<times> string) list \<Rightarrow> string list" where
  "authHeaderSecrets U R L getenv endpoint headers =
     (let secrets = foldl (add_basic R L) (foldl (add_header U R) [] headers) [endpoint, adhocServerAddress getenv]
      in if length secrets = 0 then [] else sort secrets)"

record pyroscope_adapter =
  adapter_endpoints :: "string list"
  adapter_secrets :: "string list"

definition newPyroscopeSlogAdapter ::
  "unicode \<Rightarrow> renderers \<Rightarrow> 'u url_lib \<Rightarrow> (string \<Rightarrow> string) \<Rightarrow> profiling_config \<Rightarrow> pyroscope_adapter" where
  "newPyroscopeSlogAdapter U R L getenv cfg =
     \<lparr>adapter_endpoints = profilingEndpoints getenv (Endpoint cfg),
      adapter_secrets = authHeaderSecrets U R L getenv (Endpoint cfg) (AuthHeaders cfg)\<rparr>"

definition scrub :: "unicode \<Rightarrow> (string \<Rightarrow> string) \<Rightarrow> 'u url_lib \<Rightarrow> pyroscope_adapter \<Rightarrow> string \<Rightarrow> string" where
  "scrub U H L a line = Secrets U H (InText U H L line (adapter_endpoints a)) (adapter_secrets a)"

section \<open>Truncation\<close>

lemma boundary_loop_maximal:
  assumes "cs \<noteq> []" "i \<le> maxPyroscopeTagValueBytes"
  shows "\<exists>n < length cs. boundary_loop l (rune_starts i cs) = i + length (concat (map snd (take n cs))) \<and>
    boundary_loop l (rune_starts i cs) \<le> maxPyroscopeTagValueBytes \<and>
    (Suc n = length cs \<or> maxPyroscopeTagValueBytes < i + length (concat (map snd (take (Suc n) cs))))"
  using assms
proof (induction cs arbitrary: i l)
  case (Cons c cs)
  obtain r b where c: "c = (r, b)" by (cases c)
  show ?case
  proof (cases "cs \<noteq> [] \<and> i + length b \<le> maxPyroscopeTagValueBytes")
    case True
    from Cons.IH[of "i + length b" i] True obtain n where
      "n < length cs" "boundary_loop i (rune_starts (i + length b) cs) = i + length b + length (concat (map snd (take n cs)))"
      "boundary_loop i (rune_starts (i + length b) cs) \<le> maxPyroscopeTagValueBytes"
      "Suc n = length cs \<or> maxPyroscopeTagValueBytes < i + length b + length (concat (map snd (take (Suc n) cs)))" by blast
    then show ?thesis using Cons.prems(2) by (intro exI[of _ "Suc n"]) (auto simp: c)
  next
    case False
    then have "boundary_loop i (rune_starts (i + length b) cs) = i" by (cases cs) (auto simp: neq_Nil_conv)
    then show ?thesis using Cons.prems(2) False by (intro exI[of _ 0]) (auto simp: c)
  qed
qed simp

text \<open>A tag value is never cut inside a character: what is sent is a whole number of the value's runes, at most
  1024 bytes, and it is all of the value or one more rune would not have fitted.\<close>

theorem tag_value_cut_at_rune_boundary:
  "\<exists>n. fst (truncatePyroscopeTagValue v) = concat (map snd (take n (rune_chunks v))) \<and>
     length (fst (truncatePyroscopeTagValue v)) \<le> 1024 \<and>
     (fst (truncatePyroscopeTagValue v) = v \<or> 1024 < length (concat (map snd (take (Suc n) (rune_chunks v)))))"
proof (cases "length v \<le> maxPyroscopeTagValueBytes")
  case True
  then show ?thesis
    by (intro exI[of _ "length (rune_chunks v)"]) (simp add: truncatePyroscopeTagValue_def rune_chunks_concat maxPyroscopeTagValueBytes_def)
next
  case False
  let ?cs = "rune_chunks v"
  have "?cs \<noteq> []" using False by (metis rune_chunks_concat concat.simps(1) list.map(1) list.size(3) le0)
  from boundary_loop_maximal[OF this, of 0 0, unfolded maxPyroscopeTagValueBytes_def add_0] obtain n where
    n: "n < length ?cs" "boundary_loop 0 (rune_starts 0 ?cs) = length (concat (map snd (take n ?cs)))"
      "boundary_loop 0 (rune_starts 0 ?cs) \<le> 1024"
      "Suc n = length ?cs \<or> 1024 < length (concat (map snd (take (Suc n) ?cs)))"
    by fastforce
  have "v = concat (map snd (take n ?cs)) @ concat (map snd (drop n ?cs))"
    by (metis append_take_drop_id concat_append map_append rune_chunks_concat)
  then have "take (boundary_loop 0 (rune_starts 0 ?cs)) v = concat (map snd (take n ?cs))" using n(2) by (metis append_eq_conv_conj)
  moreover have "1024 < length (concat (map snd (take (Suc n) ?cs)))"
    using n(4) False by (auto simp: rune_chunks_concat maxPyroscopeTagValueBytes_def)
  ultimately show ?thesis using False n by (intro exI[of _ n]) (simp add: truncatePyroscopeTagValue_def)
qed

section \<open>At most one profiler\<close>

datatype handle_phase = Running | Stopped | Released

text \<open>The process: the flag behind the mutex and the profilers started so far.  A closer first stops its profiler and then
  clears the flag under the mutex; the SDK calls each closer once.\<close>

record process =
  profilerStarted :: bool
  profilers :: "handle_phase list"

inductive process_step :: "process \<Rightarrow> process \<Rightarrow> bool" where
  start: "Start pyroscopeStart before after (profilerStarted s) cfg = (started, err) \<Longrightarrow>
    process_step s \<lparr>profilerStarted = started, profilers = profilers s @ (if err = None then [Running] else [])\<rparr>"
| stop: "i < length (profilers s) \<Longrightarrow> profilers s ! i = Running \<Longrightarrow>
    process_step s (s\<lparr>profilers := (profilers s)[i := Stopped]\<rparr>)"
| release: "i < length (profilers s) \<Longrightarrow> profilers s ! i = Stopped \<Longrightarrow>
    process_step s \<lparr>profilerStarted = False, profilers = (profilers s)[i := Released]\<rparr>"

definition alive :: "process \<Rightarrow> nat" where
  "alive s = length (filter (\<lambda>p. p \<noteq> Released) (profilers s))"

lemma filter_update:
  "i < length xs \<Longrightarrow>
   length (filter P (xs[i := y])) + (if P (xs ! i) then 1 else 0) = length (filter P xs) + (if P y then 1 else 0)"
proof (induction xs arbitrary: i)
  case (Cons x xs)
  show ?case
  proof (cases i)
    case (Suc k)
    then show ?thesis using Cons.IH[of k] Cons.prems by (cases "P x"; cases "P y"; cases "P (xs ! k)") auto
  qed auto
qed simp

lemma Start_outcome:
  "Start pyroscopeStart before after b cfg = (started, err) \<Longrightarrow> (err = None \<and> \<not> b \<and> started) \<or> (err \<noteq> None \<and> started = b)"
  by (auto simp: Start_def split: option.splits if_splits)

lemma process_step_inv:
  "process_step s s' \<Longrightarrow> alive s = (if profilerStarted s then 1 else 0) \<Longrightarrow> alive s' = (if profilerStarted s' then 1 else 0)"
proof (induction rule: process_step.induct)
  case (start pyroscopeStart before after s cfg started err)
  then show ?case using Start_outcome[OF start.hyps] by (auto simp: alive_def)
next
  case (stop i s)
  then show ?case using filter_update[of i "profilers s" "\<lambda>p. p \<noteq> Released" Stopped] by (simp add: alive_def)
next
  case (release i s)
  then show ?case using filter_update[of i "profilers s" "\<lambda>p. p \<noteq> Released" Released]
    by (simp add: alive_def split: if_splits)
qed

text \<open>However starts and closers interleave, the process never has more than one profiler running, and the flag that
  refuses a second start is set exactly while one is.\<close>

theorem at_most_one_profiler:
  assumes "process_step\<^sup>*\<^sup>* \<lparr>profilerStarted = False, profilers = []\<rparr> s"
  shows "length (filter (\<lambda>p. p = Running) (profilers s)) \<le> 1 \<and>
    profilerStarted s = (\<exists>p \<in> set (profilers s). p \<noteq> Released)"
proof -
  have inv: "alive s = (if profilerStarted s then 1 else 0)"
    using assms by (induction rule: rtranclp_induct) (simp_all add: alive_def process_step_inv[unfolded alive_def])
  have "filter (\<lambda>p. p = Running) (profilers s) = filter (\<lambda>p. p = Running) (filter (\<lambda>p. p \<noteq> Released) (profilers s))"
    by (simp add: filter_filter) (rule filter_cong[OF refl], auto)
  then have "length (filter (\<lambda>p. p = Running) (profilers s)) \<le> alive s" unfolding alive_def by (metis length_filter_le)
  then have "length (filter (\<lambda>p. p = Running) (profilers s)) \<le> 1" using inv by (simp split: if_splits)
  moreover have "profilerStarted s = (alive s \<noteq> 0)" using inv by simp
  ultimately show ?thesis by (auto simp: alive_def filter_empty_conv)
qed

theorem at_most_one_profiler_witness:
  "\<exists>s. process_step\<^sup>*\<^sup>* \<lparr>profilerStarted = False, profilers = []\<rparr> s \<and> profilers s = [Running] \<and> profilerStarted s"
proof -
  have "Start (\<lambda>_. None) None None False \<lparr>ServiceName = ''a'', Endpoint = ''e'', AuthHeaders = [], Resource = None\<rparr> = (True, None)"
    by (simp add: Start_def)
  from process_step.start[of _ _ _ "\<lparr>profilerStarted = False, profilers = []\<rparr>", simplified, OF this]
  have run: "process_step\<^sup>*\<^sup>* \<lparr>profilerStarted = False, profilers = []\<rparr> \<lparr>profilerStarted = True, profilers = [Running]\<rparr>" by auto
  then show ?thesis using at_most_one_profiler[OF run] by (intro exI[of _ "\<lparr>profilerStarted = True, profilers = [Running]\<rparr>"]) simp
qed

section \<open>Pyroscope's lines\<close>

lemma set_add_forms: "set (add_forms out forms) = set out \<union> (set forms - {[]})"
proof -
  have "set (foldl (\<lambda>out form. if form = [] then out else if form \<in> set out then out else out @ [form]) out forms) = set out \<union> (set forms - {[]})"
    by (induction forms arbitrary: out) auto
  then show ?thesis by (simp add: add_forms_def)
qed

text \<open>The credentials the profiler is given: its headers, in every form, and the Basic authorization of its addresses.\<close>

definition profiler_credential ::
  "unicode \<Rightarrow> renderers \<Rightarrow> 'u url_lib \<Rightarrow> (string \<Rightarrow> string) \<Rightarrow> profiling_config \<Rightarrow> string \<Rightarrow> bool" where
  "profiler_credential U R L getenv cfg s \<longleftrightarrow>
     (\<exists>k v. (k, v) \<in> set (AuthHeaders cfg) \<and> s \<in> set (HeaderNameForms U R k) \<union> set (HeaderValueForms R v)) \<or>
     (\<exists>addr \<in> set [Endpoint cfg, adhocServerAddress getenv]. BasicAuthHeader L addr \<noteq> [] \<and>
        s \<in> set (HeaderValueForms R (BasicAuthHeader L addr)))"

lemma profiler_credential_listed:
  assumes "profiler_credential U R L getenv cfg s" "s \<noteq> []"
  shows "s \<in> set (authHeaderSecrets U R L getenv (Endpoint cfg) (AuthHeaders cfg))"
proof -
  let ?named = "foldl (add_header U R) [] (AuthHeaders cfg)"
  have grows: "set out \<subseteq> set (foldl (add_header U R) out hs)" for out hs
  proof (induction hs arbitrary: out)
    case (Cons h hs)
    have "set out \<subseteq> set (add_header U R out h)" by (auto simp: add_header_def set_add_forms)
    then show ?case using Cons.IH[of "add_header U R out h"] by auto
  qed simp
  have named: "s \<in> set (foldl (add_header U R) out hs)"
    if "(k, v) \<in> set hs" "s \<in> set (HeaderNameForms U R k) \<union> set (HeaderValueForms R v)" for out hs k v
    using that
  proof (induction hs arbitrary: out)
    case (Cons h hs)
    have "s \<in> set (add_header U R out (k, v))" using Cons.prems(2) assms(2) by (auto simp: add_header_def set_add_forms)
    then show ?case using grows[of "add_header U R out h" hs] Cons by auto
  qed simp
  have basic: "set out \<subseteq> set (add_basic R L out addr)"
    "BasicAuthHeader L addr \<noteq> [] \<Longrightarrow> s \<in> set (HeaderValueForms R (BasicAuthHeader L addr)) \<Longrightarrow> s \<in> set (add_basic R L out addr)" for out addr
    using assms(2) by (auto simp: add_basic_def set_add_forms Let_def)
  have "set (authHeaderSecrets U R L getenv (Endpoint cfg) (AuthHeaders cfg)) =
    set (add_basic R L (add_basic R L ?named (Endpoint cfg)) (adhocServerAddress getenv))" by (simp add: authHeaderSecrets_def Let_def)
  then show ?thesis using assms(1) named basic unfolding profiler_credential_def by auto blast+
qed

text \<open>Whatever Pyroscope logs about its uploads, the line that reaches the application's logger shows none of the
  credentials the profiler was configured with, however they are escaped.\<close>

theorem profiler_lines_never_leak:
  assumes "html_law H" "profiler_credential U R L getenv cfg s" "shortSecretLen \<le> length s" "clear_of_placeholder s"
  shows "\<not> contains ((decodeOnce H ^^ d) (scrub U H L (newPyroscopeSlogAdapter U R L getenv cfg) line)) s"
proof -
  have "s \<noteq> []" using assms(3) by (auto simp: shortSecretLen_def)
  from profiler_credential_listed[OF assms(2) this] show ?thesis
    unfolding scrub_def newPyroscopeSlogAdapter_def pyroscope_adapter.simps by (intro secrets_gone assms(1,3,4))
qed

definition demo_profiling :: profiling_config where
  "demo_profiling = \<lparr>ServiceName = ''a'', Endpoint = ''http://p'', AuthHeaders = [(''k'', ''hunter22'')], Resource = None\<rparr>"

definition demo_renderers :: renderers where
  "demo_renderers = \<lparr>strconv_Quote = (\<lambda>t. t), json_Marshal = (\<lambda>_. None)\<rparr>"

definition demo_urls :: "unit url_lib" where
  "demo_urls = \<lparr>url_parse = (\<lambda>_. None), url_string = (\<lambda>_. [])\<rparr>"

theorem profiler_lines_never_leak_witness:
  "scrub ascii_tables (\<lambda>t. t) demo_urls (newPyroscopeSlogAdapter ascii_tables demo_renderers demo_urls (\<lambda>_. []) demo_profiling) ''upload hunter22'' =
     ''upload [redacted]'' \<and> \<not> contains ''upload [redacted]'' ''hunter22''"
proof -
  have out: "scrub ascii_tables (\<lambda>t. t) demo_urls
      (newPyroscopeSlogAdapter ascii_tables demo_renderers demo_urls (\<lambda>_. []) demo_profiling) ''upload hunter22'' = ''upload [redacted]''"
    by code_simp
  have "''hunter22'' \<in> set (HeaderValueForms demo_renderers ''hunter22'')" by code_simp
  then have "profiler_credential ascii_tables demo_renderers demo_urls (\<lambda>_. []) demo_profiling ''hunter22''"
    unfolding profiler_credential_def by (auto simp: demo_profiling_def)
  moreover have "html_law (\<lambda>t. t)" by (simp add: html_law_def)
  moreover have "shortSecretLen \<le> length ''hunter22''" "clear_of_placeholder ''hunter22''" by code_simp+
  ultimately show ?thesis
    using profiler_lines_never_leak[of "\<lambda>t. t" ascii_tables demo_renderers demo_urls "\<lambda>_. []" demo_profiling "''hunter22''" 0 "''upload hunter22''"] out
    by simp
qed

end
