(* ===== verification/SdkInit.thy ===== *)
theory SdkInit
  imports Diagnostics Lifecycle Profiling Views ExportStats
begin

text \<open>
  Building the SDK (\<^verbatim>\<open>o11y.go\<close>: \<^verbatim>\<open>Init\<close> and its helpers, with \<^verbatim>\<open>InitTracer\<close>, \<^verbatim>\<open>InitMeter\<close> and \<^verbatim>\<open>InitLogger\<close>): the
  validation of the configuration, the baggage whitelist, the start of each pillar and what is undone when a later one fails.

  The OpenTelemetry, Prometheus and runtime packages are the fields of the record \<open>libs\<close>, which say whether a call
  fails and with which text.  What is started and shut down on the way is a list of events on handles; an exporter and
  the provider that owns it are one handle, as are the metrics server and its listener.
\<close>

section \<open>Validation\<close>

datatype init_error =
    Message string | UnknownEnvironment string
  | BucketNotFinite nat float64 | BucketNotPositive nat float64 | BucketsNotIncreasing nat float64 float64
  | OverrideWildcard string | OverrideBadName string | OverrideBuckets string init_error
  | BadSamplingRatio float64 | BaggageCollision "string list" "string list"

definition envAliases :: "(string \<times> string) list" where
  "envAliases = [(''production'', ''production''), (''prod'', ''production''), (''staging'', ''staging''), (''stage'', ''staging''),
     (''stg'', ''staging''), (''development'', ''development''), (''develop'', ''development''), (''dev'', ''development''),
     (''testing'', ''testing''), (''test'', ''testing'')]"

definition normalizeEnvironment :: "unicode \<Rightarrow> string \<Rightarrow> init_error + string" where
  "normalizeEnvironment U env0 =
     (let env = to_lower U (trim_space env0) in
      if env = [] then Inl (Message ''deployment environment is required (use WithEnvironment); accepted values: production, staging, development, testing'')
      else case map_of envAliases env of Some canonical \<Rightarrow> Inr canonical | None \<Rightarrow> Inl (UnknownEnvironment env))"

fun boundaries_loop :: "nat \<Rightarrow> float64 option \<Rightarrow> float64 list \<Rightarrow> init_error option" where
  "boundaries_loop i prev [] = None"
| "boundaries_loop i prev (b # bs) =
     (if IsNaN b \<or> IsInf b then Some (BucketNotFinite i b)
      else if float_le b (Finite 0) then Some (BucketNotPositive i b)
      else case prev of
        Some p \<Rightarrow> if float_le b p then Some (BucketsNotIncreasing i b p) else boundaries_loop (Suc i) (Some b) bs
      | None \<Rightarrow> boundaries_loop (Suc i) (Some b) bs)"

definition checkHistogramBoundaries :: "float64 list \<Rightarrow> init_error option" where
  "checkHistogramBoundaries bs =
     (if length bs = 0 then Some (Message ''histogram buckets must not be empty'') else boundaries_loop 0 None bs)"

definition validateHistogramBuckets :: "float64 list \<Rightarrow> init_error option" where
  "validateHistogramBuckets bs =
     (if length bs = 0
      then Some (Message ''histogram buckets must not be empty (use WithHistogramBuckets to override, or accept the default)'')
      else checkHistogramBoundaries bs)"

text \<open>\<^verbatim>\<open>^[A-Za-z][A-Za-z0-9_./-]{0,254}$\<close>.\<close>

definition instrumentNamePattern :: "string \<Rightarrow> bool" where
  "instrumentNamePattern n \<longleftrightarrow> n \<noteq> [] \<and> (is_lower (hd n) \<or> is_upper (hd n)) \<and> length (tl n) \<le> 254 \<and>
     list_all (\<lambda>c. is_alnum c \<or> c \<in> set ''_./-'') (tl n)"

definition override_problem :: "(string \<times> float64 list) list \<Rightarrow> string \<Rightarrow> init_error option" where
  "override_problem overrides n =
     (if trim_space n = [] then Some (Message ''histogram bucket override: instrument name must not be empty (WithInstrumentHistogramBuckets)'')
      else if index_any n ''*?'' \<noteq> None then Some (OverrideWildcard n)
      else if \<not> instrumentNamePattern n then Some (OverrideBadName n)
      else map_option (OverrideBuckets n)
        (checkHistogramBoundaries (case map_of overrides n of Some bs \<Rightarrow> bs | None \<Rightarrow> [])))"

fun first_error :: "'e option list \<Rightarrow> 'e option" where
  "first_error [] = None"
| "first_error (e # es) = (case e of Some x \<Rightarrow> Some x | None \<Rightarrow> first_error es)"

definition validateHistogramBucketOverrides :: "(string \<times> float64 list) list \<Rightarrow> init_error option" where
  "validateHistogramBucketOverrides overrides = first_error (map (override_problem overrides) (sort (keys overrides)))"

definition configureSampler :: "'s sdk_config \<Rightarrow> init_error + 's sdk_config" where
  "configureSampler cfg =
     (if \<not> traceEnabled cfg \<or> \<not> samplingRatioSet cfg then Inr cfg
      else if IsNaN (samplingRatio cfg) \<or> float_less (samplingRatio cfg) (Finite 0) \<or> float_less (Finite 1) (samplingRatio cfg)
      then Inl (BadSamplingRatio (samplingRatio cfg))
      else Inr (cfg\<lparr>sampler := Some (ParentBasedRatio (samplingRatio cfg))\<rparr>))"

section \<open>Baggage\<close>

definition collisionsBeyondCap :: "string list \<Rightarrow> string list \<Rightarrow> string list" where
  "collisionsBeyondCap appKeys collisions =
     (if length appKeys \<le> MaxBaggageAttributeKeys then []
      else let beyond = drop MaxBaggageAttributeKeys appKeys in filter (\<lambda>key. key \<in> set beyond) collisions)"

definition effective_keys :: "'s sdk_config \<Rightarrow> string list" where
  "effective_keys cfg = (if userBaggage cfg then [UserNameKey] else []) @ baggageKeys cfg"

definition configureBaggageWhitelist :: "'s sdk_config \<Rightarrow> key_value list \<Rightarrow> init_error + ('s sdk_config \<times> whitelist)" where
  "configureBaggageWhitelist cfg res =
     (let collisions = filter (\<lambda>key. key \<in> set (map fst res)) (effective_keys cfg) in
      if length collisions > 0
      then let cs = sort collisions in Inl (BaggageCollision cs (collisionsBeyondCap (baggageKeys cfg) cs))
      else let cfg' = (if length (baggageKeys cfg) > MaxBaggageAttributeKeys
                then (warn (DroppedBaggageKeys (drop MaxBaggageAttributeKeys (baggageKeys cfg))) cfg)
                       \<lparr>baggageKeys := take MaxBaggageAttributeKeys (baggageKeys cfg)\<rparr>
                else cfg)
           in Inr (cfg', NewWhitelist (effective_keys cfg')))"

definition appendBaggageWarnings :: "'s sdk_config \<Rightarrow> whitelist \<Rightarrow> 's sdk_config" where
  "appendBaggageWarnings cfg wl = (if Len wl > 0 \<and> \<not> traceEnabled cfg then warn BaggageWithoutTrace cfg else cfg)"

section \<open>Handles and packages\<close>

datatype pillar_handle = ProfilerHandle | TraceProvider | LogProvider | MetricsServer | MeterProvider

datatype handle_event = Open pillar_handle | Shut pillar_handle

text \<open>The options the OTLP exporters and the tracer provider are built with.\<close>

record exporter_options =
  WithEndpointURL :: string
  WithURLPath :: "string option"
  WithHeaders :: "(string \<times> string) list option"

record libs =
  resource_env :: env_resource
  resource_New :: "key_value list list \<Rightarrow> key_value list \<times> (string \<times> bool) option"
  resource_Merge :: "key_value list \<Rightarrow> key_value list \<Rightarrow> string + key_value list"
  otlptracehttp_New :: "exporter_options \<Rightarrow> string option"
  otlploghttp_New :: "exporter_options \<Rightarrow> string option"
  otlpmetrichttp_New :: "exporter_options \<Rightarrow> string option"
  otelprom_New :: "string option"
  NewConstMetric :: "(string \<times> string) list \<Rightarrow> string option"
  attr_text :: "attr_value \<Rightarrow> string"
  reg_Register :: "string option"
  runtimeStart :: "string option"
  net_Listen :: "string \<Rightarrow> string option"
  RegisterCallback :: "string option"
  ctx_err_before :: "string option"
  ctx_err_after :: "string option"
  profiler_active :: bool
  pyroscope_Start :: "pyroscope_config \<Rightarrow> string option"

definition optional_headers :: "(string \<times> string) list \<Rightarrow> (string \<times> string) list option" where
  "optional_headers hs = (if length hs > 0 then Some hs else None)"

text \<open>The path that is added to an endpoint which parses and has none.\<close>

definition default_path :: "'v url_path url_lib \<Rightarrow> string \<Rightarrow> string \<Rightarrow> string option" where
  "default_path L endpoint p = (case url_parse L endpoint of
     Some u \<Rightarrow> if Path (url_rest u) = [] then Some p else None | None \<Rightarrow> None)"

section \<open>The resource\<close>

definition buildResource :: "libs \<Rightarrow> 'c sdk_config \<Rightarrow> 'c sdk_config \<times> (init_error + key_value list \<times> key_value list)" where
  "buildResource lib cfg0 =
     (let (envAttrs, dropped, envWarnings) = EnvResourceAttributes (resource_env lib) (resourceAttrs cfg0);
          cfg = cfg0\<lparr>initWarnings := initWarnings cfg0 @ map EnvironmentWarning envWarnings\<rparr>;
          opts = [envAttrs] @ (if length (resourceAttrs cfg) > 0 then [resourceAttrs cfg] else []) @
            [[(''service.name'', StrV (serviceName cfg))], [(''service.version'', StrV (serviceVersion cfg))],
             [(''deployment.environment.name'', StrV (environment cfg))], [(''service.namespace'', StrV (namespace cfg))]]
      in case resource_New lib opts of
           (res, Some (msg, False)) \<Rightarrow> (cfg, Inl (Message (''failed to create resource: '' @ msg)))
         | (res, _) \<Rightarrow>
             let neutralized = NeutralizeEnvKeys dropped in
             if length neutralized > 0
             then (case resource_Merge lib res neutralized of
                     Inl msg \<Rightarrow> (cfg, Inl (Message (''failed to neutralize environment resource keys: '' @ msg)))
                   | Inr providerRes \<Rightarrow> (cfg, Inr (res, providerRes)))
             else (cfg, Inr (res, res)))"

section \<open>The pillars\<close>

definition InitTracer ::
  "libs \<Rightarrow> 'v url_path url_lib \<Rightarrow> string \<Rightarrow> (string \<times> string) list \<Rightarrow> recorder \<Rightarrow> handle_event list \<times> (init_error + recorder)" where
  "InitTracer lib L endpoint headers failures =
     (case otlptracehttp_New lib \<lparr>WithEndpointURL = endpoint, WithURLPath = default_path L endpoint ''/v1/traces'',
             WithHeaders = optional_headers headers\<rparr> of
        Some msg \<Rightarrow> ([], Inl (Message (''failed to create OTLP trace exporter: '' @ msg)))
      | None \<Rightarrow> ([Open TraceProvider], Inr (SpanExporter failures)))"

definition logEndpointURL :: "'v url_path url_lib \<Rightarrow> string \<Rightarrow> string option" where
  "logEndpointURL L endpoint = map_option (\<lambda>u.
     let p = trim_right_set (Path (url_rest u)) ''/''
     in url_string L (u\<lparr>url_rest := (url_rest u)\<lparr>Path := (if p = [] then ''/v1/logs'' else p)\<rparr>\<rparr>)) (url_parse L endpoint)"

definition InitLogger ::
  "libs \<Rightarrow> 'v url_path url_lib \<Rightarrow> string \<Rightarrow> (string \<times> string) list \<Rightarrow> recorder \<Rightarrow> handle_event list \<times> (init_error + recorder)" where
  "InitLogger lib L endpoint headers failures =
     (case logEndpointURL L endpoint of
        None \<Rightarrow> ([], Inl (Message ''invalid OTLP endpoint: it is not a valid URL''))
      | Some url \<Rightarrow>
          (case otlploghttp_New lib \<lparr>WithEndpointURL = url, WithURLPath = None, WithHeaders = optional_headers headers\<rparr> of
             Some msg \<Rightarrow> ([], Inl (Message (''failed to create OTLP log exporter: '' @ msg)))
           | None \<Rightarrow> ([Open LogProvider], Inr (LogExporter failures))))"

definition initPrometheus :: "libs \<Rightarrow> 'c sdk_config \<Rightarrow> key_value list \<Rightarrow> handle_event list \<times> (init_error + pillar_handle option)" where
  "initPrometheus lib cfg res =
     (case otelprom_New lib of
        Some msg \<Rightarrow> ([], Inl (Message (''metrics: create prometheus exporter: '' @ msg)))
      | None \<Rightarrow> (case NewConstMetric lib (targetInfoLabels (attr_text lib) (Some res)) of
          Some msg \<Rightarrow> ([], Inl (Message (''metrics: build target_info: '' @ msg)))
        | None \<Rightarrow> (case reg_Register lib of
            Some msg \<Rightarrow> ([], Inl (Message (''metrics: register target_info: '' @ msg)))
          | None \<Rightarrow> (case (if runtimeMetrics cfg then runtimeStart lib else None) of
              Some msg \<Rightarrow> ([Open MeterProvider, Shut MeterProvider], Inl (Message (''metrics: start runtime metrics: '' @ msg)))
            | None \<Rightarrow> (case net_Listen lib (metricsAddr cfg) of
                Some msg \<Rightarrow> ([Open MeterProvider, Shut MeterProvider], Inl (Message (''metrics: listen on '' @ metricsAddr cfg @ '': '' @ msg)))
              | None \<Rightarrow> ([Open MeterProvider, Open MetricsServer], Inr (Some MetricsServer)))))))"

definition initOTLP ::
  "libs \<Rightarrow> 'v url_path url_lib \<Rightarrow> 'c sdk_config \<Rightarrow> recorder \<Rightarrow> handle_event list \<times> (init_error + pillar_handle option) \<times> recorder" where
  "initOTLP lib L cfg failures =
     (case otlpmetrichttp_New lib \<lparr>WithEndpointURL = metricsOTLPEndpoint cfg,
             WithURLPath = default_path L (metricsOTLPEndpoint cfg) ''/v1/metrics'', WithHeaders = optional_headers (otlpHeaders cfg)\<rparr> of
        Some msg \<Rightarrow> ([], Inl (Message (''metrics: create OTLP exporter: '' @ msg)), failures)
      | None \<Rightarrow> (case (if runtimeMetrics cfg then runtimeStart lib else None) of
          Some msg \<Rightarrow> ([Open MeterProvider, Shut MeterProvider], Inl (Message (''metrics: start runtime metrics: '' @ msg)), MetricExporter failures)
        | None \<Rightarrow> ([Open MeterProvider], Inr None, MetricExporter failures)))"

text \<open>\<^verbatim>\<open>InitMeter\<close> for a configuration that carries its resource, as \<^verbatim>\<open>Init\<close> passes it.\<close>

definition InitMeter ::
  "libs \<Rightarrow> 'v url_path url_lib \<Rightarrow> 'c sdk_config \<Rightarrow> key_value list \<Rightarrow> recorder \<Rightarrow>
   handle_event list \<times> (init_error + pillar_handle option) \<times> recorder" where
  "InitMeter lib L cfg res failures =
     (let (evs, r, fs) = (if metricsOTLPEndpoint cfg \<noteq> [] then initOTLP lib L cfg failures
            else let (evs, r) = initPrometheus lib cfg res in (evs, r, failures))
      in case r of Inl e \<Rightarrow> (evs, Inl e, fs)
         | Inr closer \<Rightarrow>
             (case RegisterCallback lib of
                Some msg \<Rightarrow> (evs @ map Shut (closeAll [closer, Some MeterProvider]), Inl (Message (''metrics: register export failure counter: '' @ msg)), fs)
              | None \<Rightarrow> (evs, Inr closer, fs)))"

section \<open>Init\<close>

text \<open>Everything ahead of the first pillar.\<close>

definition prepare ::
  "host \<Rightarrow> 'v url_path redact_env \<Rightarrow> libs \<Rightarrow> 's sdk_config \<Rightarrow> init_error + ('s sdk_config \<times> whitelist \<times> key_value list \<times> key_value list)" where
  "prepare H env lib cfg0 =
     (let U = env_unicode env; L = env_url env in
      if serviceName cfg0 = [] then Inl (Message ''service name is required (use WithServiceName)'')
      else if serviceVersion cfg0 = [] then Inl (Message ''service version is required (use WithServiceVersion)'')
      else if namespace cfg0 = [] then Inl (Message ''service namespace is required (use WithServiceNamespace)'')
      else case normalizeEnvironment U (environment cfg0) of Inl e \<Rightarrow> Inl e
      | Inr normalized \<Rightarrow>
        let cfg1 = cfg0\<lparr>environment := normalized\<rparr> in
        case first_error [validateHistogramBuckets (histogramBuckets cfg1), validateHistogramBucketOverrides (histogramBucketOverrides cfg1)] of
          Some e \<Rightarrow> Inl e
        | None \<Rightarrow> (case configureSampler cfg1 of Inl e \<Rightarrow> Inl e
          | Inr cfg2 \<Rightarrow> (case buildResource lib cfg2 of
              (cfg3, Inl e) \<Rightarrow> Inl e
            | (cfg3, Inr (res, providerRes)) \<Rightarrow> (case configureBaggageWhitelist cfg3 res of Inl e \<Rightarrow> Inl e
              | Inr (cfg4, wl) \<Rightarrow>
                let cfg5 = appendBaggageWarnings cfg4 wl in
                case validateOTLPExporterEnv H U L cfg5 of Some m \<Rightarrow> Inl (Message m)
                | None \<Rightarrow>
                  let cfg6 = resolveOTLPEndpoints (Getenv H) U L cfg5 in
                  case first_error [validateConfiguredEndpoints U L cfg6, validateConfiguredHeaders U cfg6] of
                    Some m \<Rightarrow> Inl (Message m)
                  | None \<Rightarrow> Inr (cfg6, wl, res, providerRes)))))"

definition start_trace ::
  "libs \<Rightarrow> 'v url_path url_lib \<Rightarrow> 's sdk_config \<Rightarrow> recorder \<Rightarrow> handle_event list \<times> (init_error + pillar_handle option \<times> recorder)" where
  "start_trace lib L cfg failures =
     (if traceEnabled cfg
      then (case InitTracer lib L (endpoint_url (trace_endpoint (resolvedOTLP cfg))) (otlpHeaders cfg) failures of
              (evs, Inl e) \<Rightarrow> (evs, Inl e) | (evs, Inr fs) \<Rightarrow> (evs, Inr (Some TraceProvider, fs)))
      else ([], Inr (None, failures)))"

text \<open>The meter's handle and its closer; on failure what was started is closed.\<close>

definition start_metrics ::
  "libs \<Rightarrow> 'v url_path url_lib \<Rightarrow> 's sdk_config \<Rightarrow> key_value list \<Rightarrow> pillar_handle option \<Rightarrow> recorder \<Rightarrow>
   handle_event list \<times> (init_error + pillar_handle option \<times> pillar_handle option \<times> recorder)" where
  "start_metrics lib L cfg res tp failures =
     (if metricsEnabled cfg
      then (case InitMeter lib L cfg res failures of
              (evs, Inl e, fs) \<Rightarrow> (evs @ map Shut (closeAll [tp]), Inl e)
            | (evs, Inr closer, fs) \<Rightarrow> (evs, Inr (closer, Some MeterProvider, fs)))
      else ([], Inr (None, None, failures)))"

definition start_log ::
  "libs \<Rightarrow> 'v url_path url_lib \<Rightarrow> 's sdk_config \<Rightarrow> pillar_handle option list \<Rightarrow> recorder \<Rightarrow> handle_event list \<times> (init_error + pillar_handle option \<times> recorder)" where
  "start_log lib L cfg started failures =
     (if logEnabled cfg
      then (case InitLogger lib L (endpoint_url (log_endpoint (resolvedOTLP cfg))) (otlpHeaders cfg) failures of
              (evs, Inl e) \<Rightarrow> (evs @ map Shut (closeAll started), Inl e)
            | (evs, Inr fs) \<Rightarrow> (evs, Inr (Some LogProvider, fs)))
      else ([], Inr (None, failures)))"

definition profilingStartFailureText :: "host \<Rightarrow> 'v url_path redact_env \<Rightarrow> 's sdk_config \<Rightarrow> string \<Rightarrow> string" where
  "profilingStartFailureText H env cfg err =
     Secrets (env_unicode env) (env_html env) (InText (env_unicode env) (env_html env) (env_url env) err [profilingEndpoint cfg])
       (diagnosticSecrets H env cfg)"

datatype startup_line =
    Warning init_warning | BaggageConfigured "string list" | TraceDisabled | MetricsDisabled | LogDisabled
  | ProfilingIgnored string | ProfilingNoEndpoint | ProfilingFailed string string

fun start_error_text :: "start_error \<Rightarrow> string" where
  "start_error_text (ContextDone e) = e"
| "start_error_text ErrAlreadyStarted = ''profiling is already active in this process''"
| "start_error_text (PyroscopeFailed e) = e"

definition start_profiler ::
  "host \<Rightarrow> 'v url_path redact_env \<Rightarrow> libs \<Rightarrow> 's sdk_config \<Rightarrow> key_value list \<Rightarrow> pillar_handle option list \<Rightarrow>
   handle_event list \<times> startup_line list \<times> (init_error + pillar_handle option)" where
  "start_profiler H env lib cfg res started =
     (if profilingEnabled cfg \<and> profilingEndpoint cfg \<noteq> []
      then (case snd (Start (pyroscope_Start lib) (ctx_err_before lib) (ctx_err_after lib) (profiler_active lib)
                   \<lparr>ServiceName = serviceName cfg, Endpoint = profilingEndpoint cfg, AuthHeaders = profilingAuthHeaders cfg, Resource = Some res\<rparr>) of
              Some ErrAlreadyStarted \<Rightarrow>
                (map Shut (closeAll started), [], Inl (Message (start_error_text ErrAlreadyStarted)))
            | Some err \<Rightarrow>
                ([], [ProfilingFailed (URL (env_unicode env) (env_url env) (profilingEndpoint cfg))
                        (profilingStartFailureText H env cfg (start_error_text err))], Inr None)
            | None \<Rightarrow> ([Open ProfilerHandle], [], Inr (Some ProfilerHandle)))
      else ([], [], Inr None))"

definition pillar_lines :: "'v url_path redact_env \<Rightarrow> 's sdk_config \<Rightarrow> whitelist \<Rightarrow> startup_line list" where
  "pillar_lines env cfg wl =
     map Warning (initWarnings cfg) @
     (if Len wl > 0 then [BaggageConfigured (Keys wl)] else []) @
     (if \<not> traceEnabled cfg then [TraceDisabled] else []) @
     (if \<not> metricsEnabled cfg then [MetricsDisabled] else []) @
     (if \<not> logEnabled cfg then [LogDisabled] else []) @
     (if \<not> profilingEnabled cfg \<and> profilingEndpoint cfg \<noteq> []
      then [ProfilingIgnored (URL (env_unicode env) (env_url env) (profilingEndpoint cfg))]
      else if profilingEnabled cfg \<and> profilingEndpoint cfg = [] then [ProfilingNoEndpoint] else [])"

datatype public_tracer = NoopTracer | SdkTracer | PyroscopeTracer
datatype public_meter = NoopMeter | SdkMeter | GuardedMeter

record sdk =
  sdk_toggles :: "bool \<times> bool \<times> bool \<times> bool"
  sdk_tracer :: public_tracer
  sdk_meter :: public_meter
  sdk_shutdowns :: "pillar_handle list"
  sdk_flushSignals :: "pillar_handle list"
  sdk_flushMetrics :: "pillar_handle option"
  sdk_errorHandler :: otelErrorHandler
  sdk_endpoints :: "string list"
  sdk_secrets :: "string list"
  sdk_failures :: recorder
  startup_lines :: "startup_line list"

definition assemble ::
  "host \<Rightarrow> 'v url_path redact_env \<Rightarrow> 's sdk_config \<Rightarrow> startup_line list \<Rightarrow> pillar_handle option \<Rightarrow> pillar_handle option \<Rightarrow> pillar_handle option \<Rightarrow>
   pillar_handle option \<Rightarrow> pillar_handle option \<Rightarrow> recorder \<Rightarrow> sdk" where
  "assemble H env cfg lines profiler tp lp metricsCloser mp failures =
     \<lparr>sdk_toggles = (traceEnabled cfg, metricsEnabled cfg, logEnabled cfg, profiler \<noteq> None),
      sdk_tracer = (if tp = None then NoopTracer else if profiler \<noteq> None then PyroscopeTracer else SdkTracer),
      sdk_meter = (if mp = None then NoopMeter else if metricsOTLPEndpoint cfg = [] then GuardedMeter else SdkMeter),
      sdk_shutdowns = shutdownSequence profiler tp lp metricsCloser mp,
      sdk_flushSignals = nonNil [tp, lp],
      sdk_flushMetrics = (if mp \<noteq> None \<and> metricsOTLPEndpoint cfg \<noteq> [] then mp else None),
      sdk_errorHandler = (newOTelErrorHandler (diagnosticEndpoints cfg))\<lparr>handler_secrets := diagnosticSecrets H env cfg\<rparr>,
      sdk_endpoints = diagnosticEndpoints cfg, sdk_secrets = diagnosticSecrets H env cfg, sdk_failures = failures,
      startup_lines = lines\<rparr>"

definition Init ::
  "host \<Rightarrow> 'v url_path redact_env \<Rightarrow> libs \<Rightarrow> ('s sdk_config \<Rightarrow> 's sdk_config) option list \<Rightarrow> handle_event list \<times> (init_error + sdk)" where
  "Init H env lib opts =
     (let L = env_url env in
      case prepare H env lib (apply_options opts (defaultConfig (Getenv H))) of
        Inl e \<Rightarrow> ([], Inl e)
      | Inr (cfg, wl, res, providerRes) \<Rightarrow>
          (case start_trace lib L cfg new_recorder of
             (e1, Inl e) \<Rightarrow> (e1, Inl e)
           | (e1, Inr (tp, f1)) \<Rightarrow>
               (case start_metrics lib L cfg res tp f1 of
                  (e2, Inl e) \<Rightarrow> (e1 @ e2, Inl e)
                | (e2, Inr (metricsCloser, mp, f2)) \<Rightarrow>
                    (case start_log lib L cfg [metricsCloser, mp, tp] f2 of
                       (e3, Inl e) \<Rightarrow> (e1 @ e2 @ e3, Inl e)
                     | (e3, Inr (lp, f3)) \<Rightarrow>
                         (case start_profiler H env lib cfg res [metricsCloser, mp, lp, tp] of
                            (e4, lines, Inl e) \<Rightarrow> (e1 @ e2 @ e3 @ e4, Inl e)
                          | (e4, lines, Inr profiler) \<Rightarrow>
                              (e1 @ e2 @ e3 @ e4,
                               Inr (assemble H env cfg (pillar_lines env cfg wl @ lines) profiler tp lp metricsCloser mp f3)))))))"

text \<open>\<^verbatim>\<open>leveledHandler\<close>, which guards the bridge by the configured level.\<close>

record 'h leveledHandler =
  lvl_inner :: 'h
  lvl_min :: int

definition leveled_Enabled :: "'h leveledHandler \<Rightarrow> int \<Rightarrow> bool" where
  "leveled_Enabled h l \<longleftrightarrow> l \<ge> lvl_min h"

definition leveled_WithAttrs :: "('h \<Rightarrow> 'a \<Rightarrow> 'h) \<Rightarrow> 'h leveledHandler \<Rightarrow> 'a \<Rightarrow> 'h leveledHandler" where
  "leveled_WithAttrs f h attrs = \<lparr>lvl_inner = f (lvl_inner h) attrs, lvl_min = lvl_min h\<rparr>"

definition leveled_WithGroup :: "('h \<Rightarrow> string \<Rightarrow> 'h) \<Rightarrow> 'h leveledHandler \<Rightarrow> string \<Rightarrow> 'h leveledHandler" where
  "leveled_WithGroup f h n = \<lparr>lvl_inner = f (lvl_inner h) n, lvl_min = lvl_min h\<rparr>"

section \<open>Nothing that was started is lost\<close>

definition open_handles :: "handle_event list \<Rightarrow> pillar_handle list" where
  "open_handles evs = foldl (\<lambda>hs ev. case ev of Open h \<Rightarrow> hs @ [h] | Shut h \<Rightarrow> remove1 h hs) [] evs"

lemma collect_some:
  "foldl (\<lambda>ran fn. case fn of None \<Rightarrow> ran | Some f \<Rightarrow> ran @ [f]) out xs = out @ List.map_filter (\<lambda>x. x) xs"
  by (induction xs arbitrary: out) (auto simp: List.map_filter_simps split: option.splits)

lemma closers_simps:
  "closeAll [] = []" "closeAll (None # xs) = closeAll xs" "closeAll (Some x # xs) = x # closeAll xs"
  "nonNil [] = []" "nonNil (None # ys) = nonNil ys" "nonNil (Some y # ys) = y # nonNil ys"
  by (simp_all add: closeAll_def nonNil_def collect_some List.map_filter_simps)

lemma start_trace_cases:
  "(\<exists>e. start_trace lib L cfg fs = ([], Inl e)) \<or>
   (\<exists>tp fs'. start_trace lib L cfg fs = (map Open (closeAll [tp]), Inr (tp, fs')) \<and> tp \<in> {None, Some TraceProvider})"
  by (auto simp: start_trace_def InitTracer_def closers_simps split: option.splits)

lemma InitMeter_cases:
  "(\<exists>e fs'. InitMeter lib L cfg res fs = ([], Inl e, fs')) \<or>
   (\<exists>e fs'. InitMeter lib L cfg res fs = ([Open MeterProvider, Shut MeterProvider], Inl e, fs')) \<or>
   (\<exists>e fs'. InitMeter lib L cfg res fs = ([Open MeterProvider, Open MetricsServer, Shut MetricsServer, Shut MeterProvider], Inl e, fs')) \<or>
   (\<exists>closer fs'. InitMeter lib L cfg res fs = (Open MeterProvider # map Open (closeAll [closer]), Inr closer, fs') \<and>
      closer \<in> {None, Some MetricsServer})"
  by (auto simp: InitMeter_def initOTLP_def initPrometheus_def closers_simps split: option.splits if_splits)

lemma start_metrics_cases:
  "(\<exists>e. start_metrics lib L cfg res tp fs = (map Shut (closeAll [tp]), Inl e)) \<or>
   (\<exists>e. start_metrics lib L cfg res tp fs = ([Open MeterProvider, Shut MeterProvider] @ map Shut (closeAll [tp]), Inl e)) \<or>
   (\<exists>e. start_metrics lib L cfg res tp fs =
      ([Open MeterProvider, Open MetricsServer, Shut MetricsServer, Shut MeterProvider] @ map Shut (closeAll [tp]), Inl e)) \<or>
   (\<exists>closer mp fs'. start_metrics lib L cfg res tp fs = (map Open (closeAll [mp, closer]), Inr (closer, mp, fs')) \<and>
      (mp, closer) \<in> {(None, None), (Some MeterProvider, None), (Some MeterProvider, Some MetricsServer)})"
proof (cases "metricsEnabled cfg")
  case True
  then show ?thesis using InitMeter_cases[of lib L cfg res fs]
    by (elim disjE exE conjE) (auto simp: start_metrics_def closers_simps)
qed (simp add: start_metrics_def closers_simps)

lemma start_log_cases:
  "(\<exists>e. start_log lib L cfg started fs = (map Shut (closeAll started), Inl e)) \<or>
   (\<exists>lp fs'. start_log lib L cfg started fs = (map Open (closeAll [lp]), Inr (lp, fs')) \<and> lp \<in> {None, Some LogProvider})"
  by (auto simp: start_log_def InitLogger_def closers_simps split: option.splits)

lemma start_profiler_cases:
  "(\<exists>e. start_profiler H env lib cfg res started = (map Shut (closeAll started), [], Inl e)) \<or>
   (\<exists>p ls. start_profiler H env lib cfg res started = (map Open (closeAll [p]), ls, Inr p) \<and> p \<in> {None, Some ProfilerHandle})"
  by (auto simp: start_profiler_def closers_simps split: option.splits start_error.splits)

lemmas init_defs = open_handles_def closers_simps assemble_def shutdownSequence_def

text \<open>C6. \<^verbatim>\<open>Init\<close> never loses a handle: if it fails, at whatever point, everything it had started has been shut down again
  and each thing once; if it succeeds, nothing has been shut down and the shutdown sequence of the SDK it
  returns names exactly what is running.\<close>

theorem init_leaves_no_handle_behind:
  "case Init H env lib opts of
     (evs, Inl e) \<Rightarrow> open_handles evs = [] \<and> distinct evs
   | (evs, Inr s) \<Rightarrow> mset (open_handles evs) = mset (sdk_shutdowns s) \<and> distinct (sdk_shutdowns s) \<and> (\<forall>h. Shut h \<notin> set evs)"
proof (cases "prepare H env lib (apply_options opts (defaultConfig (Getenv H)))")
  case (Inl e)
  then show ?thesis by (simp add: Init_def init_defs)
next
  case (Inr x)
  obtain cfg wl res pr where x: "x = (cfg, wl, res, pr)" by (cases x)
  let ?L = "env_url env"
  from start_trace_cases[of lib ?L cfg new_recorder] show ?thesis
  proof (elim disjE exE conjE)
    fix e assume "start_trace lib ?L cfg new_recorder = ([], Inl e)"
    then show ?thesis by (simp add: Init_def Inr x init_defs)
  next
    fix tp f1 assume t: "start_trace lib ?L cfg new_recorder = (map Open (closeAll [tp]), Inr (tp, f1))" "tp \<in> {None, Some TraceProvider}"
    from start_metrics_cases[of lib ?L cfg res tp f1] show ?thesis
    proof (elim disjE exE conjE)
      fix closer mp f2 assume m: "start_metrics lib ?L cfg res tp f1 = (map Open (closeAll [mp, closer]), Inr (closer, mp, f2))"
        "(mp, closer) \<in> {(None, None), (Some MeterProvider, None), (Some MeterProvider, Some MetricsServer)}"
      from start_log_cases[of lib ?L cfg "[closer, mp, tp]" f2] show ?thesis
      proof (elim disjE exE conjE)
        fix lp f3 assume l: "start_log lib ?L cfg [closer, mp, tp] f2 = (map Open (closeAll [lp]), Inr (lp, f3))" "lp \<in> {None, Some LogProvider}"
        from start_profiler_cases[of H env lib cfg res "[closer, mp, lp, tp]"] show ?thesis
          using t(2) m(2) l(2) by (elim disjE exE conjE) (auto simp: Init_def Inr x t(1) m(1) l(1) init_defs)
      qed (use t(2) m(2) in \<open>auto simp: Init_def Inr x t(1) m(1) init_defs\<close>)
    qed (use t(2) in \<open>auto simp: Init_def Inr x t(1) init_defs\<close>)
  qed
qed

section \<open>What is accepted\<close>

definition usable_buckets :: "float64 list \<Rightarrow> bool" where
  "usable_buckets bs \<longleftrightarrow> (\<exists>xs. bs = map Finite xs \<and> xs \<noteq> [] \<and> sorted_wrt (<) xs \<and> list_all (\<lambda>x. 0 < x) xs)"

lemma boundaries_loop_None:
  assumes "boundaries_loop i prev bs = None"
  shows "\<exists>xs. bs = map Finite xs \<and> sorted_wrt (<) xs \<and> list_all (\<lambda>x. 0 < x) xs \<and> (\<forall>p. prev = Some (Finite p) \<longrightarrow> (\<forall>x \<in> set xs. p < x))"
  using assms
proof (induction bs arbitrary: i prev)
  case (Cons b bs)
  obtain y where b: "b = Finite y" using Cons.prems by (cases b) (auto simp: IsNaN_def IsInf_def)
  have y: "0 < y" using Cons.prems by (auto simp: b IsNaN_def IsInf_def float_le_def split: if_splits)
  have prev: "p < y" if "prev = Some (Finite p)" for p
    using Cons.prems that y by (auto simp: b IsNaN_def IsInf_def float_le_def split: if_splits)
  have rest: "boundaries_loop (Suc i) (Some b) bs = None"
    using Cons.prems by (auto split: if_splits option.splits)
  from Cons.IH[OF this] obtain xs where xs: "bs = map Finite xs" "sorted_wrt (<) xs" "list_all (\<lambda>x. 0 < x) xs" "\<forall>x \<in> set xs. y < x"
    by (auto simp: b)
  show ?case
  proof (intro exI conjI)
    show "b # bs = map Finite (y # xs)" "sorted_wrt (<) (y # xs)" "list_all (\<lambda>x. 0 < x) (y # xs)" using b xs y by simp_all
    show "\<forall>p. prev = Some (Finite p) \<longrightarrow> (\<forall>x \<in> set (y # xs). p < x)" using prev xs(4) by fastforce
  qed
qed simp

lemma checkHistogramBoundaries_None: "checkHistogramBoundaries bs = None \<Longrightarrow> usable_buckets bs"
  unfolding usable_buckets_def checkHistogramBoundaries_def
  by (auto split: if_splits dest!: boundaries_loop_None)

lemma first_error_None: "first_error es = None \<longleftrightarrow> (\<forall>e \<in> set es. e = None)"
  by (induction es) (auto split: option.splits)

lemma overrides_None:
  assumes "validateHistogramBucketOverrides overrides = None" "(n, bs) \<in> set overrides" "distinct (keys overrides)"
  shows "instrumentNamePattern n \<and> usable_buckets bs"
proof -
  have "n \<in> set (keys overrides)" using assms(2) by force
  then have "override_problem overrides n = None" using assms(1) by (auto simp: validateHistogramBucketOverrides_def first_error_None)
  moreover have "map_of overrides n = Some bs" using assms(2,3) by (simp add: map_of_is_SomeI)
  ultimately show ?thesis by (auto simp: override_problem_def checkHistogramBoundaries_None split: if_splits)
qed

lemma normalizeEnvironment_canonical:
  "normalizeEnvironment U env = Inr e \<Longrightarrow> e \<in> set [''production'', ''staging'', ''development'', ''testing'']"
  by (auto simp: normalizeEnvironment_def envAliases_def Let_def split: if_splits option.splits)

lemma configureSampler_valid:
  "configureSampler cfg = Inr cfg' \<Longrightarrow> traceEnabled cfg \<Longrightarrow> samplingRatioSet cfg \<Longrightarrow>
   \<exists>r. samplingRatio cfg = Finite r \<and> 0 \<le> r \<and> r \<le> 1 \<and> sampler cfg' = Some (ParentBasedRatio (Finite r))"
  by (cases "samplingRatio cfg") (auto simp: configureSampler_def IsNaN_def split: if_splits)

lemma whitelist_bounds:
  assumes "configureBaggageWhitelist cfg res = Inr (cfg', wl)"
  shows "length wl \<le> 9 \<and> distinct (Keys wl) \<and> set (Keys wl) \<subseteq> set (effective_keys cfg) \<and> set (Keys wl) \<inter> set (map fst res) = {}"
proof -
  have wl: "wl = NewWhitelist (effective_keys cfg')" and none: "filter (\<lambda>key. key \<in> set (map fst res)) (effective_keys cfg) = []"
    using assms by (auto simp: configureBaggageWhitelist_def Let_def split: if_splits)
  have keys': "set (effective_keys cfg') \<subseteq> set (effective_keys cfg)" "length (effective_keys cfg') \<le> 9"
    using assms by (auto simp: configureBaggageWhitelist_def effective_keys_def MaxBaggageAttributeKeys_def warn_def Let_def
        split: if_splits dest: in_set_takeD)
  note spec = NewWhitelist_spec[of "effective_keys cfg'"]
  have "length wl = card (set (Keys wl))" using spec by (metis wl Keys_def distinct_card length_map)
  also have "\<dots> \<le> length (effective_keys cfg')" using spec by (simp add: wl card_length)
  finally show ?thesis using spec keys' none by (auto simp: wl filter_empty_conv)
qed

lemma configureSampler_frame: "configureSampler c = Inr c' \<Longrightarrow> environment c' = environment c"
  by (auto simp: configureSampler_def split: if_splits)

lemma buildResource_frame:
  "buildResource lib c = (c', r) \<Longrightarrow> environment c' = environment c \<and> sampler c' = sampler c"
  by (auto simp: buildResource_def Let_def split: prod.splits option.splits sum.splits bool.splits if_splits)

lemma whitelist_frame:
  "configureBaggageWhitelist c res = Inr (c', wl) \<Longrightarrow>
   environment (appendBaggageWarnings c' wl) = environment c \<and> sampler (appendBaggageWarnings c' wl) = sampler c"
  by (auto simp: configureBaggageWhitelist_def appendBaggageWarnings_def warn_def Let_def split: if_splits)

lemma prepareE:
  assumes "prepare H env lib c = Inr (cfg, wl, res, pr)"
  obtains normalized c2 c3 c4 where
    "serviceName c \<noteq> []" "serviceVersion c \<noteq> []" "namespace c \<noteq> []"
    "normalizeEnvironment (env_unicode env) (environment c) = Inr normalized"
    "validateHistogramBuckets (histogramBuckets c) = None" "validateHistogramBucketOverrides (histogramBucketOverrides c) = None"
    "configureSampler (c\<lparr>environment := normalized\<rparr>) = Inr c2" "buildResource lib c2 = (c3, Inr (res, pr))"
    "configureBaggageWhitelist c3 res = Inr (c4, wl)"
    "validateOTLPExporterEnv H (env_unicode env) (env_url env) (appendBaggageWarnings c4 wl) = None"
    "cfg = resolveOTLPEndpoints (Getenv H) (env_unicode env) (env_url env) (appendBaggageWarnings c4 wl)"
    "validateConfiguredEndpoints (env_unicode env) (env_url env) cfg = None" "validateConfiguredHeaders (env_unicode env) cfg = None"
  using assms
  by (auto simp: prepare_def Let_def split: if_splits sum.splits option.splits prod.splits)

text \<open>What \<^verbatim>\<open>Init\<close> accepts is sound: the identity is complete and the environment one of the four canonical names;
  every histogram has finite, positive, strictly increasing boundaries under a legal instrument name; a sampling
  ratio lies between 0 and 1; and the baggage whitelist is bounded, free of duplicates and disjoint from the
  resource.\<close>

theorem accepted_configuration_is_sound:
  assumes "prepare H env lib c = Inr (cfg, wl, res, pr)" "config_ok api c"
  shows "serviceName c \<noteq> [] \<and> serviceVersion c \<noteq> [] \<and> namespace c \<noteq> [] \<and>
    environment cfg \<in> set [''production'', ''staging'', ''development'', ''testing''] \<and>
    usable_buckets (histogramBuckets c) \<and>
    (\<forall>(n, bs) \<in> set (histogramBucketOverrides c). instrumentNamePattern n \<and> usable_buckets bs) \<and>
    (traceEnabled c \<and> samplingRatioSet c \<longrightarrow> (\<exists>r. 0 \<le> r \<and> r \<le> 1 \<and> sampler cfg = Some (ParentBasedRatio (Finite r)))) \<and>
    length wl \<le> 9 \<and> distinct (Keys wl) \<and> set (Keys wl) \<inter> set (map fst res) = {}"
proof -
  obtain normalized c2 c3 c4 where p: "serviceName c \<noteq> []" "serviceVersion c \<noteq> []" "namespace c \<noteq> []"
    "normalizeEnvironment (env_unicode env) (environment c) = Inr normalized"
    "validateHistogramBuckets (histogramBuckets c) = None" "validateHistogramBucketOverrides (histogramBucketOverrides c) = None"
    "configureSampler (c\<lparr>environment := normalized\<rparr>) = Inr c2" "buildResource lib c2 = (c3, Inr (res, pr))"
    "configureBaggageWhitelist c3 res = Inr (c4, wl)"
    "cfg = resolveOTLPEndpoints (Getenv H) (env_unicode env) (env_url env) (appendBaggageWarnings c4 wl)"
    by (rule prepareE[OF assms(1)])
  have same: "environment cfg = normalized" "sampler cfg = sampler c2"
    using configureSampler_frame[OF p(7)] buildResource_frame[OF p(8)] whitelist_frame[OF p(9)]
    by (simp_all add: p(10) resolveOTLPEndpoints_def)
  have "usable_buckets (histogramBuckets c)"
    using p(5) by (auto simp: validateHistogramBuckets_def checkHistogramBoundaries_None split: if_splits)
  moreover have "\<forall>(n, bs) \<in> set (histogramBucketOverrides c). instrumentNamePattern n \<and> usable_buckets bs"
    using overrides_None[OF p(6)] assms(2) by (auto simp: config_ok_def maps_ok_def)
  moreover have "\<exists>r. 0 \<le> r \<and> r \<le> 1 \<and> sampler cfg = Some (ParentBasedRatio (Finite r))" if "traceEnabled c" "samplingRatioSet c"
    using configureSampler_valid[OF p(7)] that by (auto simp: same)
  ultimately show ?thesis
    using p(1-3) same(1) normalizeEnvironment_canonical[OF p(4)] whitelist_bounds[OF p(9)] by blast
qed

definition demo_libs :: libs where
  "demo_libs = \<lparr>resource_env = EnvNil, resource_New = (\<lambda>opts. (concat opts, None)), resource_Merge = (\<lambda>a b. Inr (a @ b)),
     otlptracehttp_New = (\<lambda>_. None), otlploghttp_New = (\<lambda>_. Some ''down''), otlpmetrichttp_New = (\<lambda>_. None), otelprom_New = None,
     NewConstMetric = (\<lambda>_. None), attr_text = AsString, reg_Register = None, runtimeStart = None, net_Listen = (\<lambda>_. None),
     RegisterCallback = None, ctx_err_before = None, ctx_err_after = None, profiler_active = False, pyroscope_Start = (\<lambda>_. None)\<rparr>"

definition demo_redact :: "unit url_path redact_env" where
  "demo_redact = \<lparr>env_unicode = ascii_tables, env_html = (\<lambda>t. t), env_url = demo_url_lib,
     env_render = \<lparr>strconv_Quote = (\<lambda>t. t), json_Marshal = (\<lambda>_. None)\<rparr>, env_fold = (=), env_sort = (\<lambda>us. us)\<rparr>"

definition demo_start :: "unit sdk_config" where
  "demo_start = apply_options [Some (WithServiceName ''a''), Some (WithServiceVersion ''1''), Some (WithServiceNamespace ''n''),
     Some (WithEnvironment '' Prod '')] (defaultConfig (\<lambda>_. []))"

theorem accepted_configuration_is_sound_witness:
  "\<exists>cfg wl res pr. prepare demo_host demo_redact demo_libs demo_start = Inr (cfg, wl, res, pr) \<and> environment cfg = ''production'' \<and>
     usable_buckets (histogramBuckets demo_start)"
proof -
  have ok: "config_ok demo_api demo_start"
    unfolding demo_start_def
    by (rule options_ok) (simp add: sdk_option.intros)
  have "case prepare demo_host demo_redact demo_libs demo_start of Inl e \<Rightarrow> False | Inr x \<Rightarrow> environment (fst x) = ''production''"
    by code_simp
  then obtain cfg wl res pr where p: "prepare demo_host demo_redact demo_libs demo_start = Inr (cfg, wl, res, pr)" "environment cfg = ''production''"
    by (cases "prepare demo_host demo_redact demo_libs demo_start") (auto split: prod.splits)
  then show ?thesis using accepted_configuration_is_sound[OF p(1) ok] by blast
qed

end
