(* ===== verification/Facade.thy ===== *)
theory Facade
  imports SdkInit Cassandra Baggage Web Log
begin

text \<open>
  The edges of the library that put its parts together: the OTLP metrics exporter chain and the resource of a stand-alone meter provider (\<^verbatim>\<open>internal/metrics\<close>:
  \<^verbatim>\<open>metrics.go\<close>, \<^verbatim>\<open>resourceexporter.go\<close>, \<^verbatim>\<open>targetinfo.go\<close>), the public helpers of the root package (\<^verbatim>\<open>attributes.go\<close>, \<^verbatim>\<open>rpcviews.go\<close>), the exported view constructors of the
  integrations, the options of \<^verbatim>\<open>http\<close>, the logger of \<^verbatim>\<open>Init\<close>, and the batch exports of \<^verbatim>\<open>cassandra\<close>.
\<close>

section \<open>The resource of a meter provider\<close>

datatype resource_option = WithAttributes "key_value list" | WithTelemetrySDK | WithProcessPID | WithProcessExecutableName
  | WithProcessRuntimeName | WithProcessRuntimeVersion | WithHost

record resource_config =
  rc_Resource :: "key_value list option"
  rc_ServiceName :: string
  rc_ServiceVersion :: string
  rc_Environment :: string
  rc_Namespace :: string
  rc_Logger :: bool

definition resource_options :: "key_value list \<Rightarrow> resource_config \<Rightarrow> resource_option list" where
  "resource_options envAttrs conf =
     [WithAttributes envAttrs, WithTelemetrySDK, WithProcessPID, WithProcessExecutableName, WithProcessRuntimeName, WithProcessRuntimeVersion, WithHost,
      WithAttributes [(''service.name'', StrV (rc_ServiceName conf)), (''service.namespace'', StrV (rc_Namespace conf))]] @
     (if rc_ServiceVersion conf \<noteq> [] then [WithAttributes [(''service.version'', StrV (rc_ServiceVersion conf))]] else []) @
     (if rc_Environment conf \<noteq> [] then [WithAttributes [(''deployment.environment.name'', StrV (rc_Environment conf))]] else [])"

text \<open>\<open>new\<close> is \<^verbatim>\<open>resource.New\<close>: a resource, and an error which may only say that the resource is partial.  The warnings are those that are logged.\<close>

definition resolveResource ::
  "env_resource \<Rightarrow> (resource_option list \<Rightarrow> key_value list \<times> (string \<times> bool) option) \<Rightarrow> resource_config \<Rightarrow> env_warning list \<times> (string + key_value list)" where
  "resolveResource env new conf = (case rc_Resource conf of
     Some res \<Rightarrow> ([], Inr res)
   | None \<Rightarrow>
     if rc_Namespace conf = [] then ([], Inl ''metrics: Namespace is required'')
     else let (envAttrs, _, envWarnings) = EnvResourceAttributes env [];
              logged = (if rc_Logger conf then envWarnings else [])
       in case new (resource_options envAttrs conf) of
            (_, Some (msg, False)) \<Rightarrow> (logged, Inl (''metrics: create resource: '' @ msg))
          | (res, _) \<Rightarrow> (logged, Inr res))"

datatype ('r, 'v) provider_option = WithReader 'r | WithResource "key_value list" | WithView "'v list" | WithCardinalityLimit int

definition meterProviderOptions :: "'r \<Rightarrow> key_value list \<Rightarrow> 'v list \<Rightarrow> 'f metrics_config \<Rightarrow> ('r, 'v) provider_option list" where
  "meterProviderOptions reader res vs conf =
     [WithReader reader, WithResource res, WithView vs,
      WithCardinalityLimit (cardinalityLimitBudget (MaxUniqueRoutes conf) (MaxUniqueCollections conf) (CardinalityLimit conf))]"

section \<open>The exporter chain\<close>

text \<open>A batch is its resource and its metrics.  The chain, outermost first: the resource is replaced, the metrics are capped by one limiter, a failed upload is
  counted.  \<open>wire\<close> is the upload.\<close>

definition guarded_Export :: "('r \<times> 'm \<Rightarrow> 'x) \<Rightarrow> 'r \<Rightarrow> 'r \<times> 'm \<Rightarrow> 'x" where
  "guarded_Export inner res rm = inner (res, snd rm)"

record export_chain =
  chain_limiter :: limiter
  chain_failures :: "recorder option"

definition new_chain :: "'f metrics_config \<Rightarrow> recorder option \<Rightarrow> export_chain" where
  "new_chain conf failures = \<lparr>chain_limiter = NewLimiter (otlpCapRules conf), chain_failures = map_option MetricExporter failures\<rparr>"

definition counted_Export :: "('b \<Rightarrow> 'e option) \<Rightarrow> recorder option \<Rightarrow> 'b \<Rightarrow> 'e option \<times> recorder option" where
  "counted_Export wire failures batch = (case failures of None \<Rightarrow> (wire batch, None)
     | Some r \<Rightarrow> (case ExportMetrics wire r batch of (err, r') \<Rightarrow> (err, Some r')))"

text \<open>One export: the error, the chain afterwards, and the batch that was uploaded.\<close>

definition chain_Export ::
  "(key_value list \<Rightarrow> key_value list) \<Rightarrow> (key_value list \<times> ('i::{plus, ord}, 'f::{plus, ord}) scope_metrics list \<Rightarrow> 'e option) \<Rightarrow> key_value list \<Rightarrow> export_chain \<Rightarrow>
   key_value list \<times> ('i, 'f) scope_metrics list \<Rightarrow> 'e option \<times> export_chain \<times> (key_value list \<times> ('i, 'f) scope_metrics list)" where
  "chain_Export ns wire res ch rm = guarded_Export (\<lambda>(r, scopes).
     let (scopes', l') = (if rules (chain_limiter ch) \<noteq> [] then Rewrite ns (chain_limiter ch) scopes else (scopes, chain_limiter ch));
         (err, failures) = counted_Export wire (chain_failures ch) (r, scopes')
     in (err, \<lparr>chain_limiter = l', chain_failures = failures\<rparr>, (r, scopes'))) res rm"

text \<open>A process: exports one after the other, each with what the upload does that time.  The uploaded batches and the errors, in order.\<close>

fun chain_run ::
  "(key_value list \<Rightarrow> key_value list) \<Rightarrow> key_value list \<Rightarrow> export_chain \<Rightarrow>
   ((key_value list \<times> ('i::{plus, ord}, 'f::{plus, ord}) scope_metrics list \<Rightarrow> 'e option) \<times> (key_value list \<times> ('i, 'f) scope_metrics list)) list \<Rightarrow>
   export_chain \<times> (key_value list \<times> ('i, 'f) scope_metrics list) list \<times> 'e option list" where
  "chain_run ns res ch [] = (ch, [], [])"
| "chain_run ns res ch ((wire, rm) # exports) =
     (let (err, ch1, sent) = chain_Export ns wire res ch rm; (ch2, sents, errs) = chain_run ns res ch1 exports
      in (ch2, sent # sents, err # errs))"

section \<open>The target_info collector\<close>

record target_collector =
  tc_name :: string
  tc_help :: string
  tc_labels :: "(string \<times> string) list"

text \<open>\<open>const\<close> is \<^verbatim>\<open>prometheus.NewConstMetric\<close> for the given labels.\<close>

definition newTargetInfoCollector :: "(attr_value \<Rightarrow> string) \<Rightarrow> ((string \<times> string) list \<Rightarrow> string option) \<Rightarrow> key_value list option \<Rightarrow> string + target_collector" where
  "newTargetInfoCollector str const res =
     (let labels = targetInfoLabels str res in
      case const labels of Some err \<Rightarrow> Inl (''metrics: build target_info: '' @ err)
      | None \<Rightarrow> Inr \<lparr>tc_name = ''target_info'', tc_help = ''Target metadata'', tc_labels = labels\<rparr>)"

definition Describe :: "target_collector \<Rightarrow> (string \<times> string \<times> string list) list" where
  "Describe c = [(tc_name c, tc_help c, map fst (tc_labels c))]"

definition Collect :: "target_collector \<Rightarrow> (string \<times> (string \<times> string) list \<times> int) list" where
  "Collect c = [(tc_name c, tc_labels c, 1)]"

section \<open>Public helpers\<close>

text \<open>The attributes \<^verbatim>\<open>SetUser\<close> sets on the current span, and the log attribute of \<^verbatim>\<open>UserName\<close> (none for an empty name).\<close>

definition SetUser :: "string \<Rightarrow> key_value list \<Rightarrow> key_value list" where
  "SetUser name spanAttrs = (if name = [] then spanAttrs else spanAttrs @ [UserNameSpanAttribute name])"

definition UserName :: "string \<Rightarrow> (string \<times> string) option" where
  "UserName name = (if name = [] then None else Some (UserNameKey, name))"

definition o11y_ContextWithUser :: "('b, 'm) baggage_api \<Rightarrow> 'b \<Rightarrow> string \<Rightarrow> 'b \<times> baggage_error option" where
  "o11y_ContextWithUser api ctx name = ContextWithUser api ctx name"

definition ContextWithBaggageValue :: "('b, 'm) baggage_api \<Rightarrow> 'b \<Rightarrow> string \<Rightarrow> string \<Rightarrow> 'b \<times> baggage_error option" where
  "ContextWithBaggageValue api ctx key value = ContextWithValue api ctx key value"

definition ContextWithoutBaggageValues :: "('b, 'm) baggage_api \<Rightarrow> 'b \<Rightarrow> string list \<Rightarrow> 'b" where
  "ContextWithoutBaggageValues api ctx ks = ContextWithoutValues api ctx ks"

definition RPCMetricViews :: "float64 list \<Rightarrow> float64 view_spec list" where
  "RPCMetricViews bounds = RPC (cloneFloat64s bounds)"

definition mongo_MetricViews :: "'f list \<Rightarrow> 'f view_spec list" where "mongo_MetricViews bounds = Mongo bounds"
definition redis_MetricViews :: "'f list \<Rightarrow> 'f view_spec list" where "redis_MetricViews bounds = Redis bounds"
definition cassandra_MetricViews :: "'f list \<Rightarrow> 'f view_spec list" where "cassandra_MetricViews bounds = Views.Cassandra bounds"
definition elasticsearch_MetricViews :: "'f list \<Rightarrow> 'f view_spec list" where "elasticsearch_MetricViews bounds = Views.Elasticsearch bounds"
definition minio_MetricViews :: "'f list \<Rightarrow> 'f view_spec list" where "minio_MetricViews bounds = Views.Minio bounds"

text \<open>The options of \<^verbatim>\<open>http\<close>, as the options of \<^verbatim>\<open>otelhttp\<close> they build.\<close>

datatype 'q otelhttp_option = SpanNameFormatter "string \<Rightarrow> 'q \<Rightarrow> string" | PublicEndpointFn "'q \<Rightarrow> bool" | Filter "'q \<Rightarrow> bool"
  | MetricAttributesFn "'q \<Rightarrow> key_value list"

definition http_WithSpanNameFormatter :: "(string \<Rightarrow> 'q \<Rightarrow> string) \<Rightarrow> 'q otelhttp_option" where
  "http_WithSpanNameFormatter f = SpanNameFormatter f"

definition http_WithPublicEndpoint :: "'q otelhttp_option" where
  "http_WithPublicEndpoint = PublicEndpointFn (\<lambda>_. True)"

definition http_WithFilter :: "('q \<Rightarrow> bool) \<Rightarrow> 'q otelhttp_option" where
  "http_WithFilter f = Filter f"

definition http_WithMetricAttributesFn :: "('q \<Rightarrow> key_value list) \<Rightarrow> 'q otelhttp_option" where
  "http_WithMetricAttributesFn f = MetricAttributesFn f"

section \<open>The logger of the SDK\<close>

text \<open>The handlers \<^verbatim>\<open>Init\<close> stacks: the OTLP bridge behind its level gate and the error wrapper, the JSON handler on the standard output behind the trace handler, both
  under the fan-out, and the baggage handler in front of it when there is a whitelist.  The outcome of logging a record, by a logger without derivations: what each
  output is given.  \<^verbatim>\<open>slog\<close>'s JSON handler is enabled from its level on, and a logger asks its handler before it makes a record.\<close>

datatype sink = Bridge | Stdout

definition sink_enabled :: "int \<Rightarrow> sink \<Rightarrow> int \<Rightarrow> bool" where
  "sink_enabled threshold snk level = (case snk of Bridge \<Rightarrow> leveled_Enabled \<lparr>lvl_inner = Bridge, lvl_min = threshold\<rparr> level | Stdout \<Rightarrow> level \<ge> threshold)"

definition sink_record :: "span_context \<Rightarrow> sink \<Rightarrow> log_attr list \<Rightarrow> log_attr list" where
  "sink_record sc snk r = (case snk of Bridge \<Rightarrow> error_Handle r | Stdout \<Rightarrow> snd (otel_Handle (NewOTelHandler Stdout) sc r))"

definition logger_sinks :: "'s sdk_config \<Rightarrow> sink list" where
  "logger_sinks conf = (if logEnabled conf then NewMultiHandler [Some Bridge, Some Stdout] else [Stdout])"

definition logger_log ::
  "('b, 'm) baggage_api \<Rightarrow> 's sdk_config \<Rightarrow> whitelist \<Rightarrow> 'b \<Rightarrow> span_context \<Rightarrow> int \<Rightarrow> log_attr list \<Rightarrow> (sink \<times> log_attr list) list" where
  "logger_log api conf wl ctx sc level r =
     (let enabled = sink_enabled (logLevel conf); sinks = logger_sinks conf in
      if \<not> multi_Enabled enabled sinks level then []
      else let r1 = (if Len wl > 0 then snd (bag_Handle api (NewBaggageHandler sinks wl) ctx r) else r)
        in map (\<lambda>(snk, r2). (snk, sink_record sc snk r2)) (fst (multi_Handle enabled (\<lambda>_ _. None :: unit option) sinks level r1)))"

text \<open>Both outputs honour the one level and get the same record, with the same baggage; only the bridge's copy has its errors turned into strings, only the standard
  output carries the identifiers of the span.\<close>

lemma logger_log_outputs:
  "logger_log api conf wl ctx sc level r =
     (if level < logLevel conf then []
      else let r1 = (if Len wl > 0 then snd (bag_Handle api (NewBaggageHandler () wl) ctx r) else r);
               out = (Stdout, if sc = None then r1 else AddAttrs r1 (trace_attrs sc))
        in if logEnabled conf then [(Bridge, error_Handle r1), out] else [out])"
  by (auto simp: logger_log_def logger_sinks_def NewMultiHandler_def multi_Enabled_def sink_enabled_def leveled_Enabled_def sink_record_def otel_Handle_def
      NewOTelHandler_def NewBaggageHandler_def bag_Handle_def Let_def)

section \<open>Cassandra batches\<close>

definition ExecuteBatch ::
  "unicode \<Rightarrow> registry \<Rightarrow> (nat \<Rightarrow> observer) \<Rightarrow> nat option \<Rightarrow> batch option \<Rightarrow> nanos \<Rightarrow> nanos \<Rightarrow> (batch \<Rightarrow> go_error option) \<Rightarrow> batch_error option \<times> emission list" where
  "ExecuteBatch U m heap session batch start end exec = instrumentBatch U m heap session batch start end exec"

text \<open>The conditional batches: the closure sets the results, so a call that never reaches the driver returns their zero values.\<close>

definition ExecuteBatchCAS ::
  "unicode \<Rightarrow> registry \<Rightarrow> (nat \<Rightarrow> observer) \<Rightarrow> nat option \<Rightarrow> batch option \<Rightarrow> nanos \<Rightarrow> nanos \<Rightarrow> (batch \<Rightarrow> bool \<times> 'i option \<times> go_error option) \<Rightarrow>
   (bool \<times> 'i option \<times> batch_error option) \<times> emission list" where
  "ExecuteBatchCAS U m heap session batch start end cas =
     (let (err, es) = instrumentBatch U m heap session batch start end (\<lambda>b. snd (snd (cas b)));
          (applied, iter) = (case (session, batch) of (Some _, Some b) \<Rightarrow> (fst (cas b), fst (snd (cas b))) | _ \<Rightarrow> (False, None))
      in ((applied, iter, err), es))"

definition MapExecuteBatchCAS ::
  "unicode \<Rightarrow> registry \<Rightarrow> (nat \<Rightarrow> observer) \<Rightarrow> nat option \<Rightarrow> batch option \<Rightarrow> nanos \<Rightarrow> nanos \<Rightarrow> (batch \<Rightarrow> bool \<times> 'i option \<times> go_error option) \<Rightarrow>
   (bool \<times> 'i option \<times> batch_error option) \<times> emission list" where
  "MapExecuteBatchCAS U m heap session batch start end cas =
     (let (err, es) = instrumentBatch U m heap session batch start end (\<lambda>b. snd (snd (cas b)));
          (applied, iter) = (case (session, batch) of (Some _, Some b) \<Rightarrow> (fst (cas b), fst (snd (cas b))) | _ \<Rightarrow> (False, None))
      in ((applied, iter, err), es))"

section \<open>What reaches the wire\<close>

lemma chain_Export_step:
  assumes "chain_Export ns wire res ch rm = (err, ch', sent)"
  shows "fst sent = res \<and> Rewrite ns (chain_limiter ch) (snd rm) = (snd sent, chain_limiter ch') \<and>
    counted_Export wire (chain_failures ch) sent = (err, chain_failures ch')"
  using assms by (auto simp: chain_Export_def guarded_Export_def Rewrite_def Let_def split: prod.splits if_splits)

lemma chain_run_rewrites:
  "chain_run ns res ch exports = (ch', sents, errs) \<Longrightarrow>
   rewrite_all ns (chain_limiter ch) (map (snd \<circ> snd) exports) = (map snd sents, chain_limiter ch') \<and> list_all (\<lambda>b. fst b = res) sents"
proof (induction exports arbitrary: ch ch' sents errs)
  case (Cons x exports)
  obtain wire rm where x: "x = (wire, rm)" by (cases x)
  obtain err ch1 sent where e: "chain_Export ns wire res ch rm = (err, ch1, sent)" by (metis prod_cases3)
  obtain ch2 sents2 errs2 where r: "chain_run ns res ch1 exports = (ch2, sents2, errs2)" by (metis prod_cases3)
  have "ch' = ch2" "sents = sent # sents2" using Cons.prems by (simp_all add: x e r)
  then show ?case using chain_Export_step[OF e] Cons.IH[OF r] by (simp add: x)
qed simp

lemma counted_Export_counts:
  assumes "counted_Export wire (Some r) b = (err, f)"
  shows "\<exists>r'. f = Some r' \<and> Active r' SignalMetrics = Active r SignalMetrics \<and>
    Failures r' SignalMetrics = Failures r SignalMetrics + (if err = None then 0 else 1)"
proof -
  have "err = wire b" "f = Some (snd (ExportMetrics wire r b))"
    using assms metrics.passes_error[of wire r b] by (simp_all add: counted_Export_def case_prod_unfold)
  then show ?thesis by (simp add: metrics.counts metrics.keeps_active)
qed

lemma chain_run_counts:
  "chain_run ns res ch exports = (ch', sents, errs) \<Longrightarrow> chain_failures ch = Some r \<Longrightarrow>
   \<exists>r'. chain_failures ch' = Some r' \<and> Active r' SignalMetrics = Active r SignalMetrics \<and>
     Failures r' SignalMetrics = Failures r SignalMetrics + of_nat (length (filter (\<lambda>e. e \<noteq> None) errs))"
proof (induction exports arbitrary: ch ch' sents errs r)
  case (Cons x exports)
  obtain wire rm where x: "x = (wire, rm)" by (cases x)
  obtain err ch1 sent where e: "chain_Export ns wire res ch rm = (err, ch1, sent)" by (metis prod_cases3)
  obtain ch2 sents2 errs2 where r: "chain_run ns res ch1 exports = (ch2, sents2, errs2)" by (metis prod_cases3)
  have eq: "ch' = ch2" "errs = err # errs2" using Cons.prems(1) by (simp_all add: x e r)
  have "counted_Export wire (Some r) sent = (err, chain_failures ch1)" using chain_Export_step[OF e] Cons.prems(2) by simp
  from counted_Export_counts[OF this] obtain r1 where r1: "chain_failures ch1 = Some r1" "Active r1 SignalMetrics = Active r SignalMetrics"
    "Failures r1 SignalMetrics = Failures r SignalMetrics + (if err = None then 0 else 1)" by (elim exE conjE)
  from Cons.IH[OF r r1(1)] r1 show ?case by (auto simp: eq)
qed simp

lemmas otlp_rule_defs = otlpCapRules_def collectionCapScopes_def cassandraCollectionInstruments_def elasticsearchCollectionInstruments_def
  mongoPeerInstruments_def maxUniqueMongoPeers_def

lemma otlpCapRules_valid: "list_all (\<lambda>r. InstrumentName r \<noteq> [] \<and> Key r \<noteq> [] \<and> Max r > 0) (otlpCapRules conf)"
  by (simp add: otlp_rule_defs)

lemma otlpCapRules_kept: "r \<in> set (otlpCapRules conf) \<Longrightarrow> r \<in> set (rules (NewLimiter (otlpCapRules conf)))"
  using otlpCapRules_valid[of conf] by (fastforce simp: NewLimiter_def list_all_iff)

text \<open>The budgets of the installed rules, each with its size: five names, all different.\<close>

definition otlp_budgets :: "'f metrics_config \<Rightarrow> (string \<times> int) list" where
  "otlp_budgets conf =
     [([CHR 0x00] @ ''http.server.request.duration'' @ [CHR 0x00] @ ''http.route'', MaxUniqueRoutes conf),
      ([CHR 0x00] @ ''http.client.request.duration'' @ [CHR 0x00] @ ''http.route'', MaxUniqueRoutes conf),
      (''cassandra/db.collection.name'', MaxUniqueCollections conf), (''elasticsearch/db.collection.name'', MaxUniqueCollections conf),
      (''mongo/network.peer.address'', 50)]"

lemma otlpCapRules_budgets: "list_all (\<lambda>r. (budget_of r, Max r) \<in> set (otlp_budgets conf)) (otlpCapRules conf)"
  by (simp add: otlp_rule_defs budget_of_def otlp_budgets_def)

lemma otlp_budgets_distinct: "distinct (map fst (otlp_budgets conf))"
  by (simp add: otlp_budgets_def)

lemma otlpCapRules_agree:
  "r \<in> set (otlpCapRules conf) \<Longrightarrow> r' \<in> set (otlpCapRules conf) \<Longrightarrow> budget_of r' = budget_of r \<Longrightarrow> Max r' = Max r"
  using otlpCapRules_budgets[of conf] eq_key_imp_eq_value[OF otlp_budgets_distinct[of conf]] unfolding list_all_iff by metis


definition demo_metrics :: "unit metrics_config" where
  "demo_metrics = \<lparr>HistogramBuckets = [], DisableDefaultViews = False, ExtraHTTPServerAttrKeys = [], MaxUniqueRoutes = 1, MaxUniqueCollections = 0, CardinalityLimit = 0\<rparr>"

definition demo_batch :: "string list \<Rightarrow> key_value list \<times> (int, int) scope_metrics list" where
  "demo_batch routes = ([(''process.owner'', StrV ''root'')], [(''otelhttp'', [\<lparr>metric_name = ''http.server.request.duration'',
     metric_data = SumI (map (\<lambda>p. \<lparr>Attributes = [(''http.route'', StrV p)], Value = 1, Exemplars = []\<rparr>) routes)\<rparr>])])"

definition demo_exports :: "((key_value list \<times> (int, int) scope_metrics list \<Rightarrow> string option) \<times> (key_value list \<times> (int, int) scope_metrics list)) list" where
  "demo_exports = [(\<lambda>_. None, demo_batch [''/a'', ''/b'']), (\<lambda>_. Some ''503'', demo_batch [''/c'', ''/a''])]"

definition demo_sent :: "(key_value list \<times> (int, int) scope_metrics list) list" where
  "demo_sent = [([], snd (demo_batch [''/a'', ''other''])), ([], snd (demo_batch [''other'', ''/a'']))]"


section \<open>Stand-alone resources and conditional batches\<close>

text \<open>What \<^verbatim>\<open>resource.New\<close> documents of attributes that are given more than once: the last option wins.\<close>

fun given :: "resource_option list \<Rightarrow> string \<Rightarrow> attr_value option" where
  "given [] k = None"
| "given (WithAttributes kvs # os) k = (case given os k of Some v \<Rightarrow> Some v | None \<Rightarrow> map_of (rev kvs) k)"
| "given (_ # os) k = given os k"

definition last_wins :: "(resource_option list \<Rightarrow> key_value list \<times> (string \<times> bool) option) \<Rightarrow> bool" where
  "last_wins new \<longleftrightarrow> (\<forall>opts k v. given opts k = Some v \<longrightarrow> map_of (fst (new opts)) k = Some v)"

text \<open>The configured identity wins over whatever the environment says.\<close>

lemma resolveResource_identity:
  assumes "last_wins new" "rc_Resource conf = None" "resolveResource env new conf = (ws, Inr res)"
  shows "map_of res ''service.name'' = Some (StrV (rc_ServiceName conf)) \<and> map_of res ''service.namespace'' = Some (StrV (rc_Namespace conf)) \<and>
    rc_Namespace conf \<noteq> []"
proof -
  obtain envAttrs x ws' where env: "EnvResourceAttributes env [] = (envAttrs, x, ws')" by (metis prod_cases3)
  then have res: "res = fst (new (resource_options envAttrs conf))" "rc_Namespace conf \<noteq> []"
    using assms(2,3) by (auto simp: resolveResource_def Let_def split: if_splits prod.splits option.splits bool.splits)
  have "given (resource_options envAttrs conf) ''service.name'' = Some (StrV (rc_ServiceName conf))"
    "given (resource_options envAttrs conf) ''service.namespace'' = Some (StrV (rc_Namespace conf))"
    by (auto simp: resource_options_def)
  then show ?thesis using assms(1) res unfolding last_wins_def by blast
qed

text \<open>A conditional batch emits what a plain one would, and gives the caller the driver's own result.\<close>

lemma ExecuteBatchCAS_result:
  "ExecuteBatchCAS U m heap (Some s) (Some b) start end cas =
     ((fst (cas b), fst (snd (cas b)), map_option Exec (snd (snd (cas b)))),
      snd (ExecuteBatch U m heap (Some s) (Some b) start end (\<lambda>b. snd (snd (cas b)))))"
  by (auto simp: ExecuteBatchCAS_def ExecuteBatch_def instrumentBatch_def Let_def split: option.split prod.split)

end
