(* ===== verification/GoSyntax.thy ===== *)
theory GoSyntax
  imports GoStd
begin

text \<open>
  Go syntax trees as the repository's checkers read them (\<^verbatim>\<open>go/ast\<close>): the nodes they look at, with their position, and every other node as its
  children.  \<open>inspect\<close> is \<^verbatim>\<open>ast.Inspect\<close>: depth first, a node before its children, which are visited if the callback says so.
\<close>

datatype ast =
    BasicLit nat bool string
  | Ident nat string
  | BinaryExpr bool ast ast
  | SelectorExpr ast nat string
  | CallExpr ast "ast list"
  | KeyValueExpr ast ast
  | ValueSpec "(nat \<times> string) list" "ast list"
  | AssignStmt "ast list" "ast list"
  | ImportSpec "ast list"
  | OtherNode nat "ast list"

text \<open>A literal is a string literal or another one, with its source text; a binary expression is an addition or another one; a selector has the
  position and the name of what is selected.  The kind of an \<open>OtherNode\<close> does not matter to any checker.\<close>

fun children :: "ast \<Rightarrow> ast list" where
  "children (BinaryExpr _ x y) = [x, y]"
| "children (SelectorExpr x l sel) = [x, Ident l sel]"
| "children (CallExpr f args) = f # args"
| "children (KeyValueExpr k v) = [k, v]"
| "children (ValueSpec names vals) = map (\<lambda>(l, n). Ident l n) names @ vals"
| "children (AssignStmt lhs rhs) = lhs @ rhs"
| "children (ImportSpec xs) = xs"
| "children (OtherNode _ xs) = xs"
| "children _ = []"

fun node_pos :: "ast \<Rightarrow> nat" where
  "node_pos (BasicLit l _ _) = l"
| "node_pos (Ident l _) = l"
| "node_pos (BinaryExpr _ x _) = node_pos x"
| "node_pos (SelectorExpr x _ _) = node_pos x"
| "node_pos (CallExpr f _) = node_pos f"
| "node_pos (KeyValueExpr k _) = node_pos k"
| "node_pos (ValueSpec names _) = (case names of (l, _) # _ \<Rightarrow> l | [] \<Rightarrow> 0)"
| "node_pos (AssignStmt lhs _) = (case lhs of x # _ \<Rightarrow> node_pos x | [] \<Rightarrow> 0)"
| "node_pos (ImportSpec xs) = (case xs of x # _ \<Rightarrow> node_pos x | [] \<Rightarrow> 0)"
| "node_pos (OtherNode l _) = l"

text \<open>A measure that every child lowers.\<close>

fun weight :: "ast \<Rightarrow> nat" and weights :: "ast list \<Rightarrow> nat" where
  "weight (BasicLit _ _ _) = 1"
| "weight (Ident _ _) = 1"
| "weight (BinaryExpr _ x y) = weight x + weight y + 1"
| "weight (SelectorExpr x _ _) = weight x + 2"
| "weight (CallExpr f args) = weight f + weights args + 1"
| "weight (KeyValueExpr k v) = weight k + weight v + 1"
| "weight (ValueSpec names vals) = length names + weights vals + 1"
| "weight (AssignStmt lhs rhs) = weights lhs + weights rhs + 1"
| "weight (ImportSpec xs) = weights xs + 1"
| "weight (OtherNode _ xs) = weights xs + 1"
| "weights [] = 0"
| "weights (x # xs) = weight x + weights xs"

lemma weights_append [simp]: "weights (xs @ ys) = weights xs + weights ys"
  by (induction xs) auto

lemma weights_names [simp]: "weights (map (\<lambda>(l, n). Ident l n) names) = length names"
  by (induction names) auto

lemma weights_children: "weights (children n) < weight n"
  by (cases n rule: children.cases) auto

lemma weight_pos: "0 < weight n"
  by (cases n) auto

lemma children_cheaper [simp]: "Suc (2 * weights (children n)) < 2 * weight n"
  using weights_children[of n] by linarith

function inspect :: "(ast \<Rightarrow> 's \<Rightarrow> bool \<times> 's) \<Rightarrow> ast \<Rightarrow> 's \<Rightarrow> 's" and inspect_list :: "(ast \<Rightarrow> 's \<Rightarrow> bool \<times> 's) \<Rightarrow> ast list \<Rightarrow> 's \<Rightarrow> 's" where
  "inspect f n s = (case f n s of (descend, s') \<Rightarrow> if descend then inspect_list f (children n) s' else s')"
| "inspect_list f [] s = s"
| "inspect_list f (n # ns) s = inspect_list f ns (inspect f n s)"
  by pat_completeness auto

termination
  by (relation "measure (\<lambda>x. case x of Inl (_, n, _) \<Rightarrow> 2 * weight n | Inr (_, ns, _) \<Rightarrow> 2 * weights ns + 1)")
    (simp_all add: weight_pos)

text \<open>All nodes, and the outermost nodes with a property, in the order of a visit.\<close>

function nodes :: "ast \<Rightarrow> ast list" and nodes_list :: "ast list \<Rightarrow> ast list" where
  "nodes n = n # nodes_list (children n)"
| "nodes_list [] = []"
| "nodes_list (n # ns) = nodes n @ nodes_list ns"
  by pat_completeness auto

termination
  by (relation "measure (\<lambda>x. case x of Inl n \<Rightarrow> 2 * weight n | Inr ns \<Rightarrow> 2 * weights ns + 1)") (simp_all add: weight_pos)

function outermost :: "(ast \<Rightarrow> bool) \<Rightarrow> ast \<Rightarrow> ast list" and outermost_list :: "(ast \<Rightarrow> bool) \<Rightarrow> ast list \<Rightarrow> ast list" where
  "outermost P n = (if P n then [n] else outermost_list P (children n))"
| "outermost_list P [] = []"
| "outermost_list P (n # ns) = outermost P n @ outermost_list P ns"
  by pat_completeness auto

termination
  by (relation "measure (\<lambda>x. case x of Inl (_, n) \<Rightarrow> 2 * weight n | Inr (_, ns) \<Rightarrow> 2 * weights ns + 1)") (simp_all add: weight_pos)

declare inspect.simps [simp del] nodes.simps [simp del] outermost.simps [simp del]

text \<open>A visit that always descends is a fold over all nodes; one that stops exactly at the nodes with a property, and acts there only, is a fold over the outermost
  of them.\<close>

lemma inspect_all:
  assumes "\<And>n s. fst (f n s)"
  shows "inspect f n s = fold (\<lambda>n s. snd (f n s)) (nodes n) s" "inspect_list f ns s = fold (\<lambda>n s. snd (f n s)) (nodes_list ns) s"
proof (induction n and ns arbitrary: s and s rule: nodes_nodes_list.induct)
  case (1 n)
  then show ?case using assms by (simp add: inspect.simps nodes.simps split: prod.split) (metis fst_conv snd_conv)
qed simp_all

lemma inspect_outermost:
  assumes "\<And>n s. fst (f n s) = (\<not> P n)" "\<And>n s. \<not> P n \<Longrightarrow> snd (f n s) = s"
  shows "inspect f n s = fold (\<lambda>n s. snd (f n s)) (outermost P n) s" "inspect_list f ns s = fold (\<lambda>n s. snd (f n s)) (outermost_list P ns) s"
proof (induction n and ns arbitrary: s and s rule: nodes_nodes_list.induct)
  case (1 n)
  show ?case
  proof (cases "P n")
    case True
    then show ?thesis using assms(1)[of n s] by (simp add: inspect.simps outermost.simps case_prod_unfold)
  next
    case False
    then show ?thesis using assms(1)[of n s] assms(2)[of n s] 1 by (simp add: inspect.simps outermost.simps case_prod_unfold)
  qed
qed simp_all

lemma outermost_has: "x \<in> set (outermost P n) \<Longrightarrow> P x" "x \<in> set (outermost_list P ns) \<Longrightarrow> P x"
  by (induction n and ns rule: nodes_nodes_list.induct) (auto simp: outermost.simps split: if_splits)

text \<open>Every node with the property stands at or below an outermost one.\<close>

lemma outermost_covers:
  "x \<in> set (nodes n) \<Longrightarrow> P x \<Longrightarrow> \<exists>o' \<in> set (outermost P n). x \<in> set (nodes o')"
  "x \<in> set (nodes_list ns) \<Longrightarrow> P x \<Longrightarrow> \<exists>o' \<in> set (outermost_list P ns). x \<in> set (nodes o')"
proof (induction n and ns rule: nodes_nodes_list.induct)
  case (1 n)
  then show ?case by (cases "P n") (auto simp: outermost.simps nodes.simps)
qed auto

text \<open>The nodes that are not at or below one with a property, and a visit that does not descend there.\<close>

function nodes_until :: "(ast \<Rightarrow> bool) \<Rightarrow> ast \<Rightarrow> ast list" and nodes_until_list :: "(ast \<Rightarrow> bool) \<Rightarrow> ast list \<Rightarrow> ast list" where
  "nodes_until P n = (if P n then [] else n # nodes_until_list P (children n))"
| "nodes_until_list P [] = []"
| "nodes_until_list P (n # ns) = nodes_until P n @ nodes_until_list P ns"
  by pat_completeness auto

termination
  by (relation "measure (\<lambda>x. case x of Inl (_, n) \<Rightarrow> 2 * weight n | Inr (_, ns) \<Rightarrow> 2 * weights ns + 1)") (simp_all add: weight_pos)

declare nodes_until.simps [simp del]

lemma inspect_until:
  assumes "\<And>n s. fst (f n s) = (\<not> P n)" "\<And>n s. P n \<Longrightarrow> snd (f n s) = s"
  shows "inspect f n s = fold (\<lambda>n s. snd (f n s)) (nodes_until P n) s" "inspect_list f ns s = fold (\<lambda>n s. snd (f n s)) (nodes_until_list P ns) s"
proof (induction n and ns arbitrary: s and s rule: nodes_nodes_list.induct)
  case (1 n)
  then show ?case using assms(1)[of n s] assms(2)[of n s] by (simp add: inspect.simps nodes_until.simps case_prod_unfold)
qed simp_all

lemma nodes_until_sub: "set (nodes_until P n) \<subseteq> set (nodes n)" "set (nodes_until_list P ns) \<subseteq> set (nodes_list ns)"
  by (induction n and ns rule: nodes_nodes_list.induct) (auto simp: nodes.simps nodes_until.simps)

section \<open>String literals\<close>

text \<open>\<^verbatim>\<open>strconv.Unquote\<close> is \<open>unquote\<close>.\<close>

definition stringLiteral :: "(string \<Rightarrow> string option) \<Rightarrow> ast \<Rightarrow> string option" where
  "stringLiteral unquote e = (case e of BasicLit _ isString raw \<Rightarrow> if isString then unquote raw else None | _ \<Rightarrow> None)"

section \<open>Directory walks\<close>

text \<open>A directory tree below the root, the entries of a directory in the order \<^verbatim>\<open>filepath.WalkDir\<close> reads them; a directory may not be readable.  A path is
  the names of its directories and its own.\<close>

datatype entry = File string | Dir string "entry list" | BadDir string string

type_synonym walk_path = "string list \<times> string"

definition path_of :: "walk_path \<Rightarrow> string" where
  "path_of p = concat (map (\<lambda>d. d @ ''/'') (fst p)) @ snd p"

text \<open>The callback may skip a directory; for a directory that cannot be read it is called a second time, with the error.  An error it returns ends the walk.\<close>

fun walkDir :: "(walk_path \<Rightarrow> bool) \<Rightarrow> (walk_path \<Rightarrow> string \<Rightarrow> string + 'v list) \<Rightarrow> (walk_path \<Rightarrow> string + 'v list) \<Rightarrow>
    string list \<Rightarrow> entry list \<Rightarrow> string + 'v list" where
  "walkDir skip failed visit dir [] = Inr []"
| "walkDir skip failed visit dir (File n # es) = (case visit (dir, n) of Inl err \<Rightarrow> Inl err
     | Inr vs \<Rightarrow> (case walkDir skip failed visit dir es of Inl err \<Rightarrow> Inl err | Inr ws \<Rightarrow> Inr (vs @ ws)))"
| "walkDir skip failed visit dir (Dir n sub # es) =
     (if skip (dir, n) then walkDir skip failed visit dir es
      else case walkDir skip failed visit (dir @ [n]) sub of Inl err \<Rightarrow> Inl err
        | Inr vs \<Rightarrow> (case walkDir skip failed visit dir es of Inl err \<Rightarrow> Inl err | Inr ws \<Rightarrow> Inr (vs @ ws)))"
| "walkDir skip failed visit dir (BadDir n e # es) =
     (if skip (dir, n) then walkDir skip failed visit dir es
      else case failed (dir, n) e of Inl err \<Rightarrow> Inl err
        | Inr vs \<Rightarrow> (case walkDir skip failed visit dir es of Inl err \<Rightarrow> Inl err | Inr ws \<Rightarrow> Inr (vs @ ws)))"

text \<open>The files of a walk, in order, and whether every directory on the way can be read.\<close>

fun files_of :: "(walk_path \<Rightarrow> bool) \<Rightarrow> string list \<Rightarrow> entry list \<Rightarrow> walk_path list" where
  "files_of skip dir [] = []"
| "files_of skip dir (File n # es) = (dir, n) # files_of skip dir es"
| "files_of skip dir (Dir n sub # es) = (if skip (dir, n) then [] else files_of skip (dir @ [n]) sub) @ files_of skip dir es"
| "files_of skip dir (BadDir n e # es) = files_of skip dir es"

fun readable_dirs :: "(walk_path \<Rightarrow> bool) \<Rightarrow> string list \<Rightarrow> entry list \<Rightarrow> bool" where
  "readable_dirs skip dir [] = True"
| "readable_dirs skip dir (File n # es) = readable_dirs skip dir es"
| "readable_dirs skip dir (Dir n sub # es) = ((skip (dir, n) \<or> readable_dirs skip (dir @ [n]) sub) \<and> readable_dirs skip dir es)"
| "readable_dirs skip dir (BadDir n e # es) = (skip (dir, n) \<and> readable_dirs skip dir es)"

text \<open>A gate that walks a tree: a directory that cannot be read is never passed over in silence.\<close>

locale tree_gate =
  fixes skip :: "walk_path \<Rightarrow> bool" and failed :: "walk_path \<Rightarrow> string \<Rightarrow> string + 'v list" and visit :: "walk_path \<Rightarrow> string + 'v list"
  assumes loud: "failed p e \<noteq> Inr []"
begin

lemma clean: "walkDir skip failed visit dir es = Inr [] \<longleftrightarrow> readable_dirs skip dir es \<and> list_all (\<lambda>p. visit p = Inr []) (files_of skip dir es)"
  by (induction skip dir es rule: files_of.induct) (auto simp: loud split: sum.splits)

end

end
