(* ===== verification/CredGate.thy ===== *)
theory CredGate
  imports GoSyntax RedactUrl
begin

text \<open>
  The credential gate (\<^verbatim>\<open>scripts/check_credential_directives.go\<close>): a program that fails the build when a suppressed credential does not name every scanner that
  reports it.  It reads the directives in the comments of every Go file, the repository's own semgrep rule from its YAML file, and the credential-shaped
  bindings of that rule's fixture.

  \<^verbatim>\<open>go/parser\<close> gives the comments and the syntax tree of a file, \<^verbatim>\<open>go/printer\<close> the source of an assignment target; \<^verbatim>\<open>strconv.Unquote\<close>, the compiler of the rule's
  regular expression and the output of \<^verbatim>\<open>go list\<close> are parameters.  Lines are numbered from 1.
\<close>

section \<open>Identifiers\<close>

definition registryID :: string where "registryID = ''gosec.G101-1''"
definition repoRuleID :: string where "repoRuleID = ''hardcoded-credential-literal''"
definition selfName :: string where "selfName = ''check_credential_directives.go''"
definition fixtureDir :: string where "fixtureDir = ''.semgrep''"
definition nosecTag :: string where "nosecTag = ''#nosec''"

definition gosecExempt :: "string list" where
  "gosecExempt = [''scripts/check_credential_directives.go'', ''scripts/check_integrations.go'', ''scripts/check_semconv_literals.go'',
     ''scripts/check_semconv_literals_test.go'']"

definition notFirstParty :: "string list" where
  "notFirstParty = [''vendor'', ''node_modules'', ''build'', ''dist'', ''.venv'', ''venv'', ''.env'', ''.git'', ''.svn'', ''.hg'']"

text \<open>A rune matches a letter of a pattern under \<^verbatim>\<open>(?i)\<close>: the letter in either case, the long s, or the Kelvin sign.\<close>

definition folds_to :: "nat \<Rightarrow> nat \<Rightarrow> bool" where
  "folds_to c r \<longleftrightarrow> r = c \<or> r + 32 = c \<or> (c = 115 \<and> r = 383) \<or> (c = 107 \<and> r = 8490)"

fun folds_prefix :: "nat list \<Rightarrow> nat list \<Rightarrow> bool" where
  "folds_prefix [] rs = True"
| "folds_prefix (c # cs) [] = False"
| "folds_prefix (c # cs) (r # rs) = (folds_to c r \<and> folds_prefix cs rs)"

definition credential_words :: "string list" where
  "credential_words = [''passwd'', ''pass'', ''password'', ''pwd'', ''secret'', ''token'', ''pw'', ''apikey'', ''bearer'', ''cred'']"

definition gosecCredentialName :: "string \<Rightarrow> bool" where
  "gosecCredentialName name =
     list_ex (\<lambda>rs. list_ex (\<lambda>w. folds_prefix (map byte w) rs) credential_words) (suffixes (runes name))"

text \<open>\<^verbatim>\<open>urlCredential\<close>: a scheme, that is a run of scheme characters with a letter in it, directly before \<^verbatim>\<open>://\<close>; then a non-empty user, a colon, a non-empty
  password and an at-sign.\<close>

definition letter_fold :: "nat \<Rightarrow> bool" where
  "letter_fold r \<longleftrightarrow> 97 \<le> r \<and> r \<le> 122 \<or> 65 \<le> r \<and> r \<le> 90 \<or> r = 383 \<or> r = 8490"

definition scheme_rune :: "nat \<Rightarrow> bool" where
  "scheme_rune r \<longleftrightarrow> letter_fold r \<or> 48 \<le> r \<and> r \<le> 57 \<or> r \<in> {43, 46, 45}"

definition not_password :: "nat list" where "not_password = [47, 9, 10, 12, 13, 32, 64, 34, 96]"

definition userinfo_at :: "nat list \<Rightarrow> bool" where
  "userinfo_at rs =
     (let u = takeWhile (\<lambda>r. r \<notin> set (58 # not_password)) rs
      in u \<noteq> [] \<and> (case drop (length u) rs of c # t \<Rightarrow>
            c = 58 \<and> (let p = takeWhile (\<lambda>r. r \<notin> set not_password) t in p \<noteq> [] \<and> take 1 (drop (length p) t) = [64])
          | [] \<Rightarrow> False))"

fun url_scan :: "bool \<Rightarrow> nat list \<Rightarrow> bool" where
  "url_scan letter [] = False"
| "url_scan letter (r # rs) =
     ((letter \<and> r = 58 \<and> take 2 rs = [47, 47] \<and> userinfo_at (drop 2 rs)) \<or>
      url_scan (scheme_rune r \<and> (letter \<or> letter_fold r)) rs)"

definition urlCredential :: "string \<Rightarrow> bool" where
  "urlCredential t = url_scan False (runes t)"

definition nosecRuleID :: "string \<Rightarrow> bool" where
  "nosecRuleID f = (let up = takeWhile is_upper f; rest = drop (length up) f in up \<noteq> [] \<and> rest \<noteq> [] \<and> list_all is_digit rest)"

section \<open>Directives in a comment\<close>

record comment =
  startLine :: int
  endLine :: int
  inline :: bool
  texts :: "string list"

definition trim_suffix :: "string \<Rightarrow> string \<Rightarrow> string" where
  "trim_suffix s suf = (if suffix suf s then take (length s - length suf) s else s)"

definition cut_prefix :: "string \<Rightarrow> string \<Rightarrow> string option" where
  "cut_prefix s p = (if prefix p s then Some (drop (length p) s) else None)"

definition before_reason :: "string \<Rightarrow> string" where
  "before_reason s = (case cut s ''--'' of (before, _, ok) \<Rightarrow> if ok then before else s)"

definition rule_id :: "string \<Rightarrow> string" where
  "rule_id field =
     (let ident = trim_set (trim_space field) ''`''
      in case index_any ident ('' '' @ [CHR 9] @ ''`'') of Some n \<Rightarrow> take n ident | None \<Rightarrow> ident)"

definition splitIDs :: "string \<Rightarrow> string list" where
  "splitIDs ids = filter (\<lambda>i. i \<noteq> []) (map rule_id (split_byte CHR '','' (before_reason ids)))"

definition names :: "string list \<Rightarrow> string \<Rightarrow> bool" where
  "names ids want \<longleftrightarrow> want \<in> set ids"

definition nosemgrepIDs :: "comment \<Rightarrow> string list" where
  "nosemgrepIDs c = concat (map (\<lambda>t. case cut_prefix t ''nosemgrep:'' of Some after \<Rightarrow> splitIDs after | None \<Rightarrow> []) (texts c))"

definition ruleIDs :: "comment \<Rightarrow> string list" where
  "ruleIDs c = (case find (\<lambda>t. prefix ''ruleid:'' t) (texts c) of Some t \<Rightarrow> splitIDs (drop (length ''ruleid:'') t) | None \<Rightarrow> [])"

fun fields_by :: "(char \<Rightarrow> bool) \<Rightarrow> string \<Rightarrow> string \<Rightarrow> string list" where
  "fields_by sep cur [] = (if cur = [] then [] else [cur])"
| "fields_by sep cur (c # s) = (if sep c then (if cur = [] then fields_by sep [] s else cur # fields_by sep [] s) else fields_by sep (cur @ [c]) s)"

definition nosecRuleIDs :: "string \<Rightarrow> string list" where
  "nosecRuleIDs rest = takeWhile nosecRuleID (fields_by (\<lambda>c. c \<in> {CHR '','', CHR '' '', CHR 9}) [] (before_reason rest))"

definition nosecCoversG101 :: "comment \<Rightarrow> bool" where
  "nosecCoversG101 c = list_ex (\<lambda>t. case cut_prefix t nosecTag of None \<Rightarrow> False
     | Some rest \<Rightarrow>
       if rest \<noteq> [] \<and> hd rest \<noteq> CHR '' '' \<and> hd rest \<noteq> CHR 9 \<and> hd rest \<noteq> CHR ''-'' then False
       else (let ids = nosecRuleIDs rest in length ids = 0 \<or> ''G101'' \<in> set ids)) (texts c)"

definition commentTexts :: "string \<Rightarrow> string list" where
  "commentTexts raw = (case cut_prefix raw ''//'' of Some after \<Rightarrow> [trim_space after]
     | None \<Rightarrow> map trim_space (split_byte CHR 10 (trim_suffix (trim_prefix raw ''/*'') ''*/'')))"

section \<open>A parsed file\<close>

lemma length_concat_dropWhile: "length (concat (map snd (dropWhile P xs))) \<le> length (concat (map snd xs))"
  by (induction xs) auto

lemma length_concat_rev: "length (concat (map snd (rev xs))) = length (concat (map snd xs))"
  by (induction xs) auto

lemma trim_space_length: "length (trim_space s) \<le> length s"
proof -
  define cs where "cs = rune_chunks s"
  define ds where "ds = dropWhile (space_rune \<circ> fst) cs"
  have "length (trim_space s) = length (concat (map snd (dropWhile (space_rune \<circ> fst) (rev ds))))"
    unfolding trim_space_def cs_def ds_def length_concat_rev ..
  also have "\<dots> \<le> length (concat (map snd (rev ds)))" by (rule length_concat_dropWhile)
  also have "\<dots> = length (concat (map snd ds))" by (rule length_concat_rev)
  also have "\<dots> \<le> length (concat (map snd cs))" unfolding ds_def by (rule length_concat_dropWhile)
  finally show ?thesis unfolding cs_def rune_chunks_concat .
qed

function isCode :: "string \<Rightarrow> bool" where
  "isCode rest =
     (let r = trim_space rest
      in if r = [] \<or> prefix ''//'' r then False
         else if prefix ''/*'' r then (case index_sub r ''*/'' of None \<Rightarrow> False | Some e \<Rightarrow> isCode (drop (e + 2) r))
         else True)"
  by pat_completeness auto

termination
proof (relation "measure length")
  fix rest r and e :: nat
  assume r: "r = trim_space rest" "\<not> (r = [] \<or> prefix ''//'' r)"
  then have "0 < length r \<and> length r \<le> length rest" using trim_space_length[of rest] by simp
  then have "length r - (e + 2) < length rest" by linarith
  then show "(drop (e + 2) r, rest) \<in> measure length" by simp
qed simp

declare isCode.simps [simp del]

record raw_comment =
  rc_line :: nat
  rc_col :: nat
  rc_endLine :: nat
  rc_endCol :: nat
  rc_text :: string

record go_source =
  fset :: "nat \<Rightarrow> nat"
  src_lines :: "string list"
  src_comments :: "comment list"
  src_covered :: "int list"

definition read_comment :: "string list \<Rightarrow> raw_comment \<Rightarrow> comment" where
  "read_comment lines rc =
     (let (before, after) =
        (if rc_line rc - 1 < length lines
         then let line = lines ! (rc_line rc - 1)
           in (take (min (rc_col rc - 1) (length line)) line,
               if rc_endLine rc = rc_line rc then drop (min (rc_endCol rc - 1) (length line)) line else [])
         else ([], []))
      in \<lparr>startLine = int (rc_line rc), endLine = int (rc_endLine rc), inline = (trim_space before \<noteq> [] \<or> isCode after),
          texts = commentTexts (rc_text rc)\<rparr>)"

definition covered_by :: "comment \<Rightarrow> int list" where
  "covered_by c = filter (\<lambda>l. \<not> (l = startLine c \<and> inline c)) [startLine c..endLine c]"

definition newSource :: "(nat \<Rightarrow> nat) \<Rightarrow> raw_comment list \<Rightarrow> string list \<Rightarrow> go_source" where
  "newSource positions rcs lines =
     (let cs = map (read_comment lines) rcs in \<lparr>fset = positions, src_lines = lines, src_comments = cs, src_covered = concat (map covered_by cs)\<rparr>)"

definition lineOf :: "go_source \<Rightarrow> nat \<Rightarrow> int" where
  "lineOf s pos = int (fset s pos)"

definition line_text :: "go_source \<Rightarrow> int \<Rightarrow> string" where
  "line_text s l = (if 1 \<le> l \<and> l \<le> int (length (src_lines s)) then src_lines s ! nat (l - 1) else [])"

definition statement :: "go_source \<Rightarrow> comment \<Rightarrow> int" where
  "statement s c =
     (if inline c then startLine c
      else case find (\<lambda>l. \<not> (l \<in> set (src_covered s) \<or> trim_space (line_text s l) = [])) [endLine c + 1..int (length (src_lines s))] of
          Some l \<Rightarrow> l | None \<Rightarrow> -1)"

definition namedInSlot :: "go_source \<Rightarrow> int \<Rightarrow> bool" where
  "namedInSlot s stmt \<longleftrightarrow> stmt \<ge> 1 \<and>
     list_ex (\<lambda>c. ((inline c \<and> startLine c = stmt) \<or> endLine c = stmt - 1) \<and> names (nosemgrepIDs c) registryID) (src_comments s)"

record violation =
  v_file :: string
  v_line :: int
  v_text :: string
  v_why :: string

definition src_violation :: "go_source \<Rightarrow> string \<Rightarrow> int \<Rightarrow> string \<Rightarrow> violation" where
  "src_violation s file line why = \<lparr>v_file = file, v_line = line, v_text = line_text s line, v_why = why\<rparr>"

definition check_comment :: "string \<Rightarrow> go_source \<Rightarrow> comment \<Rightarrow> violation list" where
  "check_comment file s c =
     (let ids = nosemgrepIDs c in
      (if names ids repoRuleID \<and> \<not> names ids registryID
       then [src_violation s file (startLine c) (''nosemgrep directive names '' @ repoRuleID @ '' but not '' @ registryID)] else []) @
      (if nosecCoversG101 c \<and> \<not> namedInSlot s (statement s c)
       then [src_violation s file (startLine c) (''gosec directive suppresses G101 with no nosemgrep: '' @ registryID @ '' on the line it covers'')] else []))"

definition check_directives :: "string \<Rightarrow> go_source \<Rightarrow> violation list" where
  "check_directives file s = concat (map (check_comment file s) (src_comments s))"

section \<open>Literals\<close>

fun concatLiteral :: "(string \<Rightarrow> string option) \<Rightarrow> ast \<Rightarrow> string option" where
  "concatLiteral unquote (BasicLit _ isString raw) =
     (if \<not> isString then None else case unquote raw of None \<Rightarrow> Some raw | Some v \<Rightarrow> Some v)"
| "concatLiteral unquote (BinaryExpr isAdd x y) =
     (if \<not> isAdd then None
      else case concatLiteral unquote x of None \<Rightarrow> None
        | Some left \<Rightarrow> (case concatLiteral unquote y of None \<Rightarrow> None | Some right \<Rightarrow> Some (left @ right)))"
| "concatLiteral unquote _ = None"

fun isStringLiteral :: "ast \<Rightarrow> bool" where
  "isStringLiteral (BasicLit _ isString raw) = (isString \<and> length raw > 2)"
| "isStringLiteral (BinaryExpr isAdd x y) = (isAdd \<and> isStringLiteral x \<and> isStringLiteral y)"
| "isStringLiteral _ = False"

text \<open>A report adds a violation unless the line names the registry id or was reported before.\<close>

definition report :: "go_source \<Rightarrow> string \<Rightarrow> int \<Rightarrow> string \<Rightarrow> int list \<times> violation list \<Rightarrow> int list \<times> violation list" where
  "report s file line why st = (case st of (reported, found) \<Rightarrow>
     if namedInSlot s line \<or> line \<in> set reported then st
     else (line # reported, found @ [src_violation s file line why]))"

definition url_visit :: "(string \<Rightarrow> string option) \<Rightarrow> string \<Rightarrow> go_source \<Rightarrow> ast \<Rightarrow> int list \<times> violation list \<Rightarrow> bool \<times> int list \<times> violation list" where
  "url_visit unquote file s n st = (case concatLiteral unquote n of
     None \<Rightarrow> (True, st)
   | Some v \<Rightarrow> (False, if urlCredential v then report s file (lineOf s (node_pos n)) (''password in a URL does not name '' @ registryID) st else st))"

definition checkURLLiterals :: "(string \<Rightarrow> string option) \<Rightarrow> string \<Rightarrow> go_source \<Rightarrow> ast \<Rightarrow> violation list" where
  "checkURLLiterals unquote file s parsed = snd (inspect (url_visit unquote file s) parsed ([], []))"

section \<open>The rule file\<close>

definition yamlScalar :: "string \<Rightarrow> string" where
  "yamlScalar value0 =
     (let value = trim_space value0 in
      if value = [] then []
      else if hd value = CHR 34 \<or> hd value = CHR 39
      then (case index_byte (tl value) (hd value) of Some e \<Rightarrow> take e (tl value) | None \<Rightarrow> trim_set value [hd value])
      else (case index_sub value '' #'' of Some c \<Rightarrow> trim_space (take c value) | None \<Rightarrow> trim_space value))"

definition yamlEntry :: "string \<Rightarrow> (string \<times> string) option" where
  "yamlEntry line = (case cut line '':'' of (key, value, ok) \<Rightarrow> if ok then Some (yamlScalar key, value) else None)"

definition isBlockScalar :: "string \<Rightarrow> bool" where
  "isBlockScalar value0 =
     (let value = trim_space value0;
          value = (case index_sub value '' #'' of Some c \<Rightarrow> trim_space (take c value) | None \<Rightarrow> value)
      in if value = [] \<or> (hd value \<noteq> CHR ''|'' \<and> hd value \<noteq> CHR ''>'') then False
         else list_all (\<lambda>c. c \<in> set ''+-0123456789'') (tl value))"

definition indentOf :: "string \<Rightarrow> nat" where
  "indentOf line = length line - length (trim_left_set line '' '')"

definition has_key :: "string \<Rightarrow> string \<Rightarrow> bool" where
  "has_key k line = (case yamlEntry line of Some (key, _) \<Rightarrow> key = k | None \<Rightarrow> False)"

fun item_starts :: "string list \<Rightarrow> nat option \<Rightarrow> nat list \<Rightarrow> nat list" where
  "item_starts lines itemIndent [] = []"
| "item_starts lines itemIndent (i # is) =
     (let trimmed = trim_space (lines ! i) in
      if trimmed \<noteq> ''-'' \<and> \<not> prefix ''- '' trimmed then item_starts lines itemIndent is
      else let indent = indentOf (lines ! i)
        in case itemIndent of None \<Rightarrow> i # item_starts lines (Some indent) is
           | Some d \<Rightarrow> if indent = d then i # item_starts lines itemIndent is else item_starts lines itemIndent is)"

text \<open>Whether the item that spans the given lines declares the id: an error for an id that is a block scalar.\<close>

fun item_declares :: "string list \<Rightarrow> string \<Rightarrow> nat list \<Rightarrow> string + bool" where
  "item_declares lines ident [] = Inr False"
| "item_declares lines ident (i # is) = (case yamlEntry (trim_prefix (trim_space (lines ! i)) ''- '') of
     None \<Rightarrow> item_declares lines ident is
   | Some (key, value) \<Rightarrow>
     if key \<noteq> ''id'' then item_declares lines ident is
     else if isBlockScalar value
     then Inl (''rule id on line '' @ itoa (int i + 1) @ '' is a YAML block scalar, which this reader does not support; write it inline'')
     else if yamlScalar value = ident then Inr True
     else item_declares lines ident is)"

fun find_item :: "string list \<Rightarrow> string \<Rightarrow> nat list \<Rightarrow> string + (nat \<times> nat) option" where
  "find_item lines ident [] = Inr None"
| "find_item lines ident (start # rest) =
     (let to = (case rest of n # _ \<Rightarrow> n | [] \<Rightarrow> length lines)
      in case item_declares lines ident [start..<to] of
           Inl err \<Rightarrow> Inl err
         | Inr True \<Rightarrow> Inr (Some (start, to))
         | Inr False \<Rightarrow> find_item lines ident rest)"

definition ruleBlock :: "string list \<Rightarrow> string \<Rightarrow> string + (nat \<times> nat) option" where
  "ruleBlock lines ident = (case find (\<lambda>i. has_key ''rules'' (trim_space (lines ! i))) [0..<length lines] of
     None \<Rightarrow> Inr None
   | Some rulesAt \<Rightarrow> find_item lines ident (item_starts lines None [rulesAt + 1..<length lines]))"

text \<open>The regular expression in the constraint block of \<^verbatim>\<open>$NAME\<close>; the block ends at a smaller indent or at the next metavariable.\<close>

fun constraint_regex :: "(string \<Rightarrow> string + (string \<Rightarrow> bool)) \<Rightarrow> string \<Rightarrow> nat \<Rightarrow> string list \<Rightarrow> string + (string \<Rightarrow> bool)" where
  "constraint_regex compile ruleFile base [] = Inl (''no regex in the $NAME constraint block of '' @ ruleFile)"
| "constraint_regex compile ruleFile base (line # rest) =
     (let trimmed = trim_space line in
      if trimmed = [] \<or> prefix ''#'' trimmed then constraint_regex compile ruleFile base rest
      else if indentOf line < base \<or> has_key ''metavariable'' trimmed then Inl (''no regex in the $NAME constraint block of '' @ ruleFile)
      else case yamlEntry trimmed of
          None \<Rightarrow> constraint_regex compile ruleFile base rest
        | Some (key, value) \<Rightarrow>
          if key \<noteq> ''regex'' then constraint_regex compile ruleFile base rest
          else if isBlockScalar value
          then Inl (''the $NAME regex in '' @ ruleFile @ '' is a YAML block scalar, which this reader does not support; write it inline'')
          else (case compile (yamlScalar value) of
              Inl err \<Rightarrow> Inl (''compile $NAME regex from '' @ ruleFile @ '': '' @ err)
            | Inr re \<Rightarrow> Inr re))"

fun name_regex :: "(string \<Rightarrow> string + (string \<Rightarrow> bool)) \<Rightarrow> string \<Rightarrow> string \<Rightarrow> string list \<Rightarrow> string + (string \<Rightarrow> bool)" where
  "name_regex compile ruleFile ident [] = Inl (''no $NAME metavariable-regex in rule '' @ ident @ '' of '' @ ruleFile)"
| "name_regex compile ruleFile ident (line # rest) = (case yamlEntry (trim_space line) of
     None \<Rightarrow> name_regex compile ruleFile ident rest
   | Some (key, value) \<Rightarrow>
     if key \<noteq> ''metavariable'' \<or> yamlScalar value \<noteq> ''$NAME'' then name_regex compile ruleFile ident rest
     else constraint_regex compile ruleFile (indentOf line) rest)"

definition credentialNameRegex ::
  "(string \<Rightarrow> string + (string \<Rightarrow> bool)) \<Rightarrow> string \<Rightarrow> string + string list \<Rightarrow> string \<Rightarrow> string + (string \<Rightarrow> bool) option" where
  "credentialNameRegex compile ruleFile contents ident = (case contents of Inl err \<Rightarrow> Inl err
     | Inr lines \<Rightarrow> (case ruleBlock lines ident of
         Inl err \<Rightarrow> Inl (''read '' @ ruleFile @ '': '' @ err)
       | Inr None \<Rightarrow> Inr None
       | Inr (Some (lo, hi)) \<Rightarrow> (case name_regex compile ruleFile ident (drop lo (take hi lines)) of Inl err \<Rightarrow> Inl err | Inr re \<Rightarrow> Inr (Some re))))"

section \<open>Reading files\<close>

text \<open>What the gate reads: the working directory, the files by path, their syntax trees, the output of \<^verbatim>\<open>go list\<close> and the paths of the rule files.  A Unix host, so that
  \<^verbatim>\<open>filepath.ToSlash\<close> changes nothing.\<close>

record gate_env =
  getwd :: "string option"
  file_exists :: "string \<Rightarrow> bool"
  open_file :: "string \<Rightarrow> string + string"
  parse_file :: "string \<Rightarrow> string + ((nat \<Rightarrow> nat) \<times> raw_comment list \<times> ast)"
  go_list :: "string + string"
  glob_rules :: "string + string list"
  unquote :: "string \<Rightarrow> string option"
  compile :: "string \<Rightarrow> string + (string \<Rightarrow> bool)"
  render :: "ast \<Rightarrow> string option"

text \<open>\<^verbatim>\<open>bufio.Scanner\<close> with a buffer of one mebibyte: a line that does not fit is an error, and a carriage return before the line end is dropped.\<close>

definition maxLine :: nat where "maxLine = 1024 * 1024"

definition drop_cr :: "string \<Rightarrow> string" where
  "drop_cr l = (if l \<noteq> [] \<and> last l = CHR 13 then butlast l else l)"

definition scan_lines :: "string \<Rightarrow> string list" where
  "scan_lines content = (let ls = split_byte CHR 10 content in if last ls = [] then butlast ls else ls)"

definition readLines :: "gate_env \<Rightarrow> string \<Rightarrow> string + string list" where
  "readLines E path = (case open_file E path of Inl err \<Rightarrow> Inl err
     | Inr content \<Rightarrow> if list_all (\<lambda>l. length l < maxLine) (scan_lines content) then Inr (map drop_cr (scan_lines content))
                      else Inl ''bufio.Scanner: token too long'')"

fun declares_rule :: "gate_env \<Rightarrow> string list \<Rightarrow> string + bool" where
  "declares_rule E [] = Inr False"
| "declares_rule E (ruleFile # rules) = (case readLines E ruleFile of Inl err \<Rightarrow> Inl err
     | Inr lines \<Rightarrow> (case ruleBlock lines repoRuleID of
         Inl err \<Rightarrow> Inl (''read '' @ ruleFile @ '': '' @ err)
       | Inr (Some _) \<Rightarrow> Inr True
       | Inr None \<Rightarrow> declares_rule E rules))"

definition assertRuleReadable :: "gate_env \<Rightarrow> string option" where
  "assertRuleReadable E = (case glob_rules E of Inl err \<Rightarrow> Some (''list rule files: '' @ err)
     | Inr rules \<Rightarrow> (case declares_rule E rules of Inl err \<Rightarrow> Some err
       | Inr True \<Rightarrow> None
       | Inr False \<Rightarrow> Some (''no rule file under '' @ fixtureDir @ ''/ declares '' @ repoRuleID @
           ''; every check here is downstream of that rule, so this reader can no longer see what it checks'')))"

definition reachableFiles :: "gate_env \<Rightarrow> string + string list" where
  "reachableFiles E = (case go_list E of Inl err \<Rightarrow> Inl (''go list: '' @ err)
     | Inr out \<Rightarrow> let files = filter (\<lambda>l. l \<noteq> []) (map trim_space (split_byte CHR 10 out))
       in if files = [] then Inl ''go list reported no Go files; the census would pass vacuously'' else Inr files)"

section \<open>The checks of a file\<close>

definition parent_name :: "walk_path \<Rightarrow> string" where
  "parent_name p = (if fst p = [] then ''.'' else last (fst p))"

definition abs_path :: "gate_env \<Rightarrow> walk_path \<Rightarrow> string option" where
  "abs_path E p = map_option (\<lambda>wd. if wd = ''/'' then wd @ path_of p else wd @ ''/'' @ path_of p) (getwd E)"

definition checkReachable :: "gate_env \<Rightarrow> walk_path \<Rightarrow> string list \<Rightarrow> string list \<Rightarrow> violation list" where
  "checkReachable E p reachable lines =
     (if path_of p \<in> set gosecExempt then []
      else if parent_name p = fixtureDir then []
      else case abs_path E p of None \<Rightarrow> []
        | Some a \<Rightarrow>
          if a \<in> set reachable then []
          else [\<lparr>v_file = path_of p, v_line = 1, v_text = (case lines of l # _ \<Rightarrow> l | [] \<Rightarrow> []),
                 v_why = ''the go tool excludes this file from ./..., so gosec never reads it '' @ [CHR 0xE2, CHR 0x80, CHR 0x94] @
                   '' check its build constraints and filename, or record it in gosecExempt''\<rparr>])"

definition targetName :: "gate_env \<Rightarrow> ast \<Rightarrow> string option" where
  "targetName E e = (case render E e of None \<Rightarrow> None | Some n \<Rightarrow> if n = [] then None else Some n)"

text \<open>The credential bindings of one node: the line of each value, and the name it is bound to.\<close>

definition bound_pairs :: "(string \<Rightarrow> bool) \<Rightarrow> (string option \<times> ast) list \<Rightarrow> (nat \<times> string) list" where
  "bound_pairs credentialName ps = concat (map (\<lambda>(name, v). case name of None \<Rightarrow> []
     | Some n \<Rightarrow> if credentialName n \<and> isStringLiteral v then [(node_pos v, n)] else []) ps)"

definition fixture_bindings :: "gate_env \<Rightarrow> (string \<Rightarrow> bool) \<Rightarrow> ast \<Rightarrow> (nat \<times> string) list" where
  "fixture_bindings E credentialName n = (case n of
     ValueSpec ns vals \<Rightarrow> bound_pairs credentialName (zip (map (Some \<circ> snd) ns) vals)
   | AssignStmt lhs rhs \<Rightarrow> bound_pairs credentialName (zip (map (targetName E) lhs) rhs)
   | KeyValueExpr (Ident _ name) v \<Rightarrow> bound_pairs credentialName [(Some name, v)]
   | _ \<Rightarrow> [])"

definition fixture_visit ::
  "gate_env \<Rightarrow> (string \<Rightarrow> bool) \<Rightarrow> string \<Rightarrow> go_source \<Rightarrow> ast \<Rightarrow> int list \<times> violation list \<Rightarrow> bool \<times> int list \<times> violation list" where
  "fixture_visit E credentialName file s n st =
     (True, fold (\<lambda>(pos, name). report s file (lineOf s pos) (''planted credential '' @ name @ '' does not name '' @ registryID)) (fixture_bindings E credentialName n) st)"

definition positive_visit :: "string \<Rightarrow> go_source \<Rightarrow> comment \<Rightarrow> int list \<times> violation list \<Rightarrow> int list \<times> violation list" where
  "positive_visit file s c st =
     (if \<not> names (ruleIDs c) repoRuleID then st
      else let stmt = statement s c
        in if stmt < 1 then st else report s file stmt (''fixture positive for '' @ repoRuleID @ '' does not name '' @ registryID) st)"

definition rule_file :: "string \<Rightarrow> string" where
  "rule_file file = trim_suffix file ''.go'' @ ''.yml''"

definition checkFixture :: "gate_env \<Rightarrow> string \<Rightarrow> go_source \<Rightarrow> ast \<Rightarrow> string + violation list" where
  "checkFixture E file s parsed =
     (if \<not> file_exists E (rule_file file) then Inr []
      else case credentialNameRegex (compile E) (rule_file file) (readLines E (rule_file file)) repoRuleID of
          Inl err \<Rightarrow> Inl err
        | Inr None \<Rightarrow> Inr []
        | Inr (Some nameRe) \<Rightarrow>
          Inr (snd (inspect (fixture_visit E (\<lambda>n. nameRe n \<or> gosecCredentialName n) file s) parsed
                 (fold (positive_visit file s) (src_comments s) ([], [])))))"

section \<open>The walk\<close>

definition self :: string where "self = ''scripts/'' @ selfName"

text \<open>The callback for a file: an error ends the walk.\<close>

definition visit_file :: "gate_env \<Rightarrow> string list \<Rightarrow> walk_path \<Rightarrow> string + violation list" where
  "visit_file E reachable p =
     (let path = path_of p in
      if \<not> suffix ''.go'' (snd p) then Inr []
      else case readLines E path of Inl err \<Rightarrow> Inl err
        | Inr lines \<Rightarrow> (case parse_file E path of Inl err \<Rightarrow> Inl (''parse '' @ path @ '': '' @ err)
          | Inr (positions, rcs, parsed) \<Rightarrow>
            let s = newSource positions rcs lines;
                isSelf = (path = self);
                directives = (if isSelf then [] else check_directives path s @ checkReachable E p reachable lines);
                inFixtureDir = (parent_name p = fixtureDir);
                urls = (if path \<in> set gosecExempt \<or> isSelf \<or> inFixtureDir then checkURLLiterals (unquote E) path s parsed else [])
            in if \<not> inFixtureDir then Inr (directives @ urls)
               else case checkFixture E path s parsed of Inl err \<Rightarrow> Inl err | Inr vs \<Rightarrow> Inr (directives @ urls @ vs)))"

definition skip_dir :: "walk_path \<Rightarrow> bool" where
  "skip_dir p \<longleftrightarrow> snd p \<in> set notFirstParty"

definition walk_failed :: "walk_path \<Rightarrow> string \<Rightarrow> string + 'v list" where
  "walk_failed p err = Inl err"

definition scan :: "gate_env \<Rightarrow> entry list \<Rightarrow> string + violation list" where
  "scan E root = (case assertRuleReadable E of Some err \<Rightarrow> Inl err
     | None \<Rightarrow> (case reachableFiles E of Inl err \<Rightarrow> Inl err
       | Inr reachable \<Rightarrow> walkDir skip_dir walk_failed (visit_file E reachable) [] root))"

text \<open>\<^verbatim>\<open>main\<close>: the exit status and the lines it prints (on the error stream unless the status is 0).\<close>

definition gate_main :: "gate_env \<Rightarrow> entry list \<Rightarrow> nat \<times> string list" where
  "gate_main E root = (case scan E root of
     Inl err \<Rightarrow> (1, [''check_credential_directives: '' @ err])
   | Inr vs \<Rightarrow>
     if length vs > 0
     then (1, concat (map (\<lambda>v. [v_file v @ '':'' @ itoa (v_line v) @ '': '' @ v_why v, ''    '' @ trim_space (v_text v)]) vs) @
              [[], itoa (int (length vs)) @ '' credential suppression(s) missing '' @ registryID])
     else (0, [''==> credential suppression directives: OK'']))"

section \<open>What a clean scan means\<close>

lemma report_fresh: "snd (report s file line why ([], [])) = [] \<longleftrightarrow> namedInSlot s line"
  by (simp add: report_def)

lemma report_quiet: "namedInSlot s line \<Longrightarrow> report s file line why st = st"
  by (cases st) (simp add: report_def)

lemma report_grows: "snd st \<noteq> [] \<Longrightarrow> snd (report s file line why st) \<noteq> []"
  by (cases st) (simp add: report_def)

text \<open>A sequence of reports finds nothing exactly when every reported line names the registry id; each line is reported at most once.\<close>

lemma reports_grow: "snd st \<noteq> [] \<Longrightarrow> snd (fold (\<lambda>x. report s file (ln x) (why x)) xs st) \<noteq> []"
  by (induction xs arbitrary: st) (auto simp: report_grows)

lemma reports_nil: "snd (fold (\<lambda>x. report s file (ln x) (why x)) xs ([], [])) = [] \<longleftrightarrow> (\<forall>x \<in> set xs. namedInSlot s (ln x))"
proof (induction xs)
  case (Cons x xs)
  then show ?case
  proof (cases "namedInSlot s (ln x)")
    case False
    then have "snd (report s file (ln x) (why x) ([], [])) \<noteq> []" by (simp add: report_fresh)
    then show ?thesis using False reports_grow[where st = "report s file (ln x) (why x) ([], [])"] by simp
  qed (simp add: report_quiet)
qed simp

definition report_inv :: "int list \<times> violation list \<Rightarrow> bool" where
  "report_inv st \<longleftrightarrow> distinct (fst st) \<and> rev (fst st) = map v_line (snd st)"

lemma report_keeps: "report_inv st \<Longrightarrow> report_inv (report s file line why st)"
  by (cases st) (auto simp: report_inv_def report_def src_violation_def)

lemma reports_keep: "report_inv st \<Longrightarrow> report_inv (fold (\<lambda>x. report s file (ln x) (why x)) xs st)"
  by (induction xs arbitrary: st) (simp_all add: report_keeps)

lemma reports_nil_from:
  assumes "report_inv st"
  shows "snd (fold (\<lambda>x. report s file (ln x) (why x)) xs st) = [] \<longleftrightarrow> snd st = [] \<and> (\<forall>x \<in> set xs. namedInSlot s (ln x))"
proof (cases "snd st = []")
  case True
  then have "st = ([], [])" using assms by (cases st) (simp add: report_inv_def)
  then show ?thesis by (simp add: reports_nil)
qed (simp add: reports_grow)

text \<open>The directive check: every comment that names the repository's rule names the registry's too, and every comment that suppresses G101 governs a statement whose slot
  names it.\<close>

definition directives_ok :: "go_source \<Rightarrow> bool" where
  "directives_ok s \<longleftrightarrow> list_all (\<lambda>c. (repoRuleID \<in> set (nosemgrepIDs c) \<longrightarrow> registryID \<in> set (nosemgrepIDs c)) \<and>
     (nosecCoversG101 c \<longrightarrow> namedInSlot s (statement s c))) (src_comments s)"

lemma check_directives_nil: "check_directives file s = [] \<longleftrightarrow> directives_ok s"
  by (auto simp: check_directives_def directives_ok_def check_comment_def names_def Let_def list_all_iff)

text \<open>A literal, or a concatenation of literals, that is not part of a larger one.\<close>

definition is_text :: "(string \<Rightarrow> string option) \<Rightarrow> ast \<Rightarrow> bool" where
  "is_text unq n \<longleftrightarrow> concatLiteral unq n \<noteq> None"

definition url_sites :: "(string \<Rightarrow> string option) \<Rightarrow> ast \<Rightarrow> ast list" where
  "url_sites unq parsed = filter (\<lambda>n. case concatLiteral unq n of Some v \<Rightarrow> urlCredential v | None \<Rightarrow> False) (outermost (is_text unq) parsed)"

lemma url_fold:
  "fold (\<lambda>n st. snd (url_visit unq file s n st)) ns st =
   fold (\<lambda>n. report s file (lineOf s (node_pos n)) (''password in a URL does not name '' @ registryID))
     (filter (\<lambda>n. case concatLiteral unq n of Some v \<Rightarrow> urlCredential v | None \<Rightarrow> False) ns) st"
  by (induction ns arbitrary: st) (simp_all add: url_visit_def split: option.split)

lemma checkURLLiterals_fold:
  "checkURLLiterals unq file s parsed =
   snd (fold (\<lambda>n. report s file (lineOf s (node_pos n)) (''password in a URL does not name '' @ registryID)) (url_sites unq parsed) ([], []))"
proof -
  have "inspect (url_visit unq file s) parsed ([], []) = fold (\<lambda>n st. snd (url_visit unq file s n st)) (outermost (is_text unq) parsed) ([], [])"
    by (rule inspect_outermost(1)) (auto simp: url_visit_def is_text_def split: option.splits)
  then show ?thesis unfolding checkURLLiterals_def url_fold url_sites_def by simp
qed

definition urls_ok :: "(string \<Rightarrow> string option) \<Rightarrow> go_source \<Rightarrow> ast \<Rightarrow> bool" where
  "urls_ok unq s parsed \<longleftrightarrow> list_all (\<lambda>n. namedInSlot s (lineOf s (node_pos n))) (url_sites unq parsed)"

lemma checkURLLiterals_nil: "checkURLLiterals unq file s parsed = [] \<longleftrightarrow> urls_ok unq s parsed"
  unfolding checkURLLiterals_fold reports_nil urls_ok_def list_all_iff ..

text \<open>A clean fixture: every statement asserted to be a positive, and every credential binding, names the registry id.\<close>

definition positives :: "go_source \<Rightarrow> int list" where
  "positives s = filter (\<lambda>l. l \<ge> 1) (map (statement s) (filter (\<lambda>c. repoRuleID \<in> set (ruleIDs c)) (src_comments s)))"

definition fixture_ok :: "gate_env \<Rightarrow> (string \<Rightarrow> bool) \<Rightarrow> go_source \<Rightarrow> ast \<Rightarrow> bool" where
  "fixture_ok E credentialName s parsed \<longleftrightarrow> list_all (namedInSlot s) (positives s) \<and>
     list_all (\<lambda>n. list_all (\<lambda>(pos, name). namedInSlot s (lineOf s pos)) (fixture_bindings E credentialName n)) (nodes parsed)"

lemma positive_fold:
  "fold (positive_visit file s) cs st =
   fold (\<lambda>l. report s file l (''fixture positive for '' @ repoRuleID @ '' does not name '' @ registryID))
     (filter (\<lambda>l. l \<ge> 1) (map (statement s) (filter (\<lambda>c. repoRuleID \<in> set (ruleIDs c)) cs))) st"
  by (induction cs arbitrary: st) (auto simp: positive_visit_def names_def Let_def)

lemma binding_fold:
  "fold (\<lambda>n st. snd (fixture_visit E cn file s n st)) ns st =
   fold (\<lambda>x. report s file (lineOf s (fst x)) (''planted credential '' @ snd x @ '' does not name '' @ registryID)) (concat (map (fixture_bindings E cn) ns)) st"
  by (induction ns arbitrary: st) (simp_all add: fixture_visit_def case_prod_unfold)

lemma fixture_nil:
  "snd (inspect (fixture_visit E cn file s) parsed (fold (positive_visit file s) (src_comments s) ([], []))) = [] \<longleftrightarrow> fixture_ok E cn s parsed"
proof -
  define bs where "bs = concat (map (fixture_bindings E cn) (nodes parsed))"
  define st where "st = fold (positive_visit file s) (src_comments s) ([], [])"
  have insp: "inspect (fixture_visit E cn file s) parsed st =
      fold (\<lambda>x. report s file (lineOf s (fst x)) (''planted credential '' @ snd x @ '' does not name '' @ registryID)) bs st"
    unfolding bs_def binding_fold[symmetric] by (rule inspect_all(1)) (simp add: fixture_visit_def)
  have st: "snd st = [] \<longleftrightarrow> (\<forall>l \<in> set (positives s). namedInSlot s l)"
    unfolding st_def positive_fold positives_def by (rule reports_nil)
  have "(\<forall>x \<in> set bs. namedInSlot s (lineOf s (fst x))) \<longleftrightarrow>
      list_all (\<lambda>n. list_all (\<lambda>(pos, name). namedInSlot s (lineOf s pos)) (fixture_bindings E cn n)) (nodes parsed)"
    unfolding bs_def by (simp add: list_all_iff case_prod_unfold)
  moreover have "report_inv st" unfolding st_def positive_fold by (rule reports_keep) (simp add: report_inv_def)
  ultimately show ?thesis unfolding st_def[symmetric] insp fixture_ok_def reports_nil_from[OF \<open>report_inv st\<close>] st by (simp add: list_all_iff)
qed

interpretation cg: tree_gate skip_dir walk_failed "visit_file E reachable" for E reachable
  by unfold_locales (simp add: walk_failed_def)

definition reachable_ok :: "gate_env \<Rightarrow> string list \<Rightarrow> walk_path \<Rightarrow> bool" where
  "reachable_ok E reachable p \<longleftrightarrow> path_of p \<in> set gosecExempt \<or> parent_name p = fixtureDir \<or>
     (case abs_path E p of None \<Rightarrow> True | Some a \<Rightarrow> a \<in> set reachable)"

lemma checkReachable_nil: "checkReachable E p reachable lines = [] \<longleftrightarrow> reachable_ok E reachable p"
  by (auto simp: checkReachable_def reachable_ok_def split: option.split)

text \<open>What the gate promises of one Go file: it can be read; unless it is the gate itself, its directives are paired and gosec reads it or it is listed; where gosec does
  not read it, each password in a URL is named; a fixture of the rule names each planted credential.\<close>

definition file_ok :: "gate_env \<Rightarrow> string list \<Rightarrow> walk_path \<Rightarrow> bool" where
  "file_ok E reachable p =
     (case (readLines E (path_of p), parse_file E (path_of p)) of
        (Inr lines, Inr (positions, rcs, parsed)) \<Rightarrow>
          (let s = newSource positions rcs lines; unread = (parent_name p = fixtureDir) in
           (path_of p = self \<or> directives_ok s \<and> reachable_ok E reachable p) \<and>
           (path_of p \<in> set gosecExempt \<or> path_of p = self \<or> unread \<longrightarrow> urls_ok (unquote E) s parsed) \<and>
           (unread \<and> file_exists E (rule_file (path_of p)) \<longrightarrow>
              (case credentialNameRegex (compile E) (rule_file (path_of p)) (readLines E (rule_file (path_of p))) repoRuleID of
                 Inl _ \<Rightarrow> False | Inr None \<Rightarrow> True
               | Inr (Some nameRe) \<Rightarrow> fixture_ok E (\<lambda>n. nameRe n \<or> gosecCredentialName n) s parsed)))
      | _ \<Rightarrow> False)"

lemma checkFixture_clean:
  "checkFixture E file s parsed = Inr [] \<longleftrightarrow> (file_exists E (rule_file file) \<longrightarrow>
     (case credentialNameRegex (compile E) (rule_file file) (readLines E (rule_file file)) repoRuleID of
        Inl _ \<Rightarrow> False | Inr None \<Rightarrow> True
      | Inr (Some nameRe) \<Rightarrow> fixture_ok E (\<lambda>n. nameRe n \<or> gosecCredentialName n) s parsed))"
  by (auto simp: checkFixture_def fixture_nil split: sum.split option.split)

lemma visit_file_clean: "visit_file E reachable p = Inr [] \<longleftrightarrow> (suffix ''.go'' (snd p) \<longrightarrow> file_ok E reachable p)"
proof (cases "readLines E (path_of p)")
  case (Inr lines)
  show ?thesis
  proof (cases "parse_file E (path_of p)")
    case (Inr x)
    obtain positions rcs parsed where x: "x = (positions, rcs, parsed)" by (cases x)
    show ?thesis
      unfolding visit_file_def file_ok_def Let_def \<open>readLines E (path_of p) = Inr lines\<close> Inr x
      by (cases "checkFixture E (path_of p) (newSource positions rcs lines) parsed")
        (auto simp: check_directives_nil checkReachable_nil checkURLLiterals_nil checkFixture_clean[symmetric])
  qed (auto simp: visit_file_def file_ok_def Inr)
qed (auto simp: visit_file_def file_ok_def)

definition gate_ok :: "gate_env \<Rightarrow> entry list \<Rightarrow> bool" where
  "gate_ok E root \<longleftrightarrow> assertRuleReadable E = None \<and> readable_dirs skip_dir [] root \<and>
     (case reachableFiles E of Inl _ \<Rightarrow> False
      | Inr reachable \<Rightarrow> list_all (\<lambda>p. suffix ''.go'' (snd p) \<longrightarrow> file_ok E reachable p) (files_of skip_dir [] root))"

lemma scan_clean: "scan E root = Inr [] \<longleftrightarrow> gate_ok E root"
  unfolding scan_def gate_ok_def by (auto simp: cg.clean visit_file_clean split: option.split sum.split)

lemma gate_main_status: "fst (gate_main E root) = 0 \<longleftrightarrow> scan E root = Inr []"
  by (auto simp: gate_main_def split: sum.split)

text \<open>A rule file that declares the rule was found, and none before it stopped the search.\<close>

lemma declares_rule_found:
  "declares_rule E rules = Inr True \<Longrightarrow>
   \<exists>f lines lo hi. f \<in> set rules \<and> readLines E f = Inr lines \<and> ruleBlock lines repoRuleID = Inr (Some (lo, hi))"
proof (induction E rules rule: declares_rule.induct)
  case (2 E f rules)
  then show ?case
    by (cases "readLines E f"; cases "ruleBlock (projr (readLines E f)) repoRuleID") (fastforce split: option.splits)+
qed simp

section \<open>Directive lists\<close>

definition plain_id :: "string \<Rightarrow> bool" where
  "plain_id i \<longleftrightarrow> i \<noteq> [] \<and> list_all (\<lambda>c. byte c < 128 \<and> \<not> space_rune (byte c) \<and> c \<noteq> CHR '','' \<and> c \<noteq> CHR ''`'') i \<and> \<not> contains i ''--''"

lemma space_runes: "space_rune (byte CHR '' '')" "space_rune (byte (CHR 9))" "byte CHR '' '' < 128"
  by code_simp+

lemma trim_space_pad:
  assumes "set l \<subseteq> {CHR '' ''}" "list_all (\<lambda>c. byte c < 128 \<and> \<not> space_rune (byte c)) i" "set r \<subseteq> {CHR '' ''}" "i \<noteq> []"
  shows "trim_space (l @ i @ r) = i"
proof -
  define f where "f c = (of_char c :: nat, [c])" for c :: char
  let ?P = "space_rune \<circ> fst :: nat \<times> string \<Rightarrow> bool"
  have f: "fst (f c) = byte c" "snd (f c) = [c]" for c by (simp_all add: f_def)
  have i: "\<not> ?P (f c)" if "c \<in> set i" for c using assms(2) that by (simp add: f list_all_iff)
  have sp: "?P (f c)" if "c \<in> set l \<or> c \<in> set r" for c
  proof -
    have "c = CHR '' ''" using assms(1,3) that by blast
    then show ?thesis using space_runes(1) by (simp add: f)
  qed
  have "byte c < 128" if "c \<in> set (l @ i @ r)" for c
    using assms(1-3) that space_runes(3) unfolding list_all_iff by (metis (lifting) Un_iff set_append singletonD subsetD)
  then have "rune_chunks (l @ i @ r) = map f (l @ i @ r)"
    unfolding f_def by (intro rune_chunks_ascii) (simp only: list_all_iff, blast)
  moreover have "dropWhile ?P (map f l @ map f i @ map f r) = map f i @ map f r"
    using sp i assms(4) by (subst dropWhile_append2) (auto simp: neq_Nil_conv)
  moreover have "dropWhile ?P (rev (map f r) @ rev (map f i)) = rev (map f i)"
    using sp i by (subst dropWhile_append2) (auto intro!: dropWhile_none simp: list_all_iff)
  moreover have "concat (map snd (map f i)) = i" by (induction i) (simp_all add: f)
  ultimately show ?thesis by (simp add: trim_space_def)
qed

lemma plain_id_char:
  assumes "plain_id i" "c \<in> set i"
  shows "byte c < 128 \<and> \<not> space_rune (byte c)" "c \<noteq> CHR '','' \<and> c \<noteq> CHR ''`''" "c \<noteq> CHR '' '' \<and> c \<noteq> CHR 9"
proof -
  show "byte c < 128 \<and> \<not> space_rune (byte c)" "c \<noteq> CHR '','' \<and> c \<noteq> CHR ''`''"
    using assms by (simp_all add: plain_id_def list_all_iff)
  then show "c \<noteq> CHR '' '' \<and> c \<noteq> CHR 9" using space_runes by metis
qed

lemma rule_id_pad:
  assumes "plain_id i" "set l \<subseteq> {CHR '' ''}" "set r \<subseteq> {CHR '' ''}"
  shows "rule_id (l @ i @ r) = i"
proof -
  have "i \<noteq> []" using assms(1) by (simp add: plain_id_def)
  then have "trim_space (l @ i @ r) = i"
    using assms(2,3) plain_id_char(1)[OF assms(1)] by (intro trim_space_pad) (simp_all only: list_all_iff, blast+)
  moreover have "list_all (\<lambda>c. \<not> c \<in> set ''`'') i" using plain_id_char(2)[OF assms(1)] by (simp add: list_all_iff)
  then have "trim_set i ''`'' = i" unfolding trim_set_def by (simp only: dropWhile_none list_all_rev rev_rev_ident)
  moreover have "index_any i ('' '' @ [CHR 9] @ ''`'') = None"
    unfolding index_any_def index_where_None using plain_id_char(2,3)[OF assms(1)] by (simp add: list_all_iff)
  ultimately show ?thesis by (simp add: rule_id_def)
qed

lemma split_byte_plain: "c \<notin> set s \<Longrightarrow> split_byte c s = [s]"
  by (induction s) auto

lemma split_byte_head: "c \<notin> set s \<Longrightarrow> split_byte c (s @ c # t) = s # split_byte c t"
  by (induction s) auto

lemma split_ids:
  "ids \<noteq> [] \<Longrightarrow> list_all plain_id ids \<Longrightarrow> map rule_id (split_byte CHR '','' ('' '' @ join '', '' ids @ '' '')) = ids"
proof (induction "'', ''" ids rule: join.induct)
  case (2 i)
  then have "split_byte CHR '','' ('' '' @ i @ '' '') = ['' '' @ i @ '' '']"
    using plain_id_char(2)[of i "CHR '',''"] by (intro split_byte_plain) auto
  then show ?case using 2 rule_id_pad[of i "'' ''" "'' ''"] by simp
next
  case (3 i j ids)
  then have "CHR '','' \<notin> set ('' '' @ i)" using plain_id_char(2)[of i "CHR '',''"] by auto
  from split_byte_head[OF this, of "'' '' @ join '', '' (j # ids) @ '' ''"] show ?case
    using 3 rule_id_pad[of i "'' ''" "[]"] by simp
qed simp

definition no_dashes :: "string \<Rightarrow> bool" where
  "no_dashes = successively (\<lambda>a b. a \<noteq> CHR ''-'' \<or> b \<noteq> CHR ''-'')"

lemma no_dashes_plain: "\<not> contains s ''--'' \<Longrightarrow> no_dashes s"
  by (induction s rule: induct_list012) (auto simp: contains_def no_dashes_def split: if_splits)

lemma no_dashes_join: "list_all no_dashes ids \<Longrightarrow> no_dashes (join '', '' ids)"
  by (induction "'', ''" ids rule: join.induct) (auto simp: no_dashes_def successively_append_iff successively_Cons)

lemma index_dashes: "no_dashes s \<Longrightarrow> index_sub (s @ '' --'' @ t) ''--'' = Some (length s + 1)"
  by (induction s rule: induct_list012) (auto simp: no_dashes_def)

lemma before_reason_cut: "no_dashes s \<Longrightarrow> before_reason (s @ '' --'' @ t) = s @ '' ''"
  using index_dashes[of s t] by (simp add: before_reason_def cut_def)

text \<open>C35. A suppression comment that lists rule identifiers and gives a reason after a double dash names exactly those identifiers, in order, whatever the reason says
  (an identifier is a non-empty ASCII word without comma, backquote or double dash).\<close>

theorem nosemgrep_names_listed:
  assumes "texts c = [''nosemgrep: '' @ join '', '' ids @ '' -- '' @ reason]" "list_all plain_id ids" "ids \<noteq> []"
  shows "nosemgrepIDs c = ids"
proof -
  have "list_all no_dashes ids" using assms(2) no_dashes_plain unfolding list_all_iff plain_id_def by blast
  then have "no_dashes (join '', '' ids)" by (rule no_dashes_join)
  then have nd: "no_dashes ('' '' @ join '', '' ids)" by (simp add: no_dashes_def successively_Cons)
  have "nosemgrepIDs c = splitIDs (('' '' @ join '', '' ids) @ '' --'' @ '' '' @ reason)"
    using assms(1) by (simp add: nosemgrepIDs_def cut_prefix_def)
  also have "\<dots> = filter (\<lambda>i. i \<noteq> []) ids"
    unfolding splitIDs_def before_reason_cut[OF nd] using split_ids[OF assms(3,2)] by (simp only: append_assoc)
  also have "\<dots> = ids" using assms(2) by (auto simp: list_all_iff plain_id_def filter_id_conv)
  finally show ?thesis .
qed

theorem nosemgrep_names_listed_witness:
  "nosemgrepIDs \<lparr>startLine = 4, endLine = 4, inline = True, texts = [''nosemgrep: hardcoded-credential-literal, gosec.G101-1 -- fixture, not a secret'']\<rparr> =
   [repoRuleID, registryID]"
proof -
  have "list_all plain_id [repoRuleID, registryID]" by code_simp
  moreover have "''nosemgrep: hardcoded-credential-literal, gosec.G101-1 -- fixture, not a secret'' =
      ''nosemgrep: '' @ join '', '' [repoRuleID, registryID] @ '' -- '' @ ''fixture, not a secret''" by code_simp
  ultimately show ?thesis by (intro nosemgrep_names_listed[of _ _ "''fixture, not a secret''"]) simp_all
qed

section \<open>Split literals\<close>

text \<open>A sum of string literals, however it is bracketed by the parser, has the value of its literals in order.\<close>

fun leaves :: "ast \<Rightarrow> ast list" where
  "leaves (BinaryExpr isAdd x y) = (if isAdd then leaves x @ leaves y else [BinaryExpr isAdd x y])"
| "leaves e = [e]"

definition literal_value :: "(string \<Rightarrow> string option) \<Rightarrow> ast \<Rightarrow> string option" where
  "literal_value unq e = (case e of BasicLit _ True raw \<Rightarrow> Some (case unq raw of None \<Rightarrow> raw | Some v \<Rightarrow> v) | _ \<Rightarrow> None)"

lemma concatLiteral_leaves:
  "concatLiteral unq e = (if list_all (\<lambda>l. literal_value unq l \<noteq> None) (leaves e) then Some (concat (map (\<lambda>l. the (literal_value unq l)) (leaves e))) else None)"
  by (induction unq e rule: concatLiteral.induct) (auto simp: literal_value_def split: option.splits bool.splits if_splits)

lemma outermost_self: "P n \<Longrightarrow> outermost P n = [n]"
  by (simp add: outermost.simps)

text \<open>A password in a URL is reported wherever the literal is split: for every sum of string literals that is not part of a larger one, if the text of its literals in
  order holds a URL with a password, then the file is reported clean only if the line names the registry id; and no line is reported twice.\<close>

lemma split_url_reported:
  assumes "e \<in> set (outermost (is_text unq) parsed)" "list_all (\<lambda>l. literal_value unq l \<noteq> None) (leaves e)"
    "urlCredential (concat (map (\<lambda>l. the (literal_value unq l)) (leaves e)))" "\<not> namedInSlot s (lineOf s (node_pos e))"
  shows "checkURLLiterals unq file s parsed \<noteq> [] \<and> distinct (map v_line (checkURLLiterals unq file s parsed))"
proof -
  have "e \<in> set (url_sites unq parsed)" using assms(1-3) by (simp add: url_sites_def concatLiteral_leaves)
  then have "\<not> urls_ok unq s parsed" using assms(4) by (auto simp: urls_ok_def list_all_iff)
  moreover have "report_inv (fold (\<lambda>n. report s file (lineOf s (node_pos n)) (''password in a URL does not name '' @ registryID)) (url_sites unq parsed) ([], []))"
    by (rule reports_keep) (simp add: report_inv_def)
  then have "distinct (map v_line (checkURLLiterals unq file s parsed))"
    unfolding checkURLLiterals_fold report_inv_def by (metis distinct_rev)
  ultimately show ?thesis by (simp add: checkURLLiterals_nil)
qed

definition split_url :: ast where
  "split_url = BinaryExpr True (BinaryExpr True (BasicLit 3 True ''https://us'') (BasicLit 3 True ''er:'')) (BasicLit 4 True ''pw@host'')"

lemma split_url_reported_example:
  "checkURLLiterals Some ''x.go'' (newSource id [] []) (OtherNode 1 [split_url]) \<noteq> []"
proof -
  have "split_url \<in> set (outermost (is_text Some) (OtherNode 1 [split_url]))"
    by (simp add: outermost.simps is_text_def split_url_def)
  moreover have "list_all (\<lambda>l. literal_value Some l \<noteq> None) (leaves split_url)" by code_simp
  moreover have "urlCredential (concat (map (\<lambda>l. the (literal_value Some l)) (leaves split_url)))" by code_simp
  moreover have "\<not> namedInSlot (newSource id [] []) (lineOf (newSource id [] []) (node_pos split_url))" by code_simp
  ultimately show ?thesis using split_url_reported[of split_url Some "OtherNode 1 [split_url]" "newSource id [] []" "''x.go''"] by simp
qed

text \<open>A parenthesised operand is not a literal to the checker, so it takes the other operands out of the sum with it: neither half is a URL with a password.\<close>

lemma parenthesised_split_missed:
  "checkURLLiterals Some ''x.go'' (newSource id [] []) (BinaryExpr True (BasicLit 1 True ''https://user:'') (OtherNode 1 [BasicLit 1 True ''pw@host''])) = []"
proof -
  have "\<not> urlCredential ''https://user:''" "\<not> urlCredential ''pw@host''" by code_simp+
  then show ?thesis
    by (simp add: checkURLLiterals_nil urls_ok_def url_sites_def outermost.simps is_text_def)
qed

text \<open>The skip over a block comment looks for its end from its first character, so \<^verbatim>\<open>/*/\<close> is taken for a whole comment and the rest of that comment for code.\<close>

lemma isCode_slash_comment: "isCode ''/*/ x */''"
  by code_simp

section \<open>The gate\<close>


end
