(* ===== verification/PolicyGates.thy ===== *)
theory PolicyGates
  imports GoSyntax Prelude
begin

text \<open>
  The other gates of the build: \<^verbatim>\<open>scripts/check_integrations.go\<close> (which integrations are approved, their tiers, no global OpenTelemetry setters, no drivers in the
  root package), \<^verbatim>\<open>scripts/check_semconv_literals.go\<close> (no semantic-convention key as a literal), and the generator of the reserved-key catalog,
  \<^verbatim>\<open>internal/baggageattrs/cmd/gensemconv\<close>.

  The files, their syntax trees, the objects the type checker finds for identifiers (by position) and the output of \<^verbatim>\<open>go list\<close> are parameters.
\<close>

section \<open>Integrations\<close>

datatype stat_result = NotExist | StatError string | PlainFile | Directory

text \<open>An object of the type checker: an imported package name, with the path of what it imports and of its own package, or another one with its package.\<close>

datatype obj = PkgName "string option" "string option" | OtherObj "string option"

record policy_env =
  read_file :: "string \<Rightarrow> string + string"
  stat_path :: "string \<Rightarrow> stat_result"
  glob_adrs :: "string list option"
  parse_go :: "string \<Rightarrow> string + ast"
  uses :: "string \<Rightarrow> nat \<Rightarrow> obj option"
  position :: "string \<Rightarrow> nat \<Rightarrow> string"
  list_deps :: "string + string"

definition integrationDirs :: "string list" where
  "integrationDirs = [''http'', ''nats'', ''mongo'', ''gin'', ''resty'', ''redis'', ''minio'', ''elasticsearch'', ''cassandra'']"

definition otelModulePath :: string where "otelModulePath = ''go.opentelemetry.io/otel''"

definition setterNames :: "string list" where
  "setterNames = [''SetTracerProvider'', ''SetTextMapPropagator'', ''SetMeterProvider'', ''SetLoggerProvider'']"

definition is_instrumentation :: "string \<Rightarrow> bool" where
  "is_instrumentation module \<longleftrightarrow>
     prefix ''go.opentelemetry.io/contrib/instrumentation/'' module \<or>
     prefix ''github.com/akira-core/instrumentation-go/'' module \<or>
     module = ''github.com/minio/minio-go/v7'' \<or>
     module = ''github.com/elastic/go-elasticsearch/v8'' \<or>
     module = ''github.com/elastic/elastic-transport-go/v8'' \<or>
     module = ''github.com/grafana/pyroscope-go'' \<or>
     module = ''github.com/grafana/otel-profiling-go''"

definition line_module :: "string \<Rightarrow> string list" where
  "line_module line0 =
     (let line = trim_space line0 in
      if line = [] \<or> prefix ''//'' line \<or> line = ''require ('' \<or> line = '')'' then []
      else case GoStd.fields line of [] \<Rightarrow> [] | module # _ \<Rightarrow> if is_instrumentation module then [module] else [])"

definition instrumentationModules :: "policy_env \<Rightarrow> string \<Rightarrow> string + string list" where
  "instrumentationModules R path = (case read_file R path of Inl err \<Rightarrow> Inl (''read go.mod: '' @ err)
     | Inr body \<Rightarrow> Inr (concat (map line_module (split_byte CHR 10 body))))"

definition in_adr :: "string \<Rightarrow> string \<Rightarrow> bool" where
  "in_adr adr module \<longleftrightarrow> contains adr module \<or> contains adr (if prefix ''github.com/'' module then trim_prefix module ''github.com/'' else module)"

definition checkGoModIntegrations :: "policy_env \<Rightarrow> string list" where
  "checkGoModIntegrations R = (case instrumentationModules R ''go.mod'' of Inl err \<Rightarrow> [err]
     | Inr modules \<Rightarrow> (case read_file R ''docs/adr/0003-global-state-policy.md'' of Inl err \<Rightarrow> [''read ADR 0003: '' @ err]
       | Inr adr \<Rightarrow> map (\<lambda>m. ''ADR 0003 missing approved integration row for '' @ m) (filter (\<lambda>m. \<not> in_adr adr m) modules)))"

text \<open>The package path as a word: not after a word character, and before a slash, a space, a closing mark or the end.\<close>

definition word_byte :: "char \<Rightarrow> bool" where
  "word_byte c \<longleftrightarrow> c = CHR ''_'' \<or> is_lower c \<or> is_upper c \<or> is_digit c"

definition path_end :: "string \<Rightarrow> bool" where
  "path_end t = (case t of [] \<Rightarrow> True | c # _ \<Rightarrow> c \<in> {CHR ''/'', CHR 9, CHR 10, CHR 12, CHR 13, CHR '' '', CHR 34, CHR 39, CHR ''`'', CHR '')'', CHR '']''})"

fun mentions :: "bool \<Rightarrow> string \<Rightarrow> string \<Rightarrow> bool" where
  "mentions word dir [] = False"
| "mentions word dir (c # t) =
     ((word \<noteq> word_byte c \<and> prefix dir (c # t) \<and> path_end (drop (length dir) (c # t))) \<or> mentions (word_byte c) dir t)"

definition adrMentionsPackage :: "policy_env \<Rightarrow> string \<Rightarrow> bool" where
  "adrMentionsPackage R dir = (case glob_adrs R of None \<Rightarrow> False
     | Some matches \<Rightarrow> list_ex (\<lambda>f. case read_file R f of Inl _ \<Rightarrow> False | Inr body \<Rightarrow> mentions False dir body) matches)"

definition dir_tier :: "policy_env \<Rightarrow> string \<Rightarrow> string list" where
  "dir_tier R dir = (case stat_path R dir of
     NotExist \<Rightarrow> []
   | StatError err \<Rightarrow> [''stat '' @ dir @ '': '' @ err]
   | PlainFile \<Rightarrow> []
   | Directory \<Rightarrow> (case read_file R (dir @ ''/doc.go'') of
       Inl err \<Rightarrow> [dir @ ''/doc.go missing tier annotation: '' @ err]
     | Inr text0 \<Rightarrow>
       let hasT2 = contains text0 ''// Tier: T2''; hasT3 = contains text0 ''// Tier: T3''
       in (if \<not> hasT2 \<and> \<not> hasT3 then [dir @ ''/doc.go missing // Tier: T2 or // Tier: T3 annotation''] else []) @
          (if hasT3 \<and> \<not> adrMentionsPackage R dir then [dir @ '' is T3 but no ADR mentions the package path''] else [])))"

definition checkTierAnnotations :: "policy_env \<Rightarrow> string list" where
  "checkTierAnnotations R = concat (map (dir_tier R) integrationDirs)"

section \<open>Global setters\<close>

definition isOTelPackageRoot :: "obj option \<Rightarrow> bool" where
  "isOTelPackageRoot ob = (case ob of Some (PkgName (Some path) _) \<Rightarrow> path = otelModulePath | _ \<Rightarrow> False)"

definition isOTelObject :: "obj option \<Rightarrow> bool" where
  "isOTelObject ob = (case ob of None \<Rightarrow> False
     | Some x \<Rightarrow> isOTelPackageRoot ob \<or> (case x of PkgName _ pkg \<Rightarrow> pkg = Some otelModulePath | OtherObj pkg \<Rightarrow> pkg = Some otelModulePath))"

definition setter_errors :: "policy_env \<Rightarrow> string \<Rightarrow> ast \<Rightarrow> string list" where
  "setter_errors R path n = (case n of
     CallExpr (Ident pos name) _ \<Rightarrow>
       if name \<in> set setterNames \<and> isOTelObject (uses R path pos) then [position R path pos @ '': forbidden otel.'' @ name @ '' call''] else []
   | SelectorExpr (Ident pos _) _ sel \<Rightarrow>
       if isOTelPackageRoot (uses R path pos) \<and> sel \<in> set setterNames then [position R path pos @ '': forbidden otel.'' @ sel @ '' call''] else []
   | _ \<Rightarrow> [])"

definition shouldSkipDir :: "string \<Rightarrow> bool" where
  "shouldSkipDir name \<longleftrightarrow> name \<in> {''.git'', ''.gocache'', ''.gomodcache'', ''.gotmp'', ''node_modules'', ''vendor'', ''dist''}"

definition visit_setters :: "policy_env \<Rightarrow> walk_path \<Rightarrow> string + string list" where
  "visit_setters R p =
     (if \<not> suffix ''.go'' (snd p) \<or> suffix ''_test.go'' (snd p) then Inr []
      else case parse_go R (path_of p) of Inl err \<Rightarrow> Inr [''parse '' @ path_of p @ '': '' @ err]
        | Inr tree \<Rightarrow> Inr (inspect (\<lambda>n errs. (True, errs @ setter_errors R (path_of p) n)) tree []))"

definition setters_failed :: "walk_path \<Rightarrow> string \<Rightarrow> string + string list" where
  "setters_failed p err = Inr [''walk '' @ path_of p @ '': '' @ err]"

definition checkNoGlobalSetters :: "policy_env \<Rightarrow> entry list \<Rightarrow> string list" where
  "checkNoGlobalSetters R root = (case walkDir (\<lambda>p. shouldSkipDir (snd p)) setters_failed (visit_setters R) [] root of
     Inl err \<Rightarrow> [err] | Inr errs \<Rightarrow> errs)"

text \<open>The importer the type checker gets: every path imports, and the module root declares the setters.\<close>

definition packageName :: "string \<Rightarrow> string" where
  "packageName importPath =
     (let name = (case last_index_byte importPath CHR ''/'' of Some i \<Rightarrow> drop (i + 1) importPath | None \<Rightarrow> importPath)
      in if name = [] then ''pkg''
         else if list_all (\<lambda>r. r = 95 \<or> 65 \<le> r \<and> r \<le> 90 \<or> 97 \<le> r \<and> r \<le> 122 \<or> 48 \<le> r \<and> r \<le> 57) (runes name) then name else ''pkg'')"

record package =
  pkg_path :: string
  pkg_name :: string
  pkg_funcs :: "string list"

definition policyImporter :: "string \<Rightarrow> package" where
  "policyImporter path = \<lparr>pkg_path = path, pkg_name = packageName path, pkg_funcs = (if path = otelModulePath then setterNames else [])\<rparr>"

section \<open>Drivers\<close>

definition rootForbiddenDepPrefixes :: "string list" where
  "rootForbiddenDepPrefixes = [''github.com/elastic/'', ''github.com/gocql/'', ''github.com/minio/'', ''github.com/redis/'', ''go.mongodb.org/'']"

definition checkRootDoesNotLinkDrivers :: "policy_env \<Rightarrow> string list" where
  "checkRootDoesNotLinkDrivers R = (case list_deps R of Inl err \<Rightarrow> [''go list -deps .: '' @ err]
     | Inr out \<Rightarrow> concat (map (\<lambda>dep. concat (map (\<lambda>p. if prefix p dep
         then [''root package links '' @ dep @ '': integration drivers must stay out of the root package's dependency graph (ADR 0026 Option A / ADR 0027 '' @
               [CHR 0xC2, CHR 0xA7] @ ''5)''] else []) rootForbiddenDepPrefixes)) (split_byte CHR 10 (trim_space out))))"

definition integrations_main :: "policy_env \<Rightarrow> entry list \<Rightarrow> nat \<times> string list" where
  "integrations_main R root =
     (let errs = checkGoModIntegrations R @ checkTierAnnotations R @ checkNoGlobalSetters R root @ checkRootDoesNotLinkDrivers R
      in (if length errs > 0 then 1 else 0, errs))"

section \<open>Semantic-convention literals\<close>

definition semconvPackage :: string where "semconvPackage = ''go.opentelemetry.io/otel/semconv/v1.39.0''"
definition examplesDir :: string where "examplesDir = ''examples''"
definition skipDirs :: "string list" where "skipDirs = [''testdata'', ''vendor'']"

text \<open>The pinned package: where \<^verbatim>\<open>go list\<close> finds it (or the error, with what the command printed), its directory entries, and a syntax tree by path; \<^verbatim>\<open>ast.IsGenerated\<close> is
  read off the comments of a file.\<close>

record semconv_env =
  locate :: "(string \<times> string option) + string"
  read_dir :: "string \<Rightarrow> string + (string \<times> bool) list"
  parse_at :: "string \<Rightarrow> string + ast"
  isGenerated :: "string \<Rightarrow> bool"
  literal_of :: "string \<Rightarrow> string option"
  quoted_as :: "string \<Rightarrow> string"
  pos_text :: "string \<Rightarrow> nat \<Rightarrow> string"

text \<open>\<^verbatim>\<open>filepath.Join\<close> of a clean directory and a name.\<close>

definition join_dir :: "string \<Rightarrow> string \<Rightarrow> string" where
  "join_dir dir name = (if dir = [] then name else if last dir = CHR ''/'' then dir @ name else dir @ ''/'' @ name)"

definition attributeKeyCall :: "(string \<Rightarrow> string option) \<Rightarrow> ast \<Rightarrow> string option" where
  "attributeKeyCall unq node = (case node of
     CallExpr (SelectorExpr (Ident _ pkg) _ sel) [arg] \<Rightarrow> if sel = ''Key'' \<and> pkg = ''attribute'' then stringLiteral unq arg else None
   | _ \<Rightarrow> None)"

definition collect_keys :: "(string \<Rightarrow> string option) \<Rightarrow> ast \<Rightarrow> string list \<Rightarrow> string list" where
  "collect_keys unq tree ks = inspect (\<lambda>n ks. (True, case attributeKeyCall unq n of Some k \<Rightarrow> List.insert k ks | None \<Rightarrow> ks)) tree ks"

fun package_keys :: "semconv_env \<Rightarrow> string \<Rightarrow> (string \<times> bool) list \<Rightarrow> string list \<Rightarrow> string + string list" where
  "package_keys S dir [] ks = Inr ks"
| "package_keys S dir ((name, isDir) # es) ks =
     (if isDir \<or> \<not> suffix ''.go'' name \<or> suffix ''_test.go'' name then package_keys S dir es ks
      else case parse_at S (join_dir dir name) of Inl err \<Rightarrow> Inl err
        | Inr tree \<Rightarrow> package_keys S dir es (collect_keys (literal_of S) tree ks))"

definition semconvKeys :: "semconv_env \<Rightarrow> string + string list" where
  "semconvKeys S = (case locate S of
     Inl (err, stderr) \<Rightarrow> (case stderr of
         Some msg \<Rightarrow> if length msg > 0 then Inl (''locate '' @ semconvPackage @ '': '' @ err @ '': '' @ trim_space msg) else Inl (''locate '' @ semconvPackage @ '': '' @ err)
       | None \<Rightarrow> Inl (''locate '' @ semconvPackage @ '': '' @ err))
   | Inr out \<Rightarrow>
     let dir = trim_space out in
     case read_dir S dir of Inl err \<Rightarrow> Inl err
     | Inr entries \<Rightarrow> (case package_keys S dir entries [] of Inl err \<Rightarrow> Inl err
       | Inr ks \<Rightarrow> if length ks = 0 then Inl (''found no attribute.Key declarations in '' @ dir) else Inr ks))"

definition literal_visit :: "semconv_env \<Rightarrow> string list \<Rightarrow> string \<Rightarrow> ast \<Rightarrow> string list \<Rightarrow> bool \<times> string list" where
  "literal_visit S ks path n acc = (case n of
     ImportSpec _ \<Rightarrow> (False, acc)
   | BasicLit pos isString raw \<Rightarrow> (True, case stringLiteral (literal_of S) n of
       Some v \<Rightarrow> if v \<in> set ks then acc @ [pos_text S path pos @ '': '' @ quoted_as S v @ '' is a semconv attribute key''] else acc
     | None \<Rightarrow> acc)
   | _ \<Rightarrow> (True, acc))"

definition skip_semconv :: "walk_path \<Rightarrow> bool" where
  "skip_semconv p \<longleftrightarrow> prefix ''.'' (snd p) \<or> snd p \<in> set skipDirs \<or> path_of p = examplesDir"

definition visit_literals :: "semconv_env \<Rightarrow> string list \<Rightarrow> walk_path \<Rightarrow> string + string list" where
  "visit_literals S ks p =
     (if \<not> suffix ''.go'' (snd p) \<or> suffix ''_test.go'' (snd p) then Inr []
      else case parse_at S (path_of p) of Inl err \<Rightarrow> Inl err
        | Inr tree \<Rightarrow> if isGenerated S (path_of p) then Inr [] else Inr (inspect (literal_visit S ks (path_of p)) tree []))"

definition literals_failed :: "walk_path \<Rightarrow> string \<Rightarrow> string + string list" where
  "literals_failed p err = Inl err"

definition scan_literals :: "semconv_env \<Rightarrow> entry list \<Rightarrow> string list \<Rightarrow> string + string list" where
  "scan_literals S root ks = walkDir skip_semconv literals_failed (visit_literals S ks) [] root"

definition semconv_main :: "semconv_env \<Rightarrow> entry list \<Rightarrow> nat \<times> string list" where
  "semconv_main S root = (case semconvKeys S of Inl err \<Rightarrow> (1, [''check_semconv_literals: '' @ err])
     | Inr ks \<Rightarrow> (case scan_literals S root ks of Inl err \<Rightarrow> (1, [''check_semconv_literals: '' @ err])
       | Inr findings \<Rightarrow>
         if length findings > 0
         then (1, findings @ [itoa (int (length findings)) @ '' semconv attribute key(s) written as string literals; use the '' @ semconvPackage @
                '' constant instead (docs/semconv.md, Enforcement Rule 1)''])
         else (0, [])))"

section \<open>The catalog generator\<close>

definition catalog_visit :: "(string \<Rightarrow> string option) \<Rightarrow> ast \<Rightarrow> string list \<times> string list \<Rightarrow> bool \<times> string list \<times> string list" where
  "catalog_visit unq node st = (True, case st of (ks, ps) \<Rightarrow> (case node of
     CallExpr (SelectorExpr (Ident _ pkg) _ sel) (arg # args) \<Rightarrow>
       if pkg \<noteq> ''attribute'' then st
       else if sel = ''Key'' then (case stringLiteral unq arg of Some v \<Rightarrow> if v \<noteq> [] then (List.insert v ks, ps) else st | None \<Rightarrow> st)
       else (case arg of BinaryExpr True x _ \<Rightarrow> (case stringLiteral unq x of Some pre \<Rightarrow> if suffix ''.'' pre then (ks, List.insert pre ps) else st | None \<Rightarrow> st)
             | _ \<Rightarrow> st)
   | _ \<Rightarrow> st))"

definition collect_catalog :: "(string \<Rightarrow> string option) \<Rightarrow> ast \<Rightarrow> string list \<times> string list" where
  "collect_catalog unq parsed = inspect (catalog_visit unq) parsed ([], [''host.'', ''process.''])"

definition sorted_values :: "string list \<Rightarrow> string list" where
  "sorted_values values = sort (remdups values)"

text \<open>The lines of the file before formatting; \<open>q\<close> is the verb \<^verbatim>\<open>%q\<close>.\<close>

definition catalog_lines :: "(string \<Rightarrow> string) \<Rightarrow> string list \<Rightarrow> string list \<Rightarrow> string list" where
  "catalog_lines q keyList prefixList =
     [''// Code generated by go generate; DO NOT EDIT.'', [], ''package baggageattrs'', [], ''var semconvReservedKeys = map[string]struct{}{''] @
     map (\<lambda>k. [CHR 9] @ q k @ '': {},'') keyList @ [''}'', [], ''var semconvReservedPrefixes = []string{''] @
     map (\<lambda>p. [CHR 9] @ q p @ '','') prefixList @ [''}'']"

definition gen_run :: "semconv_env \<Rightarrow> (string \<Rightarrow> string + string) \<Rightarrow> (string \<Rightarrow> string \<Rightarrow> string option) \<Rightarrow> string option" where
  "gen_run S format write = (case locate S of Inl (err, _) \<Rightarrow> Some (''locate the pinned semconv module: '' @ err)
     | Inr out \<Rightarrow>
       let src = join_dir (trim_space out) ''attribute_group.go''
       in case parse_at S src of Inl err \<Rightarrow> Some (''parse '' @ src @ '': '' @ err)
       | Inr parsed \<Rightarrow>
         let (ks, ps) = collect_catalog (literal_of S) parsed;
             lines = catalog_lines (quoted_as S) (sorted_values (filter (\<lambda>k. k \<noteq> []) ks)) (sorted_values ps)
         in case format (concat (map (\<lambda>l. l @ [CHR 10]) lines)) of Inl err \<Rightarrow> Some (''format generated source: '' @ err)
            | Inr formatted \<Rightarrow> (case write ''semconv_reserved_gen.go'' formatted of Some err \<Rightarrow> Some (''write catalog: '' @ err) | None \<Rightarrow> None))"

section \<open>What a clean run means\<close>

interpretation sg: tree_gate "\<lambda>p. shouldSkipDir (snd p)" setters_failed "visit_setters R" for R
  by unfold_locales (simp add: setters_failed_def)

interpretation lg: tree_gate skip_semconv literals_failed "visit_literals S ks" for S ks
  by unfold_locales (simp add: literals_failed_def)

lemma fold_appends: "fold (\<lambda>n acc. acc @ f n) ns acc = acc @ concat (map f ns)"
  by (induction ns arbitrary: acc) simp_all

lemma inspect_appends: "inspect (\<lambda>n acc. (True, acc @ f n)) tree [] = concat (map f (nodes tree))"
proof -
  have "inspect (\<lambda>n acc. (True, acc @ f n)) tree [] = fold (\<lambda>n acc. snd (True, acc @ f n)) (nodes tree) []"
    by (rule inspect_all(1)) simp
  then show ?thesis by (simp add: fold_appends)
qed

text \<open>A node is a global setter: a call of a setter the type checker places in the OpenTelemetry module, or a setter selected from it.\<close>

definition global_setter :: "policy_env \<Rightarrow> string \<Rightarrow> ast \<Rightarrow> bool" where
  "global_setter R path n = (case n of
     CallExpr (Ident pos name) _ \<Rightarrow> name \<in> set setterNames \<and> isOTelObject (uses R path pos)
   | SelectorExpr (Ident pos _) _ sel \<Rightarrow> sel \<in> set setterNames \<and> isOTelPackageRoot (uses R path pos)
   | _ \<Rightarrow> False)"

lemma setter_errors_nil: "setter_errors R path n = [] \<longleftrightarrow> \<not> global_setter R path n"
  by (auto simp: setter_errors_def global_setter_def split: ast.split)

definition source_ok :: "policy_env \<Rightarrow> walk_path \<Rightarrow> bool" where
  "source_ok R p \<longleftrightarrow> \<not> suffix ''.go'' (snd p) \<or> suffix ''_test.go'' (snd p) \<or>
     (case parse_go R (path_of p) of Inl _ \<Rightarrow> False | Inr tree \<Rightarrow> list_all (\<lambda>n. \<not> global_setter R (path_of p) n) (nodes tree))"

lemma visit_setters_clean: "visit_setters R p = Inr [] \<longleftrightarrow> source_ok R p"
  by (auto simp: visit_setters_def source_ok_def inspect_appends setter_errors_nil list_all_iff split: sum.split)

lemma walk_setters_total: "\<exists>errs. walkDir skip setters_failed (visit_setters R) dir root = Inr errs"
proof (induction skip dir root rule: files_of.induct)
  case (2 skip dir n es)
  moreover have "\<exists>vs. visit_setters R (dir, n) = Inr vs" by (auto simp: visit_setters_def split: sum.split)
  ultimately show ?case by fastforce
qed (auto simp: setters_failed_def)

lemma checkNoGlobalSetters_nil:
  "checkNoGlobalSetters R root = [] \<longleftrightarrow> readable_dirs (\<lambda>p. shouldSkipDir (snd p)) [] root \<and>
     list_all (source_ok R) (files_of (\<lambda>p. shouldSkipDir (snd p)) [] root)"
proof -
  obtain errs where w: "walkDir (\<lambda>p. shouldSkipDir (snd p)) setters_failed (visit_setters R) [] root = Inr errs"
    using walk_setters_total by blast
  then have "checkNoGlobalSetters R root = [] \<longleftrightarrow> walkDir (\<lambda>p. shouldSkipDir (snd p)) setters_failed (visit_setters R) [] root = Inr []"
    by (simp add: checkNoGlobalSetters_def)
  then show ?thesis unfolding sg.clean visit_setters_clean .
qed

definition modules_ok :: "policy_env \<Rightarrow> bool" where
  "modules_ok R = (case (instrumentationModules R ''go.mod'', read_file R ''docs/adr/0003-global-state-policy.md'') of
     (Inr modules, Inr adr) \<Rightarrow> list_all (in_adr adr) modules | _ \<Rightarrow> False)"

definition tier_ok :: "policy_env \<Rightarrow> string \<Rightarrow> bool" where
  "tier_ok R dir = (case stat_path R dir of StatError _ \<Rightarrow> False
     | Directory \<Rightarrow> (case read_file R (dir @ ''/doc.go'') of Inl _ \<Rightarrow> False
       | Inr doc \<Rightarrow> contains doc ''// Tier: T3'' \<and> adrMentionsPackage R dir \<or> contains doc ''// Tier: T2'' \<and> \<not> contains doc ''// Tier: T3'')
     | _ \<Rightarrow> True)"

definition deps_ok :: "policy_env \<Rightarrow> bool" where
  "deps_ok R = (case list_deps R of Inl _ \<Rightarrow> False
     | Inr out \<Rightarrow> list_all (\<lambda>dep. list_all (\<lambda>p. \<not> prefix p dep) rootForbiddenDepPrefixes) (split_byte CHR 10 (trim_space out)))"

lemma checkGoModIntegrations_nil: "checkGoModIntegrations R = [] \<longleftrightarrow> modules_ok R"
  by (auto simp: checkGoModIntegrations_def modules_ok_def filter_empty_conv list_all_iff split: sum.split)

lemma dir_tier_nil: "dir_tier R dir = [] \<longleftrightarrow> tier_ok R dir"
  by (auto simp: dir_tier_def tier_ok_def Let_def split: sum.split stat_result.split)

lemma checkRootDoesNotLinkDrivers_nil: "checkRootDoesNotLinkDrivers R = [] \<longleftrightarrow> deps_ok R"
  by (auto simp: checkRootDoesNotLinkDrivers_def deps_ok_def list_all_iff split: sum.split)


text \<open>A module required on a line of its own, outside a block, is not seen: the first word of that line is the keyword.\<close>

lemma single_line_require_missed:
  "line_module ''require go.opentelemetry.io/contrib/instrumentation/runtime v0.71.0'' = []"
  by code_simp

section \<open>Keys and literals\<close>

fun is_import :: "ast \<Rightarrow> bool" where
  "is_import (ImportSpec _) = True"
| "is_import _ = False"

definition key_literal :: "(string \<Rightarrow> string option) \<Rightarrow> string list \<Rightarrow> ast \<Rightarrow> bool" where
  "key_literal unq ks n = (case stringLiteral unq n of Some v \<Rightarrow> v \<in> set ks | None \<Rightarrow> False)"

lemma literal_visit_append: "snd (literal_visit S ks path n acc) = acc @ snd (literal_visit S ks path n [])"
  by (auto simp: literal_visit_def split: ast.split option.split)

lemma literal_fold:
  "fold (\<lambda>n acc. snd (literal_visit S ks path n acc)) ns acc = acc @ concat (map (\<lambda>n. snd (literal_visit S ks path n [])) ns)"
  unfolding fold_appends[symmetric] by (rule fold_cong) (auto simp: fun_eq_iff intro: literal_visit_append)

lemma literal_found: "snd (literal_visit S ks path n []) = [] \<longleftrightarrow> \<not> key_literal (literal_of S) ks n"
  by (auto simp: literal_visit_def key_literal_def stringLiteral_def split: ast.split option.split)

lemma visit_literals_clean:
  "visit_literals S ks p = Inr [] \<longleftrightarrow> \<not> suffix ''.go'' (snd p) \<or> suffix ''_test.go'' (snd p) \<or>
     (case parse_at S (path_of p) of Inl _ \<Rightarrow> False
      | Inr tree \<Rightarrow> isGenerated S (path_of p) \<or> list_all (\<lambda>n. \<not> key_literal (literal_of S) ks n) (nodes_until is_import tree))"
proof -
  have "inspect (literal_visit S ks path) tree [] = fold (\<lambda>n acc. snd (literal_visit S ks path n acc)) (nodes_until is_import tree) []" for path tree
    by (rule inspect_until(1)) (auto simp: literal_visit_def elim: is_import.elims split: ast.split)
  then show ?thesis
    by (auto simp: visit_literals_def literal_fold literal_found list_all_iff split: sum.split)
qed

lemma key_fold:
  "set (fold (\<lambda>n ks. case attributeKeyCall unq n of Some k \<Rightarrow> List.insert k ks | None \<Rightarrow> ks) ns ks) = set ks \<union> {k. \<exists>n \<in> set ns. attributeKeyCall unq n = Some k}"
  by (induction ns arbitrary: ks) (auto split: option.split)

lemma set_collect_keys: "set (collect_keys unq tree ks) = set ks \<union> {k. \<exists>n \<in> set (nodes tree). attributeKeyCall unq n = Some k}"
proof -
  have "collect_keys unq tree ks = fold (\<lambda>n ks. case attributeKeyCall unq n of Some k \<Rightarrow> List.insert k ks | None \<Rightarrow> ks) (nodes tree) ks"
    unfolding collect_keys_def by (subst inspect_all(1)) simp_all
  then show ?thesis by (simp add: key_fold)
qed

lemma package_keys_grow: "package_keys S dir es ks = Inr ks' \<Longrightarrow> set ks \<subseteq> set ks'"
  by (induction S dir es ks rule: package_keys.induct) (auto simp: set_collect_keys split: if_splits sum.splits)

lemma package_keys_has:
  assumes "package_keys S dir es ks = Inr ks'" "(name, False) \<in> set es" "suffix ''.go'' name" "\<not> suffix ''_test.go'' name"
    "parse_at S (join_dir dir name) = Inr tree" "n \<in> set (nodes tree)" "attributeKeyCall (literal_of S) n = Some k"
  shows "k \<in> set ks'"
  using assms
proof (induction S dir es ks rule: package_keys.induct)
  case (2 S dir nm isDir es ks)
  show ?case
  proof (cases "(nm, isDir) = (name, False)")
    case True
    then have "package_keys S dir es (collect_keys (literal_of S) tree ks) = Inr ks'" using 2 by simp
    moreover have "k \<in> set (collect_keys (literal_of S) tree ks)" using 2(8,9) by (auto simp: set_collect_keys)
    ultimately show ?thesis using package_keys_grow by blast
  next
    case False
    then show ?thesis using 2 by (auto split: if_splits sum.splits)
  qed
qed simp

definition literals_ok :: "semconv_env \<Rightarrow> string list \<Rightarrow> walk_path \<Rightarrow> bool" where
  "literals_ok S ks p \<longleftrightarrow> \<not> suffix ''.go'' (snd p) \<or> suffix ''_test.go'' (snd p) \<or>
     (case parse_at S (path_of p) of Inl _ \<Rightarrow> False
      | Inr tree \<Rightarrow> isGenerated S (path_of p) \<or> list_all (\<lambda>n. \<not> key_literal (literal_of S) ks n) (nodes_until is_import tree))"

text \<open>The literal gate passes exactly when the pinned package can be read and declares a key, every directory of SDK code can be read, every Go file there outside tests
  parses, and no such file that is not generated has, outside its imports, a string literal whose value is a declared key.\<close>

lemma semconv_gate_exact:
  "fst (semconv_main S root) = 0 \<longleftrightarrow>
     (case semconvKeys S of Inl _ \<Rightarrow> False
      | Inr ks \<Rightarrow> readable_dirs skip_semconv [] root \<and> list_all (literals_ok S ks) (files_of skip_semconv [] root))"
proof (cases "semconvKeys S")
  case (Inr ks)
  have "fst (semconv_main S root) = 0 \<longleftrightarrow> scan_literals S root ks = Inr []"
    by (auto simp: semconv_main_def Inr split: sum.split)
  also have "\<dots> \<longleftrightarrow> readable_dirs skip_semconv [] root \<and> list_all (literals_ok S ks) (files_of skip_semconv [] root)"
    unfolding scan_literals_def lg.clean visit_literals_clean literals_ok_def[symmetric] ..
  finally show ?thesis by (simp add: Inr)
qed (simp add: semconv_main_def split: prod.split option.split)

section \<open>The catalog\<close>

definition catalog_key :: "(string \<Rightarrow> string option) \<Rightarrow> ast \<Rightarrow> string option" where
  "catalog_key unq n = (case n of
     CallExpr (SelectorExpr (Ident _ pkg) _ sel) (arg # args) \<Rightarrow>
       if pkg = ''attribute'' \<and> sel = ''Key'' then (case stringLiteral unq arg of Some v \<Rightarrow> if v \<noteq> [] then Some v else None | None \<Rightarrow> None) else None
   | _ \<Rightarrow> None)"

definition catalog_prefix :: "(string \<Rightarrow> string option) \<Rightarrow> ast \<Rightarrow> string option" where
  "catalog_prefix unq n = (case n of
     CallExpr (SelectorExpr (Ident _ pkg) _ sel) (BinaryExpr True x _ # args) \<Rightarrow>
       if pkg = ''attribute'' \<and> sel \<noteq> ''Key'' then (case stringLiteral unq x of Some v \<Rightarrow> if suffix ''.'' v then Some v else None | None \<Rightarrow> None) else None
   | _ \<Rightarrow> None)"

lemma catalog_key_nonempty: "catalog_key unq n = Some k \<Longrightarrow> k \<noteq> []"
  by (auto simp: catalog_key_def split: ast.splits list.splits if_splits option.splits)

lemma catalog_prefix_dot: "catalog_prefix unq n = Some p \<Longrightarrow> suffix ''.'' p"
  by (auto simp: catalog_prefix_def split: ast.splits list.splits if_splits option.splits bool.splits)

lemma catalog_visit_step:
  "snd (catalog_visit unq n (ks, ps)) =
     ((case catalog_key unq n of Some k \<Rightarrow> List.insert k ks | None \<Rightarrow> ks), (case catalog_prefix unq n of Some p \<Rightarrow> List.insert p ps | None \<Rightarrow> ps))"
  by (auto simp: catalog_visit_def catalog_key_def catalog_prefix_def split: ast.split list.split option.split bool.split)

lemma catalog_fold:
  "fold (\<lambda>n st. snd (catalog_visit unq n st)) ns (ks, ps) = (ks', ps') \<Longrightarrow>
   set ks' = set ks \<union> {k. \<exists>n \<in> set ns. catalog_key unq n = Some k} \<and> set ps' = set ps \<union> {p. \<exists>n \<in> set ns. catalog_prefix unq n = Some p}"
  by (induction ns arbitrary: ks ps) (auto simp: catalog_visit_step split: option.splits)

lemma collect_catalog_sets:
  assumes "collect_catalog unq tree = (ks, ps)"
  shows "set ks = {k. \<exists>n \<in> set (nodes tree). catalog_key unq n = Some k}"
    "set ps = {''host.'', ''process.''} \<union> {p. \<exists>n \<in> set (nodes tree). catalog_prefix unq n = Some p}"
proof -
  have "collect_catalog unq tree = fold (\<lambda>n st. snd (catalog_visit unq n st)) (nodes tree) ([], [''host.'', ''process.''])"
    unfolding collect_catalog_def by (rule inspect_all(1)) (simp add: catalog_visit_def)
  then show "set ks = {k. \<exists>n \<in> set (nodes tree). catalog_key unq n = Some k}"
    "set ps = {''host.'', ''process.''} \<union> {p. \<exists>n \<in> set (nodes tree). catalog_prefix unq n = Some p}"
    using assms catalog_fold[of unq "nodes tree" "[]" "[''host.'', ''process.'']" ks ps] by auto
qed

lemma sorted_values_strict: "sorted_wrt (<) (sorted_values vs)" "set (sorted_values vs) = set vs"
  by (simp_all add: sorted_values_def strict_sorted_iff)

text \<open>A call with one argument that gives the generator a key gives the checker the same key.\<close>

definition one_argument :: "ast \<Rightarrow> bool" where
  "one_argument n = (case n of CallExpr _ args \<Rightarrow> length args \<le> 1 | _ \<Rightarrow> True)"

lemma catalog_key_call: "catalog_key unq n = Some k \<Longrightarrow> one_argument n \<Longrightarrow> attributeKeyCall unq n = Some k"
  by (auto simp: catalog_key_def attributeKeyCall_def one_argument_def split: ast.splits list.splits if_splits option.splits)

text \<open>The reserved-key catalog and the literal gate agree: when both read the same pinned package (whose key constructors take one argument), every key the generator
  writes is a key the gate looks for, the generator writes its keys strictly ascending, none of them empty, and every prefix it writes ends in a dot.\<close>

lemma catalog_keys_policed:
  assumes "semconvKeys S = Inr ks" "locate S = Inr out" "read_dir S (trim_space out) = Inr entries" "(''attribute_group.go'', False) \<in> set entries"
    "parse_at S (join_dir (trim_space out) ''attribute_group.go'') = Inr tree" "list_all one_argument (nodes tree)"
    "collect_catalog (literal_of S) tree = (cks, ps)"
  shows "set (sorted_values cks) \<subseteq> set ks \<and> sorted_wrt (<) (sorted_values cks) \<and> [] \<notin> set cks \<and> list_all (suffix ''.'') (sorted_values ps)"
proof -
  have pk: "package_keys S (trim_space out) entries [] = Inr ks"
    using assms(1-3) by (auto simp: semconvKeys_def Let_def split: sum.splits if_splits)
  have go: "suffix ''.go'' ''attribute_group.go''" "\<not> suffix ''_test.go'' ''attribute_group.go''" by code_simp+
  have dots: "suffix ''.'' ''host.''" "suffix ''.'' ''process.''" by code_simp+
  have "k \<in> set ks" if k: "k \<in> set cks" for k
  proof -
    obtain n where n: "n \<in> set (nodes tree)" "catalog_key (literal_of S) n = Some k"
      using k collect_catalog_sets(1)[OF assms(7)] by blast
    then have "attributeKeyCall (literal_of S) n = Some k" using assms(6) by (auto simp: list_all_iff intro: catalog_key_call)
    then show ?thesis using package_keys_has[OF pk assms(4) go assms(5) n(1)] by blast
  qed
  moreover have "[] \<notin> set cks"
    unfolding collect_catalog_sets(1)[OF assms(7)] using catalog_key_nonempty by blast
  moreover have "suffix ''.'' p" if "p \<in> set ps" for p
    using that catalog_prefix_dot dots unfolding collect_catalog_sets(2)[OF assms(7)] by blast
  ultimately show ?thesis by (auto simp: sorted_values_strict list_all_iff)
qed

definition demo_key_call :: ast where
  "demo_key_call = CallExpr (SelectorExpr (Ident 1 ''attribute'') 2 ''Key'') [BasicLit 3 True ''db.system'']"

definition demo_semconv :: semconv_env where
  "demo_semconv = \<lparr>locate = Inr ''/sc'', read_dir = (\<lambda>_. Inr [(''attribute_group.go'', False)]), parse_at = (\<lambda>_. Inr (OtherNode 0 [demo_key_call])),
     isGenerated = (\<lambda>_. False), literal_of = Some, quoted_as = (\<lambda>t. t), pos_text = (\<lambda>_ _. [])\<rparr>"

lemma catalog_keys_policed_example:
  "semconvKeys demo_semconv = Inr [''db.system''] \<and> set (sorted_values [''db.system'']) \<subseteq> set [''db.system'']"
proof -
  have 1: "semconvKeys demo_semconv = Inr [''db.system'']" by code_simp
  have 2: "locate demo_semconv = Inr ''/sc''" "read_dir demo_semconv (trim_space ''/sc'') = Inr [(''attribute_group.go'', False)]"
    "parse_at demo_semconv (join_dir (trim_space ''/sc'') ''attribute_group.go'') = Inr (OtherNode 0 [demo_key_call])"
    by (simp_all add: demo_semconv_def)
  have 3: "list_all one_argument (nodes (OtherNode 0 [demo_key_call]))" by (simp add: nodes.simps one_argument_def demo_key_call_def)
  have 4: "collect_catalog (literal_of demo_semconv) (OtherNode 0 [demo_key_call]) = ([''db.system''], [''host.'', ''process.''])"
    by (simp add: collect_catalog_def inspect.simps catalog_visit_def demo_key_call_def demo_semconv_def stringLiteral_def)
  show ?thesis using 1 catalog_keys_policed[OF 1 2(1,2) _ 2(3) 3 4] by simp
qed

end
