(* ===== verification/Spec2Isabelle.thy ===== *)
theory Spec2Isabelle
  imports Repeat Metricscap PromCap PoolMetrics Connid Labels Views Baggage Log ExportStats Cassandra MongoClient RedisClient Elasticsearch Minio Nats Resty Web LogrSink SdkInit Facade CredGate PolicyGates
begin

text \<open>
  A verification development of the o11y SDK, a Go library that sets up traces, metrics, logs and continuous
  profiling for a service and instruments the clients it uses.

  \<^bold>\<open>The program and its parts.\<close>  A service calls \<^verbatim>\<open>o11y.Init\<close> with options.  \<^verbatim>\<open>Init\<close> applies them to a configuration
  (\<^verbatim>\<open>options.go\<close>), validates it together with the environment (\<^verbatim>\<open>endpoint.go\<close>, \<^verbatim>\<open>diagnostics.go\<close>), builds the
  resource and the baggage whitelist, and starts the enabled pillars: the tracer (\<^verbatim>\<open>internal/trace\<close>), the meter
  (\<^verbatim>\<open>internal/metrics\<close>, with the cardinality caps of \<^verbatim>\<open>internal/metricscap\<close> and the views of
  \<^verbatim>\<open>internal/views\<close>), the logger (\<^verbatim>\<open>internal/log\<close>) and the profiler (\<^verbatim>\<open>internal/profiling\<close>).  Diagnostics of the
  SDK itself pass through \<^verbatim>\<open>internal/redact\<close> and \<^verbatim>\<open>internal/repeat\<close>.  \<^verbatim>\<open>ForceFlush\<close> and \<^verbatim>\<open>Shutdown\<close> end its life.
  The integrations (\<^verbatim>\<open>cassandra\<close>, \<^verbatim>\<open>elasticsearch\<close>, \<^verbatim>\<open>gin\<close>, \<^verbatim>\<open>http\<close>, \<^verbatim>\<open>minio\<close>, \<^verbatim>\<open>mongo\<close>, \<^verbatim>\<open>nats\<close>, \<^verbatim>\<open>redis\<close>, \<^verbatim>\<open>resty\<close>) emit spans and
  measurements for one client or server each; their measurements pass the views and the reserved-key guard of the meter.

  \<^bold>\<open>Library.\<close>  \<^verbatim>\<open>Prelude\<close> holds the generic lemmas and the shared types (attributes, instants, association lists for
  Go maps); \<^verbatim>\<open>GoStd\<close> the parts of Go's standard library the code calls, on byte strings: UTF-8, \<^verbatim>\<open>strings\<close>,
  \<^verbatim>\<open>strconv\<close>, host and port; \<^verbatim>\<open>Telemetry\<close> spans and measurements as values; \<^verbatim>\<open>Progress\<close> the locale \<^verbatim>\<open>progressing\<close> of goroutines that end by
  themselves, interpreted for the two forwarding goroutines; \<^verbatim>\<open>GoSyntax\<close> Go syntax trees with \<^verbatim>\<open>ast.Inspect\<close> and directory walks with
  \<^verbatim>\<open>filepath.WalkDir\<close>, with the locale \<^verbatim>\<open>tree_gate\<close> of gates that walk a tree, interpreted for the three of them.

  \<^bold>\<open>Theories and source.\<close>
  \<^item> \<^verbatim>\<open>Repeat\<close>: \<^verbatim>\<open>internal/repeat/repeat.go\<close> and the scrape logger of \<^verbatim>\<open>internal/metrics/scrapelog.go\<close>.  The locale
    \<^verbatim>\<open>suppressor_contract\<close> states what a suppressor promises, \<^verbatim>\<open>limited_logger\<close> what a logger behind one does; rate
    limits are proved once for both and used for the scrape logger and the OTel error handler.
  \<^item> \<^verbatim>\<open>Metricscap\<close>, \<^verbatim>\<open>PromCap\<close>: \<^verbatim>\<open>internal/metricscap/reader.go\<close>.  Capped cardinality over any number of cycles,
    conservation of totals, merging as a reference grouping.
  \<^item> \<^verbatim>\<open>Labels\<close>, \<^verbatim>\<open>Views\<close>: \<^verbatim>\<open>internal/metrics\<close> and \<^verbatim>\<open>internal/views\<close>.  The reserved-key check against the
    normalised label, resource and scope attributes (locale \<^verbatim>\<open>first_wins\<close>), views, bucket overrides, cap rules.
  \<^item> \<^verbatim>\<open>PoolMetrics\<close>, \<^verbatim>\<open>Connid\<close>: \<^verbatim>\<open>mongo/pool_metrics.go\<close>, \<^verbatim>\<open>mongo/connid.go\<close>.  Every gauge equals what the live pools say.
  \<^item> \<^verbatim>\<open>SemconvKeys\<close>, \<^verbatim>\<open>Baggage\<close>: \<^verbatim>\<open>internal/baggageattrs\<close>.  Key validation, wire limits, the span processor.
  \<^item> \<^verbatim>\<open>Log\<close>: the \<^verbatim>\<open>slog\<close> handlers of \<^verbatim>\<open>internal/log\<close>.
  \<^item> \<^verbatim>\<open>ExportStats\<close>: \<^verbatim>\<open>internal/exportstats\<close> (locale \<^verbatim>\<open>counting_exporter\<close>, 64-bit counters).
  \<^item> \<^verbatim>\<open>CassandraCql\<close>, \<^verbatim>\<open>Cassandra\<close>: the package \<^verbatim>\<open>cassandra\<close>.
  \<^item> \<^verbatim>\<open>RedisHook\<close>, \<^verbatim>\<open>RedisClient\<close>: the package \<^verbatim>\<open>redis\<close>.  The hooks and what they may show; the pool name allocator and the
    registry of wrapped clients, as a step relation with garbage collection and reuse of addresses.
  \<^item> \<^verbatim>\<open>Resty\<close>: the package \<^verbatim>\<open>resty\<close>.  Callbacks in any order on a heap of requests; every credential of a request is hidden.
  \<^item> \<^verbatim>\<open>Elasticsearch\<close>: the package \<^verbatim>\<open>elasticsearch\<close>.  The callbacks of a request in any number and order; span, measurement and outcome agree.
  \<^item> \<^verbatim>\<open>Minio\<close>: the package \<^verbatim>\<open>minio\<close>.  The logical operations, and the goroutine of a listing as a step relation: what it reports, and that it ends.
  \<^item> \<^verbatim>\<open>MongoClient\<close>: \<^verbatim>\<open>mongo/client.go\<close>.  Monitors compose with the application's; default pool names differ.
  \<^item> \<^verbatim>\<open>Nats\<close>: the package \<^verbatim>\<open>nats\<close>.  Requests and their timeouts, baggage, the JetStream wrappers, and the goroutine that forwards a fetched batch:
    in order, and without a leak.
  \<^item> \<^verbatim>\<open>Web\<close>: the packages \<^verbatim>\<open>gin\<close>, \<^verbatim>\<open>http\<close> and \<^verbatim>\<open>obsctx\<close>.  The gin chain against its contract with \<^verbatim>\<open>otelgin\<close>, the classification of errors as a round trip,
    detached work.
  \<^item> \<^verbatim>\<open>LogrSink\<close>: \<^verbatim>\<open>internal/log/logr.go\<close>.  Values of any shape, cyclic ones too, are resolved and redacted; the locale
    \<^verbatim>\<open>limited_logger\<close> gives the rate limit.
  \<^item> \<^verbatim>\<open>RedactText\<close>, \<^verbatim>\<open>RedactUrl\<close>, \<^verbatim>\<open>RedactWire\<close>, \<^verbatim>\<open>RedactError\<close>: \<^verbatim>\<open>internal/redact/redact.go\<close>.  No secret survives,
    however deeply the text escapes it.
  \<^item> \<^verbatim>\<open>Options\<close>, \<^verbatim>\<open>Endpoint\<close>, \<^verbatim>\<open>Diagnostics\<close>: \<^verbatim>\<open>options.go\<close>, \<^verbatim>\<open>endpoint.go\<close>, \<^verbatim>\<open>diagnostics.go\<close>.  One definition per option
    and per check; the configuration invariant; the precedence of endpoints; the handler that never leaks.
  \<^item> \<^verbatim>\<open>Lifecycle\<close>, \<^verbatim>\<open>Profiling\<close>, \<^verbatim>\<open>SdkInit\<close>: \<^verbatim>\<open>o11y.go\<close>, \<^verbatim>\<open>internal/profiling\<close>, \<^verbatim>\<open>internal/trace\<close>, \<^verbatim>\<open>internal/log/provider.go\<close> and
    the start of the meter.  Shutdown and flush are modelled twice: their bodies as functions, and their atomic sections as an
    inductive step relation whose invariants hold in every reachable state.
  \<^item> \<^verbatim>\<open>Facade\<close>: the OTLP exporter chain (\<^verbatim>\<open>resourceexporter.go\<close>, \<^verbatim>\<open>initOTLP\<close>) that composes the resource guard, the limiter of \<^verbatim>\<open>Metricscap\<close> under the rules of
    \<^verbatim>\<open>Views\<close>, and the counter of \<^verbatim>\<open>ExportStats\<close>, over the life of a process; the logger \<^verbatim>\<open>Init\<close> stacks; the resource of a stand-alone meter provider; \<^verbatim>\<open>attributes.go\<close>, the packages'
    \<^verbatim>\<open>views.go\<close>, \<^verbatim>\<open>http/options.go\<close>, the batch calls of \<^verbatim>\<open>cassandra/batch.go\<close>.
  \<^item> \<^verbatim>\<open>CredGate\<close>, \<^verbatim>\<open>PolicyGates\<close>: the gates of the build, \<^verbatim>\<open>scripts/check_credential_directives.go\<close>, \<^verbatim>\<open>check_integrations.go\<close> and
    \<^verbatim>\<open>check_semconv_literals.go\<close>, and the generator of the reserved-key catalog.  Each gate passes exactly when what it promises holds of
    every file of the walk; the catalog's keys are keys the literal gate looks for.

  \<^bold>\<open>Modelling.\<close>  Structs are records, Go maps association lists with distinct keys whose order is the order a range
  visits; theorems that depend on no order hold for all of them.  Errors are values of a sum or option type, or the
  text of their message where it is built from constants.  Mutexes are modelled by the atomicity of a step.  Durations
  are nanoseconds; the subtraction of two instants saturates as in Go.  Code that is not in the repository is a
  parameter: \<^verbatim>\<open>net/url\<close>, \<^verbatim>\<open>html.UnescapeString\<close>, \<^verbatim>\<open>strconv.Quote\<close>, \<^verbatim>\<open>json.Marshal\<close>, the Unicode tables beyond ASCII, the W3C
  baggage package, the OpenTelemetry, Prometheus and Pyroscope packages and the database drivers.

  \<^bold>\<open>Bounds.\<close>  All functions are total.  Loops that are not structural are \<^theory_text>\<open>function\<close>s with a measure; the only fuel is
  the code's own (8 decoding passes, 2 rendering rounds, 1024 visits of an error chain, 32 levels of a logged value) and the rounds
  of the two \<^verbatim>\<open>Wrap\<close> loops, of which two are proved to be enough when nothing interferes.

  \<^bold>\<open>Not modelled.\<close>  Starting servers and readers beyond whether a call fails, real time, the scheduling of goroutines
  inside third-party packages, the compiler of regular expressions, Go's parser, printer and type checker (the gates get their results), getters and the
  interface types of the integrations, the examples, and test helpers.
\<close>

section \<open>The labels of the integrations and the views of the meter\<close>

text \<open>A list of views keeps every label of a measurement: one of them is for its instrument and scope, and allows all its keys.\<close>

definition keeps_labels :: "'f view_spec list \<Rightarrow> string \<Rightarrow> string \<Rightarrow> key_value list \<Rightarrow> bool" where
  "keeps_labels vs scope name labels \<longleftrightarrow> (\<exists>v \<in> set vs. inst_name (crit v) = name \<and> inst_scope (crit v) = scope \<and>
     (\<forall>allowed. mask_allow v = Some allowed \<longrightarrow> set (keys labels) \<subseteq> set allowed))"

definition integration_keys :: "string list" where
  "integration_keys = [''db.system.name'', ''db.operation.name'', ''db.namespace'', ''db.collection.name'', ''server.address'', ''server.port'', ''error.type'',
     ''db.response.status_code'', ''object_store.operation.name'', ''object_store.bucket.name'']"

lemma integration_keys_free: "list_all (\<lambda>k. \<not> IsReservedAttributeKey k) integration_keys"
  by code_simp

lemma keeps_labelsI:
  assumes "subseq (keys labels) allowed" "v \<in> set vs" "inst_name (crit v) = name" "inst_scope (crit v) = scope" "mask_allow v = Some allowed"
  shows "keeps_labels vs scope name labels"
  unfolding keeps_labels_def using assms(2-5) subseq_subset[OF assms(1)] by (intro bexI[of _ v]) simp_all

lemma free_labels: "set (keys labels) \<subseteq> set integration_keys \<Longrightarrow> list_all (\<lambda>l. notReserved l) labels"
  using integration_keys_free by (auto simp: list_all_iff notReserved_def)


end
